(* ===== verification/Krabi_Prelude.thy ===== *)
theory Krabi_Prelude
  imports Main "HOL-Library.Word" "HOL-Library.Code_Target_Nat"
begin

text \<open>
  Shared vocabulary of the development.

  \<^item> Byte strings are lists of 8-bit words; a Rust slice \<^verbatim>\<open>&buf[a..b]\<close> is
    \<^verbatim>\<open>sub_range a b buf\<close>, the checked \<^verbatim>\<open>buf.get(a..b)\<close> is \<^verbatim>\<open>get_range a b buf\<close>, and
    \<^verbatim>\<open>copy_from_slice\<close> at an offset is \<^verbatim>\<open>put_at\<close>.
  \<^item> \<^verbatim>\<open>Result<T, E>\<close> is the sum \<^verbatim>\<open>E + T\<close> (the error on the left), and the
    question-mark operator is \<^verbatim>\<open>rbind\<close>.
  \<^item> \<^verbatim>\<open>to_be_bytes\<close> and \<^verbatim>\<open>from_be_bytes\<close> of the Rust integer types are defined over
    the radix-256 functions \<^verbatim>\<open>be_bytes\<close> and \<^verbatim>\<open>be_val\<close> on naturals.

  The collections \<^verbatim>\<open>codec\<close> (round trips and lengths of encoders), \<^verbatim>\<open>result_simps\<close>
  (inversion of the result monad) and \<^verbatim>\<open>inv_intros\<close> (preservation of the component
  invariants) carry the proofs of the components.
\<close>

unbundle bit_operations_syntax

named_theorems codec
named_theorems result_simps
named_theorems inv_intros

type_synonym byte = "8 word"
type_synonym bytes = "8 word list"

section \<open>Results\<close>

definition rbind :: "'e + 'a \<Rightarrow> ('a \<Rightarrow> 'e + 'b) \<Rightarrow> 'e + 'b" where
  "rbind m f = (case m of Inl e \<Rightarrow> Inl e | Inr x \<Rightarrow> f x)"

definition map_err :: "('e \<Rightarrow> 'f) \<Rightarrow> 'e + 'a \<Rightarrow> 'f + 'a" where
  "map_err g m = (case m of Inl e \<Rightarrow> Inl (g e) | Inr x \<Rightarrow> Inr x)"

definition ok_or :: "'e \<Rightarrow> 'a option \<Rightarrow> 'e + 'a" where
  "ok_or e m = (case m of None \<Rightarrow> Inl e | Some x \<Rightarrow> Inr x)"

definition is_ok :: "'e + 'a \<Rightarrow> bool" where
  "is_ok m = (case m of Inl e \<Rightarrow> False | Inr x \<Rightarrow> True)"

lemma rbind_simps [simp]:
  "rbind (Inl e) f = Inl e"
  "rbind (Inr x) f = f x"
  by (simp_all add: rbind_def)

lemma map_err_simps [simp]:
  "map_err g (Inl e) = Inl (g e)"
  "map_err g (Inr x) = Inr x"
  by (simp_all add: map_err_def)

lemma ok_or_simps [simp]:
  "ok_or e None = Inl e"
  "ok_or e (Some x) = Inr x"
  by (simp_all add: ok_or_def)

lemma is_ok_simps [simp]:
  "is_ok (Inl e) = False"
  "is_ok (Inr x) = True"
  by (simp_all add: is_ok_def)

lemma is_ok_iff: "is_ok m \<longleftrightarrow> (\<exists>x. m = Inr x)"
  by (cases m) auto

lemma rbind_eq_Inr [result_simps]:
  "rbind m f = Inr y \<longleftrightarrow> (\<exists>x. m = Inr x \<and> f x = Inr y)"
  by (cases m) auto

lemma rbind_eq_Inl [result_simps]:
  "rbind m f = Inl e \<longleftrightarrow> m = Inl e \<or> (\<exists>x. m = Inr x \<and> f x = Inl e)"
  by (cases m) auto

lemma map_err_eq_Inr [result_simps]: "map_err g m = Inr y \<longleftrightarrow> m = Inr y"
  by (cases m) auto

lemma map_err_eq_Inl [result_simps]:
  "map_err g m = Inl e \<longleftrightarrow> (\<exists>d. m = Inl d \<and> e = g d)"
  by (cases m) auto

lemma ok_or_eq_Inr [result_simps]: "ok_or e m = Inr y \<longleftrightarrow> m = Some y"
  by (cases m) auto

lemma ok_or_eq_Inl [result_simps]: "ok_or e m = Inl d \<longleftrightarrow> m = None \<and> d = e"
  by (cases m) auto

lemma if_Inl_eq_Inr [result_simps]:
  "(if c then Inl e else m) = Inr y \<longleftrightarrow> \<not> c \<and> m = Inr y"
  by auto

lemma rbind_cong [fundef_cong]:
  "m = m' \<Longrightarrow> (\<And>x. m' = Inr x \<Longrightarrow> f x = f' x) \<Longrightarrow> rbind m f = rbind m' f'"
  by (cases m') auto

section \<open>Slices\<close>

definition sub_range :: "nat \<Rightarrow> nat \<Rightarrow> 'a list \<Rightarrow> 'a list" where
  "sub_range a b xs = take (b - a) (drop a xs)"

definition get_range :: "nat \<Rightarrow> nat \<Rightarrow> 'a list \<Rightarrow> 'a list option" where
  "get_range a b xs = (if a \<le> b \<and> b \<le> length xs then Some (sub_range a b xs) else None)"

definition get_at :: "nat \<Rightarrow> 'a list \<Rightarrow> 'a option" where
  "get_at i xs = (if i < length xs then Some (xs ! i) else None)"

definition put_at :: "nat \<Rightarrow> 'a list \<Rightarrow> 'a list \<Rightarrow> 'a list" where
  "put_at p bs xs = take p xs @ bs @ drop (p + length bs) xs"

lemma length_sub_range [simp]:
  "length (sub_range a b xs) = min (b - a) (length xs - a)"
  by (simp add: sub_range_def)

lemma get_range_eq_Some [result_simps]:
  "get_range a b xs = Some ys \<longleftrightarrow> a \<le> b \<and> b \<le> length xs \<and> ys = sub_range a b xs"
  by (auto simp: get_range_def)

lemma get_range_eq_None [result_simps]:
  "get_range a b xs = None \<longleftrightarrow> \<not> (a \<le> b \<and> b \<le> length xs)"
  by (auto simp: get_range_def)

lemma get_at_eq_Some [result_simps]:
  "get_at i xs = Some y \<longleftrightarrow> i < length xs \<and> y = xs ! i"
  by (auto simp: get_at_def)

lemma sub_range_0 [simp]: "sub_range 0 b xs = take b xs"
  by (simp add: sub_range_def)

lemma sub_range_all [simp]: "b \<ge> length xs \<Longrightarrow> sub_range a b xs = drop a xs"
  by (simp add: sub_range_def)

lemma sub_range_nth [simp]:
  "i < b - a \<Longrightarrow> a + i < length xs \<Longrightarrow> sub_range a b xs ! i = xs ! (a + i)"
  by (simp add: sub_range_def)

lemma sub_range_append_left [simp]:
  "b \<le> length xs \<Longrightarrow> sub_range a b (xs @ ys) = sub_range a b xs"
  by (cases "a \<le> length xs") (simp_all add: sub_range_def)

lemma sub_range_append_right [simp]:
  "length xs \<le> a \<Longrightarrow> sub_range a b (xs @ ys) = sub_range (a - length xs) (b - length xs) ys"
  by (simp add: sub_range_def)

lemma sub_range_Cons [simp]:
  "0 < a \<Longrightarrow> sub_range a b (x # xs) = sub_range (a - 1) (b - 1) xs"
  by (cases a; cases b) (simp_all add: sub_range_def)

lemma sub_range_exact [simp]: "length xs = b - a \<Longrightarrow> a = 0 \<Longrightarrow> sub_range a b (xs @ ys) = xs"
  by (simp add: sub_range_def)

lemma list_of_length_2: "length xs = 2 \<Longrightarrow> [xs ! 0, xs ! Suc 0] = xs"
  by (auto simp: length_Suc_conv numeral_eq_Suc)

lemma list_of_length_3: "length xs = 3 \<Longrightarrow> [xs ! 0, xs ! Suc 0, xs ! 2] = xs"
  by (auto simp: length_Suc_conv numeral_eq_Suc)

lemma drop_plus: "drop (m + n) xs = drop n (drop m xs)"
  by (simp add: add.commute)

lemma sub_range_split: "a \<le> b \<Longrightarrow> b \<le> c \<Longrightarrow> sub_range a b xs @ sub_range b c xs = sub_range a c xs"
proof -
  assume "a \<le> b" "b \<le> c"
  then have "drop b xs = drop (b - a) (drop a xs)" by simp
  moreover have "c - a = (b - a) + (c - b)" using \<open>a \<le> b\<close> \<open>b \<le> c\<close> by simp
  ultimately show ?thesis unfolding sub_range_def by (simp only: take_add)
qed

lemma length_put_at [simp]:
  "p + length bs \<le> length xs \<Longrightarrow> length (put_at p bs xs) = length xs"
  by (simp add: put_at_def)

lemma put_at_nth:
  assumes "p + length bs \<le> length xs" "i < length xs"
  shows "put_at p bs xs ! i = (if p \<le> i \<and> i < p + length bs then bs ! (i - p) else xs ! i)"
  using assms by (auto simp: put_at_def nth_append min_def)

lemma length_filter_strict:
  assumes "\<And>y. y \<in> set xs \<Longrightarrow> Q y \<Longrightarrow> P y" "x \<in> set xs" "P x" "\<not> Q x"
  shows "length (filter Q xs) < length (filter P xs)"
proof -
  have "filter Q xs = filter Q (filter P xs)" using assms(1) by (auto intro: filter_cong)
  also have "length \<dots> < length (filter P xs)"
    by (rule length_filter_less [of x]) (use assms in auto)
  finally show ?thesis .
qed

section \<open>Big-endian numbers\<close>

fun be_bytes :: "nat \<Rightarrow> nat \<Rightarrow> bytes" where
  "be_bytes 0 v = []"
| "be_bytes (Suc n) v = be_bytes n (v div 256) @ [word_of_nat v]"

definition be_val :: "bytes \<Rightarrow> nat" where
  "be_val bs = foldl (\<lambda>acc b. acc * 256 + unat b) 0 bs"

definition to_be_bytes :: "'a::len word \<Rightarrow> bytes" where
  "to_be_bytes w = be_bytes (LENGTH('a) div 8) (unat w)"

definition from_be_bytes :: "bytes \<Rightarrow> 'a::len word" where
  "from_be_bytes bs = word_of_nat (be_val bs)"

lemma length_be_bytes [simp]: "length (be_bytes n v) = n"
  by (induction n v rule: be_bytes.induct) simp_all

lemma be_val_Nil [simp]: "be_val [] = 0"
  by (simp add: be_val_def)

lemma be_val_snoc [simp]: "be_val (bs @ [b]) = be_val bs * 256 + unat b"
  by (simp add: be_val_def)

lemma foldl_be_shift:
  "foldl (\<lambda>acc b. acc * 256 + unat b) a bs = a * 256 ^ length bs + foldl (\<lambda>acc b. acc * 256 + unat b) 0 (bs :: bytes)"
  by (induction bs rule: rev_induct) (simp_all add: algebra_simps)

lemma be_val_append: "be_val (as @ bs) = be_val as * 256 ^ length bs + be_val bs"
  unfolding be_val_def foldl_append by (rule foldl_be_shift)

lemma be_val_Cons [simp]: "be_val (b # bs) = unat b * 256 ^ length bs + be_val bs"
  using be_val_append [of "[b]" bs] by (simp add: be_val_def)

lemma unat_byte_less [simp]: "unat (b :: byte) < 256"
  using unsigned_less [of b] by simp

lemma be_val_less: "be_val bs < 256 ^ length bs"
proof (induction bs rule: rev_induct)
  case Nil
  then show ?case by simp
next
  case (snoc b bs)
  have "be_val bs * 256 + unat b < be_val bs * 256 + 256" using unat_byte_less [of b] by simp
  also have "\<dots> = (be_val bs + 1) * 256" by (simp add: algebra_simps)
  also have "\<dots> \<le> 256 ^ length bs * 256" using snoc.IH by (simp only: mult_le_mono1 Suc_leI Suc_eq_plus1 [symmetric])
  finally show ?case by simp
qed

lemma unat_of_nat_byte: "unat (word_of_nat v :: byte) = v mod 256"
  by (simp add: unat_of_nat)

lemma be_val_be_bytes [codec]: "be_val (be_bytes n v) = v mod 256 ^ n"
proof (induction n v rule: be_bytes.induct)
  case (1 v)
  then show ?case by simp
next
  case (2 n v)
  have "v mod 256 ^ Suc n = (v div 256) mod 256 ^ n * 256 + v mod 256"
    using mod_mult2_eq [of v 256 "256 ^ n"] by (simp add: algebra_simps)
  with 2 show ?case by (simp add: unat_of_nat_byte)
qed

lemma be_bytes_be_val [codec]: "be_bytes (length bs) (be_val bs) = bs"
proof (induction bs rule: rev_induct)
  case Nil
  then show ?case by simp
next
  case (snoc b bs)
  have "(be_val bs * 256 + unat b) div 256 = be_val bs" using unat_byte_less [of b] by simp
  moreover have "(word_of_nat (be_val bs * 256 + unat b) :: byte) = b"
  proof -
    have "unat (word_of_nat (be_val bs * 256 + unat b) :: byte) = unat b"
      unfolding unat_of_nat_byte by simp
    then show ?thesis by (rule word_unat_eq_iff [THEN iffD2])
  qed
  ultimately show ?case using snoc.IH by simp
qed

lemma be_bytes_numeral:
  "be_bytes (numeral k) v = be_bytes (pred_numeral k) (v div 256) @ [word_of_nat v]"
  unfolding numeral_eq_Suc [of k] by (rule be_bytes.simps(2))

lemma drop_be_bytes: "m \<le> n \<Longrightarrow> drop m (be_bytes n v) = be_bytes (n - m) v"
proof (induction n v rule: be_bytes.induct)
  case (1 v)
  then show ?case by simp
next
  case (2 n v)
  then show ?case by (cases "m = Suc n") (simp_all add: Suc_diff_le)
qed

lemma shift_or_byte: "push_bit 8 v OR ucast (b :: byte) = v * 256 + ucast b" for v :: "'a::len word"
proof -
  have "push_bit 8 v AND ucast b = 0"
    by (intro bit_word_eqI) (auto simp: bit_simps dest: bit_imp_le_length)
  then have "push_bit 8 v + ucast b = push_bit 8 v OR ucast b"
    by (rule disjunctive_add_eq_or)
  then show ?thesis by (simp add: push_bit_eq_mult)
qed

lemma foldl_shift_or:
  "foldl (\<lambda>v byte. push_bit 8 v OR ucast byte) 0 bs = (word_of_nat (be_val bs) :: 'a::len word)"
  by (induction bs rule: rev_induct) (simp_all add: shift_or_byte)

lemma from_be_bytes_be_bytes:
  "(256 :: nat) ^ n \<le> 2 ^ LENGTH('a) \<Longrightarrow>
   from_be_bytes (be_bytes n v) = (word_of_nat (v mod 256 ^ n) :: 'a::len word)"
  by (simp add: from_be_bytes_def be_val_be_bytes)

lemma be_bytes_inject: "v < 256 ^ n \<Longrightarrow> w < 256 ^ n \<Longrightarrow> be_bytes n v = be_bytes n w \<longleftrightarrow> v = w"
  by (metis be_val_be_bytes mod_less)

lemma length_to_be_bytes [simp]: "length (to_be_bytes (w :: 'a::len word)) = LENGTH('a) div 8"
  by (simp add: to_be_bytes_def)

lemma be_val_to_be_bytes [codec]:
  assumes "8 dvd LENGTH('a)"
  shows "be_val (to_be_bytes (w :: 'a::len word)) = unat w"
proof -
  have "(256 :: nat) ^ (LENGTH('a) div 8) = 2 ^ LENGTH('a)"
    using assms power_mult [of "2::nat" 8 "LENGTH('a) div 8"] by simp
  then show ?thesis using unsigned_less [of w] by (simp add: to_be_bytes_def be_val_be_bytes)
qed

lemma from_to_be_bytes [codec]:
  "8 dvd LENGTH('a) \<Longrightarrow> from_be_bytes (to_be_bytes (w :: 'a::len word)) = w"
  by (simp add: from_be_bytes_def be_val_to_be_bytes)

lemma unat_from_be_bytes:
  "(256 :: nat) ^ length bs \<le> 2 ^ LENGTH('a) \<Longrightarrow> unat (from_be_bytes bs :: 'a::len word) = be_val bs"
  using be_val_less [of bs] by (simp add: from_be_bytes_def unat_of_nat)

lemma to_from_be_bytes [codec]:
  assumes "8 * length bs = LENGTH('a)"
  shows "to_be_bytes (from_be_bytes bs :: 'a::len word) = bs"
proof -
  have "(256 :: nat) ^ length bs = 2 ^ LENGTH('a)"
    using power_mult [of "2::nat" 8 "length bs"] assms by simp
  then have "unat (from_be_bytes bs :: 'a word) = be_val bs" by (simp add: unat_from_be_bytes)
  moreover have "LENGTH('a) div 8 = length bs" using assms by linarith
  ultimately show ?thesis by (simp add: to_be_bytes_def be_bytes_be_val)
qed

lemma to_be_bytes_inject: "8 dvd LENGTH('a) \<Longrightarrow> to_be_bytes (v :: 'a::len word) = to_be_bytes w \<longleftrightarrow> v = w"
  by (metis from_to_be_bytes)

section \<open>Two- and three-byte fields\<close>

lemma drop_sub_range: "a \<le> b \<Longrightarrow> drop a xs = sub_range a b xs @ drop b xs"
  by (metis append_take_drop_id drop_drop le_add_diff_inverse2 sub_range_def)

lemma length_one: "length xs = Suc 0 \<longleftrightarrow> (\<exists>x. xs = [x])"
  by (simp add: length_Suc_conv)

lemma length_two: "length xs = 2 \<longleftrightarrow> (\<exists>x y. xs = [x, y])"
  by (auto simp: length_Suc_conv numeral_eq_Suc)

lemma length_three: "length xs = 3 \<longleftrightarrow> (\<exists>x y z. xs = [x, y, z])"
  by (auto simp: length_Suc_conv numeral_eq_Suc)

lemma unat_u24: "unat (from_be_bytes [0, a, b, c] :: 32 word) = be_val [a, b, c]"
  by (subst unat_from_be_bytes) simp_all

lemma be_bytes_u24: "be_bytes 3 (be_val [a, b, c]) = [a, b, c]"
  using be_bytes_be_val [of "[a, b, c]"] by (simp del: be_val_Cons add: numeral_3_eq_3)

lemma be_val_u24: "be_val [a, b, c] < 2 ^ 24"
  using be_val_less [of "[a, b, c]"] by (simp del: be_val_Cons)

lemma unat_u16: "unat (from_be_bytes [a, b] :: 16 word) = be_val [a, b]"
  by (subst unat_from_be_bytes) simp_all

lemma be_bytes_u16: "be_bytes 2 (be_val [a, b]) = [a, b]"
  using be_bytes_be_val [of "[a, b]"] by (simp del: be_val_Cons add: numeral_2_eq_2)

lemma u24_of_be_bytes:
  assumes "n < 2 ^ 24" "be_bytes 3 n = [a, b, c]"
  shows "unat (from_be_bytes [0, a, b, c] :: 32 word) = n"
  using be_val_be_bytes [of 3 n] assms by (simp add: unat_u24 del: be_val_Cons)

lemma u16_of_be_bytes:
  assumes "n < 2 ^ 16" "be_bytes 2 n = [a, b]"
  shows "unat (from_be_bytes [a, b] :: 16 word) = n"
  using be_val_be_bytes [of 2 n] assms by (simp add: unat_u16 del: be_val_Cons)

lemma be_bytes_3_list: "\<exists>a b c. be_bytes 3 n = [a, b, c]"
  by (rule length_three [THEN iffD1]) simp

lemma be_bytes_2_list: "\<exists>a b. be_bytes 2 n = [a, b]"
  by (rule length_two [THEN iffD1]) simp

lemma to_be_bytes_16: "to_be_bytes (w :: 16 word) = be_bytes 2 (unat w)"
  by (simp add: to_be_bytes_def)

lemma byte_high_bit: "(b :: byte) AND 0x80 = 0 \<longleftrightarrow> b < 0x80"
proof -
  have "b AND 0x80 = 0 \<longleftrightarrow> \<not> bit b 7"
    using and_exp_eq_0_iff_not_bit [of b 7] by simp
  also have "\<dots> \<longleftrightarrow> unat b < 128"
  proof -
    have "bit b 7 \<longleftrightarrow> bit (unat b) 7" by (simp add: bit_unsigned_iff)
    then have "bit b 7 \<longleftrightarrow> odd (unat b div 128)" by (simp add: bit_iff_odd)
    moreover have "unat b div 128 < 2" by (rule less_mult_imp_div_less) simp
    then have "odd (unat b div 128) \<longleftrightarrow> unat b div 128 \<noteq> 0" by (auto simp: less_2_cases_iff)
    ultimately show ?thesis by (simp add: div_eq_0_iff)
  qed
  finally show ?thesis by (simp add: word_less_nat_alt)
qed

lemma unat_word_of_nat_byte: "n < 256 \<Longrightarrow> unat (word_of_nat n :: byte) = n"
  by (simp add: unat_of_nat_byte)

lemma unat_and_mask7: "unat ((b :: byte) AND 0x7F) = unat b mod 128"
proof -
  have "b AND 0x7F = take_bit 7 b"
    using take_bit_eq_mask [of 7 b] by (simp add: mask_eq_exp_minus_1)
  then show ?thesis by (simp only: unsigned_take_bit_eq) (simp add: take_bit_eq_mod)
qed

lemma be_bytes_mod: "k \<le> m \<Longrightarrow> be_bytes k (n mod 256 ^ m) = be_bytes k n"
  using be_bytes_be_val [of "be_bytes k n"] be_bytes_be_val [of "be_bytes k (n mod 256 ^ m)"]
  by (simp add: be_val_be_bytes mod_mod_cancel le_imp_power_dvd)

lemma to_be_bytes_of_nat_16: "to_be_bytes (word_of_nat n :: 16 word) = be_bytes 2 n"
  using be_bytes_mod [of 2 2 n] by (simp add: to_be_bytes_16 unat_of_nat)

lemma to_be_bytes_of_nat_24: "drop 1 (to_be_bytes (word_of_nat n :: 32 word)) = be_bytes 3 n"
  using be_bytes_mod [of 3 4 n] by (simp add: to_be_bytes_def drop_be_bytes unat_of_nat)

section \<open>Results with state\<close>

text \<open>An operation that changes a state - a transport, a random number generator - returns the state also with
  an error; \<^verbatim>\<open>tbind\<close> is the question-mark operator of such operations.\<close>

definition tbind :: "('t \<Rightarrow> 't \<times> ('e + 'a)) \<Rightarrow> ('a \<Rightarrow> 't \<Rightarrow> 't \<times> ('e + 'b)) \<Rightarrow> 't \<Rightarrow> 't \<times> ('e + 'b)" where
  "tbind m f t = (case m t of (t, Inl e) \<Rightarrow> (t, Inl e) | (t, Inr x) \<Rightarrow> f x t)"

definition tlift :: "'e + 'a \<Rightarrow> 't \<Rightarrow> 't \<times> ('e + 'a)" where
  "tlift r t = (t, r)"

lemma tbind_Inr: "tbind m f t = (t', Inr y) \<longleftrightarrow> (\<exists>t1 x. m t = (t1, Inr x) \<and> f x t1 = (t', Inr y))"
  by (auto simp: tbind_def split: prod.split sum.split)

lemma tlift_Inr: "tlift r t = (t', Inr y) \<longleftrightarrow> t' = t \<and> r = Inr y"
  by (auto simp: tlift_def)

section \<open>Loops\<close>

text \<open>A Rust \<^verbatim>\<open>loop\<close> whose body returns an error, breaks with a value or goes round again; it may not end, and
  then its value is \<^verbatim>\<open>None\<close>.\<close>

partial_function (option) run_loop ::
  "('s \<Rightarrow> ('s \<times> ('e + 'a option)) option) \<Rightarrow> 's \<Rightarrow> ('s \<times> ('e + 'a)) option" where
  "run_loop body s = Option.bind (body s) (\<lambda>(s, r).
     case r of Inl e \<Rightarrow> Some (s, Inl e) | Inr (Some x) \<Rightarrow> Some (s, Inr x) | Inr None \<Rightarrow> run_loop body s)"

declare run_loop.simps [code]

text \<open>What a round may do for a postcondition \<^verbatim>\<open>Q\<close> to hold at the end: stop in it, or go on in \<^verbatim>\<open>P\<close>.\<close>

fun round_ok :: "('s \<Rightarrow> bool) \<Rightarrow> ('s \<Rightarrow> 'e + 'a \<Rightarrow> bool) \<Rightarrow> 's \<times> ('e + 'a option) \<Rightarrow> bool" where
  "round_ok P Q (s, Inl e) = Q s (Inl e)"
| "round_ok P Q (s, Inr (Some x)) = Q s (Inr x)"
| "round_ok P Q (s, Inr None) = P s"

lemma run_loop_round:
  "body s = Some (s1, Inl e) \<Longrightarrow> run_loop body s = Some (s1, Inl e)"
  "body s = Some (s1, Inr (Some x)) \<Longrightarrow> run_loop body s = Some (s1, Inr x)"
  "body s = Some (s1, Inr None) \<Longrightarrow> run_loop body s = run_loop body s1"
  by (subst run_loop.simps, simp)+

lemma run_loop_total:
  fixes m :: "'s \<Rightarrow> 'm" and s :: 's and Q :: "'s \<Rightarrow> 'e + 'a \<Rightarrow> bool"
  assumes "wf R" and "I s"
    and round: "\<And>s. I s \<Longrightarrow> \<exists>s1 r. body s = Some (s1, r) \<and> round_ok (\<lambda>s'. I s' \<and> (m s', m s) \<in> R) Q (s1, r)"
  shows "\<exists>s' r. run_loop body s = Some (s', r) \<and> Q s' r"
proof -
  have "wf (inv_image R m)" by (rule wf_inv_image [OF assms(1)])
  then have "I s \<longrightarrow> (\<exists>s' r. run_loop body s = Some (s', r) \<and> Q s' r)"
  proof (induction s rule: wf_induct_rule)
    case (less s)
    show ?case
    proof (rule impI)
      assume "I s"
      then obtain s1 r where p: "body s = Some (s1, r)" and ok: "round_ok (\<lambda>s'. I s' \<and> (m s', m s) \<in> R) Q (s1, r)"
        using round by blast
      consider e where "r = Inl e" | x where "r = Inr (Some x)" | "r = Inr None" by (metis option.exhaust sum.exhaust)
      then show "\<exists>s' r. run_loop body s = Some (s', r) \<and> Q s' r"
      proof cases
        case 3
        then have "I s1" "(s1, s) \<in> inv_image R m" using ok by (simp_all add: inv_image_def)
        then show ?thesis using less run_loop_round(3) [of body s s1] p 3 by simp
      qed (use p ok run_loop_round(1,2) [of body s s1] in auto)
    qed
  qed
  then show ?thesis using assms(2) by blast
qed

lemma run_loop_inv:
  fixes Q :: "'s \<Rightarrow> 'e + 'a \<Rightarrow> bool"
  assumes round: "\<And>s p. I s \<Longrightarrow> body s = Some p \<Longrightarrow> round_ok I Q p"
    and run: "run_loop body s = Some (s', r)" and "I s"
  shows "Q s' r"
proof -
  have "(\<forall>s p. I s \<longrightarrow> body s = Some p \<longrightarrow> round_ok I Q p) \<longrightarrow> I s \<longrightarrow> Q (fst y) (snd y)" if "run_loop body s = Some y" for body s y
  proof (rule run_loop.raw_induct [OF _ that], intro impI)
    fix loop and body :: "'s \<Rightarrow> ('s \<times> ('e + 'a option)) option" and s y
    assume IH: "\<And>body s y. loop body s = Some y \<Longrightarrow>
        (\<forall>s p. I s \<longrightarrow> body s = Some p \<longrightarrow> round_ok I Q p) \<longrightarrow> I s \<longrightarrow> Q (fst y) (snd y)"
      and run: "Option.bind (body s) (\<lambda>(s, r). case r of Inl e \<Rightarrow> Some (s, Inl e) | Inr (Some x) \<Rightarrow> Some (s, Inr x)
          | Inr None \<Rightarrow> loop body s) = Some y"
      and body: "\<forall>s p. I s \<longrightarrow> body s = Some p \<longrightarrow> round_ok I Q p" and s: "I s"
    obtain s1 r where p: "body s = Some (s1, r)" using run by (cases "body s") auto
    then have ok: "round_ok I Q (s1, r)" using body s by blast
    consider e where "r = Inl e" | x where "r = Inr (Some x)" | "r = Inr None" by (metis option.exhaust sum.exhaust)
    then show "Q (fst y) (snd y)"
    proof cases
      case 3
      then have "loop body s1 = Some y" "I s1" using run p ok by simp_all
      then show ?thesis using IH body by blast
    qed (use run p ok in auto)
  qed
  from this [OF run] round assms(3) show ?thesis by (simp only: fst_conv snd_conv) blast
qed

end
