(* ===== verification/Replay.thy ===== *)
theory Replay
  imports Krabi_Prelude
begin

text \<open>
  The per-epoch anti-replay window of \<^verbatim>\<open>dtls/replay.rs\<close>: a 64-entry sliding bitmap over
  64-bit record sequence numbers.  The locale \<^verbatim>\<open>anti_replay\<close> is what the receive path of
  the client relies on; the interpretation \<^verbatim>\<open>window\<close> discharges it for the bitmap.  The
  window is also shown to compute exactly the abstract decision \<^verbatim>\<open>spec_accepts\<close> over the
  set of sequence numbers marked so far.
\<close>

unbundle bit_operations_syntax

section \<open>The interface\<close>

text \<open>
  A receiver runs \<^verbatim>\<open>accepts\<close> before and \<^verbatim>\<open>mark\<close> after it opens a record; \<^verbatim>\<open>deliver_all\<close>
  collects the numbers it hands to the application.
\<close>

fun deliver_all :: "('w \<Rightarrow> 'q \<Rightarrow> bool) \<Rightarrow> ('w \<Rightarrow> 'q \<Rightarrow> 'w) \<Rightarrow> 'w \<Rightarrow> 'q list \<Rightarrow> 'q list" where
  "deliver_all acc mk w [] = []"
| "deliver_all acc mk w (q # qs) =
     (if acc w q then q # deliver_all acc mk (mk w q) qs else deliver_all acc mk w qs)"

locale anti_replay =
  fixes fresh :: "'w"
    and acc :: "'w \<Rightarrow> 'q \<Rightarrow> bool"
    and mk :: "'w \<Rightarrow> 'q \<Rightarrow> 'w"
  assumes fresh_accepts: "acc fresh q"
    and marked_rejected: "\<not> acc (mk w q) q"
    and rejected_stays: "\<not> acc w q \<Longrightarrow> \<not> acc (mk w r) q"
begin

lemma rejected_after_fold: "\<not> acc w q \<Longrightarrow> \<not> acc (fold (\<lambda>r v. mk v r) rs w) q"
  by (induction rs arbitrary: w) (simp_all add: rejected_stays)

lemma marked_never_again: "q \<in> set rs \<Longrightarrow> \<not> acc (fold (\<lambda>r v. mk v r) rs w) q"
proof (induction rs arbitrary: w)
  case Nil
  then show ?case by simp
next
  case (Cons r rs)
  then show ?case
    by (cases "q = r") (auto simp: rejected_after_fold marked_rejected)
qed

lemma rejected_not_delivered: "\<not> acc w q \<Longrightarrow> q \<notin> set (deliver_all acc mk w qs)"
  by (induction qs arbitrary: w) (auto simp: rejected_stays)

lemma deliver_distinct: "distinct (deliver_all acc mk w qs)"
  by (induction qs arbitrary: w) (auto simp: marked_rejected rejected_not_delivered)

lemma first_delivered: "qs \<noteq> [] \<Longrightarrow> hd qs \<in> set (deliver_all acc mk fresh qs)"
  by (cases qs) (simp_all add: fresh_accepts)

end

section \<open>The window\<close>

record ReplayWindow =
  rw_highest :: "64 word"
  rw_seen_any :: bool
  rw_bitmap :: "64 word"

definition WINDOW :: "64 word" where
  "WINDOW = 64"

definition ReplayWindow_new :: ReplayWindow where
  "ReplayWindow_new = \<lparr>rw_highest = 0, rw_seen_any = False, rw_bitmap = 0\<rparr>"

definition accepts :: "ReplayWindow \<Rightarrow> 64 word \<Rightarrow> bool" where
  "accepts w seq =
     (if \<not> rw_seen_any w \<or> seq > rw_highest w then True
      else
        let delta = rw_highest w - seq in
        if delta \<ge> WINDOW then False
        else rw_bitmap w AND push_bit (unat delta) 1 = 0)"

definition mark :: "ReplayWindow \<Rightarrow> 64 word \<Rightarrow> ReplayWindow" where
  "mark w seq =
     (if \<not> rw_seen_any w then
        w\<lparr>rw_seen_any := True, rw_highest := seq, rw_bitmap := 1\<rparr>
      else if seq > rw_highest w then
        let shift = seq - rw_highest w;
            bm = (if shift \<ge> WINDOW then 0 else push_bit (unat shift) (rw_bitmap w))
        in w\<lparr>rw_bitmap := bm OR 1, rw_highest := seq\<rparr>
      else
        let delta = rw_highest w - seq in
        if delta < WINDOW
        then w\<lparr>rw_bitmap := rw_bitmap w OR push_bit (unat delta) 1\<rparr>
        else w)"

definition mark_all :: "64 word list \<Rightarrow> ReplayWindow \<Rightarrow> ReplayWindow" where
  "mark_all seqs w = fold (\<lambda>s v. mark v s) seqs w"

text \<open>
  The abstract decision: with \<^verbatim>\<open>S\<close> the numbers marked so far, a number is acceptable
  when it is above all of them, or less than 64 below the largest and not one of them.
\<close>

definition spec_accepts :: "64 word set \<Rightarrow> 64 word \<Rightarrow> bool" where
  "spec_accepts S seq \<longleftrightarrow>
     S = {} \<or> seq > Max S \<or> (unat (Max S) - unat seq < 64 \<and> seq \<notin> S)"

definition window_rel :: "ReplayWindow \<Rightarrow> 64 word set \<Rightarrow> bool" where
  "window_rel w S \<longleftrightarrow>
     finite S \<and>
     (if S = {} then \<not> rw_seen_any w
      else rw_seen_any w \<and> rw_highest w = Max S \<and>
        (\<forall>s. s \<le> Max S \<longrightarrow> unat (Max S) - unat s < 64 \<longrightarrow>
           bit (rw_bitmap w) (unat (Max S) - unat s) = (s \<in> S)))"

section \<open>Refinement\<close>

lemma and_push_bit_1_eq_0: "w AND push_bit n 1 = 0 \<longleftrightarrow> \<not> bit w n" for w :: "64 word"
proof
  assume *: "w AND push_bit n 1 = 0"
  show "\<not> bit w n"
  proof
    assume "bit w n"
    moreover from this have "n < 64" using bit_imp_le_length [of w n] by simp
    ultimately have "bit (w AND push_bit n 1) n" by (simp add: bit_simps)
    with * show False by simp
  qed
next
  assume "\<not> bit w n"
  then show "w AND push_bit n 1 = 0" by (intro bit_word_eqI) (auto simp: bit_simps)
qed

lemmas and_exp_eq_0 = and_push_bit_1_eq_0 [unfolded push_bit_of_1]

lemma less_WINDOW: "d < WINDOW \<longleftrightarrow> unat d < 64"
  by (simp add: WINDOW_def word_less_nat_alt)

lemma WINDOW_le: "WINDOW \<le> d \<longleftrightarrow> 64 \<le> unat d"
  by (simp add: WINDOW_def word_le_nat_alt)

lemma accepts_bit:
  "accepts w seq \<longleftrightarrow>
     \<not> rw_seen_any w \<or> seq > rw_highest w \<or>
     (unat (rw_highest w) - unat seq < 64 \<and>
      \<not> bit (rw_bitmap w) (unat (rw_highest w) - unat seq))"
proof (cases "rw_seen_any w \<and> seq \<le> rw_highest w")
  case True
  then have "unat (rw_highest w - seq) = unat (rw_highest w) - unat seq" by (simp add: unat_sub)
  with True show ?thesis by (auto simp: accepts_def WINDOW_le and_exp_eq_0 Let_def)
next
  case False
  then show ?thesis by (auto simp: accepts_def)
qed

lemma window_rel_accepts: "window_rel w S \<Longrightarrow> accepts w seq = spec_accepts S seq"
  by (cases "S = {}"; cases "Max S < seq")
    (auto simp: window_rel_def accepts_bit spec_accepts_def not_less simp del: Max_less_iff)

lemma window_rel_new [inv_intros]: "window_rel ReplayWindow_new {}"
  by (simp add: window_rel_def ReplayWindow_new_def)

lemma mark_first: "\<not> rw_seen_any w \<Longrightarrow> window_rel (mark w seq) {seq}"
proof -
  assume "\<not> rw_seen_any w"
  moreover have "bit (1 :: 64 word) (unat seq - unat s) \<longleftrightarrow> s = seq" if "s \<le> seq" for s
    using that by (auto simp: bit_1_iff word_le_nat_alt word_unat_eq_iff)
  ultimately show ?thesis by (simp add: window_rel_def mark_def)
qed

lemma mark_above:
  assumes R: "window_rel w S" and ne: "S \<noteq> {}" and hi: "Max S < seq"
  shows "window_rel (mark w seq) (insert seq S)"
proof -
  from R ne have fin: "finite S" and seen: "rw_seen_any w" and top: "rw_highest w = Max S"
    and bits: "\<And>s. s \<le> Max S \<Longrightarrow> unat (Max S) - unat s < 64 \<Longrightarrow>
                bit (rw_bitmap w) (unat (Max S) - unat s) = (s \<in> S)"
    by (simp_all add: window_rel_def)
  have max: "Max (insert seq S) = seq"
    unfolding Max_insert [OF fin ne] using hi by (rule max_absorb1 [OF less_imp_le])
  have sh: "unat (seq - Max S) = unat seq - unat (Max S)" using hi by (simp add: unat_sub)
  have "bit (rw_bitmap (mark w seq)) (unat seq - unat s) = (s \<in> insert seq S)"
    if le: "s \<le> seq" and d: "unat seq - unat s < 64" for s
  proof (cases "s = seq")
    case True
    then show ?thesis using seen top hi by (simp add: mark_def Let_def bit_simps)
  next
    case ne_seq: False
    have lt: "unat s < unat seq" using le ne_seq by (simp add: word_le_nat_alt word_unat_eq_iff)
    show ?thesis
    proof (cases "s \<le> Max S")
      case True
      have d': "unat (Max S) - unat s < 64" using d hi by (simp add: word_less_nat_alt)
      have "unat seq - unat (Max S) < 64"
        using d True hi by (simp add: word_le_nat_alt word_less_nat_alt)
      moreover have "unat seq - unat s - (unat seq - unat (Max S)) = unat (Max S) - unat s"
        using True hi by (simp add: word_le_nat_alt word_less_nat_alt)
      moreover have "unat seq - unat (Max S) \<le> unat seq - unat s"
        using True by (simp add: word_le_nat_alt diff_le_mono2)
      ultimately show ?thesis
        using bits [OF True d'] seen top hi ne_seq lt d
        by (auto simp: mark_def Let_def sh WINDOW_le bit_simps)
    next
      case False
      then have "s \<notin> S" using fin by (auto dest: Max_ge)
      moreover have "unat seq - unat s < unat seq - unat (Max S)"
        using False lt by (simp add: word_le_nat_alt)
      ultimately show ?thesis
        using seen top hi ne_seq lt by (auto simp: mark_def Let_def sh WINDOW_le bit_simps)
    qed
  qed
  moreover have "rw_seen_any (mark w seq)" "rw_highest (mark w seq) = seq"
    using seen top hi by (simp_all add: mark_def Let_def)
  ultimately show ?thesis using fin max by (simp add: window_rel_def)
qed

lemma mark_below:
  assumes R: "window_rel w S" and ne: "S \<noteq> {}" and lo: "seq \<le> Max S"
  shows "window_rel (mark w seq) (insert seq S)"
proof -
  from R ne have fin: "finite S" and seen: "rw_seen_any w" and top: "rw_highest w = Max S"
    and bits: "\<And>s. s \<le> Max S \<Longrightarrow> unat (Max S) - unat s < 64 \<Longrightarrow>
                bit (rw_bitmap w) (unat (Max S) - unat s) = (s \<in> S)"
    by (simp_all add: window_rel_def)
  have max: "Max (insert seq S) = Max S"
    unfolding Max_insert [OF fin ne] using lo by (rule max_absorb2)
  have dl: "unat (Max S - seq) = unat (Max S) - unat seq" using lo by (simp add: unat_sub)
  have "bit (rw_bitmap (mark w seq)) (unat (Max S) - unat s) = (s \<in> insert seq S)"
    if le: "s \<le> Max S" and d: "unat (Max S) - unat s < 64" for s
  proof -
    have "unat (Max S) - unat seq = unat (Max S) - unat s \<longleftrightarrow> s = seq"
      using le lo by (auto simp: word_le_nat_alt word_unat_eq_iff)
    then show ?thesis
      using bits [OF le d] seen top lo d
      by (auto simp: mark_def Let_def dl less_WINDOW bit_simps)
  qed
  moreover have "rw_seen_any (mark w seq)" "rw_highest (mark w seq) = Max S"
    using seen top lo leD [OF lo] by (simp_all add: mark_def Let_def)
  ultimately show ?thesis using fin max by (simp add: window_rel_def)
qed

lemma window_rel_mark [inv_intros]: "window_rel w S \<Longrightarrow> window_rel (mark w seq) (insert seq S)"
proof (cases "S = {}")
  case True
  assume "window_rel w S"
  with True show ?thesis using mark_first [of w seq] by (simp add: window_rel_def)
next
  case False
  assume "window_rel w S"
  with False show ?thesis using mark_above mark_below leI by (cases "Max S < seq") blast+
qed

lemma window_rel_mark_all: "window_rel w S \<Longrightarrow> window_rel (mark_all seqs w) (set seqs \<union> S)"
proof (induction seqs arbitrary: w S)
  case Nil
  then show ?case by (simp add: mark_all_def)
next
  case (Cons s seqs)
  then have "window_rel (mark_all seqs (mark w s)) (set seqs \<union> insert s S)"
    using window_rel_mark by blast
  then show ?case by (simp add: mark_all_def)
qed

section \<open>The window is an anti-replay filter\<close>

lemma mark_rejects: "\<not> accepts (mark w seq) seq"
proof (cases "rw_seen_any w")
  case False
  then show ?thesis by (simp add: accepts_bit mark_def)
next
  case True
  then show ?thesis
    by (auto simp: accepts_bit mark_def Let_def less_WINDOW unat_sub bit_simps not_less)
qed

lemma mark_keeps_rejected: "\<not> accepts w seq \<Longrightarrow> \<not> accepts (mark w r) seq"
proof -
  assume "\<not> accepts w seq"
  then have seen: "rw_seen_any w" and le: "seq \<le> rw_highest w"
    and old: "unat (rw_highest w) - unat seq < 64 \<Longrightarrow> bit (rw_bitmap w) (unat (rw_highest w) - unat seq)"
    by (auto simp: accepts_bit not_less)
  show ?thesis
  proof (cases "r > rw_highest w")
    case True
    then have sh: "unat (r - rw_highest w) = unat r - unat (rw_highest w)"
      by (simp add: unat_sub)
    have "unat r - unat seq - (unat r - unat (rw_highest w)) = unat (rw_highest w) - unat seq"
      using True le by (simp add: word_le_nat_alt word_less_nat_alt)
    then show ?thesis
      using True seen le old
      by (auto simp: accepts_bit mark_def Let_def sh WINDOW_le bit_simps not_less
          word_le_nat_alt [of seq] word_less_nat_alt [of "rw_highest w"])
  next
    case False
    then show ?thesis
      using seen le old by (auto simp: accepts_bit mark_def Let_def bit_simps)
  qed
qed

lemma new_accepts: "accepts ReplayWindow_new seq"
  by (simp add: accepts_bit ReplayWindow_new_def)

interpretation window: anti_replay ReplayWindow_new accepts mark
  by unfold_locales (simp_all add: mark_rejects mark_keeps_rejected new_accepts)

section \<open>Properties\<close>

text \<open>C28: After any sequence of marked records, the window accepts a sequence number exactly when
  it is above every marked number, or within 64 of the largest marked one and not itself
  marked.\<close>

theorem replay_window_exact:
  "accepts (mark_all seqs ReplayWindow_new) seq \<longleftrightarrow> spec_accepts (set seqs) seq"
  using window_rel_accepts [OF window_rel_mark_all [OF window_rel_new, of seqs], of seq] by simp

text \<open>A receive loop that checks \<^verbatim>\<open>accepts\<close> before and runs \<^verbatim>\<open>mark\<close> after each record never
  delivers the same sequence number twice, whatever the window and the arrival order.\<close>

lemma replay_delivers_once: "distinct (deliver_all accepts mark w seqs)"
  by (rule window.deliver_distinct)

end
