(* ===== verification/Framing.thy ===== *)
theory Framing
  imports Krabi_Prelude
begin

text \<open>
  The plaintext framing of \<^verbatim>\<open>dtls/framing.rs\<close>: the 13-byte \<^verbatim>\<open>DTLSPlaintext\<close> record header,
  the 12-byte handshake-message header, and the 24- and 48-bit field codecs.  A writer
  returns the bytes it has put at the front of \<^verbatim>\<open>out\<close>; the rest of \<^verbatim>\<open>out\<close> is unchanged.
  The version bytes of a received record are ignored, as in the source.
\<close>

unbundle bit_operations_syntax

datatype FramingError = FE_BufferTooSmall | FE_Truncated | FE_FieldTooLarge

record PlaintextRecord =
  pr_content_type :: "8 word"
  pr_epoch :: "16 word"
  pr_seq :: "64 word"
  pr_fragment :: bytes

record HandshakeHeader =
  hh_msg_type :: "8 word"
  hh_length :: "32 word"
  hh_message_seq :: "16 word"
  hh_fragment_offset :: "32 word"
  hh_fragment_length :: "32 word"

definition DTLS_1_2_LEGACY_VERSION :: "16 word" where
  "DTLS_1_2_LEGACY_VERSION = 0xFEFD"

definition DTLS_1_3_VERSION :: "16 word" where
  "DTLS_1_3_VERSION = 0xFEFC"

definition PLAINTEXT_HEADER_LEN :: nat where
  "PLAINTEXT_HEADER_LEN = 13"

definition HS_HEADER_LEN :: nat where
  "HS_HEADER_LEN = 12"

definition read_u24 :: "bytes \<Rightarrow> 32 word" where
  "read_u24 b = from_be_bytes [0, b ! 0, b ! 1, b ! 2]"

definition write_u24 :: "32 word \<Rightarrow> FramingError + bytes" where
  "write_u24 v =
     (if v > 0x00FFFFFF then Inl FE_FieldTooLarge
      else Inr (sub_range 1 4 (to_be_bytes v)))"

definition read_u48 :: "bytes \<Rightarrow> 64 word" where
  "read_u48 b = foldl (\<lambda>v byte. push_bit 8 v OR ucast byte) 0 (take 6 b)"

definition write_u48 :: "64 word \<Rightarrow> bytes" where
  "write_u48 v = sub_range 2 8 (to_be_bytes v)"

definition PlaintextRecord_parse :: "bytes \<Rightarrow> FramingError + PlaintextRecord \<times> nat" where
  "PlaintextRecord_parse buf =
     (if length buf < PLAINTEXT_HEADER_LEN then Inl FE_Truncated
      else
        let content_type = buf ! 0;
            epoch = from_be_bytes [buf ! 3, buf ! 4];
            seq = read_u48 (sub_range 5 11 buf);
            len = unat (from_be_bytes [buf ! 11, buf ! 12] :: 16 word);
            end_off = PLAINTEXT_HEADER_LEN + len
        in if length buf < end_off then Inl FE_Truncated
           else Inr (\<lparr>pr_content_type = content_type, pr_epoch = epoch, pr_seq = seq,
                      pr_fragment = sub_range PLAINTEXT_HEADER_LEN end_off buf\<rparr>, end_off))"

definition PlaintextRecord_write ::
  "8 word \<Rightarrow> 16 word \<Rightarrow> 64 word \<Rightarrow> bytes \<Rightarrow> bytes \<Rightarrow> FramingError + bytes" where
  "PlaintextRecord_write content_type epoch seq fragment out =
     (let total = PLAINTEXT_HEADER_LEN + length fragment in
      if length fragment > 0xFFFF then Inl FE_FieldTooLarge
      else if length out < total then Inl FE_BufferTooSmall
      else Inr ([content_type] @ to_be_bytes DTLS_1_2_LEGACY_VERSION @ to_be_bytes epoch @
                write_u48 seq @ to_be_bytes (word_of_nat (length fragment) :: 16 word) @
                fragment))"

definition HandshakeHeader_parse :: "bytes \<Rightarrow> FramingError + HandshakeHeader" where
  "HandshakeHeader_parse buf =
     (if length buf < HS_HEADER_LEN then Inl FE_Truncated
      else Inr \<lparr>hh_msg_type = buf ! 0,
                hh_length = read_u24 (sub_range 1 4 buf),
                hh_message_seq = from_be_bytes [buf ! 4, buf ! 5],
                hh_fragment_offset = read_u24 (sub_range 6 9 buf),
                hh_fragment_length = read_u24 (sub_range 9 12 buf)\<rparr>)"

definition HandshakeHeader_write :: "HandshakeHeader \<Rightarrow> bytes \<Rightarrow> FramingError + bytes" where
  "HandshakeHeader_write h out =
     (if length out < HS_HEADER_LEN then Inl FE_BufferTooSmall
      else
        rbind (write_u24 (hh_length h)) (\<lambda>len.
        rbind (write_u24 (hh_fragment_offset h)) (\<lambda>off.
        rbind (write_u24 (hh_fragment_length h)) (\<lambda>flen.
          Inr ([hh_msg_type h] @ len @ to_be_bytes (hh_message_seq h) @ off @ flen)))))"

section \<open>The field codecs\<close>

lemma write_u48_be: "write_u48 v = be_bytes 6 (unat v)"
  by (simp add: write_u48_def sub_range_def to_be_bytes_def drop_be_bytes)

lemma write_u24_be: "write_u24 v = (if unat v < 2 ^ 24 then Inr (be_bytes 3 (unat v)) else Inl FE_FieldTooLarge)"
  by (simp add: write_u24_def sub_range_def to_be_bytes_def drop_be_bytes word_less_nat_alt not_less)

lemma length_write_u48 [simp]: "length (write_u48 v) = 6"
  by (simp add: write_u48_be)

lemma read_u48_be: "read_u48 b = from_be_bytes (take 6 b)"
  by (simp add: read_u48_def foldl_shift_or from_be_bytes_def)

lemma read_u24_be: "length b = 3 \<Longrightarrow> read_u24 b = from_be_bytes b"
proof -
  assume "length b = 3"
  then have "read_u24 b = from_be_bytes (0 # b)"
    using list_of_length_3 [of b] by (simp add: read_u24_def)
  then show ?thesis by (simp add: from_be_bytes_def)
qed

lemma read_write_u24 [codec]: "write_u24 v = Inr bs \<Longrightarrow> length bs = 3 \<and> read_u24 bs = v"
  by (auto simp: write_u24_be read_u24_be from_be_bytes_be_bytes split: if_splits)

lemma read_write_u48 [codec]: "read_u48 (write_u48 v) = word_of_nat (unat v mod 2 ^ 48)"
  by (simp add: read_u48_be write_u48_be from_be_bytes_be_bytes)


lemma header_fields:
  assumes "length ver = 2" "length ep = 2" "length sq = 6" "length ln = 2"
  shows "([ct] @ ver @ ep @ sq @ ln @ fr) ! 0 = ct"
    "[([ct] @ ver @ ep @ sq @ ln @ fr) ! 3, ([ct] @ ver @ ep @ sq @ ln @ fr) ! 4] = ep"
    "sub_range 5 11 ([ct] @ ver @ ep @ sq @ ln @ fr) = sq"
    "[([ct] @ ver @ ep @ sq @ ln @ fr) ! 11, ([ct] @ ver @ ep @ sq @ ln @ fr) ! 12] = ln"
    "sub_range 13 (13 + length fr) ([ct] @ ver @ ep @ sq @ ln @ fr @ rest) = fr"
  using assms list_of_length_2 [of ep] list_of_length_2 [of ln] by (simp_all add: nth_append)

text \<open>Parsing a record that the writer produced, with any bytes after it, gives back the content
  type, the epoch, the low 48 bits of the sequence number and the fragment, and the offset of
  the byte after the record.\<close>

lemma plaintext_record_round_trip:
  assumes "PlaintextRecord_write ct epoch seq fragment out = Inr rec"
  shows "PlaintextRecord_parse (rec @ rest) =
    Inr (\<lparr>pr_content_type = ct, pr_epoch = epoch, pr_seq = word_of_nat (unat seq mod 2 ^ 48),
          pr_fragment = fragment\<rparr>, length rec)"
proof -
  define ver where "ver = to_be_bytes DTLS_1_2_LEGACY_VERSION"
  define ln where "ln = to_be_bytes (word_of_nat (length fragment) :: 16 word)"
  have small: "length fragment < 2 ^ 16"
    and rec: "rec = [ct] @ ver @ to_be_bytes epoch @ write_u48 seq @ ln @ fragment"
    using assms by (auto simp: PlaintextRecord_write_def Let_def ver_def ln_def split: if_splits)
  have len: "length ver = 2" "length (to_be_bytes epoch) = 2" "length (write_u48 seq) = 6"
    "length ln = 2" by (simp_all add: ver_def ln_def)
  note f = header_fields [OF len, where fr = "fragment @ rest" and ct = ct] header_fields(5) [OF len, where fr = fragment and ct = ct and rest = rest]
  have "from_be_bytes ln = (word_of_nat (length fragment) :: 16 word)"
    by (simp add: ln_def from_to_be_bytes)
  then have "unat (from_be_bytes ln :: 16 word) = length fragment"
    using small by (simp add: unat_of_nat)
  moreover have "from_be_bytes (to_be_bytes epoch) = epoch" by (simp add: from_to_be_bytes)
  moreover have "length rec = 13 + length fragment" by (simp add: rec len)
  ultimately show ?thesis
    unfolding PlaintextRecord_parse_def PLAINTEXT_HEADER_LEN_def Let_def
    using f by (simp add: rec read_write_u48)
qed

lemma PlaintextRecord_parse_bounds:
  assumes "PlaintextRecord_parse buf = Inr (r, next_off)"
  shows "next_off = 13 + length (pr_fragment r) \<and> next_off \<le> length buf"
  using assms
  by (auto simp: PlaintextRecord_parse_def PLAINTEXT_HEADER_LEN_def Let_def split: if_splits)

lemma write_u24_ok: "write_u24 v = Inr bs \<longleftrightarrow> unat v < 2 ^ 24 \<and> bs = be_bytes 3 (unat v)"
  by (auto simp: write_u24_be)

lemma header_split:
  assumes "length len = 3" "length sq = 2" "length off = 3" "length fl = 3"
  shows "sub_range 1 4 (ty # len @ sq @ off @ fl @ rest) = len"
    "[(ty # len @ sq @ off @ fl @ rest) ! 4, (ty # len @ sq @ off @ fl @ rest) ! 5] = sq"
    "sub_range 6 9 (ty # len @ sq @ off @ fl @ rest) = off"
    "sub_range 9 12 (ty # len @ sq @ off @ fl @ rest) = fl"
  using assms list_of_length_2 [of sq] by (simp_all add: nth_append)

text \<open>A handshake header that the writer accepts is written in 12 bytes, and parsing them, with
  any body after them, gives the header back.\<close>

lemma handshake_header_round_trip:
  assumes "HandshakeHeader_write h out = Inr bs"
  shows "length bs = HS_HEADER_LEN \<and> HandshakeHeader_parse (bs @ body) = Inr h"
proof -
  obtain len off fl where w: "write_u24 (hh_length h) = Inr len"
      "write_u24 (hh_fragment_offset h) = Inr off" "write_u24 (hh_fragment_length h) = Inr fl"
    and bs: "bs = hh_msg_type h # len @ to_be_bytes (hh_message_seq h) @ off @ fl"
    using assms by (auto simp: HandshakeHeader_write_def result_simps split: if_splits)
  have l: "length len = 3" "length (to_be_bytes (hh_message_seq h)) = 2" "length off = 3" "length fl = 3"
    using w by (auto dest: read_write_u24)
  have "from_be_bytes (to_be_bytes (hh_message_seq h)) = hh_message_seq h"
    by (simp add: from_to_be_bytes)
  moreover define buf where "buf = bs @ body"
  moreover have "length bs = 12" "buf ! 0 = hh_msg_type h" by (simp_all add: buf_def bs l)
  moreover have "sub_range 1 4 buf = len" "[buf ! 4, buf ! 5] = to_be_bytes (hh_message_seq h)"
    "sub_range 6 9 buf = off" "sub_range 9 12 buf = fl"
    using header_split [OF l, of "hh_msg_type h" body] by (simp_all only: buf_def bs append.simps append_assoc)
  ultimately show ?thesis
    using w [THEN read_write_u24]
    by (simp add: HandshakeHeader_parse_def HS_HEADER_LEN_def del: One_nat_def)
qed

end
