(* ===== verification/Dtls_Reassembly.thy ===== *)
theory Dtls_Reassembly
  imports Krabi_Prelude
begin

text \<open>
  The handshake-message reassembler of \<^verbatim>\<open>dtls/reassembly.rs\<close>: per-message slots with a sorted,
  merged set of received byte ranges, bodies in a caller-supplied arena.

  The const generics \<^verbatim>\<open>MAX_MSGS\<close> and \<^verbatim>\<open>MAX_FRAGS\<close> are arguments.  Offsets of type usize are
  naturals (the checked additions of the source that would overflow exceed the bound they
  are compared with next, so the branch taken is the same); the ranges are 32-bit words, as
  in the source, and the range merge is stated once for every linear order.
  \<^verbatim>\<open>Reassembler_push\<close> returns the reassembler and the arena it leaves behind also when it
  fails.
\<close>

datatype ReasmError = TooManyMessages | TooManyFragments | ReasmArenaFull | BadFragment | Inconsistent

record Slot =
  sl_seq :: "16 word"
  sl_msg_type :: "8 word"
  sl_len :: nat
  sl_off :: nat
  sl_ranges :: "(32 word \<times> 32 word) list"

record Reassembler =
  ra_slots :: "Slot list"
  ra_used :: nat

definition is_complete :: "Slot \<Rightarrow> bool" where
  "is_complete s =
     ((case sl_ranges s of (a, b) # _ \<Rightarrow> a = 0 \<and> unat b = sl_len s | [] \<Rightarrow> False) \<and>
      length (sl_ranges s) = 1)"

definition frag_push :: "nat \<Rightarrow> 'a list \<Rightarrow> 'a \<Rightarrow> ReasmError + 'a list" where
  "frag_push cap xs x = (if length xs < cap then Inr (xs @ [x]) else Inl TooManyFragments)"

fun add_range_loop ::
  "nat \<Rightarrow> ('a::linorder \<times> 'a) list \<Rightarrow> 'a \<Rightarrow> 'a \<Rightarrow> bool \<Rightarrow> ('a \<times> 'a) list \<Rightarrow>
   ReasmError + ('a \<times> 'a) list" where
  "add_range_loop cap [] lo hi placed merged =
     (if \<not> placed then frag_push cap merged (lo, hi) else Inr merged)"
| "add_range_loop cap ((s, e) # rs) lo hi placed merged =
     (if e < lo then
        rbind (frag_push cap merged (s, e)) (\<lambda>m. add_range_loop cap rs lo hi placed m)
      else if hi < s then
        rbind (if \<not> placed then frag_push cap merged (lo, hi) else Inr merged) (\<lambda>m.
        rbind (frag_push cap m (s, e)) (\<lambda>m'. add_range_loop cap rs lo hi True m'))
      else add_range_loop cap rs (min lo s) (max hi e) placed merged)"

definition add_range :: "nat \<Rightarrow> 'a::linorder \<Rightarrow> 'a \<Rightarrow> ('a \<times> 'a) list \<Rightarrow> ReasmError + ('a \<times> 'a) list" where
  "add_range cap start stop ranges =
     (if start \<ge> stop then Inr ranges else add_range_loop cap ranges start stop False [])"

definition Reassembler_new :: Reassembler where
  "Reassembler_new = \<lparr>ra_slots = [], ra_used = 0\<rparr>"

fun position :: "('a \<Rightarrow> bool) \<Rightarrow> 'a list \<Rightarrow> nat option" where
  "position P [] = None"
| "position P (x # xs) = (if P x then Some 0 else map_option Suc (position P xs))"

definition slot_index ::
  "nat \<Rightarrow> Reassembler \<Rightarrow> bytes \<Rightarrow> 8 word \<Rightarrow> 16 word \<Rightarrow> nat \<Rightarrow> ReasmError + nat \<times> Reassembler" where
  "slot_index max_msgs r arena msg_type seq msg_len =
     (case position (\<lambda>s. sl_seq s = seq) (ra_slots r) of
        Some i \<Rightarrow>
          if sl_msg_type (ra_slots r ! i) \<noteq> msg_type \<or> sl_len (ra_slots r ! i) \<noteq> msg_len
          then Inl Inconsistent
          else Inr (i, r)
      | None \<Rightarrow>
          let off = ra_used r; new_used = off + msg_len in
          if new_used > length arena then Inl ReasmArenaFull
          else if length (ra_slots r) \<ge> max_msgs then Inl TooManyMessages
          else Inr (length (ra_slots r),
                 r\<lparr>ra_slots := ra_slots r @
                      [\<lparr>sl_seq = seq, sl_msg_type = msg_type, sl_len = msg_len, sl_off = off,
                        sl_ranges = []\<rparr>],
                   ra_used := new_used\<rparr>))"

definition Reassembler_push ::
  "nat \<Rightarrow> nat \<Rightarrow> Reassembler \<Rightarrow> bytes \<Rightarrow> 8 word \<Rightarrow> 16 word \<Rightarrow> nat \<Rightarrow> nat \<Rightarrow> bytes \<Rightarrow>
   Reassembler \<times> bytes \<times> (ReasmError + unit)" where
  "Reassembler_push max_msgs max_frags r arena msg_type seq msg_len frag_off frag =
     (let frag_end = frag_off + length frag in
      if frag_end > msg_len then (r, arena, Inl BadFragment)
      else
        case slot_index max_msgs r arena msg_type seq msg_len of
          Inl e \<Rightarrow> (r, arena, Inl e)
        | Inr (idx, r1) \<Rightarrow>
            let sl = ra_slots r1 ! idx;
                arena1 = put_at (sl_off sl + frag_off) frag arena
            in (case add_range max_frags (word_of_nat frag_off) (word_of_nat frag_end) (sl_ranges sl) of
                 Inl e \<Rightarrow> (r1, arena1, Inl e)
               | Inr rs \<Rightarrow>
                   (r1\<lparr>ra_slots := list_update (ra_slots r1) idx (sl\<lparr>sl_ranges := rs\<rparr>)\<rparr>, arena1, Inr ())))"

definition flight_complete :: "Reassembler \<Rightarrow> 16 word \<Rightarrow> 8 word \<Rightarrow> bool" where
  "flight_complete r base_seq finished_type =
     (case find (\<lambda>s. sl_msg_type s = finished_type \<and> is_complete s) (ra_slots r) of
        None \<Rightarrow> False
      | Some fin \<Rightarrow>
          if sl_seq fin < base_seq then False
          else list_all
                 (\<lambda>n. list_ex (\<lambda>s. sl_seq s = word_of_nat n \<and> is_complete s) (ra_slots r))
                 [unat base_seq ..< Suc (unat (sl_seq fin))])"

fun min_by_seq :: "Slot list \<Rightarrow> Slot option" where
  "min_by_seq [] = None"
| "min_by_seq (s # ss) =
     (case min_by_seq ss of
        None \<Rightarrow> Some s
      | Some t \<Rightarrow> if sl_seq t < sl_seq s then Some t else Some s)"

definition next_slot :: "Slot list \<Rightarrow> 16 word option \<Rightarrow> Slot option" where
  "next_slot slots prev =
     min_by_seq (filter (\<lambda>s. case prev of None \<Rightarrow> True | Some p \<Rightarrow> sl_seq s > p) slots)"

definition slot_message :: "bytes \<Rightarrow> Slot \<Rightarrow> bytes" where
  "slot_message arena s =
     [sl_msg_type s, word_of_nat (sl_len s div 2 ^ 16), word_of_nat (sl_len s div 2 ^ 8),
      word_of_nat (sl_len s)] @ sub_range (sl_off s) (sl_off s + sl_len s) arena"

lemma min_by_seq_None: "min_by_seq ss = None \<longleftrightarrow> ss = []"
  by (cases ss) (auto split: option.splits)

lemma min_by_seq_Some: "min_by_seq ss = Some s \<Longrightarrow> s \<in> set ss \<and> (\<forall>t \<in> set ss. sl_seq s \<le> sl_seq t)"
proof (induction ss arbitrary: s)
  case Nil
  then show ?case by simp
next
  case (Cons t ss)
  then show ?case by (cases "min_by_seq ss") (auto simp: min_by_seq_None split: if_splits)
qed

lemma next_slot_Some:
  "next_slot slots prev = Some s \<Longrightarrow>
   s \<in> set slots \<and> (case prev of None \<Rightarrow> True | Some p \<Rightarrow> sl_seq s > p) \<and>
   (\<forall>t \<in> set slots. (case prev of None \<Rightarrow> True | Some p \<Rightarrow> sl_seq t > p) \<longrightarrow> sl_seq s \<le> sl_seq t)"
  by (auto simp: next_slot_def dest!: min_by_seq_Some)

lemma next_slot_shrinks:
  assumes "next_slot slots prev = Some s"
  shows "length (filter (\<lambda>t. sl_seq t > sl_seq s) slots) <
    length (filter (\<lambda>t. case prev of None \<Rightarrow> True | Some p \<Rightarrow> sl_seq t > p) slots)"
  using next_slot_Some [OF assms]
  by (intro length_filter_strict [of _ _ _ s]) (auto split: option.splits)

function serialize_loop ::
  "Slot list \<Rightarrow> bytes \<Rightarrow> nat \<Rightarrow> 16 word option \<Rightarrow> bytes \<Rightarrow> ReasmError + bytes" where
  "serialize_loop slots arena out_len prev written =
     (case next_slot slots prev of
        None \<Rightarrow> Inr written
      | Some slot \<Rightarrow>
          if \<not> is_complete slot
          then serialize_loop slots arena out_len (Some (sl_seq slot)) written
          else if length written + (4 + sl_len slot) > out_len then Inl ReasmArenaFull
          else serialize_loop slots arena out_len (Some (sl_seq slot))
                 (written @ slot_message arena slot))"
  by pat_completeness auto
termination
  by (relation "measure (\<lambda>(slots, _, _, prev, _).
        length (filter (\<lambda>s. case prev of None \<Rightarrow> True | Some p \<Rightarrow> sl_seq s > p) slots))")
    (auto intro: next_slot_shrinks)

definition serialize_flight :: "Reassembler \<Rightarrow> bytes \<Rightarrow> nat \<Rightarrow> ReasmError + bytes" where
  "serialize_flight r arena out_len = serialize_loop (ra_slots r) arena out_len None []"

section \<open>The range set\<close>

definition ranges_ok :: "('a::linorder \<times> 'a) list \<Rightarrow> bool" where
  "ranges_ok rs \<longleftrightarrow>
     sorted_wrt (\<lambda>p q. snd p < fst q) rs \<and> (\<forall>p \<in> set rs. fst p < snd p)"

definition covered :: "('a::linorder \<times> 'a) list \<Rightarrow> 'a set" where
  "covered rs = (\<Union>(s, e) \<in> set rs. {s..<e})"

lemma covered_simps [simp]:
  "covered [] = {}"
  "covered ((s, e) # rs) = {s..<e} \<union> covered rs"
  "covered (rs @ ts) = covered rs \<union> covered ts"
  by (auto simp: covered_def)

lemma ranges_ok_append:
  "ranges_ok (rs @ ts) \<longleftrightarrow>
     ranges_ok rs \<and> ranges_ok ts \<and> (\<forall>p \<in> set rs. \<forall>q \<in> set ts. snd p < fst q)"
  by (auto simp: ranges_ok_def sorted_wrt_append)

lemma ranges_ok_Cons:
  "ranges_ok ((s, e) # rs) \<longleftrightarrow> s < e \<and> ranges_ok rs \<and> (\<forall>q \<in> set rs. e < fst q)"
  by (auto simp: ranges_ok_def)

lemma ranges_ok_Nil [simp]: "ranges_ok []"
  by (simp add: ranges_ok_def)

lemma frag_push_ok [result_simps]: "frag_push cap xs x = Inr ys \<longleftrightarrow> length xs < cap \<and> ys = xs @ [x]"
  by (auto simp: frag_push_def)

lemma frag_push_error [result_simps]:
  "frag_push cap xs x = Inl err \<longleftrightarrow> cap \<le> length xs \<and> err = TooManyFragments"
  by (auto simp: frag_push_def)

text \<open>Once the new range is placed the remaining ranges are copied.\<close>

lemma add_range_loop_placed:
  "\<forall>q \<in> set rs. hi < fst q \<and> fst q < snd q \<Longrightarrow> lo < hi \<Longrightarrow>
   add_range_loop cap rs lo hi True m =
     (if length m + length rs \<le> cap \<or> rs = [] then Inr (m @ rs) else Inl TooManyFragments)"
proof (induction rs arbitrary: m)
  case Nil
  then show ?case by simp
next
  case (Cons q rs)
  obtain s e where q: "q = (s, e)" by (cases q)
  with Cons.prems have "\<not> e < lo" "hi < s" by auto
  then show ?case using Cons by (auto simp: q frag_push_def)
qed

text \<open>The reference merge, without capacity: it copies the ranges before the new one, absorbs
  those that touch it and keeps the rest.\<close>

fun merge_range :: "('a::linorder \<times> 'a) list \<Rightarrow> 'a \<Rightarrow> 'a \<Rightarrow> ('a \<times> 'a) list" where
  "merge_range [] lo hi = [(lo, hi)]"
| "merge_range ((s, e) # rs) lo hi =
     (if e < lo then (s, e) # merge_range rs lo hi
      else if hi < s then (lo, hi) # (s, e) # rs
      else merge_range rs (min lo s) (max hi e))"

lemma merge_range_above:
  "x < lo \<Longrightarrow> \<forall>q \<in> set rs. x < fst q \<Longrightarrow> p \<in> set (merge_range rs lo hi) \<Longrightarrow> x < fst p"
  by (induction rs lo hi rule: merge_range.induct) (auto split: if_splits)

lemma merge_range_ok: "ranges_ok rs \<Longrightarrow> lo < hi \<Longrightarrow> ranges_ok (merge_range rs lo hi)"
proof (induction rs lo hi rule: merge_range.induct)
  case (1 lo hi)
  then show ?case by (simp add: ranges_ok_Cons)
next
  case (2 s e rs lo hi)
  then show ?case
    by (auto simp: ranges_ok_Cons less_max_iff_disj min_less_iff_disj
        dest: merge_range_above intro: less_trans)
qed

lemma covered_merge_range:
  "ranges_ok rs \<Longrightarrow> lo < hi \<Longrightarrow> covered (merge_range rs lo hi) = covered rs \<union> {lo..<hi}"
proof (induction rs lo hi rule: merge_range.induct)
  case (1 lo hi)
  then show ?case by simp
next
  case (2 s e rs lo hi)
  have touch: "{min lo s..<max hi e} = {s..<e} \<union> {lo..<hi}" if "\<not> e < lo" "\<not> hi < s" "s < e"
    using that 2(4) by (auto simp: min_def max_def)
  show ?case
    using 2 touch by (auto simp: ranges_ok_Cons less_max_iff_disj min_less_iff_disj)
qed

lemma add_range_loop_merge:
  assumes "ranges_ok rs" "lo < hi" "length m \<le> cap"
  shows "add_range_loop cap rs lo hi False m =
    (if length m + length (merge_range rs lo hi) \<le> cap then Inr (m @ merge_range rs lo hi)
     else Inl TooManyFragments)"
  using assms
proof (induction rs lo hi arbitrary: m rule: merge_range.induct)
  case (1 lo hi)
  then show ?case by (simp add: frag_push_def)
next
  case (2 s e rs lo hi)
  have rs: "\<forall>q \<in> set rs. e < fst q \<and> fst q < snd q" "s < e" "ranges_ok rs"
    using "2.prems"(1) by (auto simp: ranges_ok_Cons ranges_ok_def)
  have nonempty: "length (merge_range rs lo hi) \<noteq> 0" for lo hi :: 'a
    by (induction rs lo hi rule: merge_range.induct) auto
  consider (before) "e < lo" | (after) "\<not> e < lo" "hi < s" | (absorb) "\<not> e < lo" "\<not> hi < s" by blast
  then show ?case
  proof cases
    case before
    then show ?thesis
      using 2(1) [OF before rs(3) "2.prems"(2), of "m @ [(s, e)]"] "2.prems"(3) nonempty [of lo hi]
      by (auto simp: frag_push_def)
  next
    case after
    have "\<forall>q \<in> set rs. hi < fst q \<and> fst q < snd q" using rs after by (auto intro: less_trans)
    then show ?thesis
      using after "2.prems" by (auto simp: frag_push_def add_range_loop_placed)
  next
    case absorb
    then show ?thesis
      using 2(2) [OF absorb rs(3) _ "2.prems"(3)] "2.prems"(2) by (simp add: less_max_iff_disj min_less_iff_disj)
  qed
qed

lemma add_range_merge:
  assumes "ranges_ok rs" "start < stop"
  shows "add_range cap start stop rs =
    (if length (merge_range rs start stop) \<le> cap then Inr (merge_range rs start stop)
     else Inl TooManyFragments)"
  using add_range_loop_merge [OF assms, of "[]" cap] assms(2) leD by (auto simp: add_range_def)

section \<open>Interval sets\<close>

text \<open>What a message slot needs of its range set: every successful addition adds exactly the
  interval.  It follows that the order and the repetition of fragments do not matter.\<close>

fun add_all :: "('a \<Rightarrow> 'a \<Rightarrow> 's \<Rightarrow> 'e + 's) \<Rightarrow> ('a \<times> 'a) list \<Rightarrow> 's \<Rightarrow> 'e + 's" where
  "add_all add [] s = Inr s"
| "add_all add ((a, b) # xs) s = rbind (add a b s) (add_all add xs)"

locale interval_set =
  fixes inv :: "'s \<Rightarrow> bool"
    and cov :: "'s \<Rightarrow> 'a::linorder set"
    and none :: "'s"
    and add :: "'a \<Rightarrow> 'a \<Rightarrow> 's \<Rightarrow> 'e + 's"
  assumes none_inv: "inv none"
    and none_cov: "cov none = {}"
    and add_inv: "inv s \<Longrightarrow> add a b s = Inr t \<Longrightarrow> inv t"
    and add_cov: "inv s \<Longrightarrow> add a b s = Inr t \<Longrightarrow> cov t = cov s \<union> {a..<b}"
begin

lemma add_all_cov:
  "inv s \<Longrightarrow> add_all add xs s = Inr t \<Longrightarrow> inv t \<and> cov t = cov s \<union> (\<Union>(a, b) \<in> set xs. {a..<b})"
proof (induction xs arbitrary: s)
  case Nil
  then show ?case by simp
next
  case (Cons p xs)
  obtain a b where p: "p = (a, b)" by (cases p)
  then obtain u where u: "add a b s = Inr u" "add_all add xs u = Inr t"
    using Cons.prems(2) by (auto simp: result_simps)
  then show ?case
    using Cons.IH [OF add_inv [OF Cons.prems(1) u(1)] u(2)] add_cov [OF Cons.prems(1) u(1)]
    by (auto simp: p)
qed

lemma add_all_order_irrelevant:
  assumes "set xs = set ys" "add_all add xs none = Inr t" "add_all add ys none = Inr u"
  shows "cov t = cov u"
  using add_all_cov [OF none_inv assms(2)] add_all_cov [OF none_inv assms(3)] assms(1) by simp

end

interpretation ranges: interval_set ranges_ok covered "[]" "add_range cap" for cap
proof
  fix s t :: "('a \<times> 'a) list" and a b :: 'a
  assume s: "ranges_ok s" and t: "add_range cap a b s = Inr t"
  show "ranges_ok t" "covered t = covered s \<union> {a..<b}"
    using s t add_range_merge [OF s, of a b cap] merge_range_ok [OF s] covered_merge_range [OF s]
    by (cases "a < b"; auto simp: add_range_def split: if_splits)+
qed simp_all

section \<open>Invariants\<close>

definition slot_ok :: "nat \<Rightarrow> Slot \<Rightarrow> bool" where
  "slot_ok max_frags s \<longleftrightarrow>
     sl_len s < 2 ^ 32 \<and> ranges_ok (sl_ranges s) \<and> length (sl_ranges s) \<le> max_frags \<and>
     (\<forall>p \<in> set (sl_ranges s). unat (snd p) \<le> sl_len s)"

definition reasm_ok :: "nat \<Rightarrow> nat \<Rightarrow> Reassembler \<Rightarrow> bytes \<Rightarrow> bool" where
  "reasm_ok max_msgs max_frags r arena \<longleftrightarrow>
     distinct (map sl_seq (ra_slots r)) \<and> length (ra_slots r) \<le> max_msgs \<and>
     sorted_wrt (\<lambda>s t. sl_off s + sl_len s \<le> sl_off t) (ra_slots r) \<and>
     (\<forall>s \<in> set (ra_slots r). sl_off s + sl_len s \<le> ra_used r \<and> slot_ok max_frags s) \<and>
     ra_used r \<le> length arena"

text \<open>The sender's messages: the type and the body of each \<^verbatim>\<open>message_seq\<close>.\<close>

type_synonym messages = "16 word \<Rightarrow> 8 word \<times> bytes"

record Fragment =
  fr_type :: "8 word"
  fr_seq :: "16 word"
  fr_msg_len :: nat
  fr_off :: nat
  fr_body :: bytes

definition fragment_of :: "messages \<Rightarrow> Fragment \<Rightarrow> bool" where
  "fragment_of msgs f \<longleftrightarrow>
     (let (ty, body) = msgs (fr_seq f) in
      fr_type f = ty \<and> fr_msg_len f = length body \<and> length body < 2 ^ 32 \<and>
      fr_off f + length (fr_body f) \<le> length body \<and>
      fr_body f = sub_range (fr_off f) (fr_off f + length (fr_body f)) body)"

definition slot_holds :: "messages \<Rightarrow> bytes \<Rightarrow> Slot \<Rightarrow> bool" where
  "slot_holds msgs arena s \<longleftrightarrow>
     (let (ty, body) = msgs (sl_seq s) in
      sl_msg_type s = ty \<and> sl_len s = length body \<and>
      (\<forall>x \<in> covered (sl_ranges s). arena ! (sl_off s + unat x) = body ! unat x))"

definition push_frag ::
  "nat \<Rightarrow> nat \<Rightarrow> Fragment \<Rightarrow> Reassembler \<times> bytes \<Rightarrow> Reassembler \<times> bytes" where
  "push_frag max_msgs max_frags f = (\<lambda>(r, arena).
     let (r', arena', _) =
       Reassembler_push max_msgs max_frags r arena (fr_type f) (fr_seq f) (fr_msg_len f)
         (fr_off f) (fr_body f)
     in (r', arena'))"

definition push_frags ::
  "nat \<Rightarrow> nat \<Rightarrow> Fragment list \<Rightarrow> Reassembler \<times> bytes \<Rightarrow> Reassembler \<times> bytes" where
  "push_frags max_msgs max_frags fs st = fold (push_frag max_msgs max_frags) fs st"

lemma position_Some: "position P xs = Some i \<Longrightarrow> i < length xs \<and> P (xs ! i)"
  by (induction xs arbitrary: i) (auto split: if_splits)

lemma position_None: "position P xs = None \<longleftrightarrow> (\<forall>x \<in> set xs. \<not> P x)"
  by (induction xs) auto

lemma slot_okD:
  assumes "slot_ok max_frags s"
  shows "sl_len s < 2 ^ 32" "ranges_ok (sl_ranges s)" "length (sl_ranges s) \<le> max_frags"
    "p \<in> set (sl_ranges s) \<Longrightarrow> unat (snd p) \<le> sl_len s"
  using assms by (auto simp: slot_ok_def)

lemma covered_slot_bound: "slot_ok max_frags s \<Longrightarrow> x \<in> covered (sl_ranges s) \<Longrightarrow> unat x < sl_len s"
  by (fastforce simp: covered_def slot_ok_def word_less_nat_alt)

text \<open>A slot is complete exactly when its length is positive and every byte has been received.\<close>

lemma is_complete_iff:
  assumes "slot_ok max_frags s"
  shows "is_complete s \<longleftrightarrow> 0 < sl_len s \<and> covered (sl_ranges s) = {x. unat x < sl_len s}"
proof
  assume "is_complete s"
  then obtain b where r: "sl_ranges s = [(0, b)]" and b: "unat b = sl_len s"
    by (auto simp: is_complete_def length_Suc_conv split: list.splits)
  then have "0 < b" using slot_okD(2) [OF assms] by (simp add: ranges_ok_Cons)
  then show "0 < sl_len s \<and> covered (sl_ranges s) = {x. unat x < sl_len s}"
    using r b by (auto simp: word_less_nat_alt)
next
  assume all: "0 < sl_len s \<and> covered (sl_ranges s) = {x. unat x < sl_len s}"
  then have "0 \<in> covered (sl_ranges s)" by simp
  then obtain a b rs where r: "sl_ranges s = (a, b) # rs"
    by (cases "sl_ranges s") auto
  have ab: "a < b" and rs: "\<forall>q \<in> set rs. b < fst q" and wf: "ranges_ok rs"
    using slot_okD(2) [OF assms] by (auto simp: r ranges_ok_Cons)
  have later: "x \<notin> covered rs" if "x \<le> b" for x
    using rs that by (fastforce simp: covered_def)
  have "0 \<in> {a..<b}" using \<open>0 \<in> covered (sl_ranges s)\<close> later [of 0] by (simp add: r)
  then have a0: "a = 0" by simp
  have "b \<notin> covered (sl_ranges s)" using later [of b] by (simp add: r)
  then have b: "unat b = sl_len s" using all slot_okD(4) [OF assms, of "(a, b)"] by (auto simp: r)
  have "rs = []"
  proof (rule ccontr)
    assume "rs \<noteq> []"
    then obtain q where q: "q \<in> set rs" by (cases rs) auto
    then have "b < fst q" "fst q < snd q" using rs wf by (auto simp: ranges_ok_def)
    then have "unat b < unat (snd q)" by (simp add: word_less_nat_alt)
    then show False using slot_okD(4) [OF assms, of q] q b by (simp add: r)
  qed
  then show "is_complete s" by (simp add: is_complete_def r a0 b)
qed

lemma reasm_ok_slot:
  assumes "reasm_ok max_msgs max_frags r arena" "s \<in> set (ra_slots r)"
  shows "sl_off s + sl_len s \<le> ra_used r" "sl_off s + sl_len s \<le> length arena"
    "slot_ok max_frags s"
  using assms by (auto simp: reasm_ok_def dest: order_trans)

lemma slot_index_ok:
  assumes "slot_index max_msgs r arena ty seq len = Inr (idx, r1)"
    and "reasm_ok max_msgs max_frags r arena" "len < 2 ^ 32"
  shows "reasm_ok max_msgs max_frags r1 arena" "idx < length (ra_slots r1)"
    "sl_seq (ra_slots r1 ! idx) = seq" "sl_msg_type (ra_slots r1 ! idx) = ty"
    "sl_len (ra_slots r1 ! idx) = len"
proof -
  have grow: "sl_off s + sl_len s \<le> ra_used r + len" if "s \<in> set (ra_slots r)" for s
    using reasm_ok_slot(1) [OF assms(2) that] by simp
  show "reasm_ok max_msgs max_frags r1 arena" "idx < length (ra_slots r1)"
    "sl_seq (ra_slots r1 ! idx) = seq" "sl_msg_type (ra_slots r1 ! idx) = ty"
    "sl_len (ra_slots r1 ! idx) = len"
    using assms grow
    by (auto simp: slot_index_def Let_def position_None reasm_ok_def slot_ok_def sorted_wrt_append
        nth_append dest: position_Some split: option.splits if_splits)
qed

lemma slot_index_holds:
  assumes "slot_index max_msgs r arena ty seq len = Inr (idx, r1)"
    and "\<forall>s \<in> set (ra_slots r). slot_holds msgs arena s" "ty = fst (msgs seq)"
    "len = length (snd (msgs seq))"
  shows "\<forall>s \<in> set (ra_slots r1). slot_holds msgs arena s"
  using assms
  by (auto simp: slot_index_def Let_def slot_holds_def case_prod_beta split: option.splits if_splits)

lemma reasm_ok_update:
  assumes ok: "reasm_ok max_msgs max_frags r arena" and i: "idx < length (ra_slots r)"
    and rs: "slot_ok max_frags ((ra_slots r ! idx)\<lparr>sl_ranges := rs\<rparr>)"
    and len: "length arena' = length arena"
  shows "reasm_ok max_msgs max_frags
    (r\<lparr>ra_slots := list_update (ra_slots r) idx ((ra_slots r ! idx)\<lparr>sl_ranges := rs\<rparr>)\<rparr>) arena'"
proof -
  define ss where "ss = list_update (ra_slots r) idx ((ra_slots r ! idx)\<lparr>sl_ranges := rs\<rparr>)"
  have same: "sl_seq (ss ! k) = sl_seq (ra_slots r ! k)" "sl_off (ss ! k) = sl_off (ra_slots r ! k)"
    "sl_len (ss ! k) = sl_len (ra_slots r ! k)" if "k < length (ra_slots r)" for k
    using that by (cases "k = idx"; simp add: ss_def)+
  have len_ss: "length ss = length (ra_slots r)" by (simp add: ss_def)
  have "map sl_seq ss = map sl_seq (ra_slots r)"
    by (rule nth_equalityI) (simp_all add: len_ss same)
  moreover have "sorted_wrt (\<lambda>s t. sl_off s + sl_len s \<le> sl_off t) ss"
    using ok by (simp add: sorted_wrt_iff_nth_less len_ss same reasm_ok_def)
  moreover have "sl_off s + sl_len s \<le> ra_used r \<and> slot_ok max_frags s" if "s \<in> set ss" for s
  proof -
    from that obtain k where k: "k < length (ra_slots r)" "s = ss ! k"
      by (auto simp: in_set_conv_nth len_ss)
    have all: "\<forall>t \<in> set (ra_slots r). sl_off t + sl_len t \<le> ra_used r \<and> slot_ok max_frags t"
      using ok by (simp add: reasm_ok_def)
    have "slot_ok max_frags s"
      using all k rs by (cases "k = idx") (simp_all add: ss_def)
    moreover have "sl_off s + sl_len s \<le> ra_used r"
      using all k same [OF k(1)] by simp
    ultimately show ?thesis by simp
  qed
  ultimately show ?thesis using ok len by (simp add: reasm_ok_def len_ss flip: ss_def)
qed

lemma add_range_slot_ok:
  assumes ok: "slot_ok max_frags s"
    and add: "add_range max_frags (word_of_nat a) (word_of_nat b) (sl_ranges s) = Inr rs"
    and b: "b \<le> sl_len s" "a \<le> b"
  shows "slot_ok max_frags (s\<lparr>sl_ranges := rs\<rparr>)"
    "covered rs = covered (sl_ranges s) \<union> {word_of_nat a..<word_of_nat b}"
proof -
  have u: "unat (word_of_nat b :: 32 word) = b" "unat (word_of_nat a :: 32 word) = a"
    using slot_okD(1) [OF ok] b by (simp_all add: unat_of_nat)
  have "slot_ok max_frags (s\<lparr>sl_ranges := rs\<rparr>) \<and>
    covered rs = covered (sl_ranges s) \<union> {word_of_nat a..<word_of_nat b}"
  proof (cases "(word_of_nat a :: 32 word) < word_of_nat b")
    case False
    then show ?thesis using add ok by (auto simp: add_range_def slot_ok_def not_less)
  next
    case True
    have rs: "rs = merge_range (sl_ranges s) (word_of_nat a) (word_of_nat b)"
      and cap: "length rs \<le> max_frags"
      using add add_range_merge [OF slot_okD(2) [OF ok] True] by (auto split: if_splits)
    have wf: "ranges_ok rs" unfolding rs using slot_okD(2) [OF ok] True by (rule merge_range_ok)
    have cov: "covered rs = covered (sl_ranges s) \<union> {word_of_nat a..<word_of_nat b}"
      unfolding rs using slot_okD(2) [OF ok] True by (rule covered_merge_range)
    have "unat (snd p) \<le> sl_len s" if p: "p \<in> set rs" for p
    proof -
      have lt: "unat (fst p) < unat (snd p)"
        using wf p by (simp add: ranges_ok_def word_less_nat_alt)
      then have pred: "unat (snd p - 1) = unat (snd p) - 1" by (intro unat_minus_one) auto
      with lt have "snd p - 1 \<in> {fst p..<snd p}"
        by (simp add: word_le_nat_alt word_less_nat_alt)
      then have "snd p - 1 \<in> covered rs" using p by (force simp: covered_def)
      then have "unat (snd p - 1) < sl_len s"
        using cov covered_slot_bound [OF ok] u b by (auto simp: word_less_nat_alt)
      then show ?thesis using lt pred by simp
    qed
    then show ?thesis using wf cap cov slot_okD(1) [OF ok] by (simp add: slot_ok_def)
  qed
  then show "slot_ok max_frags (s\<lparr>sl_ranges := rs\<rparr>)"
    "covered rs = covered (sl_ranges s) \<union> {word_of_nat a..<word_of_nat b}" by simp_all
qed

lemma put_at_body:
  assumes f: "frag = sub_range a (a + length frag) body" "a + length frag \<le> length body"
    and s: "off + length body \<le> length arena" and i: "i < length body"
  shows "put_at (off + a) frag arena ! (off + i) =
    (if a \<le> i \<and> i < a + length frag then body ! i else arena ! (off + i))"
proof -
  have "frag ! (i - a) = body ! i" if "a \<le> i" "i < a + length frag"
  proof -
    have "frag ! (i - a) = sub_range a (a + length frag) body ! (i - a)" using f(1) by simp
    also have "\<dots> = body ! (a + (i - a))" by (rule sub_range_nth) (use that f(2) in simp_all)
    finally show ?thesis using that by simp
  qed
  then show ?thesis using assms by (subst put_at_nth) auto
qed

text \<open>Writing a fragment into the region of slot \<^verbatim>\<open>idx\<close> keeps what every slot holds.\<close>

lemma write_keeps_holds:
  assumes ok: "reasm_ok max_msgs max_frags r arena" and i: "idx < length (ra_slots r)"
    and holds: "\<forall>s \<in> set (ra_slots r). slot_holds msgs arena s"
    and body: "snd (msgs (sl_seq (ra_slots r ! idx))) = body"
    and f: "frag = sub_range a (a + length frag) body" "a + length frag \<le> length body"
    and j: "j < length (ra_slots r)"
  shows "slot_holds msgs (put_at (sl_off (ra_slots r ! idx) + a) frag arena) (ra_slots r ! j)"
proof -
  let ?s = "ra_slots r ! idx" and ?t = "ra_slots r ! j"
  let ?arena = "put_at (sl_off ?s + a) frag arena"
  have all: "\<forall>s \<in> set (ra_slots r). sl_off s + sl_len s \<le> length arena \<and> slot_ok max_frags s"
    using reasm_ok_slot [OF ok] by simp
  have s: "sl_off ?s + sl_len ?s \<le> length arena" "sl_len ?s = length body"
    using all holds i body by (auto simp: slot_holds_def case_prod_beta)
  have t: "sl_off ?t + sl_len ?t \<le> length arena" "slot_ok max_frags ?t" "slot_holds msgs arena ?t"
    using all holds j by auto
  have "?arena ! (sl_off ?t + unat x) = snd (msgs (sl_seq ?t)) ! unat x"
    if x: "x \<in> covered (sl_ranges ?t)" for x
  proof -
    have lt: "unat x < sl_len ?t" using covered_slot_bound [OF t(2) x] .
    have old: "arena ! (sl_off ?t + unat x) = snd (msgs (sl_seq ?t)) ! unat x"
      using t(3) x by (auto simp: slot_holds_def case_prod_beta)
    show ?thesis
    proof (cases "j = idx")
      case True
      then show ?thesis
        using put_at_body [OF f, of "sl_off ?s" arena "unat x"] s lt old body by simp
    next
      case False
      have "sl_off ?s + sl_len ?s \<le> sl_off ?t \<or> sl_off ?t + sl_len ?t \<le> sl_off ?s"
        using ok i j False unfolding reasm_ok_def sorted_wrt_iff_nth_less
        by (metis nat_neq_iff)
      then show ?thesis
        using old s f(2) t(1) lt by (subst put_at_nth) auto
    qed
  qed
  then show ?thesis using t(3) by (auto simp: slot_holds_def case_prod_beta)
qed

text \<open>The slot that has received the fragment holds it.\<close>

lemma grown_slot_holds:
  assumes holds: "slot_holds msgs (put_at (sl_off s + a) frag arena) s"
    and body: "snd (msgs (sl_seq s)) = body" and small: "length body < 2 ^ 32"
    and f: "frag = sub_range a (a + length frag) body" "a + length frag \<le> length body"
    and bound: "sl_off s + sl_len s \<le> length arena"
    and cov: "covered rs = covered (sl_ranges s) \<union> {word_of_nat a..<word_of_nat (a + length frag)}"
  shows "slot_holds msgs (put_at (sl_off s + a) frag arena) (s\<lparr>sl_ranges := rs\<rparr>)"
proof -
  have len: "sl_len s = length body" using holds body by (auto simp: slot_holds_def case_prod_beta)
  have u: "unat (word_of_nat a :: 32 word) = a"
    "unat (word_of_nat (a + length frag) :: 32 word) = a + length frag"
    using small f(2) by (simp_all only: unat_of_nat) simp_all
  have "put_at (sl_off s + a) frag arena ! (sl_off s + unat x) = body ! unat x"
    if "x \<in> {word_of_nat a..<word_of_nat (a + length frag)}" for x :: "32 word"
  proof -
    have "a \<le> unat x" "unat x < a + length frag"
      using that [unfolded atLeastLessThan_iff word_le_nat_alt word_less_nat_alt u] by simp_all
    then show ?thesis using put_at_body [OF f, of "sl_off s" arena "unat x"] f(2) bound len by simp
  qed
  then show ?thesis using holds body cov by (auto simp: slot_holds_def case_prod_beta)
qed

lemma push_frag_eq:
  assumes "slot_index max_msgs r arena (fr_type f) (fr_seq f) (fr_msg_len f) = Inr (idx, r1)"
    and "fr_off f + length (fr_body f) \<le> fr_msg_len f"
  shows "push_frag max_msgs max_frags f (r, arena) =
    (let s = ra_slots r1 ! idx; arena' = put_at (sl_off s + fr_off f) (fr_body f) arena in
     case add_range max_frags (word_of_nat (fr_off f))
        (word_of_nat (fr_off f + length (fr_body f))) (sl_ranges s) of
       Inl e \<Rightarrow> (r1, arena')
     | Inr rs \<Rightarrow> (r1\<lparr>ra_slots := list_update (ra_slots r1) idx (s\<lparr>sl_ranges := rs\<rparr>)\<rparr>, arena'))"
  using assms by (auto simp: push_frag_def Reassembler_push_def Let_def split: sum.splits)

lemma push_preserves:
  assumes ok: "reasm_ok max_msgs max_frags r arena"
    and holds: "\<forall>s \<in> set (ra_slots r). slot_holds msgs arena s"
    and f: "fragment_of msgs f"
    and st: "push_frag max_msgs max_frags f (r, arena) = (r', arena')"
  shows "reasm_ok max_msgs max_frags r' arena' \<and> (\<forall>s \<in> set (ra_slots r'). slot_holds msgs arena' s)"
proof (cases "slot_index max_msgs r arena (fr_type f) (fr_seq f) (fr_msg_len f)")
  case (Inl e)
  then show ?thesis
    using ok holds st by (auto simp: push_frag_def Reassembler_push_def Let_def split: if_splits)
next
  case (Inr p)
  obtain idx r1 where p: "p = (idx, r1)" by (cases p)
  define body where "body = snd (msgs (fr_seq f))"
  have f': "fr_type f = fst (msgs (fr_seq f))" "fr_msg_len f = length body" "length body < 2 ^ 32"
    "fr_off f + length (fr_body f) \<le> length body"
    "fr_body f = sub_range (fr_off f) (fr_off f + length (fr_body f)) body"
    using f by (auto simp: fragment_of_def body_def case_prod_beta Let_def)
  note si = slot_index_ok [OF Inr [unfolded p] ok f'(3) [folded f'(2)]]
  let ?s = "ra_slots r1 ! idx"
  let ?arena = "put_at (sl_off ?s + fr_off f) (fr_body f) arena"
  have body: "snd (msgs (sl_seq ?s)) = body" by (simp add: si(3) body_def)
  have h1: "\<forall>s \<in> set (ra_slots r1). slot_holds msgs arena s"
    using slot_index_holds [OF Inr [unfolded p] holds f'(1)] f'(2) by (simp add: body_def)
  have h2: "slot_holds msgs ?arena (ra_slots r1 ! j)" if "j < length (ra_slots r1)" for j
    by (rule write_keeps_holds [OF si(1,2) h1 body f'(5,4) that])
  have bound: "sl_off ?s + sl_len ?s \<le> length arena" and sok: "slot_ok max_frags ?s"
    using reasm_ok_slot [OF si(1)] si(2) by simp_all
  have len: "length ?arena = length arena" using bound si(5) f'(2,4) by simp
  note push = st [unfolded push_frag_eq [OF Inr [unfolded p] f'(4) [folded f'(2)]] Let_def]
  show ?thesis
  proof (cases "add_range max_frags (word_of_nat (fr_off f))
        (word_of_nat (fr_off f + length (fr_body f))) (sl_ranges ?s)")
    case (Inl e)
    then show ?thesis using push si(1) len h2 by (auto simp: reasm_ok_def in_set_conv_nth)
  next
    case (Inr rs)
    then have eq: "r' = r1\<lparr>ra_slots := list_update (ra_slots r1) idx (?s\<lparr>sl_ranges := rs\<rparr>)\<rparr>"
      "arena' = ?arena" using push by simp_all
    note grow = add_range_slot_ok [OF sok Inr, simplified si(5) f'(2), OF f'(4) le_add1]
    have "slot_holds msgs ?arena (?s\<lparr>sl_ranges := rs\<rparr>)"
      using h2 [OF si(2)] body f'(3,5,4) bound grow(2) by (rule grown_slot_holds)
    then have "slot_holds msgs arena' s" if "s \<in> set (ra_slots r')" for s
      using that h2 si(2) by (auto simp: eq in_set_conv_nth nth_list_update)
    then show ?thesis using reasm_ok_update [OF si(1,2) grow(1) len] eq by simp
  qed
qed

lemma reasm_ok_new [inv_intros]: "reasm_ok max_msgs max_frags Reassembler_new arena"
  by (simp add: reasm_ok_def Reassembler_new_def)

lemma push_frags_preserves:
  assumes "reasm_ok max_msgs max_frags r arena" "\<forall>s \<in> set (ra_slots r). slot_holds msgs arena s"
    and "\<forall>f \<in> set fs. fragment_of msgs f" "push_frags max_msgs max_frags fs (r, arena) = (r', arena')"
  shows "reasm_ok max_msgs max_frags r' arena' \<and> (\<forall>s \<in> set (ra_slots r'). slot_holds msgs arena' s)"
  using assms
proof (induction fs arbitrary: r arena)
  case Nil
  then show ?case by (simp add: push_frags_def)
next
  case (Cons f fs)
  obtain r1 arena1 where st: "push_frag max_msgs max_frags f (r, arena) = (r1, arena1)"
    by (cases "push_frag max_msgs max_frags f (r, arena)")
  have "push_frags max_msgs max_frags fs (r1, arena1) = (r', arena')"
    using Cons.prems(4) st by (simp add: push_frags_def)
  moreover have "reasm_ok max_msgs max_frags r1 arena1"
    "\<forall>s \<in> set (ra_slots r1). slot_holds msgs arena1 s"
    using push_preserves [OF Cons.prems(1,2) _ st] Cons.prems(3) by simp_all
  ultimately show ?case using Cons.IH Cons.prems(3) by simp
qed

section \<open>Serialisation\<close>

definition is_order :: "(Slot \<Rightarrow> bool) \<Rightarrow> Slot list \<Rightarrow> Slot list \<Rightarrow> bool" where
  "is_order P slots order \<longleftrightarrow>
     sorted_wrt (<) (map sl_seq order) \<and> set order = {s \<in> set slots. P s}"

definition after :: "16 word option \<Rightarrow> Slot \<Rightarrow> bool" where
  "after prev s \<longleftrightarrow> (case prev of None \<Rightarrow> True | Some p \<Rightarrow> sl_seq s > p)"

lemma is_order_step:
  assumes next_s: "next_slot slots prev = Some s" and d: "distinct (map sl_seq slots)"
    and ord: "is_order (\<lambda>t. after (Some (sl_seq s)) t \<and> is_complete t) slots order"
  shows "is_order (\<lambda>t. after prev t \<and> is_complete t) slots
    (if is_complete s then s # order else order)"
proof -
  note n = next_slot_Some [OF next_s]
  have "t = s \<or> sl_seq s < sl_seq t" if "t \<in> set slots" "after prev t" for t
    using n that d by (auto simp: after_def distinct_map inj_on_def order_less_le)
  moreover have "after prev t" if "sl_seq s < sl_seq t" for t
    using n that by (auto simp: after_def split: option.splits)
  ultimately show ?thesis
    using ord n by (auto simp: is_order_def after_def)
qed

lemma is_order_sort:
  assumes "distinct (map sl_seq slots)"
  shows "is_order P slots (sort_key sl_seq (filter P slots))"
proof -
  have "distinct (map sl_seq (filter P slots))"
    using assms by (auto simp: distinct_map intro: inj_on_subset)
  then have "distinct (map sl_seq (sort_key sl_seq (filter P slots)))"
    by (simp add: distinct_map)
  then show ?thesis by (simp add: is_order_def strict_sorted_iff)
qed

lemma map_sort_key_seq:
  fixes slots :: "Slot list"
  assumes "distinct (map sl_seq slots)"
  shows "map sl_seq (sort_key sl_seq (filter P slots)) = sort (map sl_seq (filter P slots))"
proof (rule sorted_distinct_set_unique)
  have "distinct (map sl_seq (filter P slots))"
    using assms by (auto simp: distinct_map intro: inj_on_subset)
  then show "distinct (sort (map sl_seq (filter P slots)))" by simp
  show "distinct (map sl_seq (sort_key sl_seq (filter P slots)))"
    using is_order_sort [OF assms] by (simp add: is_order_def strict_sorted_iff)
qed simp_all

lemma is_order_unique:
  assumes "distinct (map sl_seq slots)" "is_order P slots xs" "is_order P slots ys"
  shows "xs = ys"
proof -
  have "map sl_seq xs = map sl_seq ys"
    using assms(2,3) by (intro sorted_distinct_set_unique) (auto simp: is_order_def strict_sorted_iff)
  moreover have "inj_on sl_seq (set xs \<union> set ys)"
    using assms by (auto simp: is_order_def distinct_map intro: inj_on_subset)
  ultimately show ?thesis by (metis inj_on_map_eq_map)
qed

lemma length_slot_message:
  "sl_off s + sl_len s \<le> length arena \<Longrightarrow> length (slot_message arena s) = 4 + sl_len s"
  by (simp add: slot_message_def)

text \<open>The loop emits the complete slots after \<^verbatim>\<open>prev\<close> in ascending order, or reports that they do
  not fit.\<close>

lemma serialize_loop_order:
  assumes "distinct (map sl_seq slots)" "\<forall>s \<in> set slots. sl_off s + sl_len s \<le> length arena"
    and "length written \<le> out_len"
  shows "\<exists>order. is_order (\<lambda>s. after prev s \<and> is_complete s) slots order \<and>
    serialize_loop slots arena out_len prev written =
      (let out = written @ concat (map (slot_message arena) order) in
       if length out \<le> out_len then Inr out else Inl ReasmArenaFull)"
  using assms
proof (induction slots arena out_len prev written rule: serialize_loop.induct)
  case (1 slots arena out_len prev written)
  show ?case
  proof (cases "next_slot slots prev")
    case None
    then have "\<not> after prev s" if "s \<in> set slots" for s
      using that by (auto simp: next_slot_def min_by_seq_None filter_empty_conv after_def)
    then show ?thesis using None 1(5) by (intro exI [of _ "[]"]) (auto simp: is_order_def)
  next
    case (Some s)
    have len: "length (slot_message arena s) = 4 + sl_len s"
      using next_slot_Some [OF Some] 1(4) by (intro length_slot_message) simp
    consider (skip) "\<not> is_complete s"
      | (full) "is_complete s" "length written + (4 + sl_len s) > out_len"
      | (emit) "is_complete s" "length written + (4 + sl_len s) \<le> out_len" by linarith
    then show ?thesis
    proof cases
      case skip
      then obtain order where "is_order (\<lambda>t. after (Some (sl_seq s)) t \<and> is_complete t) slots order"
        "serialize_loop slots arena out_len (Some (sl_seq s)) written =
          (let out = written @ concat (map (slot_message arena) order) in
           if length out \<le> out_len then Inr out else Inl ReasmArenaFull)"
        using 1(1) [OF Some skip] 1(3-5) by blast
      then show ?thesis using is_order_step [OF Some 1(3)] Some skip by (intro exI [of _ order]) simp
    next
      case full
      obtain order where o: "is_order (\<lambda>t. after (Some (sl_seq s)) t \<and> is_complete t) slots order"
        using is_order_sort [OF 1(3)] by blast
      show ?thesis
        using is_order_step [OF Some 1(3) o] Some full len by (intro exI [of _ "s # order"]) simp
    next
      case emit
      then obtain order where "is_order (\<lambda>t. after (Some (sl_seq s)) t \<and> is_complete t) slots order"
        "serialize_loop slots arena out_len (Some (sl_seq s)) (written @ slot_message arena s) =
          (let out = (written @ slot_message arena s) @ concat (map (slot_message arena) order) in
           if length out \<le> out_len then Inr out else Inl ReasmArenaFull)"
        using 1(2) [OF Some] 1(3-5) len by fastforce
      then show ?thesis
        using is_order_step [OF Some 1(3)] Some emit by (intro exI [of _ "s # order"]) simp
    qed
  qed
qed

lemma serialize_flight_sorted:
  assumes "reasm_ok max_msgs max_frags r arena"
  shows "serialize_flight r arena out_len =
    (let out = concat (map (slot_message arena)
                 (sort_key sl_seq (filter is_complete (ra_slots r)))) in
     if length out \<le> out_len then Inr out else Inl ReasmArenaFull)"
proof -
  have d: "distinct (map sl_seq (ra_slots r))" using assms by (simp add: reasm_ok_def)
  obtain order where o: "is_order is_complete (ra_slots r) order"
    "serialize_flight r arena out_len =
      (let out = concat (map (slot_message arena) order) in
       if length out \<le> out_len then Inr out else Inl ReasmArenaFull)"
    using serialize_loop_order [OF d, of arena "[]" out_len None] reasm_ok_slot(2) [OF assms]
    by (auto simp: serialize_flight_def after_def)
  then have "order = sort_key sl_seq (filter is_complete (ra_slots r))"
    using is_order_unique [OF d _ is_order_sort [OF d]] by blast
  with o(2) show ?thesis by simp
qed

section \<open>What has been received\<close>

definition received :: "Reassembler \<Rightarrow> 16 word \<Rightarrow> 32 word set" where
  "received r q = (\<Union>s \<in> {s \<in> set (ra_slots r). sl_seq s = q}. covered (sl_ranges s))"

definition frag_range :: "Fragment \<Rightarrow> 32 word set" where
  "frag_range f = {word_of_nat (fr_off f)..<word_of_nat (fr_off f + length (fr_body f))}"

text \<open>A run in which every push returns \<^verbatim>\<open>Ok\<close>.\<close>

fun push_ok :: "nat \<Rightarrow> nat \<Rightarrow> Fragment list \<Rightarrow> Reassembler \<times> bytes \<Rightarrow> (Reassembler \<times> bytes) option" where
  "push_ok max_msgs max_frags [] st = Some st"
| "push_ok max_msgs max_frags (f # fs) (r, arena) =
     (case Reassembler_push max_msgs max_frags r arena (fr_type f) (fr_seq f) (fr_msg_len f)
             (fr_off f) (fr_body f) of
        (r', arena', Inr u) \<Rightarrow> push_ok max_msgs max_frags fs (r', arena')
      | (r', arena', Inl e) \<Rightarrow> None)"

lemma slot_index_received:
  "slot_index max_msgs r arena ty seq len = Inr (idx, r1) \<Longrightarrow> received r1 q = received r q"
  by (auto simp: slot_index_def received_def Let_def split: option.splits if_splits)

lemma received_update:
  assumes "distinct (map sl_seq (ra_slots r))" "idx < length (ra_slots r)" "s = ra_slots r ! idx"
  shows "received (r\<lparr>ra_slots := list_update (ra_slots r) idx (s\<lparr>sl_ranges := rs\<rparr>)\<rparr>) q =
    (if q = sl_seq s then covered rs else received r q)"
proof -
  have only: "t = s" if "t \<in> set (ra_slots r)" "sl_seq t = sl_seq s" for t
    using assms that by (auto simp: distinct_map inj_on_def)
  have sets: "set (list_update (ra_slots r) idx (s\<lparr>sl_ranges := rs\<rparr>)) =
      insert (s\<lparr>sl_ranges := rs\<rparr>) (set (ra_slots r) - {s})"
    using assms set_update_distinct [of "ra_slots r" idx] by (simp add: distinct_map)
  show ?thesis using only by (auto simp: received_def sets)
qed

lemma received_slot:
  assumes "distinct (map sl_seq (ra_slots r))" "s \<in> set (ra_slots r)"
  shows "received r (sl_seq s) = covered (sl_ranges s)"
  using assms by (auto simp: received_def distinct_map inj_on_def)

lemma push_received:
  assumes ok: "reasm_ok max_msgs max_frags r arena" and len: "fr_msg_len f < 2 ^ 32"
    and push: "Reassembler_push max_msgs max_frags r arena (fr_type f) (fr_seq f) (fr_msg_len f)
             (fr_off f) (fr_body f) = (r', arena', Inr ())"
  shows "received r' q = received r q \<union> (if q = fr_seq f then frag_range f else {}) \<and>
    (\<exists>s \<in> set (ra_slots r'). sl_seq s = fr_seq f)"
proof -
  obtain idx r1 rs where
    si: "slot_index max_msgs r arena (fr_type f) (fr_seq f) (fr_msg_len f) = Inr (idx, r1)"
    and add: "add_range max_frags (word_of_nat (fr_off f))
      (word_of_nat (fr_off f + length (fr_body f))) (sl_ranges (ra_slots r1 ! idx)) = Inr rs"
    and r': "r' = r1\<lparr>ra_slots := list_update (ra_slots r1) idx ((ra_slots r1 ! idx)\<lparr>sl_ranges := rs\<rparr>)\<rparr>"
    using push by (auto simp: Reassembler_push_def Let_def split: sum.splits if_splits)
  note s = slot_index_ok [OF si ok len]
  have d: "distinct (map sl_seq (ra_slots r1))" using s(1) by (simp add: reasm_ok_def)
  have "ranges_ok (sl_ranges (ra_slots r1 ! idx))"
    using slot_okD(2) [OF reasm_ok_slot(3) [OF s(1) nth_mem [OF s(2)]]] .
  then have "covered rs = covered (sl_ranges (ra_slots r1 ! idx)) \<union> frag_range f"
    unfolding frag_range_def using add by (rule ranges.add_cov)
  then have "received r' q = received r q \<union> (if q = fr_seq f then frag_range f else {})"
    using received_update [OF d s(2) refl] received_slot [OF d nth_mem [OF s(2)]] s(3)
      slot_index_received [OF si] r' by auto
  moreover have "\<exists>s \<in> set (ra_slots r'). sl_seq s = fr_seq f"
    using set_update_memI [OF s(2), of "(ra_slots r1 ! idx)\<lparr>sl_ranges := rs\<rparr>"] s(3)
    by (intro bexI [of _ "(ra_slots r1 ! idx)\<lparr>sl_ranges := rs\<rparr>"]) (simp_all add: r')
  ultimately show ?thesis by simp
qed

lemma push_ok_received:
  assumes "reasm_ok max_msgs max_frags r arena" "\<forall>s \<in> set (ra_slots r). slot_holds msgs arena s"
    and "\<forall>f \<in> set fs. fragment_of msgs f" "push_ok max_msgs max_frags fs (r, arena) = Some (r', arena')"
  shows "push_frags max_msgs max_frags fs (r, arena) = (r', arena') \<and>
    received r' q = received r q \<union> (\<Union>f \<in> {f \<in> set fs. fr_seq f = q}. frag_range f)"
  using assms
proof (induction fs arbitrary: r arena)
  case Nil
  then show ?case by (simp add: push_frags_def)
next
  case (Cons f fs)
  obtain r1 arena1 res where res: "Reassembler_push max_msgs max_frags r arena (fr_type f) (fr_seq f)
      (fr_msg_len f) (fr_off f) (fr_body f) = (r1, arena1, res)" by (rule prod_cases3)
  then have "res = Inr ()" using Cons.prems(4) by (cases res) simp_all
  with res Cons.prems(4) have push: "Reassembler_push max_msgs max_frags r arena (fr_type f) (fr_seq f)
      (fr_msg_len f) (fr_off f) (fr_body f) = (r1, arena1, Inr ())"
    and rest: "push_ok max_msgs max_frags fs (r1, arena1) = Some (r', arena')" by simp_all
  have st: "push_frag max_msgs max_frags f (r, arena) = (r1, arena1)"
    using push by (simp add: push_frag_def)
  have "fr_msg_len f < 2 ^ 32"
    using Cons.prems(3) by (auto simp: fragment_of_def case_prod_beta Let_def)
  then have "received r1 q = received r q \<union> (if q = fr_seq f then frag_range f else {})"
    using push_received [OF Cons.prems(1) _ push] by simp
  moreover have "reasm_ok max_msgs max_frags r1 arena1"
    "\<forall>s \<in> set (ra_slots r1). slot_holds msgs arena1 s"
    using push_preserves [OF Cons.prems(1,2) _ st] Cons.prems(3) by simp_all
  ultimately show ?case
    using Cons.IH [OF _ _ _ rest] Cons.prems(3) st by (auto simp: push_frags_def)
qed

section \<open>Reassembled messages\<close>

text \<open>Two messages whose fragments arrive out of order, with an overlap: the inputs at which the
  witnesses below evaluate the model.\<close>

definition example_msgs :: messages where
  "example_msgs = (\<lambda>q. if q = 1 then (8, [1, 2, 3]) else (20, [4, 5]))"

definition example_frags :: "Fragment list" where
  "example_frags =
     [\<lparr>fr_type = 20, fr_seq = 2, fr_msg_len = 2, fr_off = 0, fr_body = [4, 5]\<rparr>,
      \<lparr>fr_type = 8, fr_seq = 1, fr_msg_len = 3, fr_off = 2, fr_body = [3]\<rparr>,
      \<lparr>fr_type = 8, fr_seq = 1, fr_msg_len = 3, fr_off = 0, fr_body = [1, 2, 3]\<rparr>]"

definition example_state :: "Reassembler \<times> bytes" where
  "example_state =
     (\<lparr>ra_slots = [\<lparr>sl_seq = 2, sl_msg_type = 20, sl_len = 2, sl_off = 0, sl_ranges = [(0, 2)]\<rparr>,
                   \<lparr>sl_seq = 1, sl_msg_type = 8, sl_len = 3, sl_off = 2, sl_ranges = [(0, 3)]\<rparr>],
       ra_used = 5\<rparr>, [4, 5, 1, 2, 3, 0])"

lemma example_frags_ok: "\<forall>f \<in> set example_frags. fragment_of example_msgs f"
  by (simp add: example_frags_def example_msgs_def fragment_of_def Let_def sub_range_def)

lemma example_pushes:
  "push_frags 4 4 example_frags (Reassembler_new, replicate 6 0) = example_state"
  by code_simp

lemma example_push_ok:
  "push_ok 4 4 example_frags (Reassembler_new, replicate 6 0) = Some example_state"
  by code_simp

definition encode_msg :: "8 word \<times> bytes \<Rightarrow> bytes" where
  "encode_msg m = fst m # be_bytes 3 (length (snd m)) @ snd m"

lemma complete_slot_message:
  assumes "reasm_ok max_msgs max_frags r arena" "s \<in> set (ra_slots r)" "slot_holds msgs arena s"
    "is_complete s"
  shows "slot_message arena s = encode_msg (msgs (sl_seq s))"
proof -
  define body where "body = snd (msgs (sl_seq s))"
  have s: "sl_msg_type s = fst (msgs (sl_seq s))" "sl_len s = length body"
    and eq: "\<And>x. x \<in> covered (sl_ranges s) \<Longrightarrow> arena ! (sl_off s + unat x) = body ! unat x"
    using assms(3) by (auto simp: slot_holds_def case_prod_beta body_def)
  note so = reasm_ok_slot [OF assms(1,2)]
  have all: "covered (sl_ranges s) = {x. unat x < sl_len s}"
    using is_complete_iff [OF so(3)] assms(4) by simp
  have "sub_range (sl_off s) (sl_off s + sl_len s) arena = body"
  proof (rule nth_equalityI)
    fix i
    assume "i < length (sub_range (sl_off s) (sl_off s + sl_len s) arena)"
    then have i: "i < sl_len s" by simp
    then have u: "unat (word_of_nat i :: 32 word) = i"
      using slot_okD(1) [OF so(3)] by (simp add: unat_of_nat)
    have "arena ! (sl_off s + unat (word_of_nat i :: 32 word)) = body ! unat (word_of_nat i :: 32 word)"
      by (rule eq) (simp add: all u i)
    with u i so(2) show "sub_range (sl_off s) (sl_off s + sl_len s) arena ! i = body ! i" by simp
  qed (use so(2) s(2) in simp)
  then show ?thesis
    by (simp add: slot_message_def encode_msg_def s be_bytes_numeral body_def flip: s(1) div_mult2_eq)
qed

lemma pushed_from_new:
  assumes "\<forall>f \<in> set fs. fragment_of msgs f"
    "push_frags max_msgs max_frags fs (Reassembler_new, arena) = (r, arena')"
  shows "reasm_ok max_msgs max_frags r arena' \<and> (\<forall>s \<in> set (ra_slots r). slot_holds msgs arena' s)"
  by (rule push_frags_preserves [OF reasm_ok_new _ assms]) (simp add: Reassembler_new_def)

lemma serialized_messages:
  assumes "\<forall>f \<in> set fs. fragment_of msgs f"
    and "push_frags max_msgs max_frags fs (Reassembler_new, arena) = (r, arena')"
  shows "serialize_flight r arena' out_len =
    (let out = concat (map (\<lambda>q. encode_msg (msgs q))
                 (sort (map sl_seq (filter is_complete (ra_slots r))))) in
     if length out \<le> out_len then Inr out else Inl ReasmArenaFull)"
proof -
  note inv = pushed_from_new [OF assms]
  have "map (slot_message arena') (sort_key sl_seq (filter is_complete (ra_slots r))) =
    map (\<lambda>s. encode_msg (msgs (sl_seq s))) (sort_key sl_seq (filter is_complete (ra_slots r)))"
    using inv complete_slot_message by (intro map_cong refl) auto
  also have "\<dots> = map (\<lambda>q. encode_msg (msgs q))
    (map sl_seq (sort_key sl_seq (filter is_complete (ra_slots r))))" by simp
  also have "map sl_seq (sort_key sl_seq (filter is_complete (ra_slots r))) =
    sort (map sl_seq (filter is_complete (ra_slots r)))"
    using inv by (intro map_sort_key_seq) (simp add: reasm_ok_def)
  finally show ?thesis using serialize_flight_sorted [of max_msgs max_frags r arena' out_len] inv by simp
qed

text \<open>C14: Whatever fragments of the sender's messages arrive, in any order and with any duplication
  and overlap, the serialised flight is the concatenation of the sender's messages, header and
  body, for exactly the complete message numbers in ascending order; it is refused only when
  it does not fit the output buffer.\<close>

theorem reassembly_delivers_messages:
  assumes "\<forall>f \<in> set fs. fragment_of msgs f"
    and "push_frags max_msgs max_frags fs (Reassembler_new, arena) = (r, arena')"
  shows "serialize_flight r arena' out_len =
    (let out = concat (map (\<lambda>q. encode_msg (msgs q))
                 (sort (map sl_seq (filter is_complete (ra_slots r))))) in
     if length out \<le> out_len then Inr out else Inl ReasmArenaFull)"
  by (rule serialized_messages [OF assms])

theorem reassembly_delivers_messages_witness:
  "serialize_flight (fst example_state) (snd example_state) 20 =
     Inr [8, 0, 0, 3, 1, 2, 3, 20, 0, 0, 2, 4, 5]"
proof -
  have st: "push_frags 4 4 example_frags (Reassembler_new, replicate 6 0) =
      (fst example_state, snd example_state)"
    using example_pushes by simp
  have "sort (map sl_seq (filter is_complete (ra_slots (fst example_state)))) = [1, 2]"
    by (simp add: example_state_def is_complete_def word_le_nat_alt)
  moreover have "concat (map (\<lambda>q. encode_msg (example_msgs q)) [1, 2]) =
      [8, 0, 0, 3, 1, 2, 3, 20, 0, 0, 2, 4, 5]"
    by (simp add: encode_msg_def example_msgs_def be_bytes_numeral)
  ultimately show ?thesis
    using reassembly_delivers_messages [OF example_frags_ok st, of 20] by simp
qed

text \<open>Completeness of reception: when every push succeeds and the pushed fragments of a non-empty
  message cover all its bytes, its slot is complete.\<close>

lemma covered_message_complete:
  assumes "\<forall>f \<in> set fs. fragment_of msgs f"
    and "push_ok max_msgs max_frags fs (Reassembler_new, arena) = Some (r, arena')"
    and "0 < length (snd (msgs q))"
    and "{x. unat x < length (snd (msgs q))} \<subseteq> (\<Union>f \<in> {f \<in> set fs. fr_seq f = q}. frag_range f)"
  shows "\<exists>s \<in> set (ra_slots r). sl_seq s = q \<and> is_complete s"
proof -
  have new: "\<forall>s \<in> set (ra_slots Reassembler_new). slot_holds msgs arena s"
    by (simp add: Reassembler_new_def)
  note got = push_ok_received [OF reasm_ok_new new assms(1,2)]
  have inv: "reasm_ok max_msgs max_frags r arena'" "\<forall>s \<in> set (ra_slots r). slot_holds msgs arena' s"
    using pushed_from_new [OF assms(1) conjunct1 [OF got]] by simp_all
  have "{x. unat x < length (snd (msgs q))} \<subseteq> received r q" using got [of q] assms(4) by blast
  moreover have "(0 :: 32 word) \<in> {x. unat x < length (snd (msgs q))}" using assms(3) by simp
  ultimately obtain s where s: "s \<in> set (ra_slots r)" "sl_seq s = q"
    unfolding received_def by blast
  have "received r q = covered (sl_ranges s)"
    using received_slot [of r s] inv(1) s by (simp add: reasm_ok_def)
  moreover have len: "sl_len s = length (snd (msgs q))"
    using inv(2) s by (auto simp: slot_holds_def case_prod_beta)
  moreover note so = reasm_ok_slot(3) [OF inv(1) s(1)]
  ultimately have "covered (sl_ranges s) = {x. unat x < sl_len s}"
    using \<open>{x. unat x < length (snd (msgs q))} \<subseteq> received r q\<close> covered_slot_bound [OF so] by auto
  then show ?thesis using s is_complete_iff [OF so] len assms(3) by auto
qed

text \<open>A message has arrived when it is not empty and every byte of it is in some fragment.\<close>

definition message_arrived :: "Fragment list \<Rightarrow> messages \<Rightarrow> 16 word \<Rightarrow> bool" where
  "message_arrived fs msgs q \<longleftrightarrow> snd (msgs q) \<noteq> [] \<and> (\<forall>i < length (snd (msgs q)).
     \<exists>f \<in> set fs. fr_seq f = q \<and> fr_off f \<le> i \<and> i < fr_off f + length (fr_body f))"

lemma in_frag_range:
  assumes "fragment_of msgs f"
  shows "x \<in> frag_range f \<longleftrightarrow> fr_off f \<le> unat x \<and> unat x < fr_off f + length (fr_body f)"
proof -
  have "fr_off f + length (fr_body f) < 2 ^ 32" using assms by (auto simp: fragment_of_def case_prod_beta Let_def)
  then have "unat (word_of_nat (fr_off f + length (fr_body f)) :: 32 word) = fr_off f + length (fr_body f)"
    "unat (word_of_nat (fr_off f) :: 32 word) = fr_off f" by (simp_all add: unat_of_nat del: of_nat_add)
  then show ?thesis unfolding frag_range_def by (simp only: atLeastLessThan_iff word_le_nat_alt word_less_nat_alt)
qed

lemma complete_iff_arrived:
  assumes "\<forall>f \<in> set fs. fragment_of msgs f"
    and "push_ok max_msgs max_frags fs (Reassembler_new, arena) = Some (r, arena')"
  shows "(\<exists>s \<in> set (ra_slots r). sl_seq s = q \<and> is_complete s) \<longleftrightarrow> message_arrived fs msgs q"
proof
  assume "\<exists>s \<in> set (ra_slots r). sl_seq s = q \<and> is_complete s"
  then obtain s where s: "s \<in> set (ra_slots r)" "sl_seq s = q" "is_complete s" by blast
  have new: "\<forall>s \<in> set (ra_slots Reassembler_new). slot_holds msgs arena s" by (simp add: Reassembler_new_def)
  note got = push_ok_received [OF reasm_ok_new new assms]
  have inv: "reasm_ok max_msgs max_frags r arena'" "\<forall>s \<in> set (ra_slots r). slot_holds msgs arena' s"
    using pushed_from_new [OF assms(1) conjunct1 [OF got]] by simp_all
  note so = reasm_ok_slot(3) [OF inv(1) s(1)]
  have len: "sl_len s = length (snd (msgs q))" using inv(2) s by (auto simp: slot_holds_def case_prod_beta)
  have cov: "covered (sl_ranges s) = {x. unat x < sl_len s}" "0 < sl_len s" using is_complete_iff [OF so] s(3) by simp_all
  have "received r q = covered (sl_ranges s)" using received_slot [of r s] inv(1) s by (simp add: reasm_ok_def)
  then have all: "{x. unat x < sl_len s} \<subseteq> (\<Union>f \<in> {f \<in> set fs. fr_seq f = q}. frag_range f)"
    using got [of q] cov(1) by (auto simp: received_def Reassembler_new_def)
  have "\<exists>f \<in> set fs. fr_seq f = q \<and> fr_off f \<le> i \<and> i < fr_off f + length (fr_body f)" if i: "i < sl_len s" for i
  proof -
    have u: "unat (word_of_nat i :: 32 word) = i" using i slot_okD(1) [OF so] by (simp add: unat_of_nat)
    then obtain f where "f \<in> set fs" "fr_seq f = q" "word_of_nat i \<in> frag_range f"
      using subsetD [OF all, of "word_of_nat i"] i by auto
    then show ?thesis using in_frag_range [of msgs f "word_of_nat i"] assms(1) u by auto
  qed
  then show "message_arrived fs msgs q" using cov(2) len by (auto simp: message_arrived_def)
next
  assume q: "message_arrived fs msgs q"
  have "{x. unat x < length (snd (msgs q))} \<subseteq> (\<Union>f \<in> {f \<in> set fs. fr_seq f = q}. frag_range f)"
    using q in_frag_range assms(1) by (fastforce simp: message_arrived_def)
  then show "\<exists>s \<in> set (ra_slots r). sl_seq s = q \<and> is_complete s"
    using covered_message_complete [OF assms] q by (simp add: message_arrived_def)
qed

lemma word_interval: "word_of_nat ` {unat base..<Suc (unat fin)} = {base..fin :: 16 word}"
proof
  show "word_of_nat ` {unat base..<Suc (unat fin)} \<subseteq> {base..fin}"
    using unsigned_less [of fin, where ?'a = nat] by (auto simp: word_le_nat_alt unat_of_nat)
  show "{base..fin} \<subseteq> word_of_nat ` {unat base..<Suc (unat fin)}"
    by (auto simp: word_le_nat_alt intro!: image_eqI [of _ _ "unat x" for x])
qed

lemma flight_complete_iff_arrived:
  assumes "\<forall>f \<in> set fs. fragment_of msgs f"
    and "push_ok max_msgs max_frags fs (Reassembler_new, arena) = Some (r, arena')"
    and fin: "\<And>q. fst (msgs q) = finished_type \<longleftrightarrow> q = fin"
  shows "flight_complete r base finished_type \<longleftrightarrow> base \<le> fin \<and> (\<forall>q \<in> {base..fin}. message_arrived fs msgs q)"
proof -
  have "push_frags max_msgs max_frags fs (Reassembler_new, arena) = (r, arena')"
    using push_ok_received [OF reasm_ok_new _ assms(1,2)] by (simp add: Reassembler_new_def)
  then have "\<forall>s \<in> set (ra_slots r). slot_holds msgs arena' s" using pushed_from_new [OF assms(1)] by blast
  then have ty: "sl_msg_type s = finished_type \<longleftrightarrow> sl_seq s = fin" if "s \<in> set (ra_slots r)" for s
    using that fin by (auto simp: slot_holds_def case_prod_beta)
  note arrived = complete_iff_arrived [OF assms(1,2)]
  have range: "(\<forall>n \<in> {unat base..<Suc (unat fin)}. message_arrived fs msgs (word_of_nat n)) \<longleftrightarrow> (\<forall>q \<in> {base..fin}. message_arrived fs msgs q)"
    by (simp flip: word_interval)
  show ?thesis
  proof (cases "find (\<lambda>s. sl_msg_type s = finished_type \<and> is_complete s) (ra_slots r)")
    case None
    then have "\<not> message_arrived fs msgs fin" using ty arrived [of fin] by (auto simp: find_None_iff)
    then show ?thesis using None by (auto simp: flight_complete_def)
  next
    case (Some s)
    then have s: "s \<in> set (ra_slots r)" "sl_msg_type s = finished_type" by (auto simp: find_Some_iff)
    then have "sl_seq s = fin" using ty by blast
    then show ?thesis using Some range arrived
      by (auto simp: flight_complete_def list_all_iff list_ex_iff not_less simp del: upt_Suc)
  qed
qed

lemma arrived_flight_order:
  assumes "reasm_ok max_msgs max_frags r arena"
    and "{q. \<exists>s \<in> set (ra_slots r). sl_seq s = q \<and> is_complete s} = {base..fin}"
  shows "sort (map sl_seq (filter is_complete (ra_slots r))) = map word_of_nat [unat base..<Suc (unat fin)]"
proof (rule sorted_distinct_set_unique)
  have small: "n < 2 ^ 16" if "n < Suc (unat fin)" for n using that unsigned_less [of fin, where ?'a = nat] by simp
  show "sorted (map word_of_nat [unat base..<Suc (unat fin)] :: 16 word list)"
    unfolding sorted_iff_nth_mono
  proof (intro allI impI)
    fix i j
    assume "i \<le> j" "j < length (map word_of_nat [unat base..<Suc (unat fin)] :: 16 word list)"
    then have "i \<le> j" "j < Suc (unat fin) - unat base" by (simp_all del: upt_Suc)
    then have ij: "unat base + i \<le> unat base + j" "unat base + j < Suc (unat fin)" by linarith+
    then have "unat (word_of_nat (unat base + i) :: 16 word) \<le> unat (word_of_nat (unat base + j) :: 16 word)"
      using small [of "unat base + i"] small [of "unat base + j"] by (simp add: unat_of_nat del: of_nat_add)
    then show "map word_of_nat [unat base..<Suc (unat fin)] ! i \<le> (map word_of_nat [unat base..<Suc (unat fin)] ! j :: 16 word)"
      using ij by (simp add: word_le_nat_alt del: upt_Suc of_nat_add)
  qed
  show "distinct (map word_of_nat [unat base..<Suc (unat fin)] :: 16 word list)"
    using small by (auto simp: distinct_map inj_on_def word_of_nat_eq_iff take_bit_nat_eq_self simp del: upt_Suc)
  have "distinct (map sl_seq (ra_slots r))" using assms(1) by (simp add: reasm_ok_def)
  then show "distinct (sort (map sl_seq (filter is_complete (ra_slots r))))" by (simp add: distinct_map inj_on_def)
  have "set (map sl_seq (filter is_complete (ra_slots r))) = {base..fin}" unfolding assms(2) [symmetric] by auto
  moreover have "set (map word_of_nat [unat base..<Suc (unat fin)]) = {base..fin}"
    using word_interval [of base fin] by (simp del: upt_Suc)
  ultimately show "set (sort (map sl_seq (filter is_complete (ra_slots r)))) = set (map word_of_nat [unat base..<Suc (unat fin)])" by simp
qed simp

text \<open>C31: The reassembler reports a flight complete exactly when it is.  After any fragments of the sender's messages
  were accepted, in any order and with any overlap, the flight from \<^verbatim>\<open>base_seq\<close> on is reported complete just in
  case every message from there to the Finished is non-empty and each of its bytes was in some fragment; and
  when no other message was sent, what is then delivered is the flight, message by message in order.\<close>

theorem flight_complete_exact:
  assumes "\<forall>f \<in> set fs. fragment_of msgs f"
    and "push_ok max_msgs max_frags fs (Reassembler_new, arena) = Some (r, arena')"
    and "\<And>q. fst (msgs q) = finished_type \<longleftrightarrow> q = fin"
  shows "(flight_complete r base finished_type \<longleftrightarrow> base \<le> fin \<and> (\<forall>q \<in> {base..fin}. message_arrived fs msgs q)) \<and>
    (flight_complete r base finished_type \<and> (\<forall>f \<in> set fs. fr_seq f \<in> {base..fin}) \<longrightarrow>
      (let flight = concat (map (\<lambda>n. encode_msg (msgs (word_of_nat n))) [unat base..<Suc (unat fin)]) in
       serialize_flight r arena' out_len = (if length flight \<le> out_len then Inr flight else Inl ReasmArenaFull)))"
proof (intro conjI impI)
  show iff: "flight_complete r base finished_type \<longleftrightarrow> base \<le> fin \<and> (\<forall>q \<in> {base..fin}. message_arrived fs msgs q)"
    by (rule flight_complete_iff_arrived [OF assms])
  assume c: "flight_complete r base finished_type \<and> (\<forall>f \<in> set fs. fr_seq f \<in> {base..fin})"
  have push: "push_frags max_msgs max_frags fs (Reassembler_new, arena) = (r, arena')"
    using push_ok_received [OF reasm_ok_new _ assms(1,2)] by (simp add: Reassembler_new_def)
  have "{q. message_arrived fs msgs q} = {base..fin}"
    using iff c by (fastforce simp: message_arrived_def)
  then have "{q. \<exists>s \<in> set (ra_slots r). sl_seq s = q \<and> is_complete s} = {base..fin}"
    by (simp add: complete_iff_arrived [OF assms(1,2)])
  from arrived_flight_order [OF conjunct1 [OF pushed_from_new [OF assms(1) push]] this]
  show "let flight = concat (map (\<lambda>n. encode_msg (msgs (word_of_nat n))) [unat base..<Suc (unat fin)]) in
       serialize_flight r arena' out_len = (if length flight \<le> out_len then Inr flight else Inl ReasmArenaFull)"
    using serialized_messages [OF assms(1) push, of out_len] by (simp add: o_def Let_def del: upt_Suc)
qed

definition example_flight :: messages where
  "example_flight = (\<lambda>q. if q = 1 then (8, [1, 2, 3]) else if q = 2 then (20, [4, 5]) else (0, []))"

theorem flight_complete_exact_witness:
  "flight_complete (fst example_state) 1 20 \<and> message_arrived example_frags example_flight 1 \<and>
   serialize_flight (fst example_state) (snd example_state) 20 = Inr [8, 0, 0, 3, 1, 2, 3, 20, 0, 0, 2, 4, 5]"
proof -
  have frags: "\<forall>f \<in> set example_frags. fragment_of example_flight f" "\<forall>f \<in> set example_frags. fr_seq f \<in> {1..2}"
    by (simp_all add: example_frags_def example_flight_def fragment_of_def Let_def sub_range_def word_le_nat_alt)
  have push: "push_ok 4 4 example_frags (Reassembler_new, replicate 6 0) = Some (fst example_state, snd example_state)"
    using example_push_ok by simp
  have "fst (example_flight q) = 20 \<longleftrightarrow> q = 2" for q by (simp add: example_flight_def)
  note exact = flight_complete_exact [OF frags(1) push this, of 1 20]
  have c: "flight_complete (fst example_state) 1 20" by code_simp
  have "concat (map (\<lambda>n. encode_msg (example_flight (word_of_nat n))) [unat (1 :: 16 word)..<Suc (unat (2 :: 16 word))]) =
      [8, 0, 0, 3, 1, 2, 3, 20, 0, 0, 2, 4, 5]"
    by (simp add: upt_rec encode_msg_def example_flight_def be_bytes_numeral)
  then have "serialize_flight (fst example_state) (snd example_state) 20 = Inr [8, 0, 0, 3, 1, 2, 3, 20, 0, 0, 2, 4, 5]"
    using exact c frags(2) by (simp add: Let_def del: upt_Suc)
  moreover have "message_arrived example_frags example_flight 1" using exact c by auto
  ultimately show ?thesis using c by simp
qed

text \<open>A message of length zero has an empty range set for ever, so it is never complete.\<close>

lemma empty_message_never_complete:
  assumes "reasm_ok max_msgs max_frags r arena" "s \<in> set (ra_slots r)" "sl_len s = 0"
  shows "\<not> is_complete s"
  using is_complete_iff [OF reasm_ok_slot(3) [OF assms(1,2)]] assms(3) by simp

end
