(* ===== verification/Ack.thy ===== *)
theory Ack
  imports Krabi_Prelude
begin

text \<open>
  The ACK records of \<^verbatim>\<open>dtls/ack.rs\<close>: a list of (epoch, sequence number) pairs, written either
  from a slice or from a 128-bit bitmap of received sequence numbers, and read back by an
  iterator over 16-byte entries.  A writer returns the bytes it has put at the front of its
  output buffer; the usize the source returns is their number.
\<close>

unbundle bit_operations_syntax

datatype AckError = AckBufferTooSmall | AckTooMany | AckMalformed

definition RECORD_NUMBER_LEN :: nat where
  "RECORD_NUMBER_LEN = 16"

definition MAX_ACK_RECORDS :: nat where
  "MAX_ACK_RECORDS = 128"

definition MAX_ACK_BODY_LEN :: nat where
  "MAX_ACK_BODY_LEN = 2 + MAX_ACK_RECORDS * RECORD_NUMBER_LEN"

definition record_number :: "64 word \<times> 64 word \<Rightarrow> bytes" where
  "record_number r = to_be_bytes (fst r) @ to_be_bytes (snd r)"

definition write_ack :: "(64 word \<times> 64 word) list \<Rightarrow> bytes \<Rightarrow> AckError + bytes" where
  "write_ack records out =
     (let list_len = length records * RECORD_NUMBER_LEN in
      if list_len > 0xFFFF then Inl AckTooMany
      else
        let total = 2 + list_len in
        if length out < total then Inl AckBufferTooSmall
        else Inr (to_be_bytes (word_of_nat list_len :: 16 word) @ concat (map record_number records)))"

definition count_ones :: "'a::len word \<Rightarrow> nat" where
  "count_ones w = length (filter (bit w) [0..<LENGTH('a)])"

definition trailing_zeros :: "'a::len word \<Rightarrow> nat" where
  "trailing_zeros w = length (takeWhile (\<lambda>i. \<not> bit w i) [0..<LENGTH('a)])"

section \<open>Clearing the lowest set bit\<close>

lemma takeWhile_upt_first:
  "(\<exists>i < n. P i) \<Longrightarrow>
   let k = length (takeWhile (\<lambda>i. \<not> P i) [0..<n]) in k < n \<and> P k \<and> (\<forall>j < k. \<not> P j)"
proof -
  define k where "k = length (takeWhile (\<lambda>i. \<not> P i) [0..<n])"
  assume "\<exists>i < n. P i"
  then have "takeWhile (\<lambda>i. \<not> P i) [0..<n] \<noteq> [0..<n]"
    by auto
  then have "k < n"
    unfolding k_def using length_takeWhile_le [of "\<lambda>i. \<not> P i" "[0..<n]"]
    by (metis diff_zero length_upt nat_less_le takeWhile_eq_take take_all_iff)
  moreover have "P ([0..<n] ! k)"
    using nth_length_takeWhile [of "\<lambda>i. \<not> P i" "[0..<n]"] \<open>k < n\<close> by (simp add: k_def)
  moreover have "\<not> P j" if "j < k" for j
    using that \<open>k < n\<close> nth_mem [of j "takeWhile (\<lambda>i. \<not> P i) [0..<n]"]
      takeWhile_nth [of j "\<lambda>i. \<not> P i" "[0..<n]"]
    by (auto simp: k_def dest: set_takeWhileD)
  ultimately show ?thesis by (simp add: k_def [symmetric] Let_def)
qed

lemma trailing_zeros_props:
  assumes "w \<noteq> 0"
  shows "trailing_zeros w < LENGTH('a)" "bit w (trailing_zeros w)"
    "j < trailing_zeros w \<Longrightarrow> \<not> bit (w :: 'a::len word) j"
proof -
  have "\<exists>i < LENGTH('a). bit w i"
    using assms by (metis bit_word_eqI bit_0_eq bot_apply bot_bool_def)
  from takeWhile_upt_first [OF this]
  show "trailing_zeros w < LENGTH('a)" "bit w (trailing_zeros w)"
    "j < trailing_zeros w \<Longrightarrow> \<not> bit w j"
    by (auto simp: trailing_zeros_def Let_def)
qed

lemma bit_clear_lowest:
  assumes "w \<noteq> 0"
  shows "bit (w AND (w - 1)) i \<longleftrightarrow> bit (w :: 'a::len word) i \<and> i \<noteq> trailing_zeros w"
proof -
  define n where "n = trailing_zeros w"
  define m where "m = Suc n"
  define h where "h = push_bit m (drop_bit m w)"
  have "bit h j \<longleftrightarrow> m \<le> j \<and> bit w j" for j
    by (auto simp: h_def bit_simps dest: bit_imp_le_length)
  then have h: "bit h j \<longleftrightarrow> n < j \<and> bit w j" for j by (simp add: m_def Suc_le_eq)
  have "h + push_bit n 1 = h OR push_bit n 1"
    by (rule disjunctive_add) (auto simp: h bit_simps)
  also have "\<dots> = w"
  proof (rule bit_word_eqI)
    fix j
    assume "j < LENGTH('a)"
    then show "bit (h OR push_bit n 1) j = bit w j"
      using trailing_zeros_props [OF assms] by (cases j n rule: linorder_cases) (auto simp: n_def h bit_simps)
  qed
  finally have "w - 1 = h + mask n" by (simp add: mask_eq_decr_exp algebra_simps flip: \<open>_ = w\<close>)
  also have "\<dots> = h OR mask n"
    by (rule disjunctive_add) (auto simp: h bit_simps)
  finally show ?thesis
    using trailing_zeros_props [OF assms]
    by (cases i n rule: linorder_cases) (auto simp: n_def h bit_simps)
qed

lemma sorted_filter_bit: "sorted_wrt (<) (filter (bit w) [0..<n])"
  by (intro sorted_wrt_filter sorted_wrt_upt)

lemma filter_bit_step:
  assumes "(w :: 'a::len word) \<noteq> 0"
  shows "filter (bit w) [0..<LENGTH('a)] =
    trailing_zeros w # filter (bit (w AND (w - 1))) [0..<LENGTH('a)]" (is "_ = ?t # ?r")
proof -
  have clear: "bit (w AND (w - 1)) i \<longleftrightarrow> bit w i \<and> i \<noteq> trailing_zeros w" for i
    by (rule bit_clear_lowest [OF assms])
  have "sorted_wrt (<) (?t # ?r)"
    using sorted_filter_bit trailing_zeros_props [OF assms] by (auto simp: clear) (meson linorder_neqE_nat)
  moreover have "set (?t # ?r) = set (filter (bit w) [0..<LENGTH('a)])"
    using trailing_zeros_props [OF assms] by (auto simp: clear)
  ultimately show ?thesis
    using sorted_filter_bit [of w "LENGTH('a)"]
    by (intro sorted_distinct_set_unique) (auto simp: strict_sorted_iff)
qed

lemma count_ones_step: "w \<noteq> 0 \<Longrightarrow> count_ones w = Suc (count_ones (w AND (w - 1)))"
  by (simp add: count_ones_def filter_bit_step)

function ack_bitmap_loop :: "64 word \<Rightarrow> 128 word \<Rightarrow> bytes \<Rightarrow> bytes" where
  "ack_bitmap_loop epoch bits acc =
     (if bits \<noteq> 0 then
        ack_bitmap_loop epoch (bits AND (bits - 1))
          (acc @ to_be_bytes epoch @ to_be_bytes (word_of_nat (trailing_zeros bits) :: 64 word))
      else acc)"
  by pat_completeness auto
termination
  by (relation "measure (\<lambda>(_, bits, _). count_ones bits)") (auto simp: count_ones_step)

declare ack_bitmap_loop.simps [simp del]

definition write_ack_bitmap :: "64 word \<Rightarrow> 128 word \<Rightarrow> bytes \<Rightarrow> AckError + bytes" where
  "write_ack_bitmap epoch seqs out =
     (let list_len = count_ones seqs * RECORD_NUMBER_LEN;
          total = 2 + list_len
      in if length out < total then Inl AckBufferTooSmall
         else Inr (ack_bitmap_loop epoch seqs (to_be_bytes (word_of_nat list_len :: 16 word))))"

definition parse_ack :: "bytes \<Rightarrow> AckError + bytes" where
  "parse_ack body =
     rbind (ok_or AckMalformed (get_range 0 2 body)) (\<lambda>len_bytes.
     let list_len = unat (from_be_bytes len_bytes :: 16 word) in
     rbind (ok_or AckMalformed (get_range 2 (2 + list_len) body)) (\<lambda>entries.
     if \<not> RECORD_NUMBER_LEN dvd length entries then Inl AckMalformed else Inr entries))"

definition AckRecords_next :: "bytes \<Rightarrow> nat \<Rightarrow> ((64 word \<times> 64 word) \<times> nat) option" where
  "AckRecords_next entries pos =
     (case get_range pos (pos + RECORD_NUMBER_LEN) entries of
        None \<Rightarrow> None
      | Some chunk \<Rightarrow>
          Some ((from_be_bytes (take 8 chunk), from_be_bytes (sub_range 8 16 chunk)),
                pos + RECORD_NUMBER_LEN))"

function AckRecords_collect :: "bytes \<Rightarrow> nat \<Rightarrow> (64 word \<times> 64 word) list" where
  "AckRecords_collect entries pos =
     (case AckRecords_next entries pos of
        None \<Rightarrow> []
      | Some (r, pos') \<Rightarrow> r # AckRecords_collect entries pos')"
  by pat_completeness auto
termination
  by (relation "measure (\<lambda>(entries, pos). length entries - pos)")
    (auto simp: AckRecords_next_def get_range_def RECORD_NUMBER_LEN_def split: option.splits if_splits)

declare AckRecords_collect.simps [simp del]

section \<open>Properties\<close>

lemma ack_bitmap_loop_eq:
  "ack_bitmap_loop epoch bits acc =
     acc @ concat (map (\<lambda>i. record_number (epoch, word_of_nat i)) (filter (bit bits) [0..<128]))"
proof (induction epoch bits acc rule: ack_bitmap_loop.induct)
  case (1 epoch bits acc)
  show ?case
  proof (cases "bits = 0")
    case True
    then show ?thesis by (simp add: ack_bitmap_loop.simps)
  next
    case False
    have "filter (bit bits) [0..<128] = trailing_zeros bits # filter (bit (bits AND (bits - 1))) [0..<128]"
      using filter_bit_step [OF False] by simp
    then show ?thesis
      using 1 False by (simp add: ack_bitmap_loop.simps [of epoch bits] record_number_def)
  qed
qed

lemma write_ack_bitmap_eq:
  "write_ack_bitmap epoch seqs out =
     write_ack (map (\<lambda>i. (epoch, word_of_nat i)) (filter (bit seqs) [0..<128])) out"
proof -
  have "count_ones seqs \<le> 128"
    using length_filter_le [of "bit seqs" "[0..<128]"] by (simp add: count_ones_def)
  moreover have "count_ones seqs = length (filter (bit seqs) [0..<128])"
    by (simp add: count_ones_def)
  ultimately show ?thesis
    by (simp add: write_ack_bitmap_def write_ack_def Let_def ack_bitmap_loop_eq RECORD_NUMBER_LEN_def
        comp_def del: upt_rec_numeral)
qed

text \<open>The bitmap writer, which peels off the lowest set bit of a 128-bit word at a time, writes
  the same ACK as the list writer on the set positions in ascending order, and fails only when
  the output buffer is too small for it.\<close>

lemma ack_bitmap_is_list:
  "write_ack_bitmap epoch seqs out =
     write_ack (map (\<lambda>i. (epoch, word_of_nat i)) (filter (bit seqs) [0..<128])) out"
  by (rule write_ack_bitmap_eq)

lemma length_record_number [simp]: "length (record_number r) = 16"
  by (simp add: record_number_def)

lemma AckRecords_collect_step:
  assumes "length pre = pos" 
  shows "AckRecords_collect (pre @ record_number r @ rest) pos =
    r # AckRecords_collect (pre @ record_number r @ rest) (pos + 16)"
proof -
  have "sub_range pos (pos + 16) (pre @ record_number r @ rest) = record_number r"
    using assms by (simp add: sub_range_def)
  moreover have "from_be_bytes (take 8 (record_number r)) = fst r"
    "from_be_bytes (sub_range 8 16 (record_number r)) = snd r"
    by (simp_all add: record_number_def from_to_be_bytes)
  ultimately have "AckRecords_next (pre @ record_number r @ rest) pos = Some (r, pos + 16)"
    using assms by (simp add: AckRecords_next_def get_range_def RECORD_NUMBER_LEN_def)
  then show ?thesis by (simp add: AckRecords_collect.simps [of _ pos])
qed

lemma AckRecords_collect_end: "AckRecords_collect es (length es) = []"
  by (simp add: AckRecords_collect.simps [of es] AckRecords_next_def get_range_def RECORD_NUMBER_LEN_def)

lemma AckRecords_collect_all:
  "length pre = pos \<Longrightarrow> AckRecords_collect (pre @ concat (map record_number rs)) pos = rs"
proof (induction rs arbitrary: pre pos)
  case Nil
  then show ?case using AckRecords_collect_end [of pre] by simp
next
  case (Cons r rs)
  have "AckRecords_collect ((pre @ record_number r) @ concat (map record_number rs)) (pos + 16) = rs"
    using Cons.prems by (intro Cons.IH) simp
  then show ?case using AckRecords_collect_step [OF Cons.prems, of r] by simp
qed

lemma length_concat_record_number: "length (concat (map record_number rs)) = 16 * length rs"
  by (induction rs) simp_all

text \<open>The buffer of the largest body takes every bitmap.\<close>

lemma ack_fits: "\<exists>body. write_ack_bitmap epoch seqs (replicate MAX_ACK_BODY_LEN 0) = Inr body \<and> length body \<le> MAX_ACK_BODY_LEN"
proof -
  define rs where "rs = map (\<lambda>i. (epoch, word_of_nat i :: 64 word)) (filter (bit seqs) [0..<128])"
  have "length rs \<le> 128" using length_filter_le [of "bit seqs" "[0..<128]"] by (simp add: rs_def del: upt_rec_numeral)
  then show ?thesis unfolding write_ack_bitmap_eq rs_def [symmetric]
    by (simp add: write_ack_def MAX_ACK_BODY_LEN_def MAX_ACK_RECORDS_def RECORD_NUMBER_LEN_def length_concat_record_number)
qed

text \<open>Every list of record numbers the writer accepts is read back entry by entry, whatever
  follows the ACK body.\<close>

lemma ack_round_trip:
  assumes "write_ack records out = Inr body"
  shows "\<exists>entries. parse_ack (body @ rest) = Inr entries \<and> AckRecords_collect entries 0 = records"
proof -
  define n where "n = 16 * length records"
  define hdr where "hdr = to_be_bytes (word_of_nat n :: 16 word)"
  define es where "es = concat (map record_number records)"
  have n: "n < 2 ^ 16" and body: "body = hdr @ es"
    using assms by (auto simp: write_ack_def Let_def RECORD_NUMBER_LEN_def n_def hdr_def es_def
        mult.commute split: if_splits)
  have len: "length hdr = 2" "length es = n"
    by (simp_all add: hdr_def es_def n_def length_concat_record_number)
  have "unat (from_be_bytes hdr :: 16 word) = n"
    using n by (simp add: hdr_def from_to_be_bytes unat_of_nat)
  moreover have "get_range 0 2 (body @ rest) = Some hdr"
    "get_range 2 (2 + n) (body @ rest) = Some es"
    by (simp_all add: body len get_range_def)
  moreover have "RECORD_NUMBER_LEN dvd length es" by (simp add: len n_def RECORD_NUMBER_LEN_def)
  ultimately have "parse_ack (body @ rest) = Inr es" by (simp add: parse_ack_def Let_def)
  moreover have "AckRecords_collect es 0 = records"
    using AckRecords_collect_all [of "[]" 0 records] by (simp add: es_def)
  ultimately show ?thesis by blast
qed

end
