(* ===== verification/Tls_Consts.thy ===== *)
theory Tls_Consts
  imports Krabi_Prelude
begin

text \<open>
  The protocol constants of the module \<^verbatim>\<open>consts\<close> in \<^verbatim>\<open>lib.rs\<close>: content types, handshake
  types, versions, suites, groups, signature schemes, extension types and the two special
  values of \<^verbatim>\<open>ServerHello.random\<close>.  The collection \<^verbatim>\<open>tls_consts\<close> unfolds them.
\<close>

named_theorems tls_consts

definition CT_HANDSHAKE :: "8 word" where
  [tls_consts]: "CT_HANDSHAKE = 22"

definition CT_APPLICATION_DATA :: "8 word" where
  [tls_consts]: "CT_APPLICATION_DATA = 23"

definition CT_ALERT :: "8 word" where
  [tls_consts]: "CT_ALERT = 21"

definition CT_ACK :: "8 word" where
  [tls_consts]: "CT_ACK = 26"

definition CT_CHANGE_CIPHER_SPEC :: "8 word" where
  [tls_consts]: "CT_CHANGE_CIPHER_SPEC = 0x14"

definition CLOSE_NOTIFY_ALERT :: "bytes" where
  [tls_consts]: "CLOSE_NOTIFY_ALERT = [0x01, 0x00]"

definition LEGACY_VERSION :: "16 word" where
  [tls_consts]: "LEGACY_VERSION = 0x0303"

definition TLS_1_3 :: "16 word" where
  [tls_consts]: "TLS_1_3 = 0x0304"

definition LEGACY_SESSION_ID_LEN :: "nat" where
  [tls_consts]: "LEGACY_SESSION_ID_LEN = 32"

definition HS_CLIENT_HELLO :: "8 word" where
  [tls_consts]: "HS_CLIENT_HELLO = 1"

definition HS_SERVER_HELLO :: "8 word" where
  [tls_consts]: "HS_SERVER_HELLO = 2"

definition HS_NEW_SESSION_TICKET :: "8 word" where
  [tls_consts]: "HS_NEW_SESSION_TICKET = 4"

definition HS_ENCRYPTED_EXTENSIONS :: "8 word" where
  [tls_consts]: "HS_ENCRYPTED_EXTENSIONS = 8"

definition HS_CERTIFICATE_REQUEST :: "8 word" where
  [tls_consts]: "HS_CERTIFICATE_REQUEST = 13"

definition HS_CERTIFICATE :: "8 word" where
  [tls_consts]: "HS_CERTIFICATE = 11"

definition HS_CERTIFICATE_VERIFY :: "8 word" where
  [tls_consts]: "HS_CERTIFICATE_VERIFY = 15"

definition HS_FINISHED :: "8 word" where
  [tls_consts]: "HS_FINISHED = 20"

definition HS_KEY_UPDATE :: "8 word" where
  [tls_consts]: "HS_KEY_UPDATE = 24"

definition CONTENT_TYPE_LEN :: "nat" where
  [tls_consts]: "CONTENT_TYPE_LEN = 1"

definition CIPHER_AES_128_GCM_SHA256 :: "16 word" where
  [tls_consts]: "CIPHER_AES_128_GCM_SHA256 = 0x1301"

definition CIPHER_CHACHA20_POLY1305_SHA256 :: "16 word" where
  [tls_consts]: "CIPHER_CHACHA20_POLY1305_SHA256 = 0x1303"

definition NAMED_GROUP_X25519 :: "16 word" where
  [tls_consts]: "NAMED_GROUP_X25519 = 0x001D"

definition NAMED_GROUP_SECP256R1 :: "16 word" where
  [tls_consts]: "NAMED_GROUP_SECP256R1 = 0x0017"

definition NAMED_GROUP_X25519MLKEM768 :: "16 word" where
  [tls_consts]: "NAMED_GROUP_X25519MLKEM768 = 0x11EC"

definition SIG_SCHEME_ED25519 :: "16 word" where
  [tls_consts]: "SIG_SCHEME_ED25519 = 0x0807"

definition SIG_SCHEME_ECDSA_P256 :: "16 word" where
  [tls_consts]: "SIG_SCHEME_ECDSA_P256 = 0x0403"

definition SIG_SCHEME_ECDSA_P384 :: "16 word" where
  [tls_consts]: "SIG_SCHEME_ECDSA_P384 = 0x0503"

definition SIG_SCHEME_RSA_PSS_RSAE_SHA256 :: "16 word" where
  [tls_consts]: "SIG_SCHEME_RSA_PSS_RSAE_SHA256 = 0x0804"

definition SIG_SCHEME_MLDSA44 :: "16 word" where
  [tls_consts]: "SIG_SCHEME_MLDSA44 = 0x0904"

definition SIG_SCHEME_MLDSA65 :: "16 word" where
  [tls_consts]: "SIG_SCHEME_MLDSA65 = 0x0905"

definition SIG_SCHEME_MLDSA87 :: "16 word" where
  [tls_consts]: "SIG_SCHEME_MLDSA87 = 0x0906"

definition EXT_SERVER_NAME :: "16 word" where
  [tls_consts]: "EXT_SERVER_NAME = 0"

definition EXT_SUPPORTED_GROUPS :: "16 word" where
  [tls_consts]: "EXT_SUPPORTED_GROUPS = 10"

definition EXT_SIGNATURE_ALGORITHMS :: "16 word" where
  [tls_consts]: "EXT_SIGNATURE_ALGORITHMS = 13"

definition EXT_RECORD_SIZE_LIMIT :: "16 word" where
  [tls_consts]: "EXT_RECORD_SIZE_LIMIT = 28"

definition EXT_SUPPORTED_VERSIONS :: "16 word" where
  [tls_consts]: "EXT_SUPPORTED_VERSIONS = 43"

definition EXT_KEY_SHARE :: "16 word" where
  [tls_consts]: "EXT_KEY_SHARE = 51"

definition EXT_ALPN :: "16 word" where
  [tls_consts]: "EXT_ALPN = 16"

definition SNI_NAME_TYPE_HOST_NAME :: "8 word" where
  [tls_consts]: "SNI_NAME_TYPE_HOST_NAME = 0"

definition HRR_RANDOM :: bytes where
  "HRR_RANDOM =
     [0xCF, 0x21, 0xAD, 0x74, 0xE5, 0x9A, 0x61, 0x11, 0xBE, 0x1D, 0x8C, 0x02, 0x1E, 0x65, 0xB8,
      0x91, 0xC2, 0xA2, 0x11, 0x16, 0x7A, 0xBB, 0x8C, 0x5E, 0x07, 0x9E, 0x09, 0xE2, 0xC8, 0xA8,
      0x33, 0x9C]"

definition DOWNGRADE_TLS12 :: bytes where
  "DOWNGRADE_TLS12 = [0x44, 0x4F, 0x57, 0x4E, 0x47, 0x52, 0x44, 0x01]"

definition DOWNGRADE_TLS11_OR_BELOW :: bytes where
  "DOWNGRADE_TLS11_OR_BELOW = [0x44, 0x4F, 0x57, 0x4E, 0x47, 0x52, 0x44, 0x00]"

end
