(* ===== verification/Aead.thy ===== *)
theory Aead
  imports Tls_Consts
begin

text \<open>
  The TLS 1.3 record protection of \<^verbatim>\<open>aead.rs\<close>: the per-record nonce, sealing a plaintext
  into an \<^verbatim>\<open>application_data\<close> record, opening a record in place, and splitting the inner
  plaintext.  The cipher itself (AES-GCM, ChaCha20-Poly1305 or a hardware AEAD) is the
  parameter \<^verbatim>\<open>AeadCipher\<close>; what the record layer relies on is \<^verbatim>\<open>aead_correct\<close>.
\<close>

unbundle bit_operations_syntax

section \<open>Model\<close>

text \<open>The detached in-place AEAD: encryption returns the ciphertext and the tag, decryption the
  plaintext; \<^verbatim>\<open>None\<close> is the error.\<close>

record AeadCipher =
  encrypt_inout_detached :: "bytes \<Rightarrow> bytes \<Rightarrow> bytes \<Rightarrow> bytes \<Rightarrow> (bytes \<times> bytes) option"
  decrypt_inout_detached :: "bytes \<Rightarrow> bytes \<Rightarrow> bytes \<Rightarrow> bytes \<Rightarrow> bytes \<Rightarrow> bytes option"

definition aead_correct :: "AeadCipher \<Rightarrow> bool" where
  "aead_correct c \<longleftrightarrow>
     (\<forall>key nonce aad p ct tag.
        encrypt_inout_detached c key nonce aad p = Some (ct, tag) \<longrightarrow>
        length ct = length p \<and> length tag = 16 \<and>
        decrypt_inout_detached c key nonce aad ct tag = Some p)"

datatype EncryptError = EncBufferTooSmall nat nat | EncRecordTooLarge | EncAeadFailed

datatype DecryptError =
    DecTruncated
  | DecRecordTooLarge
  | DecTrailingBytes
  | DecUnexpectedContentType "8 word"
  | DecUnexpectedLegacyVersion "16 word"
  | DecBufferTooSmall nat nat
  | DecAeadFailed
  | DecEmptyInnerPlaintext

record RecordKeys =
  rk_key :: bytes
  rk_iv :: bytes

definition AEAD_TAG_LEN :: nat where
  "AEAD_TAG_LEN = 16"

definition TLS_PLAINTEXT_MAX :: nat where
  "TLS_PLAINTEXT_MAX = 2 ^ 14"

definition TLS_CIPHERTEXT_MAX :: nat where
  "TLS_CIPHERTEXT_MAX = 2 ^ 14 + 256"

text \<open>\<^verbatim>\<open>for (n, s) in xs.iter_mut().zip(ms) { *n ^= s }\<close>\<close>

fun xor_into :: "bytes \<Rightarrow> bytes \<Rightarrow> bytes" where
  "xor_into (x # xs) (m # ms) = (x XOR m) # xor_into xs ms"
| "xor_into [] ms = []"
| "xor_into xs [] = xs"

definition aead_nonce :: "bytes \<Rightarrow> 64 word \<Rightarrow> bytes" where
  "aead_nonce iv seq = take 4 iv @ xor_into (drop 4 iv) (to_be_bytes seq)"

definition run_decrypt ::
  "AeadCipher \<Rightarrow> bytes \<Rightarrow> bytes \<Rightarrow> bytes \<Rightarrow> bytes \<Rightarrow> bytes \<Rightarrow> bytes option" where
  "run_decrypt c key nonce aad buffer tag = decrypt_inout_detached c key nonce aad buffer tag"

definition run_encrypt ::
  "AeadCipher \<Rightarrow> bytes \<Rightarrow> bytes \<Rightarrow> bytes \<Rightarrow> bytes \<Rightarrow> (bytes \<times> bytes) option" where
  "run_encrypt c key nonce aad buffer = encrypt_inout_detached c key nonce aad buffer"

text \<open>The record after the call is returned also on failure: a failed authentication leaves the
  plaintext region zeroed.\<close>

definition decrypt_record_inplace_with ::
  "bytes \<Rightarrow> bytes \<Rightarrow> 64 word \<Rightarrow> (bytes \<Rightarrow> bytes \<Rightarrow> bytes \<Rightarrow> bytes \<Rightarrow> bytes option) \<Rightarrow>
   bytes \<times> (DecryptError + nat)" where
  "decrypt_record_inplace_with record iv seq aead_decrypt =
     (if length record < 5 then (record, Inl DecTruncated)
      else if record ! 0 \<noteq> CT_APPLICATION_DATA
      then (record, Inl (DecUnexpectedContentType (record ! 0)))
      else if from_be_bytes [record ! 1, record ! 2] \<noteq> LEGACY_VERSION
      then (record, Inl (DecUnexpectedLegacyVersion (from_be_bytes [record ! 1, record ! 2])))
      else
        let body_len = unat (from_be_bytes [record ! 3, record ! 4] :: 16 word) in
        if body_len > TLS_CIPHERTEXT_MAX then (record, Inl DecRecordTooLarge)
        else if length record < 5 + body_len then (record, Inl DecTruncated)
        else if length record \<noteq> 5 + body_len then (record, Inl DecTrailingBytes)
        else if body_len < 16 then (record, Inl DecTruncated)
        else
          let ct_len = body_len - 16;
              header = take 5 record;
              ciphertext = sub_range 5 (5 + ct_len) record;
              tag = drop (5 + ct_len) record
          in case aead_decrypt (aead_nonce iv seq) header ciphertext tag of
               Some plaintext \<Rightarrow> (header @ plaintext @ tag, Inr ct_len)
             | None \<Rightarrow> (header @ replicate ct_len 0 @ tag, Inl DecAeadFailed))"

fun split_scan :: "nat \<Rightarrow> bytes \<Rightarrow> nat \<times> 8 word \<Rightarrow> nat \<times> 8 word" where
  "split_scan i [] st = st"
| "split_scan i (b # bs) (last_nonzero_plus_one, content_type) =
     (let is_nonzero = (b \<noteq> 0) in
      split_scan (i + 1) bs
        (if is_nonzero then i + 1 else last_nonzero_plus_one,
         if is_nonzero then b else content_type))"

definition split_inner_plaintext :: "bytes \<Rightarrow> DecryptError + bytes \<times> 8 word" where
  "split_inner_plaintext inner =
     (if length inner > TLS_CIPHERTEXT_MAX then Inl DecRecordTooLarge
      else
        let (end_pos, content_type) = split_scan 0 inner (0, 0) in
        if end_pos = 0 then Inl DecEmptyInnerPlaintext
        else if end_pos - 1 > TLS_PLAINTEXT_MAX then Inl DecRecordTooLarge
        else Inr (take (end_pos - 1) inner, content_type))"

definition encrypt_record_with ::
  "bytes \<Rightarrow> 8 word \<Rightarrow> bytes \<Rightarrow> 64 word \<Rightarrow> bytes \<Rightarrow>
   (bytes \<Rightarrow> bytes \<Rightarrow> bytes \<Rightarrow> (bytes \<times> bytes) option) \<Rightarrow> EncryptError + bytes" where
  "encrypt_record_with content content_type iv seq out_buf aead_encrypt =
     (if length content > TLS_PLAINTEXT_MAX then Inl EncRecordTooLarge
      else
        let inner_len = length content + 1;
            cipher_body_len = inner_len + AEAD_TAG_LEN;
            total_len = cipher_body_len + 5
        in
        if cipher_body_len > TLS_CIPHERTEXT_MAX then Inl EncRecordTooLarge
        else if length out_buf < total_len
        then Inl (EncBufferTooSmall total_len (length out_buf))
        else
          let aad = [CT_APPLICATION_DATA] @ to_be_bytes LEGACY_VERSION @
                    to_be_bytes (word_of_nat cipher_body_len :: 16 word)
          in case aead_encrypt (aead_nonce iv seq) aad (content @ [content_type]) of
               None \<Rightarrow> Inl EncAeadFailed
             | Some (ciphertext, tag) \<Rightarrow> Inr (aad @ ciphertext @ tag))"

definition decrypt_record_inplace ::
  "AeadCipher \<Rightarrow> RecordKeys \<Rightarrow> bytes \<Rightarrow> 64 word \<Rightarrow> bytes \<times> (DecryptError + nat)" where
  "decrypt_record_inplace c keys record seq =
     decrypt_record_inplace_with record (rk_iv keys) seq (run_decrypt c (rk_key keys))"

definition encrypt_record ::
  "AeadCipher \<Rightarrow> RecordKeys \<Rightarrow> bytes \<Rightarrow> 8 word \<Rightarrow> 64 word \<Rightarrow> bytes \<Rightarrow> EncryptError + bytes" where
  "encrypt_record c keys content content_type seq out_buf =
     encrypt_record_with content content_type (rk_iv keys) seq out_buf (run_encrypt c (rk_key keys))"

definition seal_in_place ::
  "AeadCipher \<Rightarrow> RecordKeys \<Rightarrow> bytes \<Rightarrow> 64 word \<Rightarrow> bytes \<Rightarrow> (bytes \<times> bytes) option" where
  "seal_in_place c keys aad seq buf = run_encrypt c (rk_key keys) (aead_nonce (rk_iv keys) seq) aad buf"

definition open_in_place ::
  "AeadCipher \<Rightarrow> RecordKeys \<Rightarrow> bytes \<Rightarrow> 64 word \<Rightarrow> bytes \<Rightarrow> bytes \<Rightarrow> bytes option" where
  "open_in_place c keys aad seq buf tag =
     run_decrypt c (rk_key keys) (aead_nonce (rk_iv keys) seq) aad buf tag"

text \<open>The reference for the inner plaintext: drop the zero padding from the end; the last byte left
  is the content type.\<close>

definition strip_padding :: "bytes \<Rightarrow> (bytes \<times> 8 word) option" where
  "strip_padding inner =
     (case dropWhile (\<lambda>b. b = 0) (rev inner) of [] \<Rightarrow> None | ct # r \<Rightarrow> Some (rev r, ct))"

text \<open>An instance of the cipher parameter, used by the witnesses: encryption complements the buffer
  and the tag is constant.\<close>

definition demo_cipher :: AeadCipher where
  "demo_cipher = \<lparr>
     encrypt_inout_detached = (\<lambda>key nonce aad p. Some (map NOT p, replicate 16 7)),
     decrypt_inout_detached = (\<lambda>key nonce aad ct tag.
       if tag = replicate 16 7 then Some (map NOT ct) else None)\<rparr>"

text \<open>What the AEAD trait documents of a working cipher: encryption succeeds, keeps the length and
  returns a 16-byte tag.\<close>

definition aead_total :: "AeadCipher \<Rightarrow> bool" where
  "aead_total c \<longleftrightarrow> (\<forall>key nonce aad p. \<exists>ct tag. encrypt_inout_detached c key nonce aad p = Some (ct, tag) \<and>
     length ct = length p \<and> length tag = 16)"

lemma demo_cipher_total: "aead_total demo_cipher"
  by (simp add: aead_total_def demo_cipher_def)

section \<open>Nonces\<close>

lemma length_xor_into [simp]: "length (xor_into xs ms) = length xs"
  by (induction xs ms rule: xor_into.induct) simp_all

lemma xor_into_involutive [simp]: "xor_into (xor_into xs ms) ms = xs"
  by (induction xs ms rule: xor_into.induct) (simp_all add: xor.assoc)

lemma xor_into_inject:
  "length as = length xs \<Longrightarrow> length bs = length xs \<Longrightarrow> xor_into xs as = xor_into xs bs \<longleftrightarrow> as = bs"
proof (induction xs arbitrary: as bs)
  case Nil
  then show ?case by simp
next
  case (Cons x xs)
  then obtain a as' b bs' where ab: "as = a # as'" "bs = b # bs'"
    by (metis length_Suc_conv)
  have "x XOR a = x XOR b \<longleftrightarrow> a = b"
    by (metis xor.assoc xor_self_eq xor.left_neutral)
  then show ?case using Cons by (simp add: ab)
qed

lemma length_aead_nonce [simp]: "length (aead_nonce iv seq) = length iv"
  by (simp add: aead_nonce_def)

text \<open>Under one initialisation vector distinct sequence numbers give distinct nonces.\<close>

lemma aead_nonce_injective:
  assumes "length iv = 12"
  shows "aead_nonce iv s = aead_nonce iv t \<longleftrightarrow> s = t"
  using assms by (simp add: aead_nonce_def xor_into_inject to_be_bytes_inject)

section \<open>Inner plaintext\<close>

lemma split_scan_snoc:
  "split_scan i (bs @ [b]) st =
     (if b \<noteq> 0 then (i + length bs + 1, b) else split_scan i bs st)"
  by (induction i bs st rule: split_scan.induct) (auto simp: Let_def)

lemma split_scan_strip:
  "split_scan 0 inner (0, 0) =
     (case strip_padding inner of None \<Rightarrow> (0, 0) | Some (c, ct) \<Rightarrow> (length c + 1, ct))"
  by (induction inner rule: rev_induct) (auto simp: split_scan_snoc strip_padding_def)

lemma strip_padding_decomp:
  "strip_padding inner = Some (c, ct) \<longleftrightarrow> ct \<noteq> 0 \<and> (\<exists>n. inner = c @ [ct] @ replicate n 0)"
proof
  assume "strip_padding inner = Some (c, ct)"
  then have drop: "dropWhile (\<lambda>b. b = 0) (rev inner) = ct # rev c"
    by (auto simp: strip_padding_def split: list.splits)
  define zs where "zs = takeWhile (\<lambda>b. b = 0) (rev inner)"
  have "zs = replicate (length zs) 0"
    by (intro replicate_eqI) (auto simp: zs_def dest: set_takeWhileD)
  then have zs: "rev zs = replicate (length zs) 0" by (metis rev_replicate)
  have rev: "rev inner = zs @ ct # rev c" and "ct \<noteq> 0"
    using drop by (simp_all add: dropWhile_eq_Cons_conv zs_def)
  have "inner = rev (zs @ ct # rev c)" unfolding rev [symmetric] by simp
  then have "inner = c @ [ct] @ replicate (length zs) 0" by (simp add: zs)
  with \<open>ct \<noteq> 0\<close> show "ct \<noteq> 0 \<and> (\<exists>n. inner = c @ [ct] @ replicate n 0)" by blast
next
  assume "ct \<noteq> 0 \<and> (\<exists>n. inner = c @ [ct] @ replicate n 0)"
  then show "strip_padding inner = Some (c, ct)"
    by (auto simp: strip_padding_def dropWhile_append)
qed

lemma strip_padding_content: "ct \<noteq> 0 \<Longrightarrow> strip_padding (content @ [ct]) = Some (content, ct)"
  by (simp add: strip_padding_def)

text \<open>The branch-free scan that hides the padding length computes what stripping the trailing
  zeros computes: the content and the last non-zero byte, with the size limits of a record.\<close>

lemma split_inner_plaintext_strips:
  "split_inner_plaintext inner =
     (if length inner > TLS_CIPHERTEXT_MAX then Inl DecRecordTooLarge
      else case strip_padding inner of
             None \<Rightarrow> Inl DecEmptyInnerPlaintext
           | Some (content, ct) \<Rightarrow>
               if length content > TLS_PLAINTEXT_MAX then Inl DecRecordTooLarge
               else Inr (content, ct))"
proof (cases "strip_padding inner")
  case None
  then show ?thesis by (simp add: split_inner_plaintext_def split_scan_strip)
next
  case (Some p)
  obtain c ct where p: "p = (c, ct)" by (cases p)
  then have "take (length c) inner = c" using Some by (auto simp: strip_padding_decomp)
  then show ?thesis using Some by (simp add: split_inner_plaintext_def split_scan_strip p)
qed

section \<open>Sealing and opening\<close>

lemma open_seal:
  assumes "aead_correct c" "seal_in_place c keys aad seq p = Some (ct, tag)"
  shows "length ct = length p" "length tag = 16" "open_in_place c keys aad seq ct tag = Some p"
  using assms unfolding aead_correct_def seal_in_place_def open_in_place_def run_encrypt_def run_decrypt_def
  by blast+

lemma encrypt_record_ok:
  assumes "encrypt_record c keys content ct seq out = Inr rec"
  shows "length content \<le> 2 ^ 14 \<and>
    (\<exists>body tag. seal_in_place c keys
        ([CT_APPLICATION_DATA] @ to_be_bytes LEGACY_VERSION @
          to_be_bytes (word_of_nat (length content + 17) :: 16 word)) seq (content @ [ct]) = Some (body, tag) \<and>
     rec = [CT_APPLICATION_DATA] @ to_be_bytes LEGACY_VERSION @
          to_be_bytes (word_of_nat (length content + 17) :: 16 word) @ body @ tag)"
  using assms
  by (auto simp: encrypt_record_def encrypt_record_with_def seal_in_place_def Let_def AEAD_TAG_LEN_def
      TLS_PLAINTEXT_MAX_def TLS_CIPHERTEXT_MAX_def ac_simps split: if_splits option.splits)

lemma record_header_fields:
  assumes "length ver = 2" "length ln = 2"
  shows "([t] @ ver @ ln @ rest) ! 0 = t"
    "[([t] @ ver @ ln @ rest) ! 1, ([t] @ ver @ ln @ rest) ! 2] = ver"
    "[([t] @ ver @ ln @ rest) ! 3, ([t] @ ver @ ln @ rest) ! 4] = ln"
    "take 5 ([t] @ ver @ ln @ rest) = [t] @ ver @ ln"
    "sub_range 5 b ([t] @ ver @ ln @ rest) = take (b - 5) rest"
    "drop (5 + n) ([t] @ ver @ ln @ rest) = drop n rest"
  using assms list_of_length_2 [of ver] list_of_length_2 [of ln]
  by (simp_all add: nth_append sub_range_def drop_plus [of 5])

text \<open>A record sealed by \<^verbatim>\<open>encrypt_record\<close> opens under the same keys and sequence number, and
  splitting the opened region gives back the content and its type, for every content type
  other than zero and every cipher whose decryption inverts its encryption.\<close>

lemma record_round_trip:
  assumes "aead_correct c" "ct \<noteq> 0" "encrypt_record c keys content ct seq out = Inr rec"
  shows "\<exists>rec' n. decrypt_record_inplace c keys rec seq = (rec', Inr n) \<and>
    split_inner_plaintext (sub_range 5 (5 + n) rec') = Inr (content, ct)"
proof -
  define ver where "ver = to_be_bytes LEGACY_VERSION"
  define n where "n = length content + 17"
  define ln where "ln = to_be_bytes (word_of_nat n :: 16 word)"
  obtain body tag where small: "length content \<le> 2 ^ 14"
    and seal: "seal_in_place c keys ([CT_APPLICATION_DATA] @ ver @ ln) seq (content @ [ct]) = Some (body, tag)"
    and rec: "rec = [CT_APPLICATION_DATA] @ ver @ ln @ body @ tag"
    using encrypt_record_ok [OF assms(3)] by (auto simp: ver_def ln_def n_def)
  note os = open_seal [OF assms(1) seal]
  have len: "length ver = 2" "length ln = 2" by (simp_all add: ver_def ln_def)
  note hdr = record_header_fields [OF len, where t = CT_APPLICATION_DATA]
  have ver: "from_be_bytes ver = LEGACY_VERSION" by (simp add: ver_def from_to_be_bytes)
  have "n < 2 ^ 16" using small by (simp add: n_def)
  then have ln: "unat (from_be_bytes ln :: 16 word) = n"
    by (simp add: ln_def from_to_be_bytes unat_of_nat)
  have blen: "length body = n - 16" "length tag = 16" "length rec = 5 + n"
    using os(1,2) by (simp_all add: n_def rec len)
  have dec: "run_decrypt c (rk_key keys) (aead_nonce (rk_iv keys) seq)
      ([CT_APPLICATION_DATA] @ ver @ ln) body tag = Some (content @ [ct])"
    using os(3) by (simp add: open_in_place_def)
  have "decrypt_record_inplace c keys rec seq =
      ([CT_APPLICATION_DATA] @ ver @ ln @ (content @ [ct]) @ tag, Inr (n - 16))"
    using blen small dec
    by (simp only: decrypt_record_inplace_def decrypt_record_inplace_with_def rec hdr ver ln Let_def)
      (simp add: n_def TLS_CIPHERTEXT_MAX_def len)
  moreover have "split_inner_plaintext (content @ [ct]) = Inr (content, ct)"
    using small assms(2)
    by (simp add: split_inner_plaintext_strips strip_padding_content TLS_CIPHERTEXT_MAX_def
        TLS_PLAINTEXT_MAX_def)
  moreover have "sub_range 5 (5 + (n - 16)) ([CT_APPLICATION_DATA] @ ver @ ln @ (content @ [ct]) @ tag) =
      content @ [ct]"
    by (simp only: hdr) (simp add: n_def)
  ultimately show ?thesis by metis
qed

end
