(* ===== verification/Dtls_Record.thy ===== *)
theory Dtls_Record
  imports Aead
begin

text \<open>
  The DTLS 1.3 record layer of \<^verbatim>\<open>dtls/record.rs\<close>: the unified header, record-number
  encryption, sequence-number reconstruction, sealing and opening.

  A cipher suite is the record \<^verbatim>\<open>DtlsSuite\<close> of its AEAD and its record-number mask.  The two
  masks of the source are modelled over their primitive (one AES block, the ChaCha20
  keystream), which is a parameter; the locale \<^verbatim>\<open>seq_mask\<close> is what sealing and opening rely
  on, and both masks are instances of it.
\<close>

unbundle bit_operations_syntax

section \<open>Model\<close>

definition UNIFIED_HDR_FIXED :: "8 word" where
  "UNIFIED_HDR_FIXED = 0x20"

definition UNIFIED_HDR_FIXED_MASK :: "8 word" where
  "UNIFIED_HDR_FIXED_MASK = 0xE0"

definition HDR_CID_PRESENT :: "8 word" where
  "HDR_CID_PRESENT = 0x10"

definition HDR_SEQ_16BIT :: "8 word" where
  "HDR_SEQ_16BIT = 0x08"

definition HDR_LENGTH_PRESENT :: "8 word" where
  "HDR_LENGTH_PRESENT = 0x04"

definition HDR_EPOCH_LOW2 :: "8 word" where
  "HDR_EPOCH_LOW2 = 0x03"

definition TAG_LEN :: nat where
  "TAG_LEN = 16"

definition SN_SAMPLE_LEN :: nat where
  "SN_SAMPLE_LEN = 16"

datatype SeqNumLen = SeqOne | SeqTwo

definition seq_bytes :: "SeqNumLen \<Rightarrow> nat" where
  "seq_bytes l = (case l of SeqOne \<Rightarrow> 1 | SeqTwo \<Rightarrow> 2)"

definition seq_bits :: "SeqNumLen \<Rightarrow> nat" where
  "seq_bits l = (case l of SeqOne \<Rightarrow> 8 | SeqTwo \<Rightarrow> 16)"

record SealHeader =
  sh_epoch :: "16 word"
  sh_seq :: "64 word"
  sh_seq_len :: SeqNumLen
  sh_cid :: "bytes option"

datatype DtlsRecordError =
    DR_BufferTooSmall nat nat
  | DR_RecordTooLarge
  | DR_BadHeader
  | DR_Truncated
  | DR_CidMismatch
  | DR_CiphertextTooShort
  | DR_Aead
  | DR_InnerPlaintext

text \<open>A suite: its code point, its key length, its AEAD, and the mask of a sequence number under a
  masker key and a ciphertext sample.\<close>

record DtlsSuite =
  ds_suite_id :: "16 word"
  ds_key_len :: nat
  ds_cipher :: AeadCipher
  ds_mask_seq :: "bytes \<Rightarrow> bytes \<Rightarrow> bytes \<Rightarrow> bytes"

record EpochKeys =
  ek_keys :: RecordKeys
  ek_masker :: bytes

record Opened =
  op_epoch_low2 :: "8 word"
  op_seq :: "64 word"
  op_content_type :: "8 word"
  op_content :: bytes
  op_record_len :: nat

definition write_seq :: "nat \<Rightarrow> 64 word \<Rightarrow> bytes" where
  "write_seq n seq = (if n = 1 then [ucast seq] else to_be_bytes (ucast seq :: 16 word))"

definition read_seq :: "bytes \<Rightarrow> 64 word" where
  "read_seq bs =
     (if length bs = 1 then ucast (bs ! 0) else ucast (from_be_bytes [bs ! 0, bs ! 1] :: 16 word))"

definition abs_diff :: "'a::len word \<Rightarrow> 'a word \<Rightarrow> 'a word" where
  "abs_diff a b = (if a < b then b - a else a - b)"

definition reconstruct_seq :: "64 word \<Rightarrow> nat \<Rightarrow> 64 word \<Rightarrow> 64 word" where
  "reconstruct_seq wire_low bits expected =
     (let step = push_bit bits 1;
          msk = step - 1;
          candidate = (expected AND NOT msk) OR (wire_low AND msk);
          best_dist = abs_diff candidate expected;
          up = candidate + step;
          (best, best_dist) =
            (if unat candidate + unat step < 2 ^ 64 \<and> abs_diff up expected < best_dist
             then (up, abs_diff up expected) else (candidate, best_dist));
          down = candidate - step
      in if unat step \<le> unat candidate \<and> abs_diff down expected < best_dist then down else best)"

definition unified_first :: "16 word \<Rightarrow> bytes option \<Rightarrow> SeqNumLen \<Rightarrow> 8 word" where
  "unified_first epoch cid seq_len =
     (let first = UNIFIED_HDR_FIXED OR HDR_LENGTH_PRESENT OR (ucast epoch AND HDR_EPOCH_LOW2);
          first = (if cid \<noteq> None then first OR HDR_CID_PRESENT else first)
      in if seq_len = SeqTwo then first OR HDR_SEQ_16BIT else first)"

definition seal ::
  "DtlsSuite \<Rightarrow> EpochKeys \<Rightarrow> SealHeader \<Rightarrow> bytes \<Rightarrow> 8 word \<Rightarrow> bytes \<Rightarrow> DtlsRecordError + bytes" where
  "seal suite keys hdr content content_type out =
     (let cid_bytes = (case sh_cid hdr of None \<Rightarrow> [] | Some c \<Rightarrow> c);
          seq_pos = 1 + length cid_bytes;
          header_len = seq_pos + seq_bytes (sh_seq_len hdr) + 2;
          inner_len = length content + 1;
          body_len = inner_len + TAG_LEN;
          total = header_len + body_len
      in
      if body_len > 0xFFFF then Inl DR_RecordTooLarge
      else if length out < total then Inl (DR_BufferTooSmall total (length out))
      else
        let first = unified_first (sh_epoch hdr) (sh_cid hdr) (sh_seq_len hdr);
            clear_seq = write_seq (seq_bytes (sh_seq_len hdr)) (sh_seq hdr);
            len_field = to_be_bytes (word_of_nat body_len :: 16 word);
            header = [first] @ cid_bytes @ clear_seq @ len_field
        in case seal_in_place (ds_cipher suite) (ek_keys keys) header (sh_seq hdr)
                  (content @ [content_type]) of
             None \<Rightarrow> Inl DR_Aead
           | Some (ciphertext, tag) \<Rightarrow>
               let body = ciphertext @ tag;
                   sample = take SN_SAMPLE_LEN body
               in Inr ([first] @ cid_bytes @ ds_mask_seq suite (ek_masker keys) sample clear_seq @
                       len_field @ body))"

definition open_record ::
  "DtlsSuite \<Rightarrow> EpochKeys \<Rightarrow> nat \<Rightarrow> 64 word \<Rightarrow> bytes \<Rightarrow> DtlsRecordError + Opened" where
  "open_record suite keys cid_len expected_seq record =
     rbind (ok_or DR_Truncated (get_at 0 record)) (\<lambda>first.
     if first AND UNIFIED_HDR_FIXED_MASK \<noteq> UNIFIED_HDR_FIXED then Inl DR_BadHeader
     else if (first AND HDR_CID_PRESENT \<noteq> 0) \<noteq> (cid_len > 0) then Inl DR_CidMismatch
     else
       let seq_len = (if first AND HDR_SEQ_16BIT \<noteq> 0 then SeqTwo else SeqOne);
           length_present = (first AND HDR_LENGTH_PRESENT \<noteq> 0);
           seq_pos = 1 + cid_len;
           len_pos = seq_pos + seq_bytes seq_len;
           header_len = len_pos + (if length_present then 2 else 0)
       in
       if length record < header_len then Inl DR_Truncated
       else
         let body_len =
               (if length_present
                then unat (from_be_bytes [record ! len_pos, record ! (len_pos + 1)] :: 16 word)
                else length record - header_len);
             body_end = header_len + body_len
         in
         if length record < body_end \<or> body_len < SN_SAMPLE_LEN \<or> body_len < TAG_LEN + 1
         then Inl DR_CiphertextTooShort
         else
           let sample = sub_range header_len (header_len + SN_SAMPLE_LEN) record;
               clear_seq = ds_mask_seq suite (ek_masker keys) sample (sub_range seq_pos len_pos record);
               seq = reconstruct_seq (read_seq clear_seq) (seq_bits seq_len) expected_seq;
               header = take seq_pos record @ clear_seq @ sub_range len_pos header_len record;
               inner_len = body_len - TAG_LEN;
               ciphertext = sub_range header_len (header_len + inner_len) record;
               tag = sub_range (header_len + inner_len) body_end record
           in
           rbind (ok_or DR_Aead (open_in_place (ds_cipher suite) (ek_keys keys) header seq ciphertext tag))
             (\<lambda>inner.
           rbind (map_err (\<lambda>_. DR_InnerPlaintext) (split_inner_plaintext inner)) (\<lambda>(content, content_type).
             Inr \<lparr>op_epoch_low2 = first AND HDR_EPOCH_LOW2, op_seq = seq,
                  op_content_type = content_type, op_content = content,
                  op_record_len = body_end\<rparr>)))"

text \<open>The two record-number masks, over the AES block function and the ChaCha20 keystream (key,
  nonce, byte position, length).\<close>

definition aes_mask_seq :: "(bytes \<Rightarrow> bytes \<Rightarrow> bytes) \<Rightarrow> bytes \<Rightarrow> bytes \<Rightarrow> bytes \<Rightarrow> bytes" where
  "aes_mask_seq encrypt_block masker sample sq = xor_into sq (encrypt_block masker sample)"

definition chacha_mask_seq ::
  "(bytes \<Rightarrow> bytes \<Rightarrow> nat \<Rightarrow> nat \<Rightarrow> bytes) \<Rightarrow> bytes \<Rightarrow> bytes \<Rightarrow> bytes \<Rightarrow> bytes" where
  "chacha_mask_seq keystream masker sample sq =
     (let counter = be_val (rev (take 4 sample));
          nonce = sub_range 4 16 sample
      in xor_into sq (keystream masker nonce (counter * 64) (length sq)))"

text \<open>The two suites, over their AEAD and the primitive their mask is built from.\<close>

definition Aes128GcmSha256 :: "AeadCipher \<Rightarrow> (bytes \<Rightarrow> bytes \<Rightarrow> bytes) \<Rightarrow> DtlsSuite" where
  "Aes128GcmSha256 c encrypt_block = \<lparr>ds_suite_id = CIPHER_AES_128_GCM_SHA256, ds_key_len = 16,
     ds_cipher = c, ds_mask_seq = aes_mask_seq encrypt_block\<rparr>"

definition ChaCha20Poly1305Sha256 ::
  "AeadCipher \<Rightarrow> (bytes \<Rightarrow> bytes \<Rightarrow> nat \<Rightarrow> nat \<Rightarrow> bytes) \<Rightarrow> DtlsSuite" where
  "ChaCha20Poly1305Sha256 c keystream = \<lparr>ds_suite_id = CIPHER_CHACHA20_POLY1305_SHA256, ds_key_len = 32,
     ds_cipher = c, ds_mask_seq = chacha_mask_seq keystream\<rparr>"

text \<open>What sealing and opening rely on of a mask: the same call encrypts and decrypts, keeping the
  width.\<close>

locale seq_mask =
  fixes msk :: "bytes \<Rightarrow> bytes \<Rightarrow> bytes \<Rightarrow> bytes"
  assumes mask_length: "length (msk k sample sq) = length sq"
    and mask_involutive: "msk k sample (msk k sample sq) = sq"
begin

lemma mask_inject: "msk k sample x = msk k sample y \<longleftrightarrow> x = y"
  by (metis mask_involutive)

lemma read_masked: "read_seq (msk k sample (msk k sample sq)) = read_seq sq"
  by (simp add: mask_involutive)

end

interpretation aes_mask: seq_mask "aes_mask_seq encrypt_block" for encrypt_block
  by unfold_locales (simp_all add: aes_mask_seq_def)

interpretation chacha_mask: seq_mask "chacha_mask_seq keystream" for keystream
  by unfold_locales (simp_all add: chacha_mask_seq_def)

section \<open>Sequence-number reconstruction\<close>

definition dist :: "nat \<Rightarrow> nat \<Rightarrow> nat" where
  "dist a b = (if a < b then b - a else a - b)"

lemma int_dist: "int (dist a b) = \<bar>int a - int b\<bar>"
  by (simp add: dist_def)

lemma dist_triangle: "dist a b \<le> dist a c + dist b c"
proof -
  have "int (dist a b) \<le> int (dist a c) + int (dist b c)" unfolding int_dist by linarith
  then show ?thesis by linarith
qed

lemma dist_bounds: "dist a b < n \<Longrightarrow> a < b + n" "dist a b < n \<Longrightarrow> b < a + n"
  by (simp_all add: dist_def split: if_splits)

lemma unat_abs_diff: "unat (abs_diff a b) = dist (unat a) (unat b)"
  by (simp add: abs_diff_def dist_def word_less_nat_alt unat_sub word_le_nat_alt)

lemma unat_candidate:
  assumes "bits < 64"
  shows "unat ((e AND NOT (push_bit bits 1 - 1)) OR (w AND (push_bit bits 1 - 1)) :: 64 word) =
    unat e div 2 ^ bits * 2 ^ bits + unat w mod 2 ^ bits"
proof -
  have m: "push_bit bits 1 - 1 = (mask bits :: 64 word)" by (simp add: mask_eq_decr_exp)
  have "unat ((e AND NOT (mask bits)) OR (w AND mask bits)) =
      push_bit bits (drop_bit bits (unat e)) OR take_bit bits (unat w)"
    by (rule bit_eqI) (auto simp: bit_simps dest: bit_imp_le_length)
  also have "\<dots> = push_bit bits (drop_bit bits (unat e)) + take_bit bits (unat w)"
    by (rule disjunctive_add [symmetric]) (auto simp: bit_simps)
  finally show ?thesis
    unfolding m by (simp add: push_bit_eq_mult drop_bit_eq_div take_bit_eq_mod)
qed

text \<open>The arithmetic core: among the candidate in the block of \<^verbatim>\<open>e\<close> and its two neighbours lies the
  congruent value nearest to \<^verbatim>\<open>e\<close>.\<close>

lemma nearest_three:
  fixes s c e t :: nat
  assumes "0 < s" "c div s = e div s" "t mod s = c mod s"
  shows "dist c e \<le> dist t e \<or> (t \<ge> c + s \<and> dist (c + s) e \<le> dist t e) \<or>
    (t + s \<le> c \<and> dist (c - s) e \<le> dist t e)"
proof -
  define k where "k = e div s"
  have t: "t = t div s * s + c mod s" "c = k * s + c mod s" "e = k * s + e mod s"
    using div_mult_mod_eq [of t s] div_mult_mod_eq [of c s] div_mult_mod_eq [of e s] assms(2,3)
    by (simp_all add: k_def)
  have lt: "c mod s < s" "e mod s < s" using assms(1) by simp_all
  have c: "k * s \<le> c" "c < k * s + s" and e: "k * s \<le> e" "e < k * s + s"
    using t lt by linarith+
  consider "t div s = k" | "k < t div s" | "t div s < k" by linarith
  then show ?thesis
  proof cases
    case 1
    then show ?thesis using t by simp
  next
    case 2
    then have "k * s + s \<le> t div s * s" by (metis Suc_leI mult_Suc mult_le_mono1 add.commute)
    then have "c + s \<le> t" using t by linarith
    then show ?thesis using c e by (auto simp: dist_def)
  next
    case 3
    then have "t div s * s + s \<le> k * s" by (metis Suc_leI mult_Suc mult_le_mono1 add.commute)
    then have "t + s \<le> c" using t by linarith
    then show ?thesis using c e by (auto simp: dist_def)
  qed
qed

lemma congruent_close:
  fixes a b s :: nat
  assumes "a mod s = b mod s" "a < b + s" "b < a + s"
  shows "a = b"
proof (cases "a \<le> b")
  case True
  then have "s dvd b - a" using assms(1) mod_eq_dvd_iff_nat by metis
  then show ?thesis using True assms(3) by (auto dest: dvd_imp_le)
next
  case False
  then have "s dvd a - b" using assms(1) mod_eq_dvd_iff_nat by (metis nat_le_linear)
  then show ?thesis using False assms(2) by (auto dest: dvd_imp_le)
qed

lemma reconstruct_seq_nat:
  fixes e w :: "64 word"
  assumes "bits < 64"
  defines "s \<equiv> 2 ^ bits" and "c \<equiv> unat e div 2 ^ bits * 2 ^ bits + unat w mod 2 ^ bits"
  shows "unat (reconstruct_seq w bits e) =
    (let b = (if c + s < 2 ^ 64 \<and> dist (c + s) (unat e) < dist c (unat e) then c + s else c)
     in if s \<le> c \<and> dist (c - s) (unat e) < dist b (unat e) then c - s else b)"
proof -
  define cw :: "64 word" where "cw = (e AND NOT (push_bit bits 1 - 1)) OR (w AND (push_bit bits 1 - 1))"
  have cw: "unat cw = c" unfolding cw_def c_def by (rule unat_candidate [OF assms(1)])
  have step: "unat (push_bit bits 1 :: 64 word) = s"
    using power_strict_increasing [OF assms(1), of "2 :: nat"]
    unfolding s_def unsigned_push_bit_eq by (simp add: take_bit_eq_mod)
  have up: "c + s < 2 ^ 64 \<Longrightarrow> unat (cw + push_bit bits 1) = c + s"
    unfolding cw [symmetric] step [symmetric] by (rule unat_add_lem [THEN iffD1]) simp
  have down: "s \<le> c \<Longrightarrow> unat (cw - push_bit bits 1) = c - s"
    unfolding cw [symmetric] step [symmetric] by (rule unat_sub) (simp only: word_le_nat_alt)
  show ?thesis
    unfolding reconstruct_seq_def Let_def cw_def [symmetric] cw step
    by (auto simp: word_less_nat_alt unat_abs_diff cw up down simp del: push_bit_of_1)
qed

lemma reconstruct_seq_nearest:
  fixes t :: "64 word"
  assumes "bits < 64" "unat t mod 2 ^ bits = unat w mod 2 ^ bits"
  shows "unat (reconstruct_seq w bits e) mod 2 ^ bits = unat w mod 2 ^ bits"
    "dist (unat (reconstruct_seq w bits e)) (unat e) \<le> dist (unat t) (unat e)"
proof -
  define s :: nat where "s = 2 ^ bits"
  define c where "c = unat e div s * s + unat w mod s"
  have s: "0 < s" by (simp add: s_def)
  have c: "c div s = unat e div s" "c mod s = unat w mod s" using s by (simp_all add: c_def)
  have t64: "unat t < 2 ^ 64" using unsigned_less [of t] by simp
  note r = reconstruct_seq_nat [OF assms(1), where e = e and w = w, folded s_def, folded c_def, unfolded Let_def]
  show "unat (reconstruct_seq w bits e) mod 2 ^ bits = unat w mod 2 ^ bits"
    unfolding r s_def [symmetric] c(2) [symmetric]
    by (simp add: le_mod_geq [symmetric])
  have "dist c (unat e) \<le> dist (unat t) (unat e) \<or>
      (unat t \<ge> c + s \<and> dist (c + s) (unat e) \<le> dist (unat t) (unat e)) \<or>
      (unat t + s \<le> c \<and> dist (c - s) (unat e) \<le> dist (unat t) (unat e))"
    using s c(1) assms(2) c(2) by (intro nearest_three) (simp_all add: s_def)
  then show "dist (unat (reconstruct_seq w bits e)) (unat e) \<le> dist (unat t) (unat e)"
    unfolding r using t64 by auto
qed

lemma reconstruct_seq_recovers:
  fixes seq :: "64 word"
  assumes "bits < 64" "2 * dist (unat seq) (unat expected) < 2 ^ bits"
    "unat wire mod 2 ^ bits = unat seq mod 2 ^ bits"
  shows "reconstruct_seq wire bits expected = seq"
proof -
  define r where "r = unat (reconstruct_seq wire bits expected)"
  have r: "r mod 2 ^ bits = unat seq mod 2 ^ bits"
    "dist r (unat expected) \<le> dist (unat seq) (unat expected)"
    using reconstruct_seq_nearest [OF assms(1) assms(3) [symmetric], of expected] assms(3)
    by (simp_all add: r_def)
  have close: "dist r (unat seq) < 2 ^ bits"
    using r(2) assms(2) dist_triangle [of r "unat seq" "unat expected"] by linarith
  have "r = unat seq" by (rule congruent_close [OF r(1) dist_bounds [OF close]])
  then show ?thesis by (simp add: r_def word_unat_eq_iff)
qed

text \<open>C36: Reconstruction returns a number with the received low bits, no 64-bit number with these
  low bits is nearer to the expected one, and every sequence number less than half a window
  away from the expected one is recovered from its low bits.\<close>

theorem reconstruct_seq_correct:
  assumes "bits < 64"
  shows "unat (reconstruct_seq wire bits expected) mod 2 ^ bits = unat wire mod 2 ^ bits \<and>
    (\<forall>t. unat t mod 2 ^ bits = unat wire mod 2 ^ bits \<longrightarrow>
       dist (unat (reconstruct_seq wire bits expected)) (unat expected) \<le>
       dist (unat (t :: 64 word)) (unat expected)) \<and>
    (\<forall>seq. unat wire mod 2 ^ bits = unat seq mod 2 ^ bits \<longrightarrow>
       2 * dist (unat seq) (unat expected) < 2 ^ bits \<longrightarrow>
       reconstruct_seq wire bits expected = seq)"
  using reconstruct_seq_nearest [OF assms] reconstruct_seq_recovers [OF assms] by blast

theorem reconstruct_seq_correct_witness:
  "reconstruct_seq 0x02 8 0x1FE = 0x202 \<and>
   unat (reconstruct_seq 0x02 8 0x1FE) mod 2 ^ 8 = unat (0x02 :: 64 word) mod 2 ^ 8"
  using reconstruct_seq_correct [of 8 "0x02" "0x1FE"] by (simp add: dist_def)

section \<open>Sealing and opening\<close>

lemma epoch_low2_cases: "(e :: 8 word) AND 3 \<in> {0, 1, 2, 3}"
proof -
  have "e AND 3 = take_bit 2 e" by (simp add: take_bit_eq_mask mask_eq_exp_minus_1)
  then have "unat (e AND 3) < 4" using take_bit_nat_less_exp [of 2 "unat e"]
    by (simp add: unsigned_take_bit_eq)
  then have "unat (e AND 3) \<in> {0, 1, 2, 3}" by auto
  then show ?thesis by (auto simp: word_unat_eq_iff)
qed

lemma unified_first_bits:
  "unified_first epoch cid sl AND UNIFIED_HDR_FIXED_MASK = UNIFIED_HDR_FIXED"
  "unified_first epoch cid sl AND HDR_CID_PRESENT \<noteq> 0 \<longleftrightarrow> cid \<noteq> None"
  "unified_first epoch cid sl AND HDR_SEQ_16BIT \<noteq> 0 \<longleftrightarrow> sl = SeqTwo"
  "unified_first epoch cid sl AND HDR_LENGTH_PRESENT \<noteq> 0"
  "unified_first epoch cid sl AND HDR_EPOCH_LOW2 = ucast epoch AND HDR_EPOCH_LOW2"
  using epoch_low2_cases [of "ucast epoch"]
  by (auto simp: unified_first_def UNIFIED_HDR_FIXED_def UNIFIED_HDR_FIXED_MASK_def
      HDR_CID_PRESENT_def HDR_SEQ_16BIT_def HDR_LENGTH_PRESENT_def HDR_EPOCH_LOW2_def Let_def)

lemma seq_len_cases [simp]: "seq_bits sl < 64" "0 < seq_bytes sl"
  by (cases sl; simp add: seq_bits_def seq_bytes_def)+

lemma length_write_seq [simp]: "length (write_seq (seq_bytes sl) seq) = seq_bytes sl"
  by (cases sl) (simp_all add: write_seq_def seq_bytes_def)

lemma read_write_seq: "unat (read_seq (write_seq (seq_bytes sl) seq)) = unat seq mod 2 ^ seq_bits sl"
proof (cases sl)
  case SeqOne
  then show ?thesis
    by (simp add: read_seq_def write_seq_def seq_bytes_def seq_bits_def unsigned_ucast_eq take_bit_eq_mod
        unat_mod_distrib)
next
  case SeqTwo
  have "[to_be_bytes (ucast seq :: 16 word) ! 0, to_be_bytes (ucast seq :: 16 word) ! 1] =
      to_be_bytes (ucast seq :: 16 word)" by (simp add: list_of_length_2)
  then show ?thesis using SeqTwo
    by (simp add: read_seq_def write_seq_def seq_bytes_def seq_bits_def unsigned_ucast_eq take_bit_eq_mod
        unat_mod_distrib
        from_to_be_bytes)
qed

definition suite_ok :: "DtlsSuite \<Rightarrow> bool" where
  "suite_ok suite \<longleftrightarrow>
     aead_correct (ds_cipher suite) \<and>
     (\<forall>k sample sq. length (ds_mask_seq suite k sample sq) = length sq \<and>
        ds_mask_seq suite k sample (ds_mask_seq suite k sample sq) = sq)"

lemma suites_ok:
  assumes "aead_correct c"
  shows "suite_ok (Aes128GcmSha256 c encrypt_block)" "suite_ok (ChaCha20Poly1305Sha256 c keystream)"
  using assms by (simp_all add: suite_ok_def Aes128GcmSha256_def ChaCha20Poly1305Sha256_def
      aes_mask.mask_length aes_mask.mask_involutive chacha_mask.mask_length chacha_mask.mask_involutive)

text \<open>The shape of a sealed record.\<close>

lemma seal_ok:
  assumes "seal suite keys hdr content ct out = Inr rec"
  obtains cid clear ln body tag where
    "cid = (case sh_cid hdr of None \<Rightarrow> [] | Some c \<Rightarrow> c)"
    "clear = write_seq (seq_bytes (sh_seq_len hdr)) (sh_seq hdr)"
    "ln = to_be_bytes (word_of_nat (length content + 17) :: 16 word)" "length content + 17 < 2 ^ 16"
    "seal_in_place (ds_cipher suite) (ek_keys keys)
       ([unified_first (sh_epoch hdr) (sh_cid hdr) (sh_seq_len hdr)] @ cid @ clear @ ln)
       (sh_seq hdr) (content @ [ct]) = Some (body, tag)"
    "rec = [unified_first (sh_epoch hdr) (sh_cid hdr) (sh_seq_len hdr)] @ cid @
       ds_mask_seq suite (ek_masker keys) (take 16 (body @ tag)) clear @ ln @ body @ tag"
proof -
  have 17: "length content + 1 + 16 = length content + 17" by simp
  show ?thesis
    using assms that
    unfolding seal_def Let_def TAG_LEN_def SN_SAMPLE_LEN_def 17
    by (auto split: if_splits option.splits)
qed

text \<open>With a working cipher only the limits of the record and of the buffer can refuse.\<close>

lemma seal_total:
  assumes "suite_ok S" "aead_total (ds_cipher S)" "length content + 17 < 2 ^ 16"
    and "length out \<ge> length (case sh_cid hdr of None \<Rightarrow> [] | Some c \<Rightarrow> c) + seq_bytes (sh_seq_len hdr) + length content + 20"
  shows "\<exists>r. seal S keys hdr content ct out = Inr r \<and>
    length r = length (case sh_cid hdr of None \<Rightarrow> [] | Some c \<Rightarrow> c) + seq_bytes (sh_seq_len hdr) + length content + 20"
proof -
  let ?hdr = "[unified_first (sh_epoch hdr) (sh_cid hdr) (sh_seq_len hdr)] @ (case sh_cid hdr of None \<Rightarrow> [] | Some c \<Rightarrow> c) @
    write_seq (seq_bytes (sh_seq_len hdr)) (sh_seq hdr) @ to_be_bytes (word_of_nat (length content + 17) :: 16 word)"
  obtain body tag where b: "seal_in_place (ds_cipher S) (ek_keys keys) ?hdr (sh_seq hdr) (content @ [ct]) = Some (body, tag)"
    "length body = length content + 1" "length tag = 16"
    using assms(2) unfolding aead_total_def seal_in_place_def run_encrypt_def by (metis length_append_singleton Suc_eq_plus1)
  have 17: "length content + 1 + 16 = length content + 17" by simp
  show ?thesis using assms(1,3,4) b
    unfolding seal_def Let_def TAG_LEN_def suite_ok_def 17 by (simp split: option.split_asm option.split)
qed

lemma sealed_fields:
  assumes "length cid = k" "length sq = n" "length ln = 2" "r = [f] @ cid @ sq @ ln @ body @ rest"
  shows "r ! 0 = f" "sub_range (1 + k) (1 + k + n) r = sq" "take (1 + k) r = [f] @ cid"
    "[r ! (1 + k + n), r ! (1 + k + n + 1)] = ln" "sub_range (1 + k + n) (1 + k + n + 2) r = ln"
    "sub_range (1 + k + n + 2) b r = take (b - (1 + k + n + 2)) (body @ rest)"
    "sub_range (1 + k + n + 2 + j) b r = sub_range j (b - (1 + k + n + 2)) (body @ rest)"
    "length r = 1 + k + n + 2 + length body + length rest"
  using assms list_of_length_2 [of ln]
  by (auto simp: nth_append sub_range_def numeral_2_eq_2 drop_plus)

text \<open>Opening a record whose framing is known.\<close>

lemma open_record_framed:
  assumes f: "f AND UNIFIED_HDR_FIXED_MASK = UNIFIED_HDR_FIXED"
      "(f AND HDR_CID_PRESENT \<noteq> 0) = (cid_len > 0)" "(f AND HDR_SEQ_16BIT \<noteq> 0) = (sl = SeqTwo)"
      "f AND HDR_LENGTH_PRESENT \<noteq> 0"
    and k: "length cb = cid_len" "length sq = seq_bytes sl" "length ln = 2"
    and r: "r = [f] @ cb @ sq @ ln @ (body @ tag) @ rest"
    and m: "unat (from_be_bytes ln :: 16 word) = m" "17 \<le> m" "length body = m - 16" "length tag = 16"
  shows "open_record suite keys cid_len expected r =
    (let clear = ds_mask_seq suite (ek_masker keys) (take 16 (body @ tag)) sq;
         seq = reconstruct_seq (read_seq clear) (seq_bits sl) expected in
     rbind (ok_or DR_Aead (open_in_place (ds_cipher suite) (ek_keys keys) ([f] @ cb @ clear @ ln) seq body tag))
       (\<lambda>inner.
     rbind (map_err (\<lambda>_. DR_InnerPlaintext) (split_inner_plaintext inner)) (\<lambda>(content, content_type).
       Inr \<lparr>op_epoch_low2 = f AND HDR_EPOCH_LOW2, op_seq = seq, op_content_type = content_type,
            op_content = content, op_record_len = 1 + cid_len + seq_bytes sl + 2 + m\<rparr>)))"
proof -
  note fields = sealed_fields [OF k r]
  have sl: "(if f AND HDR_SEQ_16BIT \<noteq> 0 then SeqTwo else SeqOne) = sl"
    using f(3) by (cases sl) auto
  have hd: "get_at 0 r = Some f" using fields(1,8) by (simp add: get_at_def)
  have len: "length r = 1 + cid_len + seq_bytes sl + 2 + m + length rest"
    using fields(8) m by simp
  have body: "take (1 + cid_len + seq_bytes sl + 2 + (m - 16) - (1 + cid_len + seq_bytes sl + 2))
      ((body @ tag) @ rest) = body"
    "sub_range (m - 16) (1 + cid_len + seq_bytes sl + 2 + m - (1 + cid_len + seq_bytes sl + 2))
      ((body @ tag) @ rest) = tag"
    "take (1 + cid_len + seq_bytes sl + 2 + 16 - (1 + cid_len + seq_bytes sl + 2)) ((body @ tag) @ rest) =
      take 16 (body @ tag)"
    using m by (simp_all add: sub_range_def)
  show ?thesis
    unfolding open_record_def hd ok_or_simps rbind_simps Let_def sl SN_SAMPLE_LEN_def TAG_LEN_def
    using f m len
    by (simp only: if_True if_False fields(2-7) body m(1) not_less simp_thms) simp
qed

text \<open>A sealed DTLS record opens under the same keys: for every negotiated connection id, both
  sequence-number widths and every expected number less than half a window away, opening the
  record, with anything after it in the datagram, gives the sequence number, the content, its
  type, the low two epoch bits and the length of the record.\<close>

lemma dtls_record_round_trip:
  assumes suite: "suite_ok suite" and ct: "ct \<noteq> 0" and small: "length content \<le> TLS_PLAINTEXT_MAX"
    and cid: "sh_cid hdr \<noteq> Some []"
      "cid_len = (case sh_cid hdr of None \<Rightarrow> 0 | Some c \<Rightarrow> length c)"
    and near: "2 * dist (unat (sh_seq hdr)) (unat expected) < 2 ^ seq_bits (sh_seq_len hdr)"
    and seal: "seal suite keys hdr content ct out = Inr rec"
  shows "open_record suite keys cid_len expected (rec @ rest) =
    Inr \<lparr>op_epoch_low2 = ucast (sh_epoch hdr) AND HDR_EPOCH_LOW2, op_seq = sh_seq hdr,
         op_content_type = ct, op_content = content, op_record_len = length rec\<rparr>"
proof -
  define f where "f = unified_first (sh_epoch hdr) (sh_cid hdr) (sh_seq_len hdr)"
  define n where "n = seq_bytes (sh_seq_len hdr)"
  define m where "m = length content + 17"
  obtain cb clear ln body tag where cb: "cb = (case sh_cid hdr of None \<Rightarrow> [] | Some c \<Rightarrow> c)"
    and clear: "clear = write_seq n (sh_seq hdr)"
    and ln: "ln = to_be_bytes (word_of_nat m :: 16 word)" and m16: "m < 2 ^ 16"
    and aead: "seal_in_place (ds_cipher suite) (ek_keys keys) ([f] @ cb @ clear @ ln)
       (sh_seq hdr) (content @ [ct]) = Some (body, tag)"
    and rec: "rec = [f] @ cb @ ds_mask_seq suite (ek_masker keys) (take 16 (body @ tag)) clear @ ln @ body @ tag"
    using seal_ok [OF seal] unfolding f_def n_def m_def by metis
  define mk where "mk = ds_mask_seq suite (ek_masker keys) (take 16 (body @ tag))"
  have mk: "length (mk x) = length x" "mk (mk x) = x" for x
    using suite by (simp_all add: suite_ok_def mk_def)
  have os: "length body = m - 16" "length tag = 16"
      "open_in_place (ds_cipher suite) (ek_keys keys) ([f] @ cb @ clear @ ln) (sh_seq hdr) body tag =
        Some (content @ [ct])"
    using open_seal [OF _ aead] suite by (simp_all add: suite_ok_def m_def)
  have k: "length cb = cid_len" "length (mk clear) = n" "length ln = 2"
    using cb cid(2) mk(1) by (auto simp: clear n_def ln split: option.splits)
  have r: "rec @ rest = [f] @ cb @ mk clear @ ln @ (body @ tag) @ rest" by (simp add: rec mk_def)
  note fields = sealed_fields [OF k r]
  have seq: "reconstruct_seq (read_seq clear) (seq_bits (sh_seq_len hdr)) expected = sh_seq hdr"
    using near by (intro reconstruct_seq_recovers) (simp_all add: clear n_def read_write_seq)
  have len: "unat (from_be_bytes ln :: 16 word) = m"
    using m16 by (simp add: ln from_to_be_bytes unat_of_nat)
  have m17: "17 \<le> m" by (simp add: m_def)
  have fb: "f AND UNIFIED_HDR_FIXED_MASK = UNIFIED_HDR_FIXED"
      "(f AND HDR_SEQ_16BIT \<noteq> 0) = (sh_seq_len hdr = SeqTwo)" "f AND HDR_LENGTH_PRESENT \<noteq> 0"
    by (simp_all add: f_def unified_first_bits)
  have cp: "(f AND HDR_CID_PRESENT \<noteq> 0) = (cid_len > 0)"
    using cid by (auto simp: f_def unified_first_bits split: option.splits)
  have "open_record suite keys cid_len expected (rec @ rest) =
    rbind (map_err (\<lambda>_. DR_InnerPlaintext) (split_inner_plaintext (content @ [ct])))
      (\<lambda>(content, content_type).
       Inr \<lparr>op_epoch_low2 = f AND HDR_EPOCH_LOW2, op_seq = sh_seq hdr, op_content_type = content_type,
            op_content = content, op_record_len = 1 + cid_len + n + 2 + m\<rparr>)"
    unfolding open_record_framed [OF fb(1) cp fb(2,3) k(1) k(2) [unfolded n_def] k(3) r len m17 os(1,2)]
      Let_def mk_def [symmetric] mk(2) seq os(3) ok_or_simps rbind_simps n_def ..
  moreover have "split_inner_plaintext (content @ [ct]) = Inr (content, ct)"
    using small ct
    by (simp add: split_inner_plaintext_strips strip_padding_content TLS_CIPHERTEXT_MAX_def TLS_PLAINTEXT_MAX_def)
  moreover have "length rec = 1 + cid_len + n + 2 + m"
    using fields(8) os(1,2) m17 by simp
  ultimately show ?thesis by (simp add: f_def unified_first_bits)
qed

definition demo_suite :: DtlsSuite where
  "demo_suite = Aes128GcmSha256 demo_cipher (\<lambda>key sample. sample)"

definition demo_keys :: EpochKeys where
  "demo_keys = \<lparr>ek_keys = \<lparr>rk_key = [], rk_iv = replicate 12 0\<rparr>, ek_masker = []\<rparr>"

definition demo_header :: SealHeader where
  "demo_header = \<lparr>sh_epoch = 3, sh_seq = 0x1234, sh_seq_len = SeqTwo, sh_cid = Some [9]\<rparr>"

lemma demo_suite_ok: "suite_ok demo_suite"
  unfolding demo_suite_def by (rule suites_ok) (simp add: aead_correct_def demo_cipher_def comp_def)

end
