(* ===== verification/Hkdf.thy ===== *)
theory Hkdf
  imports Krabi_Prelude
begin

text \<open>
  The key schedule of \<^verbatim>\<open>hkdf.rs\<close>: the HkdfLabel encoder, Derive-Secret, the TLS 1.3 and
  DTLS 1.3 secrets and traffic keys, the Finished MAC and the running transcript hash.

  The HKDF and SHA-256 engine is the parameter \<^verbatim>\<open>HkdfBackend\<close>: extract and expand may fail, and
  the incremental hasher, whose state is the bytes it has been fed, may fail when it is
  read.  Secrets and digests are byte strings.
\<close>

section \<open>Model\<close>

datatype HkdfBackendError = HkdfFailed

datatype HkdfExpandError = HkdfOutputTooLong | HkdfInvalidPrk | HkdfExpandBackend HkdfBackendError

record HkdfBackend =
  hk_extract :: "bytes \<Rightarrow> bytes \<Rightarrow> HkdfBackendError + bytes"
  hk_expand :: "bytes \<Rightarrow> bytes \<Rightarrow> nat \<Rightarrow> HkdfExpandError + bytes"
  hk_digest :: "bytes \<Rightarrow> HkdfBackendError + bytes"

datatype HkdfLabelError =
    OutputTooLong
  | LabelTooLong
  | ContextTooLong
  | EncodedTooLong
  | LabelExpand HkdfExpandError
  | LabelBackend HkdfBackendError

datatype TranscriptError = RecordTooShort | TranscriptBackend HkdfBackendError

definition HKDF_LABEL_MAX :: nat where
  "HKDF_LABEL_MAX = 64"

definition ascii :: "string \<Rightarrow> bytes" where
  "ascii s = map of_char s"

definition TLS13_LABEL_PREFIX :: bytes where
  "TLS13_LABEL_PREFIX = ascii ''tls13 ''"

definition DTLS13_LABEL_PREFIX :: bytes where
  "DTLS13_LABEL_PREFIX = ascii ''dtls13''"

definition push_bytes :: "nat \<Rightarrow> bytes \<Rightarrow> bytes \<Rightarrow> HkdfLabelError + bytes" where
  "push_bytes cap v bs = (if length v + length bs \<le> cap then Inr (v @ bs) else Inl EncodedTooLong)"

definition hkdf_label :: "bytes \<Rightarrow> bytes \<Rightarrow> bytes \<Rightarrow> nat \<Rightarrow> HkdfLabelError + bytes" where
  "hkdf_label prefix label context out_len =
     (if out_len > 0xFFFF then Inl OutputTooLong
      else
        let label_total = length prefix + length label in
        if label_total > 0xFF then Inl LabelTooLong
        else if length context > 0xFF then Inl ContextTooLong
        else
          rbind (push_bytes HKDF_LABEL_MAX [] (to_be_bytes (word_of_nat out_len :: 16 word))) (\<lambda>info.
          rbind (push_bytes HKDF_LABEL_MAX info [word_of_nat label_total]) (\<lambda>info.
          rbind (push_bytes HKDF_LABEL_MAX info prefix) (\<lambda>info.
          rbind (push_bytes HKDF_LABEL_MAX info label) (\<lambda>info.
          rbind (push_bytes HKDF_LABEL_MAX info [word_of_nat (length context)]) (\<lambda>info.
            push_bytes HKDF_LABEL_MAX info context))))))"

definition hkdf_expand_label_prefixed ::
  "HkdfBackend \<Rightarrow> bytes \<Rightarrow> bytes \<Rightarrow> bytes \<Rightarrow> bytes \<Rightarrow> nat \<Rightarrow> HkdfLabelError + bytes" where
  "hkdf_expand_label_prefixed H prefix secret label context out_len =
     rbind (hkdf_label prefix label context out_len) (\<lambda>info.
       map_err LabelExpand (hk_expand H secret info out_len))"

definition hkdf_expand_label ::
  "HkdfBackend \<Rightarrow> bytes \<Rightarrow> bytes \<Rightarrow> bytes \<Rightarrow> nat \<Rightarrow> HkdfLabelError + bytes" where
  "hkdf_expand_label H secret label context out_len =
     hkdf_expand_label_prefixed H TLS13_LABEL_PREFIX secret label context out_len"

definition dtls_expand_label ::
  "HkdfBackend \<Rightarrow> bytes \<Rightarrow> bytes \<Rightarrow> bytes \<Rightarrow> nat \<Rightarrow> HkdfLabelError + bytes" where
  "dtls_expand_label H secret label context out_len =
     hkdf_expand_label_prefixed H DTLS13_LABEL_PREFIX secret label context out_len"

definition derive_secret :: "HkdfBackend \<Rightarrow> bytes \<Rightarrow> bytes \<Rightarrow> bytes \<Rightarrow> HkdfLabelError + bytes" where
  "derive_secret H secret label transcript_hash =
     hkdf_expand_label H secret label transcript_hash 32"

definition EMPTY_TRANSCRIPT_HASH :: bytes where
  "EMPTY_TRANSCRIPT_HASH =
     to_be_bytes (0xe3b0c44298fc1c149afbf4c8996fb92427ae41e4649b934ca495991b7852b855 :: 256 word)"

text \<open>The transcript is the bytes fed to the hasher.\<close>

type_synonym TranscriptHash = bytes

definition TranscriptHash_new :: TranscriptHash where
  "TranscriptHash_new = []"

definition update_record :: "TranscriptHash \<Rightarrow> bytes \<Rightarrow> TranscriptError + TranscriptHash" where
  "update_record t record =
     (if length record < 5 then Inl RecordTooShort
      else
        let body_len = unat (from_be_bytes [record ! 3, record ! 4] :: 16 word);
            end_pos = 5 + body_len
        in if length record < end_pos then Inl RecordTooShort
           else Inr (t @ sub_range 5 end_pos record))"

definition update :: "TranscriptHash \<Rightarrow> bytes \<Rightarrow> TranscriptHash" where
  "update t msg = t @ msg"

definition snapshot :: "HkdfBackend \<Rightarrow> TranscriptHash \<Rightarrow> TranscriptError + bytes" where
  "snapshot H t = map_err TranscriptBackend (hk_digest H t)"

definition early_secret :: "HkdfBackend \<Rightarrow> HkdfLabelError + bytes" where
  "early_secret H = map_err LabelBackend (hk_extract H (replicate 32 0) (replicate 32 0))"

definition handshake_secret :: "HkdfBackend \<Rightarrow> bytes \<Rightarrow> HkdfLabelError + bytes" where
  "handshake_secret H dhe =
     rbind (early_secret H) (\<lambda>es.
     rbind (derive_secret H es (ascii ''derived'') EMPTY_TRANSCRIPT_HASH) (\<lambda>salt.
       map_err LabelBackend (hk_extract H salt dhe)))"

definition handshake_traffic_secrets ::
  "HkdfBackend \<Rightarrow> bytes \<Rightarrow> bytes \<Rightarrow> HkdfLabelError + bytes \<times> bytes" where
  "handshake_traffic_secrets H hs transcript_hash_ch_sh =
     rbind (derive_secret H hs (ascii ''c hs traffic'') transcript_hash_ch_sh) (\<lambda>c.
     rbind (derive_secret H hs (ascii ''s hs traffic'') transcript_hash_ch_sh) (\<lambda>s.
       Inr (c, s)))"

definition traffic_keys :: "HkdfBackend \<Rightarrow> nat \<Rightarrow> bytes \<Rightarrow> HkdfLabelError + bytes \<times> bytes" where
  "traffic_keys H n traffic_secret =
     rbind (hkdf_expand_label H traffic_secret (ascii ''key'') [] n) (\<lambda>key.
     rbind (hkdf_expand_label H traffic_secret (ascii ''iv'') [] 12) (\<lambda>iv.
       Inr (key, iv)))"

definition sn_key :: "HkdfBackend \<Rightarrow> nat \<Rightarrow> bytes \<Rightarrow> HkdfLabelError + bytes" where
  "sn_key H n traffic_secret = dtls_expand_label H traffic_secret (ascii ''sn'') [] n"

definition dtls_derive_secret :: "HkdfBackend \<Rightarrow> bytes \<Rightarrow> bytes \<Rightarrow> bytes \<Rightarrow> HkdfLabelError + bytes" where
  "dtls_derive_secret H secret label transcript_hash =
     dtls_expand_label H secret label transcript_hash 32"

definition dtls_handshake_secret :: "HkdfBackend \<Rightarrow> bytes \<Rightarrow> HkdfLabelError + bytes" where
  "dtls_handshake_secret H dhe =
     rbind (early_secret H) (\<lambda>es.
     rbind (dtls_derive_secret H es (ascii ''derived'') EMPTY_TRANSCRIPT_HASH) (\<lambda>salt.
       map_err LabelBackend (hk_extract H salt dhe)))"

definition dtls_handshake_traffic_secrets ::
  "HkdfBackend \<Rightarrow> bytes \<Rightarrow> bytes \<Rightarrow> HkdfLabelError + bytes \<times> bytes" where
  "dtls_handshake_traffic_secrets H hs transcript_hash_ch_sh =
     rbind (dtls_derive_secret H hs (ascii ''c hs traffic'') transcript_hash_ch_sh) (\<lambda>c.
     rbind (dtls_derive_secret H hs (ascii ''s hs traffic'') transcript_hash_ch_sh) (\<lambda>s.
       Inr (c, s)))"

definition dtls_traffic_keys :: "HkdfBackend \<Rightarrow> nat \<Rightarrow> bytes \<Rightarrow> HkdfLabelError + bytes \<times> bytes" where
  "dtls_traffic_keys H n traffic_secret =
     rbind (dtls_expand_label H traffic_secret (ascii ''key'') [] n) (\<lambda>key.
     rbind (dtls_expand_label H traffic_secret (ascii ''iv'') [] 12) (\<lambda>iv.
       Inr (key, iv)))"

definition dtls_finished_mac :: "HkdfBackend \<Rightarrow> bytes \<Rightarrow> bytes \<Rightarrow> HkdfLabelError + bytes" where
  "dtls_finished_mac H traffic_secret transcript_hash =
     rbind (dtls_expand_label H traffic_secret (ascii ''finished'') [] 32) (\<lambda>finished_key.
       map_err LabelBackend (hk_extract H finished_key transcript_hash))"

definition dtls_master_secret :: "HkdfBackend \<Rightarrow> bytes \<Rightarrow> HkdfLabelError + bytes" where
  "dtls_master_secret H hs =
     rbind (dtls_derive_secret H hs (ascii ''derived'') EMPTY_TRANSCRIPT_HASH) (\<lambda>salt.
       map_err LabelBackend (hk_extract H salt (replicate 32 0)))"

definition dtls_application_traffic_secrets ::
  "HkdfBackend \<Rightarrow> bytes \<Rightarrow> bytes \<Rightarrow> HkdfLabelError + bytes \<times> bytes" where
  "dtls_application_traffic_secrets H ms th =
     rbind (dtls_derive_secret H ms (ascii ''c ap traffic'') th) (\<lambda>c.
     rbind (dtls_derive_secret H ms (ascii ''s ap traffic'') th) (\<lambda>s.
       Inr (c, s)))"

definition master_secret :: "HkdfBackend \<Rightarrow> bytes \<Rightarrow> HkdfLabelError + bytes" where
  "master_secret H hs =
     rbind (derive_secret H hs (ascii ''derived'') EMPTY_TRANSCRIPT_HASH) (\<lambda>salt.
       map_err LabelBackend (hk_extract H salt (replicate 32 0)))"

definition application_traffic_secrets ::
  "HkdfBackend \<Rightarrow> bytes \<Rightarrow> bytes \<Rightarrow> HkdfLabelError + bytes \<times> bytes" where
  "application_traffic_secrets H ms th =
     rbind (derive_secret H ms (ascii ''c ap traffic'') th) (\<lambda>c.
     rbind (derive_secret H ms (ascii ''s ap traffic'') th) (\<lambda>s.
       Inr (c, s)))"

definition next_application_traffic_secret :: "HkdfBackend \<Rightarrow> bytes \<Rightarrow> HkdfLabelError + bytes" where
  "next_application_traffic_secret H secret =
     hkdf_expand_label H secret (ascii ''traffic upd'') [] 32"

definition finished_mac :: "HkdfBackend \<Rightarrow> bytes \<Rightarrow> bytes \<Rightarrow> HkdfLabelError + bytes" where
  "finished_mac H traffic_secret transcript_hash =
     rbind (hkdf_expand_label H traffic_secret (ascii ''finished'') [] 32) (\<lambda>finished_key.
       map_err LabelBackend (hk_extract H finished_key transcript_hash))"

text \<open>What the trait documents of a working engine: extract returns a 32-byte key, expand returns
  the requested number of bytes up to 255 hash lengths, and a hash is 32 bytes.\<close>

definition backend_total :: "HkdfBackend \<Rightarrow> bool" where
  "backend_total H \<longleftrightarrow>
     (\<forall>salt ikm. \<exists>prk. hk_extract H salt ikm = Inr prk \<and> length prk = 32) \<and>
     (\<forall>prk info n. n \<le> 255 * 32 \<longrightarrow> (\<exists>okm. hk_expand H prk info n = Inr okm \<and> length okm = n)) \<and>
     (\<forall>m. \<exists>d. hk_digest H m = Inr d \<and> length d = 32)"

definition demo_backend :: HkdfBackend where
  "demo_backend = \<lparr>hk_extract = (\<lambda>salt ikm. Inr (replicate 32 (fold (+) (salt @ ikm) 1))),
     hk_expand = (\<lambda>prk info n. if n \<le> 255 * 32 then Inr (replicate n (fold (+) (prk @ info) 2))
                            else Inl HkdfOutputTooLong),
     hk_digest = (\<lambda>m. Inr (replicate 32 (fold (+) m 3)))\<rparr>"

section \<open>The label encoding\<close>

lemma push_bytes_ok [result_simps]:
  "push_bytes cap v bs = Inr w \<longleftrightarrow> length v + length bs \<le> cap \<and> w = v @ bs"
  by (auto simp: push_bytes_def)

lemma hkdf_label_ok:
  "hkdf_label prefix label context n = Inr info \<longleftrightarrow>
     n \<le> 0xFFFF \<and> length prefix + length label \<le> 0xFF \<and> length context \<le> 0xFF \<and>
     4 + length prefix + length label + length context \<le> 64 \<and>
     info = to_be_bytes (word_of_nat n :: 16 word) @ [word_of_nat (length prefix + length label)] @
            prefix @ label @ [word_of_nat (length context)] @ context"
  by (auto simp: hkdf_label_def Let_def HKDF_LABEL_MAX_def push_bytes_def result_simps)

lemma word_of_nat_8_inject: "m < 256 \<Longrightarrow> n < 256 \<Longrightarrow> (word_of_nat m :: 8 word) = word_of_nat n \<longleftrightarrow> m = n"
  by (metis mod_less unat_of_nat_byte)

lemma word_of_nat_16_inject:
  "m < 65536 \<Longrightarrow> n < 65536 \<Longrightarrow> (word_of_nat m :: 16 word) = word_of_nat n \<longleftrightarrow> m = n"
proof -
  have "unat (word_of_nat k :: 16 word) = k" if "k < 65536" for k
    using that by (simp add: unat_of_nat)
  then show "m < 65536 \<Longrightarrow> n < 65536 \<Longrightarrow> (word_of_nat m :: 16 word) = word_of_nat n \<longleftrightarrow> m = n"
    by metis
qed

lemma hkdf_label_inj:
  assumes "hkdf_label p l c n = Inr info" "hkdf_label p' l' c' n' = Inr info"
  shows "n = n' \<and> p @ l = p' @ l' \<and> c = c'"
proof -
  note a = assms [unfolded hkdf_label_ok]
  have eq: "to_be_bytes (word_of_nat n :: 16 word) @ word_of_nat (length (p @ l)) # (p @ l) @ word_of_nat (length c) # c =
      to_be_bytes (word_of_nat n' :: 16 word) @ word_of_nat (length (p' @ l')) # (p' @ l') @ word_of_nat (length c') # c'"
    using a by simp
  then have n: "to_be_bytes (word_of_nat n :: 16 word) = to_be_bytes (word_of_nat n' :: 16 word)"
    and rest: "word_of_nat (length (p @ l)) # (p @ l) @ word_of_nat (length c) # c =
      (word_of_nat (length (p' @ l')) :: byte) # (p' @ l') @ word_of_nat (length c') # c'"
    using append_eq_append_conv [THEN iffD1, OF disjI1, OF _ eq] by simp_all
  have "(word_of_nat n :: 16 word) = word_of_nat n'" using n by (simp add: to_be_bytes_inject)
  then have "n = n'" using word_of_nat_16_inject [of n n'] a by simp
  moreover have len: "length (p @ l) = length (p' @ l')"
    using rest a word_of_nat_8_inject [of "length (p @ l)" "length (p' @ l')"] by simp
  have tail: "(p @ l) @ word_of_nat (length c) # c = (p' @ l') @ word_of_nat (length c') # c'"
    using rest by (simp only: list.inject)
  have "p @ l = p' @ l' \<and> (word_of_nat (length c) :: byte) # c = word_of_nat (length c') # c'"
    by (rule append_eq_append_conv [THEN iffD1, OF disjI1, OF len tail])
  ultimately show ?thesis by simp
qed

text \<open>C37: Equal HkdfLabel encodings come from the same output length, the same prefixed label and the
  same context, and no HkdfLabel of the TLS 1.3 schedule is one of the DTLS 1.3 schedule.\<close>

theorem hkdf_labels_separate:
  assumes "hkdf_label p l c n = Inr info" "hkdf_label p' l' c' n' = Inr info"
  shows "n = n' \<and> p @ l = p' @ l' \<and> c = c' \<and>
    \<not> (p = TLS13_LABEL_PREFIX \<and> p' = DTLS13_LABEL_PREFIX)"
proof -
  have "TLS13_LABEL_PREFIX @ l \<noteq> DTLS13_LABEL_PREFIX @ l'"
    by (simp add: TLS13_LABEL_PREFIX_def DTLS13_LABEL_PREFIX_def ascii_def)
  then show ?thesis using hkdf_label_inj [OF assms] by auto
qed

theorem hkdf_labels_separate_witness:
  "\<exists>info. hkdf_label TLS13_LABEL_PREFIX (ascii ''key'') [] 16 = Inr info \<and>
     TLS13_LABEL_PREFIX @ ascii ''key'' = ascii ''tls13 k'' @ ascii ''ey''"
proof -
  obtain info where i: "hkdf_label TLS13_LABEL_PREFIX (ascii ''key'') [] 16 = Inr info"
    "hkdf_label (ascii ''tls13 k'') (ascii ''ey'') [] 16 = Inr info"
    by (simp add: hkdf_label_ok TLS13_LABEL_PREFIX_def ascii_def)
  then show ?thesis using hkdf_labels_separate [OF i] by blast
qed

section \<open>The schedule never hits its encoding limits\<close>

lemma length_ascii [simp]: "length (ascii s) = length s"
  by (simp add: ascii_def)

lemma length_prefixes [simp]:
  "length TLS13_LABEL_PREFIX = 6" "length DTLS13_LABEL_PREFIX = 6" "length EMPTY_TRANSCRIPT_HASH = 32"
  by (simp_all add: TLS13_LABEL_PREFIX_def DTLS13_LABEL_PREFIX_def EMPTY_TRANSCRIPT_HASH_def)

lemma expand_label_total:
  assumes "backend_total H" "length p = 6" "length l + length c \<le> 54" "n \<le> 255 * 32"
  shows "\<exists>okm. hkdf_expand_label_prefixed H p s l c n = Inr okm \<and> length okm = n"
proof -
  obtain info where "hkdf_label p l c n = Inr info" using assms by (simp add: hkdf_label_ok)
  moreover obtain okm where "hk_expand H s info n = Inr okm" "length okm = n"
    using assms(1,4) unfolding backend_total_def by blast
  ultimately show ?thesis by (simp add: hkdf_expand_label_prefixed_def)
qed

lemma derive_secret_total:
  assumes "backend_total H" "length l \<le> 22" "length th = 32"
  shows "\<exists>s'. derive_secret H s l th = Inr s' \<and> length s' = 32"
    "\<exists>s'. dtls_derive_secret H s l th = Inr s' \<and> length s' = 32"
  using assms expand_label_total [OF assms(1), where l = l and c = th and n = 32]
  by (simp_all add: derive_secret_def dtls_derive_secret_def hkdf_expand_label_def dtls_expand_label_def)

lemma extract_total:
  "backend_total H \<Longrightarrow> \<exists>s. map_err LabelBackend (hk_extract H salt ikm) = Inr s \<and> length s = 32"
  unfolding backend_total_def by (metis map_err_simps(2))

lemma rbind_is_ok: "is_ok m \<Longrightarrow> (\<And>x. m = Inr x \<Longrightarrow> is_ok (f x)) \<Longrightarrow> is_ok (rbind m f)"
  by (cases m) auto

lemma expand_is_ok:
  assumes "backend_total H" "length l \<le> 22" "length c \<le> 32" "n \<le> 255 * 32"
  shows "is_ok (hkdf_expand_label H s l c n)" "is_ok (dtls_expand_label H s l c n)"
  using expand_label_total [OF assms(1) length_prefixes(1) _ assms(4), of l c s]
    expand_label_total [OF assms(1) length_prefixes(2) _ assms(4), of l c s] assms(2,3)
  by (auto simp: hkdf_expand_label_def dtls_expand_label_def is_ok_iff)

lemma extract_is_ok: "backend_total H \<Longrightarrow> is_ok (map_err LabelBackend (hk_extract H salt ikm))"
  using extract_total [of H salt ikm] by (auto simp: is_ok_iff)

lemmas schedule_ok = rbind_is_ok expand_is_ok extract_is_ok

text \<open>With a working HKDF engine no step of the TLS 1.3 or the DTLS 1.3 schedule fails: the
  label, context and buffer limits of the encoder are never reached by the labels and the
  32-byte digests the schedule uses.\<close>

lemma key_schedule_total:
  assumes "backend_total H" "length th = 32" "n \<le> 32"
  shows "is_ok (handshake_secret H dhe) \<and> is_ok (handshake_traffic_secrets H s th) \<and>
    is_ok (traffic_keys H n s) \<and> is_ok (master_secret H s) \<and>
    is_ok (application_traffic_secrets H s th) \<and> is_ok (next_application_traffic_secret H s) \<and>
    is_ok (finished_mac H s th) \<and>
    is_ok (dtls_handshake_secret H dhe) \<and> is_ok (dtls_handshake_traffic_secrets H s th) \<and>
    is_ok (dtls_traffic_keys H n s) \<and> is_ok (sn_key H n s) \<and> is_ok (dtls_master_secret H s) \<and>
    is_ok (dtls_application_traffic_secrets H s th) \<and> is_ok (dtls_finished_mac H s th)"
  using assms
  unfolding early_secret_def handshake_secret_def handshake_traffic_secrets_def traffic_keys_def
    sn_key_def dtls_handshake_secret_def dtls_handshake_traffic_secrets_def dtls_traffic_keys_def
    dtls_finished_mac_def dtls_master_secret_def dtls_application_traffic_secrets_def
    master_secret_def application_traffic_secrets_def next_application_traffic_secret_def
    finished_mac_def derive_secret_def dtls_derive_secret_def
  by (intro conjI schedule_ok) simp_all

text \<open>Hashing a record covers exactly the declared body, whatever follows it.\<close>

lemma update_record_body:
  assumes "length hdr = 3" "length body < 2 ^ 16"
  shows "update_record t (hdr @ to_be_bytes (word_of_nat (length body) :: 16 word) @ body @ rest) =
    Inr (t @ body)"
proof -
  define ln where "ln = to_be_bytes (word_of_nat (length body) :: 16 word)"
  have len: "length ln = 2" by (simp add: ln_def)
  have "unat (from_be_bytes ln :: 16 word) = length body"
    using assms(2) by (simp add: ln_def from_to_be_bytes unat_of_nat)
  moreover have "[(hdr @ ln @ body @ rest) ! 3, (hdr @ ln @ body @ rest) ! 4] = ln"
    using assms(1) len list_of_length_2 [OF len] by (simp add: nth_append)
  moreover have "sub_range 5 (5 + length body) (hdr @ ln @ body @ rest) = body"
    using assms(1) len by simp
  ultimately show ?thesis using assms(1) len by (simp add: update_record_def Let_def flip: ln_def)
qed

end
