(* ===== verification/Dtls_Keys.thy ===== *)
theory Dtls_Keys
  imports Dtls_Record Hkdf
begin

text \<open>
  Traffic keys: \<^verbatim>\<open>CipherSuite::derive_keys\<close> and \<^verbatim>\<open>RecordKeys::derive\<close> of \<^verbatim>\<open>aead.rs\<close> (TLS
  labels), \<^verbatim>\<open>EpochKeys::derive\<close> of \<^verbatim>\<open>dtls/record.rs\<close> (DTLS labels), and the handshake
  epoch of \<^verbatim>\<open>dtls/keys.rs\<close>.  A suite enters through its key length.
\<close>

datatype KeyScheduleError = DhAllZero | KeyScheduleHkdf

definition derive_keys :: "HkdfBackend \<Rightarrow> nat \<Rightarrow> bytes \<Rightarrow> HkdfLabelError + RecordKeys" where
  "derive_keys H key_len traffic_secret =
     rbind (traffic_keys H key_len traffic_secret) (\<lambda>(key, iv). Inr \<lparr>rk_key = key, rk_iv = iv\<rparr>)"

definition derive_record_keys :: "HkdfBackend \<Rightarrow> DtlsSuite \<Rightarrow> bytes \<Rightarrow> HkdfLabelError + RecordKeys" where
  "derive_record_keys H S traffic_secret =
     rbind (dtls_traffic_keys H (ds_key_len S) traffic_secret)
       (\<lambda>(key, iv). Inr \<lparr>rk_key = key, rk_iv = iv\<rparr>)"

definition derive_masker :: "HkdfBackend \<Rightarrow> DtlsSuite \<Rightarrow> bytes \<Rightarrow> HkdfLabelError + bytes" where
  "derive_masker H S traffic_secret = sn_key H (ds_key_len S) traffic_secret"

definition EpochKeys_derive :: "HkdfBackend \<Rightarrow> DtlsSuite \<Rightarrow> bytes \<Rightarrow> HkdfLabelError + EpochKeys" where
  "EpochKeys_derive H S traffic_secret =
     rbind (derive_record_keys H S traffic_secret) (\<lambda>keys.
     rbind (derive_masker H S traffic_secret) (\<lambda>masker.
       Inr \<lparr>ek_keys = keys, ek_masker = masker\<rparr>))"

record HandshakeKeys =
  hk_client :: EpochKeys
  hk_server :: EpochKeys
  hk_client_hs_ts :: bytes
  hk_server_hs_ts :: bytes
  hk_hs_secret :: bytes

definition derive_handshake_keys ::
  "HkdfBackend \<Rightarrow> DtlsSuite \<Rightarrow> bytes \<Rightarrow> bytes \<Rightarrow> KeyScheduleError + HandshakeKeys" where
  "derive_handshake_keys H S shared_secret transcript_hash_ch_sh =
     (if shared_secret = replicate 32 0 then Inl DhAllZero
      else
        map_err (\<lambda>_. KeyScheduleHkdf)
          (rbind (dtls_handshake_secret H shared_secret) (\<lambda>hs.
           rbind (dtls_handshake_traffic_secrets H hs transcript_hash_ch_sh) (\<lambda>(client_hs_ts, server_hs_ts).
           rbind (EpochKeys_derive H S client_hs_ts) (\<lambda>client.
           rbind (EpochKeys_derive H S server_hs_ts) (\<lambda>server.
             Inr \<lparr>hk_client = client, hk_server = server, hk_client_hs_ts = client_hs_ts,
                  hk_server_hs_ts = server_hs_ts, hk_hs_secret = hs\<rparr>))))))"

text \<open>Keys of the shape a suite needs.\<close>

definition epoch_keys_ok :: "DtlsSuite \<Rightarrow> EpochKeys \<Rightarrow> bool" where
  "epoch_keys_ok S ks \<longleftrightarrow> length (rk_key (ek_keys ks)) = ds_key_len S \<and>
     length (rk_iv (ek_keys ks)) = 12 \<and> length (ek_masker ks) = ds_key_len S"

lemma derive_keys_total:
  assumes "backend_total H" "n \<le> 32"
  shows "\<exists>ks. derive_keys H n s = Inr ks \<and> length (rk_key ks) = n \<and> length (rk_iv ks) = 12"
proof -
  obtain key where "hkdf_expand_label H s (ascii ''key'') [] n = Inr key" "length key = n"
    using expand_label_total [OF assms(1), of TLS13_LABEL_PREFIX "ascii ''key''" "[]" n s] assms(2)
    by (auto simp: hkdf_expand_label_def)
  moreover obtain iv where "hkdf_expand_label H s (ascii ''iv'') [] 12 = Inr iv" "length iv = 12"
    using expand_label_total [OF assms(1), of TLS13_LABEL_PREFIX "ascii ''iv''" "[]" 12 s]
    by (auto simp: hkdf_expand_label_def)
  ultimately show ?thesis by (simp add: derive_keys_def traffic_keys_def)
qed

lemma EpochKeys_derive_total:
  assumes "backend_total H" "ds_key_len S \<le> 32"
  shows "\<exists>ks. EpochKeys_derive H S s = Inr ks \<and> epoch_keys_ok S ks"
proof -
  have x: "\<exists>okm. dtls_expand_label H s l [] n = Inr okm \<and> length okm = n"
    if "length l \<le> 54" "n \<le> 32" for l n
    using expand_label_total [OF assms(1), of DTLS13_LABEL_PREFIX l "[]" n s] that
    by (simp add: dtls_expand_label_def)
  obtain key where "dtls_expand_label H s (ascii ''key'') [] (ds_key_len S) = Inr key" "length key = ds_key_len S"
    using x [of "ascii ''key''"] assms(2) by auto
  moreover obtain iv where "dtls_expand_label H s (ascii ''iv'') [] 12 = Inr iv" "length iv = 12"
    using x [of "ascii ''iv''" 12] by auto
  moreover obtain sn where "dtls_expand_label H s (ascii ''sn'') [] (ds_key_len S) = Inr sn" "length sn = ds_key_len S"
    using x [of "ascii ''sn''"] assms(2) by auto
  ultimately show ?thesis
    by (simp add: EpochKeys_derive_def derive_record_keys_def derive_masker_def sn_key_def
        dtls_traffic_keys_def epoch_keys_ok_def)
qed

text \<open>C38: With a working HKDF engine the handshake epoch is derived exactly when the shared secret is
  not all zero; a low-order share is refused, and otherwise both directions get keys, IVs and
  masker keys of the lengths the suite needs.\<close>

theorem derive_handshake_keys_exact:
  assumes "backend_total H" "ds_key_len S \<le> 32" "length th = 32"
  shows "if secret = replicate 32 0 then derive_handshake_keys H S secret th = Inl DhAllZero
    else \<exists>ks. derive_handshake_keys H S secret th = Inr ks \<and>
      epoch_keys_ok S (hk_client ks) \<and> epoch_keys_ok S (hk_server ks) \<and>
      EpochKeys_derive H S (hk_client_hs_ts ks) = Inr (hk_client ks) \<and>
      EpochKeys_derive H S (hk_server_hs_ts ks) = Inr (hk_server ks)"
proof (cases "secret = replicate 32 0")
  case True
  then show ?thesis by (simp add: derive_handshake_keys_def)
next
  case False
  have "is_ok (dtls_handshake_secret H secret)"
    using assms unfolding dtls_handshake_secret_def early_secret_def dtls_derive_secret_def
    by (intro schedule_ok) simp_all
  then obtain hs where hs: "dtls_handshake_secret H secret = Inr hs" by (auto simp: is_ok_iff)
  have "is_ok (dtls_handshake_traffic_secrets H hs th)"
    using assms unfolding dtls_handshake_traffic_secrets_def dtls_derive_secret_def
    by (intro schedule_ok) simp_all
  then obtain c s where cs: "dtls_handshake_traffic_secrets H hs th = Inr (c, s)"
    by (auto simp: is_ok_iff)
  obtain kc ks where "EpochKeys_derive H S c = Inr kc" "epoch_keys_ok S kc"
      "EpochKeys_derive H S s = Inr ks" "epoch_keys_ok S ks"
    using EpochKeys_derive_total [OF assms(1,2)] by metis
  then show ?thesis using False hs cs by (simp add: derive_handshake_keys_def)
qed

theorem derive_handshake_keys_exact_witness:
  "(\<exists>ks. derive_handshake_keys demo_backend demo_suite (replicate 32 7) (replicate 32 1) = Inr ks) \<and>
   derive_handshake_keys demo_backend demo_suite (replicate 32 0) (replicate 32 1) = Inl DhAllZero"
proof -
  have d: "backend_total demo_backend" by (simp add: backend_total_def demo_backend_def)
  have k: "ds_key_len demo_suite \<le> 32" by (simp add: demo_suite_def Aes128GcmSha256_def)
  show ?thesis
    using derive_handshake_keys_exact [OF d k, of "replicate 32 1" "replicate 32 7"]
      derive_handshake_keys_exact [OF d k, of "replicate 32 1" "replicate 32 0"]
    by auto
qed

end
