(* ===== verification/Verify_Strategy.thy ===== *)
theory Verify_Strategy
  imports Krabi_Prelude
begin

text \<open>
  Certificates as the verification layer sees them (\<^verbatim>\<open>traits/cert.rs\<close>) and the strategy
  surface of \<^verbatim>\<open>traits/verify_strategy.rs\<close>: prepared verifiers, the per-link signature check,
  and \<^verbatim>\<open>SafeStrategy\<close>, the adapter from a trust-root decision to a chain verdict.  The model
  is the build with the features \<^verbatim>\<open>rsa\<close>, \<^verbatim>\<open>mldsa\<close>, \<^verbatim>\<open>ecdsa\<close> and \<^verbatim>\<open>cert-der\<close> on and
  \<^verbatim>\<open>rsa_pss_only\<close> off.

  The signature backend is a parameter: a record with, for each algorithm, the constructor
  of a verifier from key material, the verification of a signature, and the comparison of
  the verifier's key with candidate material.
\<close>

section \<open>Certificates\<close>

record CaConstraints =
  cc_is_ca :: bool
  cc_path_len :: "32 word option"
  cc_key_cert_sign :: "bool option"

datatype RsaCertSigAlg = Pkcs1v15Sha256 | PssSha256

datatype CertView =
    CV_Ed25519 (cv_tbs: bytes) (cv_signature: bytes) (cv_pubkey: bytes) (cv_san: "bytes option") (cv_validity_der: bytes)
  | CV_Rsa (cv_tbs: bytes) (cv_signature: bytes) (cv_outer_sig_alg: "RsaCertSigAlg option") (cv_modulus: bytes)
      (cv_exponent: "32 word") (cv_san: "bytes option") (cv_validity_der: bytes)
  | CV_MlDsa (cv_tbs: bytes) (cv_signature: bytes) (cv_pubkey: bytes) (cv_san: "bytes option") (cv_validity_der: bytes)
  | CV_EcdsaP256 (cv_tbs: bytes) (cv_signature: bytes) (cv_pubkey: bytes)
      (cv_outer_sig_alg: "RsaCertSigAlg option") (cv_san: "bytes option") (cv_validity_der: bytes)
  | CV_EcdsaP384 (cv_tbs: bytes) (cv_signature: bytes) (cv_pubkey: bytes)
      (cv_outer_sig_alg: "RsaCertSigAlg option") (cv_san: "bytes option") (cv_validity_der: bytes)

datatype CertParseError =
    CP_Malformed
  | CP_UnhandledCriticalExtension
  | CP_WrongPubkeyLength
  | CP_WrongSignatureLength
  | CP_BitStringHasUnusedBits
  | CP_TrailingBytes
  | CP_WrongAlgorithmOid
  | CP_AlgorithmHasParameters
  | CP_SignatureAlgorithmMismatch
  | CP_UnsupportedCertVersion
  | CP_BadRsaPubkey
  | CP_UnsupportedRsaKeySize
  | CP_WrongMlDsaPubkeyLength
  | CP_WrongEcdsaPubkey

record CertParser =
  cp_parse :: "bytes \<Rightarrow> CertParseError + CertView"
  cp_parse_ca_constraints :: "bytes \<Rightarrow> CertParseError + CaConstraints"
  cp_spki_der :: "bytes \<Rightarrow> CertParseError + bytes"

section \<open>Verifiers\<close>

datatype ServerPubkey =
    SP_Ed25519 bytes
  | SP_Rsa bytes "32 word"
  | SP_MlDsa bytes
  | SP_EcdsaP256 bytes
  | SP_EcdsaP384 bytes

record 'v VerifierBackend =
  ed_prepare :: "bytes \<Rightarrow> 'v option"
  ed_verify :: "'v \<Rightarrow> bytes \<Rightarrow> bytes \<Rightarrow> bool"
  ed_matches :: "'v \<Rightarrow> bytes \<Rightarrow> bool"
  rsa_prepare :: "bytes \<times> 32 word \<Rightarrow> 'v option"
  rsa_verify :: "'v \<Rightarrow> bytes \<Rightarrow> RsaCertSigAlg \<times> bytes \<Rightarrow> bool"
  rsa_matches :: "'v \<Rightarrow> bytes \<times> 32 word \<Rightarrow> bool"
  mldsa_prepare :: "bytes \<Rightarrow> 'v option"
  mldsa_verify :: "'v \<Rightarrow> bytes \<Rightarrow> bytes \<Rightarrow> bool"
  mldsa_matches :: "'v \<Rightarrow> bytes \<Rightarrow> bool"
  p256_prepare :: "bytes \<Rightarrow> 'v option"
  p256_verify :: "'v \<Rightarrow> bytes \<Rightarrow> bytes \<Rightarrow> bool"
  p256_matches :: "'v \<Rightarrow> bytes \<Rightarrow> bool"
  p384_prepare :: "bytes \<Rightarrow> 'v option"
  p384_verify :: "'v \<Rightarrow> bytes \<Rightarrow> bytes \<Rightarrow> bool"
  p384_matches :: "'v \<Rightarrow> bytes \<Rightarrow> bool"

datatype 'v PreparedVerifier =
    PV_Ed25519 'v
  | PV_Rsa 'v
  | PV_MlDsa 'v
  | PV_EcdsaP256 'v
  | PV_EcdsaP384 'v

fun matches_cert :: "'v VerifierBackend \<Rightarrow> 'v PreparedVerifier \<Rightarrow> CertView \<Rightarrow> bool" where
  "matches_cert P (PV_Ed25519 v) (CV_Ed25519 _ _ pk _ _) = ed_matches P v pk"
| "matches_cert P (PV_Rsa v) (CV_Rsa _ _ _ m e _ _) = rsa_matches P v (m, e)"
| "matches_cert P (PV_MlDsa v) (CV_MlDsa _ _ pk _ _) = mldsa_matches P v pk"
| "matches_cert P (PV_EcdsaP256 v) (CV_EcdsaP256 _ _ pk _ _ _) =
     (if length pk = 65 then p256_matches P v pk else False)"
| "matches_cert P (PV_EcdsaP384 v) (CV_EcdsaP384 _ _ pk _ _ _) =
     (if length pk = 97 then p384_matches P v pk else False)"
| "matches_cert P _ _ = False"

datatype PrepareLeafErr = PL_Ed25519 | PL_Rsa | PL_MlDsa | PL_Ecdsa

fun prepare_leaf :: "'v VerifierBackend \<Rightarrow> CertView \<Rightarrow> PrepareLeafErr + 'v PreparedVerifier" where
  "prepare_leaf P (CV_Ed25519 _ _ pk _ _) =
     rbind (ok_or PL_Ed25519 (ed_prepare P pk)) (\<lambda>v. Inr (PV_Ed25519 v))"
| "prepare_leaf P (CV_Rsa _ _ _ m e _ _) =
     rbind (ok_or PL_Rsa (rsa_prepare P (m, e))) (\<lambda>v. Inr (PV_Rsa v))"
| "prepare_leaf P (CV_MlDsa _ _ pk _ _) =
     rbind (ok_or PL_MlDsa (mldsa_prepare P pk)) (\<lambda>v. Inr (PV_MlDsa v))"
| "prepare_leaf P (CV_EcdsaP256 _ _ pk _ _ _) =
     (if length pk \<noteq> 65 then Inl PL_Ecdsa
      else rbind (ok_or PL_Ecdsa (p256_prepare P pk)) (\<lambda>v. Inr (PV_EcdsaP256 v)))"
| "prepare_leaf P (CV_EcdsaP384 _ _ pk _ _ _) =
     (if length pk \<noteq> 97 then Inl PL_Ecdsa
      else rbind (ok_or PL_Ecdsa (p384_prepare P pk)) (\<lambda>v. Inr (PV_EcdsaP384 v)))"

datatype LinkErr = LE_LinkSignatureInvalid | LE_UnknownLinkSigAlg | LE_RsaVerifierInvalid | LE_MlDsaVerifierInvalid

definition require :: "'e \<Rightarrow> bool \<Rightarrow> 'e + unit" where
  "require e b = (if b then Inr () else Inl e)"

fun link_sig_alg :: "CertView \<Rightarrow> LinkErr + RsaCertSigAlg" where
  "link_sig_alg (CV_Rsa _ _ alg _ _ _ _) = ok_or LE_UnknownLinkSigAlg alg"
| "link_sig_alg (CV_EcdsaP256 _ _ _ alg _ _) = ok_or LE_UnknownLinkSigAlg alg"
| "link_sig_alg (CV_EcdsaP384 _ _ _ alg _ _) = ok_or LE_UnknownLinkSigAlg alg"
| "link_sig_alg _ = Inl LE_UnknownLinkSigAlg"

fun verify_link :: "'v VerifierBackend \<Rightarrow> CertView \<Rightarrow> CertView \<Rightarrow> LinkErr + unit" where
  "verify_link P child (CV_Ed25519 _ _ pk _ _) =
     rbind (ok_or LE_LinkSignatureInvalid (ed_prepare P pk)) (\<lambda>v.
       if length (cv_signature child) \<noteq> 64 then Inl LE_LinkSignatureInvalid
       else require LE_LinkSignatureInvalid (ed_verify P v (cv_tbs child) (cv_signature child)))"
| "verify_link P child (CV_MlDsa _ _ pk _ _) =
     rbind (ok_or LE_MlDsaVerifierInvalid (mldsa_prepare P pk)) (\<lambda>v.
       require LE_LinkSignatureInvalid (mldsa_verify P v (cv_tbs child) (cv_signature child)))"
| "verify_link P child (CV_Rsa _ _ _ m e _ _) =
     rbind (link_sig_alg child) (\<lambda>alg.
     rbind (ok_or LE_RsaVerifierInvalid (rsa_prepare P (m, e))) (\<lambda>v.
       require LE_LinkSignatureInvalid (rsa_verify P v (cv_tbs child) (alg, cv_signature child))))"
| "verify_link P child (CV_EcdsaP256 _ _ pk _ _ _) =
     (if length pk \<noteq> 65 then Inl LE_LinkSignatureInvalid
      else
        rbind (ok_or LE_LinkSignatureInvalid (p256_prepare P pk)) (\<lambda>v.
          require LE_LinkSignatureInvalid (p256_verify P v (cv_tbs child) (cv_signature child))))"
| "verify_link P child (CV_EcdsaP384 _ _ pk _ _ _) =
     (if length pk \<noteq> 97 then Inl LE_LinkSignatureInvalid
      else
        rbind (ok_or LE_LinkSignatureInvalid (p384_prepare P pk)) (\<lambda>v.
          require LE_LinkSignatureInvalid (p384_verify P v (cv_tbs child) (cv_signature child))))"

section \<open>SafeStrategy\<close>

datatype 'te SafeStrategyError =
    SS_Parse CertParseError
  | SS_ChainTooLong
  | SS_EmptyChain
  | SS_LinkSignatureInvalid
  | SS_Ed25519VerifierInvalid
  | SS_UnknownLinkSigAlg
  | SS_RsaVerifierInvalid
  | SS_MlDsaVerifierInvalid
  | SS_EcdsaVerifierInvalid
  | SS_Decision 'te
  | SS_Validity

fun ss_of_prepare :: "PrepareLeafErr \<Rightarrow> 'te SafeStrategyError" where
  "ss_of_prepare PL_Ed25519 = SS_Ed25519VerifierInvalid"
| "ss_of_prepare PL_Rsa = SS_RsaVerifierInvalid"
| "ss_of_prepare PL_MlDsa = SS_MlDsaVerifierInvalid"
| "ss_of_prepare PL_Ecdsa = SS_EcdsaVerifierInvalid"

fun ss_of_link :: "LinkErr \<Rightarrow> 'te SafeStrategyError" where
  "ss_of_link LE_LinkSignatureInvalid = SS_LinkSignatureInvalid"
| "ss_of_link LE_UnknownLinkSigAlg = SS_UnknownLinkSigAlg"
| "ss_of_link LE_RsaVerifierInvalid = SS_RsaVerifierInvalid"
| "ss_of_link LE_MlDsaVerifierInvalid = SS_MlDsaVerifierInvalid"

record 'te TrustRootDecision =
  td_anchors_at_leaf :: bool
  td_accept_chain :: "CertView list \<Rightarrow> 'te + unit"

text \<open>A clock accepts or rejects the validity window of a certificate.\<close>

type_synonym Clock = "CertView \<Rightarrow> bool"

definition NoClock :: Clock where
  "NoClock leaf = True"

definition SAFE_STRATEGY_CHAIN_CAP :: nat where
  "SAFE_STRATEGY_CHAIN_CAP = 8"

fun parse_views ::
  "(bytes \<Rightarrow> CertParseError + CertView) \<Rightarrow> bytes list \<Rightarrow> CertView list \<Rightarrow> 'te SafeStrategyError + CertView list" where
  "parse_views parse [] views = Inr views"
| "parse_views parse (c # cs) views =
     rbind (map_err SS_Parse (parse c)) (\<lambda>view.
       if length views < SAFE_STRATEGY_CHAIN_CAP then parse_views parse cs (views @ [view])
       else Inl SS_ChainTooLong)"

fun verify_links :: "'v VerifierBackend \<Rightarrow> CertView list \<Rightarrow> 'te SafeStrategyError + unit" where
  "verify_links P (a # b # vs) =
     rbind (map_err ss_of_link (verify_link P a b)) (\<lambda>_. verify_links P (b # vs))"
| "verify_links P _ = Inr ()"

fun check_validities :: "Clock \<Rightarrow> CertView list \<Rightarrow> 'te SafeStrategyError + unit" where
  "check_validities K [] = Inr ()"
| "check_validities K (v # vs) = rbind (require SS_Validity (K v)) (\<lambda>_. check_validities K vs)"

definition SafeStrategy_verify_chain ::
  "'v VerifierBackend \<Rightarrow> CertParser \<Rightarrow> 'te TrustRootDecision \<Rightarrow> Clock \<Rightarrow> bytes list \<Rightarrow>
   'te SafeStrategyError + 'v PreparedVerifier" where
  "SafeStrategy_verify_chain P C decision K certs =
     (if certs = [] then Inl SS_EmptyChain
      else if length certs > SAFE_STRATEGY_CHAIN_CAP then Inl SS_ChainTooLong
      else
        let leaf_only = td_anchors_at_leaf decision;
            to_parse = (if leaf_only then take 1 certs else certs)
        in rbind (parse_views (cp_parse C) to_parse []) (\<lambda>views.
           rbind (if \<not> leaf_only then verify_links P views else Inr ()) (\<lambda>_.
           rbind (map_err SS_Decision (td_accept_chain decision views)) (\<lambda>_.
           rbind (if leaf_only then require SS_Validity (K (views ! 0)) else check_validities K views) (\<lambda>_.
             map_err ss_of_prepare (prepare_leaf P (views ! 0)))))))"

section \<open>What a verdict means\<close>

text \<open>The signature on the child verifies under the key of the parent, with the padding scheme
  the child names where the key is an RSA key.\<close>

fun signed_by :: "'v VerifierBackend \<Rightarrow> CertView \<Rightarrow> CertView \<Rightarrow> bool" where
  "signed_by P c (CV_Ed25519 _ _ pk _ _) \<longleftrightarrow>
     (\<exists>v. ed_prepare P pk = Some v \<and> length (cv_signature c) = 64 \<and> ed_verify P v (cv_tbs c) (cv_signature c))"
| "signed_by P c (CV_MlDsa _ _ pk _ _) \<longleftrightarrow>
     (\<exists>v. mldsa_prepare P pk = Some v \<and> mldsa_verify P v (cv_tbs c) (cv_signature c))"
| "signed_by P c (CV_Rsa _ _ _ m e _ _) \<longleftrightarrow>
     (\<exists>v alg. link_sig_alg c = Inr alg \<and> rsa_prepare P (m, e) = Some v \<and>
        rsa_verify P v (cv_tbs c) (alg, cv_signature c))"
| "signed_by P c (CV_EcdsaP256 _ _ pk _ _ _) \<longleftrightarrow>
     length pk = 65 \<and> (\<exists>v. p256_prepare P pk = Some v \<and> p256_verify P v (cv_tbs c) (cv_signature c))"
| "signed_by P c (CV_EcdsaP384 _ _ pk _ _ _) \<longleftrightarrow>
     length pk = 97 \<and> (\<exists>v. p384_prepare P pk = Some v \<and> p384_verify P v (cv_tbs c) (cv_signature c))"

text \<open>What the traits ask of a backend: a verifier prepared from some key material matches that
  material, and a verifier that matches some material is the one prepared from it.\<close>

definition matching :: "('k \<Rightarrow> 'v option) \<Rightarrow> ('v \<Rightarrow> 'k \<Rightarrow> bool) \<Rightarrow> bool" where
  "matching prep mat \<longleftrightarrow> (\<forall>v k. mat v k \<longleftrightarrow> prep k = Some v)"

definition backend_honest :: "'v VerifierBackend \<Rightarrow> bool" where
  "backend_honest P \<longleftrightarrow> matching (ed_prepare P) (ed_matches P) \<and> matching (rsa_prepare P) (rsa_matches P) \<and>
     matching (mldsa_prepare P) (mldsa_matches P) \<and> matching (p256_prepare P) (p256_matches P) \<and>
     matching (p384_prepare P) (p384_matches P)"

lemma require_eq_Inr [simp]: "require e b = Inr u \<longleftrightarrow> b"
  by (simp add: require_def)

lemma is_ok_require [simp]: "is_ok (require e b) = b"
  by (simp add: require_def)

lemma verify_link_iff: "verify_link P c p = Inr u \<longleftrightarrow> signed_by P c p"
  by (cases p) (auto simp: result_simps)

lemma matches_cert_prepare:
  "backend_honest P \<Longrightarrow> matches_cert P v leaf \<longleftrightarrow> prepare_leaf P leaf = Inr v"
  by (cases leaf; cases v) (auto simp: backend_honest_def matching_def result_simps)

lemma parse_views_ok [result_simps]:
  "length acc + length cs \<le> SAFE_STRATEGY_CHAIN_CAP \<Longrightarrow>
   parse_views parse cs acc = Inr views \<longleftrightarrow> (\<exists>vs. views = acc @ vs \<and> map parse cs = map Inr vs)"
proof (induction cs arbitrary: acc)
  case Nil
  then show ?case by auto
next
  case (Cons c cs)
  show ?case
  proof (cases "parse c")
    case (Inl e)
    then show ?thesis by (auto simp: Cons_eq_map_conv)
  next
    case (Inr v)
    then show ?thesis using Cons.prems Cons.IH [of "acc @ [v]"] by (auto simp: Cons_eq_map_conv)
  qed
qed

lemma verify_links_ok [result_simps]: "verify_links P vs = Inr u \<longleftrightarrow> successively (signed_by P) vs"
  by (induction P vs rule: verify_links.induct) (auto simp: result_simps verify_link_iff)

lemma check_validities_ok [result_simps]: "check_validities K vs = Inr u \<longleftrightarrow> list_all K vs"
  by (induction vs) (auto simp: result_simps)

text \<open>C15: The verdict of \<^verbatim>\<open>SafeStrategy\<close>: a chain is accepted with the verifier \<^verbatim>\<open>v\<close> exactly when it
  is non-empty and of at most eight certificates, the certificates in scope (all of them, or
  the leaf alone for a leaf-anchored decision) parse, each is signed by the next, the
  decision accepts them, every one of them is time-valid, and \<^verbatim>\<open>v\<close> is prepared from the key
  of the leaf.\<close>

theorem safe_strategy_exact:
  "SafeStrategy_verify_chain P C decision K certs = Inr v \<longleftrightarrow>
     certs \<noteq> [] \<and> length certs \<le> 8 \<and>
     (\<exists>views. map (cp_parse C) (if td_anchors_at_leaf decision then take 1 certs else certs) = map Inr views \<and>
        (td_anchors_at_leaf decision \<or> successively (signed_by P) views) \<and>
        td_accept_chain decision views = Inr () \<and> list_all K views \<and>
        prepare_leaf P (hd views) = Inr v)"
  (is "?lhs \<longleftrightarrow> ?rhs")
proof (cases "certs = [] \<or> length certs > 8")
  case True
  then show ?thesis by (auto simp: SafeStrategy_verify_chain_def SAFE_STRATEGY_CHAIN_CAP_def)
next
  case False
  then obtain c cs where certs: "certs = c # cs" by (cases certs) auto
  have cap: "length (if td_anchors_at_leaf decision then take 1 certs else certs) \<le> SAFE_STRATEGY_CHAIN_CAP"
    using False by (auto simp: SAFE_STRATEGY_CHAIN_CAP_def)
  show ?thesis
    using False cap unfolding SafeStrategy_verify_chain_def Let_def certs
    by (cases "td_anchors_at_leaf decision")
      (auto simp: result_simps SAFE_STRATEGY_CHAIN_CAP_def Cons_eq_map_conv)
qed

end
