(* ===== verification/Server_Flight.thy ===== *)
theory Server_Flight
  imports Verify_Strategy Hkdf Tls_Consts
begin

text \<open>
  The encrypted server flight, \<^verbatim>\<open>server_flight.rs\<close>: the walk over its four or five handshake
  messages, the CertificateRequest and Certificate parsers, and the verification of
  CertificateVerify and Finished against the running transcript.

  The 24-bit lengths are naturals.  Where \<^verbatim>\<open>usize\<close> has 16 bits the source fails the conversion
  of a length above 65535 with \<^verbatim>\<open>Truncated\<close>, which is what the bounds check that follows
  answers for any buffer that fits such a machine.  A verified flight returns the advanced
  transcript with the server's key.
\<close>

section \<open>Model\<close>

datatype FlightError =
    FL_Truncated
  | FL_TrailingBytes
  | FL_UnexpectedHandshakeType "8 word" "8 word"
  | FL_BadCert CertParseError
  | FL_CertSelfSignatureInvalid
  | FL_UnexpectedSignatureScheme "16 word"
  | FL_WrongSignatureLength
  | FL_CertVerifyInvalid
  | FL_FinishedWrongLength
  | FL_FinishedMacInvalid
  | FL_HkdfLabel HkdfLabelError
  | FL_Transcript TranscriptError
  | FL_InternalEncoding
  | FL_DuplicateExtension "16 word"
  | FL_CertChainTooLong

record ServerFlightView =
  sf_ee_full :: bytes
  sf_ee_body :: bytes
  sf_cert_request_full :: "bytes option"
  sf_cert_full :: bytes
  sf_cert_body :: bytes
  sf_cv_full :: bytes
  sf_cv_body :: bytes
  sf_fin_full :: bytes
  sf_fin_body :: bytes

record HsReader =
  hr_buf :: bytes
  hr_pos :: nat

definition HsReader_new :: "bytes \<Rightarrow> HsReader" where
  "HsReader_new buf = \<lparr>hr_buf = buf, hr_pos = 0\<rparr>"

definition at_end :: "HsReader \<Rightarrow> bool" where
  "at_end r = (hr_pos r = length (hr_buf r))"

definition next_msg :: "HsReader \<Rightarrow> FlightError + (8 word \<times> bytes \<times> bytes) \<times> HsReader" where
  "next_msg r =
     (let buf = hr_buf r; pos = hr_pos r in
      if length buf < pos + 4 then Inl FL_Truncated
      else
        let msg_type = buf ! pos;
            len = unat (from_be_bytes [0, buf ! (pos + 1), buf ! (pos + 2), buf ! (pos + 3)] :: 32 word)
        in if len > length buf - pos - 4 then Inl FL_Truncated
           else
             let body_start = pos + 4;
                 body_end = body_start + len
             in Inr ((msg_type, sub_range body_start body_end buf, sub_range pos body_end buf),
                     r\<lparr>hr_pos := body_end\<rparr>))"

definition parse_server_flight :: "bytes \<Rightarrow> FlightError + ServerFlightView" where
  "parse_server_flight content =
     rbind (next_msg (HsReader_new content)) (\<lambda>((ee_type, ee_body, ee_full), r).
     if ee_type \<noteq> HS_ENCRYPTED_EXTENSIONS
     then Inl (FL_UnexpectedHandshakeType HS_ENCRYPTED_EXTENSIONS ee_type)
     else
     rbind (next_msg r) (\<lambda>((next_type, next_body, next_full), r).
     rbind (if next_type = HS_CERTIFICATE_REQUEST
            then rbind (next_msg r) (\<lambda>(msg, r). Inr (Some next_full, msg, r))
            else Inr (None, (next_type, next_body, next_full), r))
       (\<lambda>(cert_request_full, (cert_type, cert_body, cert_full), r).
     if cert_type \<noteq> HS_CERTIFICATE
     then Inl (FL_UnexpectedHandshakeType HS_CERTIFICATE cert_type)
     else
     rbind (next_msg r) (\<lambda>((cv_type, cv_body, cv_full), r).
     if cv_type \<noteq> HS_CERTIFICATE_VERIFY
     then Inl (FL_UnexpectedHandshakeType HS_CERTIFICATE_VERIFY cv_type)
     else
     rbind (next_msg r) (\<lambda>((fin_type, fin_body, fin_full), r).
     if fin_type \<noteq> HS_FINISHED
     then Inl (FL_UnexpectedHandshakeType HS_FINISHED fin_type)
     else if \<not> at_end r then Inl FL_TrailingBytes
     else Inr \<lparr>sf_ee_full = ee_full, sf_ee_body = ee_body, sf_cert_request_full = cert_request_full,
               sf_cert_full = cert_full, sf_cert_body = cert_body, sf_cv_full = cv_full,
               sf_cv_body = cv_body, sf_fin_full = fin_full, sf_fin_body = fin_body\<rparr>)))))"

definition cert_request_parts :: "bytes \<Rightarrow> FlightError + bytes \<times> bytes" where
  "cert_request_parts creq_full =
     (if get_at 0 creq_full \<noteq> Some HS_CERTIFICATE_REQUEST
      then Inl (FL_UnexpectedHandshakeType HS_CERTIFICATE_REQUEST
                  (case get_at 0 creq_full of None \<Rightarrow> 0 | Some b \<Rightarrow> b))
      else
        rbind (ok_or FL_Truncated (get_range 4 (length creq_full) creq_full)) (\<lambda>body.
        rbind (ok_or FL_Truncated (get_at 0 body)) (\<lambda>ctx_len.
          let ctx_end = 1 + unat ctx_len in
        rbind (ok_or FL_Truncated (get_range 1 ctx_end body)) (\<lambda>ctx.
        rbind (ok_or FL_Truncated (get_range ctx_end (ctx_end + 2) body)) (\<lambda>ext_len_bytes.
          let ext_len = unat (from_be_bytes [ext_len_bytes ! 0, ext_len_bytes ! 1] :: 16 word);
              exts_start = ctx_end + 2;
              remaining = length body - exts_start
          in if remaining < ext_len then Inl FL_Truncated
             else if remaining > ext_len then Inl FL_TrailingBytes
             else Inr (ctx, drop exts_start body))))))"

definition certificate_request_context :: "bytes \<Rightarrow> FlightError + bytes" where
  "certificate_request_context creq_full = rbind (cert_request_parts creq_full) (\<lambda>(ctx, _). Inr ctx)"

function sig_algs_loop :: "bytes \<Rightarrow> nat \<Rightarrow> FlightError + bytes" where
  "sig_algs_loop exts i =
     (if length exts - i \<ge> 4 then
        let etype = (from_be_bytes [exts ! i, exts ! (i + 1)] :: 16 word);
            dlen = unat (from_be_bytes [exts ! (i + 2), exts ! (i + 3)] :: 16 word);
            data_start = i + 4
        in if dlen > length exts - data_start then Inl FL_Truncated
           else
             let data = sub_range data_start (data_start + dlen) exts in
             if etype = EXT_SIGNATURE_ALGORITHMS then
               rbind (ok_or FL_Truncated (get_range 0 2 data)) (\<lambda>llen_bytes.
                 let llen = unat (from_be_bytes [llen_bytes ! 0, llen_bytes ! 1] :: 16 word) in
                 if llen \<noteq> length data - 2 \<or> llen < 2 \<or> odd llen then Inl FL_Truncated
                 else Inr (sub_range 2 (2 + llen) data))
             else sig_algs_loop exts (data_start + dlen)
      else if i \<noteq> length exts then Inl FL_Truncated
      else Inr [])"
  by pat_completeness auto
termination by (relation "measure (\<lambda>(exts, i). length exts - i)") auto

definition certificate_request_sig_algs :: "bytes \<Rightarrow> FlightError + bytes" where
  "certificate_request_sig_algs creq_full =
     rbind (cert_request_parts creq_full) (\<lambda>(_, exts). sig_algs_loop exts 0)"

definition sf_read_u24 :: "bytes \<Rightarrow> 32 word" where
  "sf_read_u24 b = from_be_bytes [0, b ! 0, b ! 1, b ! 2]"

function extract_chain_loop :: "nat \<Rightarrow> bytes \<Rightarrow> nat \<Rightarrow> bytes list \<Rightarrow> FlightError + bytes list" where
  "extract_chain_loop cap list pos chain =
     (if pos < length list then
        if length list - pos < 3 then Inl FL_Truncated
        else
          let cert_data_len = unat (sf_read_u24 (sub_range pos (pos + 3) list));
              cert_start = pos + 3
          in if length list - cert_start < cert_data_len \<or> length list - cert_start - cert_data_len < 2
             then Inl FL_Truncated
             else
               let cert_end = cert_start + cert_data_len in
               if length chain \<ge> cap then Inl FL_CertChainTooLong
               else
                 let chain' = chain @ [sub_range cert_start cert_end list];
                     exts_len = unat (from_be_bytes [list ! cert_end, list ! (cert_end + 1)] :: 16 word)
                 in if length list - cert_end - 2 < exts_len then Inl FL_Truncated
                    else extract_chain_loop cap list (cert_end + 2 + exts_len) chain'
      else Inr chain)"
  by pat_completeness auto
termination by (relation "measure (\<lambda>(cap, list, pos, chain). length list - pos)") auto

definition extract_chain :: "nat \<Rightarrow> bytes \<Rightarrow> FlightError + bytes list" where
  "extract_chain cap cert_body =
     (if cert_body = [] then Inl FL_Truncated
      else
        let ctx_len = unat (cert_body ! 0);
            after_ctx = 1 + ctx_len
        in if length cert_body < after_ctx + 3 then Inl FL_Truncated
           else
             let list_len = unat (sf_read_u24 (sub_range after_ctx (after_ctx + 3) cert_body));
                 list_start = after_ctx + 3
             in if list_len > length cert_body - list_start then Inl FL_Truncated
                else extract_chain_loop cap (sub_range list_start (list_start + list_len) cert_body) 0 [])"

definition SERVER_CV_CTX :: bytes where
  "SERVER_CV_CTX = ascii ''TLS 1.3, server CertificateVerify''"

definition signed_content :: "bytes \<Rightarrow> FlightError + bytes" where
  "signed_content transcript_hash =
     (let signed = replicate 64 0x20 @ SERVER_CV_CTX @ [0] @ transcript_hash in
      if length signed > 64 + length SERVER_CV_CTX + 1 + 32 then Inl FL_InternalEncoding else Inr signed)"

definition verify_certificate_verify_with_prepared ::
  "'v VerifierBackend \<Rightarrow> 'v PreparedVerifier \<Rightarrow> bytes \<Rightarrow> bytes \<Rightarrow> FlightError + unit" where
  "verify_certificate_verify_with_prepared P prepared transcript_hash_ch_through_cert cv_body =
     (if length cv_body < 4 then Inl FL_Truncated
      else
        let scheme = (from_be_bytes [cv_body ! 0, cv_body ! 1] :: 16 word);
            sig_len = unat (from_be_bytes [cv_body ! 2, cv_body ! 3] :: 16 word)
        in if length cv_body - 4 \<noteq> sig_len then Inl FL_TrailingBytes
           else
             let sig_bytes = drop 4 cv_body in
             rbind (signed_content transcript_hash_ch_through_cert) (\<lambda>signed.
               case prepared of
                 PV_Ed25519 v \<Rightarrow>
                   if scheme \<noteq> SIG_SCHEME_ED25519 then Inl (FL_UnexpectedSignatureScheme scheme)
                   else if length sig_bytes \<noteq> 64 then Inl FL_WrongSignatureLength
                   else require FL_CertVerifyInvalid (ed_verify P v signed sig_bytes)
               | PV_Rsa v \<Rightarrow>
                   if scheme \<noteq> SIG_SCHEME_RSA_PSS_RSAE_SHA256 then Inl (FL_UnexpectedSignatureScheme scheme)
                   else require FL_CertVerifyInvalid (rsa_verify P v signed (PssSha256, sig_bytes))
               | PV_MlDsa v \<Rightarrow>
                   if scheme = SIG_SCHEME_MLDSA44 \<or> scheme = SIG_SCHEME_MLDSA65 \<or> scheme = SIG_SCHEME_MLDSA87 then
                     let expected = (if scheme = SIG_SCHEME_MLDSA44 then 2420
                                     else if scheme = SIG_SCHEME_MLDSA65 then 3309 else 4627)
                     in if length sig_bytes \<noteq> expected then Inl (FL_UnexpectedSignatureScheme scheme)
                        else require FL_CertVerifyInvalid (mldsa_verify P v signed sig_bytes)
                   else Inl (FL_UnexpectedSignatureScheme scheme)
               | PV_EcdsaP256 v \<Rightarrow>
                   if scheme \<noteq> SIG_SCHEME_ECDSA_P256 then Inl (FL_UnexpectedSignatureScheme scheme)
                   else require FL_CertVerifyInvalid (p256_verify P v signed sig_bytes)
               | PV_EcdsaP384 v \<Rightarrow>
                   if scheme \<noteq> SIG_SCHEME_ECDSA_P384 then Inl (FL_UnexpectedSignatureScheme scheme)
                   else require FL_CertVerifyInvalid (p384_verify P v signed sig_bytes)))"

definition verify_server_finished :: "HkdfBackend \<Rightarrow> bytes \<Rightarrow> bytes \<Rightarrow> bytes \<Rightarrow> FlightError + unit" where
  "verify_server_finished H s_hs_traffic_secret transcript_hash_ch_through_cv finished_body =
     (if length finished_body \<noteq> 32 then Inl FL_FinishedWrongLength
      else
        rbind (map_err FL_HkdfLabel (hkdf_expand_label H s_hs_traffic_secret (ascii ''finished'') [] 32)) (\<lambda>finished_key.
        rbind (map_err (FL_HkdfLabel \<circ> LabelBackend) (hk_extract H finished_key transcript_hash_ch_through_cv)) (\<lambda>expected.
          require FL_FinishedMacInvalid (expected = finished_body))))"

fun server_pubkey_of :: "CertView \<Rightarrow> ServerPubkey" where
  "server_pubkey_of (CV_Ed25519 _ _ pk _ _) = SP_Ed25519 pk"
| "server_pubkey_of (CV_Rsa _ _ _ m e _ _) = SP_Rsa m e"
| "server_pubkey_of (CV_MlDsa _ _ pk _ _) = SP_MlDsa pk"
| "server_pubkey_of (CV_EcdsaP256 _ _ pk _ _ _) = SP_EcdsaP256 pk"
| "server_pubkey_of (CV_EcdsaP384 _ _ pk _ _ _) = SP_EcdsaP384 pk"

definition verify_server_flight ::
  "HkdfBackend \<Rightarrow> 'v VerifierBackend \<Rightarrow> TranscriptHash \<Rightarrow> bytes \<Rightarrow> bytes \<Rightarrow> 'v PreparedVerifier \<Rightarrow> CertView \<Rightarrow>
   FlightError + TranscriptHash \<times> ServerPubkey" where
  "verify_server_flight H P transcript plaintext s_hs_traffic_secret prepared leaf_view =
     rbind (parse_server_flight plaintext) (\<lambda>flight.
       let transcript = update transcript (sf_ee_full flight);
           transcript = (case sf_cert_request_full flight of
                           Some creq \<Rightarrow> update transcript creq | None \<Rightarrow> transcript);
           transcript = update transcript (sf_cert_full flight)
       in rbind (map_err FL_Transcript (snapshot H transcript)) (\<lambda>th_after_cert.
          rbind (verify_certificate_verify_with_prepared P prepared th_after_cert (sf_cv_body flight)) (\<lambda>_.
          let transcript = update transcript (sf_cv_full flight)
          in rbind (map_err FL_Transcript (snapshot H transcript)) (\<lambda>th_after_cv.
             rbind (verify_server_finished H s_hs_traffic_secret th_after_cv (sf_fin_body flight)) (\<lambda>_.
               Inr (update transcript (sf_fin_full flight), server_pubkey_of leaf_view))))))"

declare sig_algs_loop.simps [simp del] extract_chain_loop.simps [simp del]

section \<open>The flight is the concatenation of its messages\<close>

definition hs_frame :: "8 word \<Rightarrow> bytes \<Rightarrow> bytes" where
  "hs_frame t body = t # be_bytes 3 (length body) @ body"

lemma length_hs_frame [simp]: "length (hs_frame t body) = 4 + length body"
  by (simp add: hs_frame_def)

text \<open>A message is read from the rest of the buffer exactly when the rest starts with its frame.\<close>

lemma next_msg_sound:
  assumes "next_msg r = Inr ((t, body, full), r')" "hr_pos r \<le> length (hr_buf r)"
  shows "length body < 2 ^ 24 \<and> full = hs_frame t body \<and> hr_buf r' = hr_buf r \<and>
    hr_pos r' = hr_pos r + length full \<and> hr_pos r' \<le> length (hr_buf r) \<and>
    drop (hr_pos r) (hr_buf r) = full @ drop (hr_pos r') (hr_buf r)"
proof -
  define q where "q = drop (hr_pos r) (hr_buf r)"
  have at: "hr_buf r ! (hr_pos r + i) = q ! i" for i using assms(2) by (simp add: q_def)
  have len: "length q = length (hr_buf r) - hr_pos r" by (simp add: q_def)
  have "4 \<le> length q" using assms(1) len by (auto simp: next_msg_def Let_def split: if_splits)
  then obtain x a b c rest where q: "q = x # a # b # c # rest"
    by (auto simp: Suc_le_length_iff numeral_eq_Suc)
  have nth: "hr_buf r ! hr_pos r = x" "hr_buf r ! (hr_pos r + 1) = a" "hr_buf r ! (hr_pos r + 2) = b"
    "hr_buf r ! (hr_pos r + 3) = c"
    using at [of 0] at [of 1] at [of 2] at [of 3] by (simp_all add: q)
  define n where "n = be_val [a, b, c]"
  have n: "n \<le> length rest" "t = x" "body = sub_range (hr_pos r + 4) (hr_pos r + 4 + n) (hr_buf r)"
    "full = sub_range (hr_pos r) (hr_pos r + 4 + n) (hr_buf r)" "r' = r\<lparr>hr_pos := hr_pos r + 4 + n\<rparr>"
    using assms(1) len q nth
    by (auto simp: next_msg_def Let_def unat_u24 n_def [symmetric] simp del: be_val_Cons split: if_splits)
  have "drop (hr_pos r + 4) (hr_buf r) = drop 4 q" by (simp add: q_def add.commute)
  then have b: "body = take n rest" using n(3) by (simp add: sub_range_def q)
  have "full = take (4 + n) q" using n(4) by (simp add: sub_range_def q_def)
  then have f: "full = x # a # b # c # take n rest" by (simp add: q eval_nat_numeral)
  have d: "drop (hr_pos r + 4 + n) (hr_buf r) = drop n rest"
  proof -
    have "drop (hr_pos r + 4 + n) (hr_buf r) = drop (4 + n) q" by (simp add: q_def add.commute add.left_commute)
    then show ?thesis by (simp add: q eval_nat_numeral)
  qed
  have lb: "length body = n" using b n(1) by simp
  have fr: "full = hs_frame t body"
    using lb b f n(2) be_bytes_u24 [of a b c] by (simp add: hs_frame_def n_def [symmetric] del: be_val_Cons)
  have "length (hr_buf r) - hr_pos r = 4 + length rest" using len q by simp
  then have bound: "hr_pos r + 4 + n \<le> length (hr_buf r)" using n(1) by linarith
  have "drop (hr_pos r) (hr_buf r) = full @ drop (hr_pos r') (hr_buf r)"
    using d f n(5) unfolding q_def [symmetric] q by simp
  moreover have "length body < 2 ^ 24" using lb be_val_u24 [of a b c] by (simp add: n_def)
  ultimately show ?thesis using fr lb bound n(5) by simp
qed

lemma next_msg_complete:
  assumes "hr_buf r = pre @ hs_frame t body @ rest" "hr_pos r = length pre" "length body < 2 ^ 24"
  shows "next_msg r = Inr ((t, body, hs_frame t body), r\<lparr>hr_pos := length pre + length (hs_frame t body)\<rparr>)"
proof -
  define l where "l = be_bytes 3 (length body)"
  have l3: "length l = 3" by (simp add: l_def)
  then obtain a b c where abc: "l = [a, b, c]" by (auto simp: length_three)
  have "be_val l = length body" using assms(3) by (simp add: l_def be_val_be_bytes)
  then have len: "unat (from_be_bytes [0, a, b, c] :: 32 word) = length body" by (simp only: unat_u24 abc)
  have buf: "hr_buf r = pre @ t # a # b # c # body @ rest"
    using assms(1) by (simp add: hs_frame_def l_def [symmetric] abc)
  have nth: "hr_buf r ! length pre = t" "hr_buf r ! Suc (length pre) = a" "hr_buf r ! (length pre + 2) = b"
    "hr_buf r ! (length pre + 3) = c"
    by (simp_all add: buf nth_append)
  have "sub_range (length pre + 4) (length pre + 4 + length body) (hr_buf r) = body"
    by (simp add: buf)
  moreover have "sub_range (length pre) (length pre + 4 + length body) (hr_buf r) = hs_frame t body"
    using assms(1) by simp
  moreover have "length (hr_buf r) = length pre + 4 + length body + length rest"
    using assms(1) by simp
  ultimately show ?thesis
    using nth len by (simp add: next_msg_def Let_def assms(2))
qed

text \<open>The bytes of a flight with the given message bodies, and its view.\<close>

definition flight_messages :: "bytes \<Rightarrow> bytes option \<Rightarrow> bytes \<Rightarrow> bytes \<Rightarrow> bytes \<Rightarrow> bytes" where
  "flight_messages ee creq cert cv fin =
     hs_frame HS_ENCRYPTED_EXTENSIONS ee @
     (case creq of None \<Rightarrow> [] | Some c \<Rightarrow> hs_frame HS_CERTIFICATE_REQUEST c) @
     hs_frame HS_CERTIFICATE cert @ hs_frame HS_CERTIFICATE_VERIFY cv @ hs_frame HS_FINISHED fin"

definition flight_view :: "bytes \<Rightarrow> bytes option \<Rightarrow> bytes \<Rightarrow> bytes \<Rightarrow> bytes \<Rightarrow> ServerFlightView" where
  "flight_view ee creq cert cv fin =
     \<lparr>sf_ee_full = hs_frame HS_ENCRYPTED_EXTENSIONS ee, sf_ee_body = ee,
      sf_cert_request_full = map_option (hs_frame HS_CERTIFICATE_REQUEST) creq,
      sf_cert_full = hs_frame HS_CERTIFICATE cert, sf_cert_body = cert,
      sf_cv_full = hs_frame HS_CERTIFICATE_VERIFY cv, sf_cv_body = cv,
      sf_fin_full = hs_frame HS_FINISHED fin, sf_fin_body = fin\<rparr>"

definition flight_sizes :: "bytes \<Rightarrow> bytes option \<Rightarrow> bytes \<Rightarrow> bytes \<Rightarrow> bytes \<Rightarrow> bool" where
  "flight_sizes ee creq cert cv fin \<longleftrightarrow>
     list_all (\<lambda>b. length b < 2 ^ 24) ([ee, cert, cv, fin] @ (case creq of None \<Rightarrow> [] | Some c \<Rightarrow> [c]))"

text \<open>The unread bytes of a reader.\<close>

definition unread :: "HsReader \<Rightarrow> bytes" where
  "unread r = drop (hr_pos r) (hr_buf r)"

definition reader_ok :: "HsReader \<Rightarrow> bool" where
  "reader_ok r \<longleftrightarrow> hr_pos r \<le> length (hr_buf r)"

lemma next_msg_unread:
  assumes "next_msg r = Inr ((t, body, full), r')" "reader_ok r"
  shows "unread r = full @ unread r'" "full = hs_frame t body" "length body < 2 ^ 24" "reader_ok r'"
proof -
  have p: "hr_pos r \<le> length (hr_buf r)" using assms(2) by (simp add: reader_ok_def)
  note n = next_msg_sound [OF assms(1) p]
  show "unread r = full @ unread r'" "full = hs_frame t body" "length body < 2 ^ 24" "reader_ok r'"
    using n by (metis unread_def, blast, blast, metis reader_ok_def)
qed

lemma reader_new: "reader_ok (HsReader_new c)" "unread (HsReader_new c) = c"
  by (simp_all add: HsReader_new_def reader_ok_def unread_def)

lemma at_end_unread: "reader_ok r \<Longrightarrow> at_end r \<longleftrightarrow> unread r = []"
  by (auto simp: at_end_def reader_ok_def unread_def)

lemma parse_server_flight_sound:
  assumes "parse_server_flight content = Inr view"
  shows "\<exists>ee creq cert cv fin. flight_sizes ee creq cert cv fin \<and>
    content = flight_messages ee creq cert cv fin \<and> view = flight_view ee creq cert cv fin"
proof -
  obtain ee f1 r1 t2 b2 f2 r2
    where m1: "next_msg (HsReader_new content) = Inr ((HS_ENCRYPTED_EXTENSIONS, ee, f1), r1)"
      and m2: "next_msg r1 = Inr ((t2, b2, f2), r2)"
    using assms by (auto simp: parse_server_flight_def result_simps split: if_splits)
  note s1 = next_msg_unread [OF m1 reader_new(1)]
  note s2 = next_msg_unread [OF m2 s1(4)]
  obtain creq cert f3 r3 cv f4 r4 fin f5 r5
    where c: "(case creq of None \<Rightarrow> (t2, b2, f2, r2) = (HS_CERTIFICATE, cert, f3, r3)
        | Some c \<Rightarrow> t2 = HS_CERTIFICATE_REQUEST \<and> c = b2 \<and> next_msg r2 = Inr ((HS_CERTIFICATE, cert, f3), r3))"
      and m4: "next_msg r3 = Inr ((HS_CERTIFICATE_VERIFY, cv, f4), r4)"
      and m5: "next_msg r4 = Inr ((HS_FINISHED, fin, f5), r5)" "at_end r5"
      and v: "view = \<lparr>sf_ee_full = f1, sf_ee_body = ee, sf_cert_request_full = map_option (\<lambda>_. f2) creq,
        sf_cert_full = f3, sf_cert_body = cert, sf_cv_full = f4, sf_cv_body = cv, sf_fin_full = f5, sf_fin_body = fin\<rparr>"
  proof (cases "t2 = HS_CERTIFICATE_REQUEST")
    case True
    obtain cert f3 r3 cv f4 r4 fin f5 r5
      where "next_msg r2 = Inr ((HS_CERTIFICATE, cert, f3), r3)"
        "next_msg r3 = Inr ((HS_CERTIFICATE_VERIFY, cv, f4), r4)"
        "next_msg r4 = Inr ((HS_FINISHED, fin, f5), r5)" "at_end r5"
        "view = \<lparr>sf_ee_full = f1, sf_ee_body = ee, sf_cert_request_full = Some f2,
          sf_cert_full = f3, sf_cert_body = cert, sf_cv_full = f4, sf_cv_body = cv, sf_fin_full = f5, sf_fin_body = fin\<rparr>"
      using assms m1 m2 True by (auto simp: parse_server_flight_def result_simps split: if_splits)
    then show thesis using that [where creq = "Some b2"] True by simp
  next
    case False
    obtain cert f3 r3 cv f4 r4 fin f5 r5
      where "(t2, b2, f2, r2) = (HS_CERTIFICATE, cert, f3, r3)"
        "next_msg r3 = Inr ((HS_CERTIFICATE_VERIFY, cv, f4), r4)"
        "next_msg r4 = Inr ((HS_FINISHED, fin, f5), r5)" "at_end r5"
        "view = \<lparr>sf_ee_full = f1, sf_ee_body = ee, sf_cert_request_full = None,
          sf_cert_full = f3, sf_cert_body = cert, sf_cv_full = f4, sf_cv_body = cv, sf_fin_full = f5, sf_fin_body = fin\<rparr>"
      using assms m1 m2 False by (auto simp: parse_server_flight_def result_simps split: if_splits)
    then show thesis using that [where creq = "None"] by simp
  qed
  have s3: "unread r1 = (case creq of None \<Rightarrow> [] | Some c \<Rightarrow> hs_frame HS_CERTIFICATE_REQUEST c) @ f3 @ unread r3"
    "f3 = hs_frame HS_CERTIFICATE cert" "length cert < 2 ^ 24" "reader_ok r3"
    using s2 c next_msg_unread [of r2] by (auto split: option.splits)
  note s4 = next_msg_unread [OF m4 s3(4)]
  note s5 = next_msg_unread [OF m5(1) s4(4)]
  have "unread r5 = []" using m5(2) s5(4) at_end_unread by blast
  then have "content = flight_messages ee creq cert cv fin"
    using s1 s3 s4 s5 reader_new(2) [of content] by (simp add: flight_messages_def)
  moreover have "view = flight_view ee creq cert cv fin"
    using v c s1(2) s2(2) s3(2) s4(2) s5(2) by (auto simp: flight_view_def split: option.splits)
  moreover have "flight_sizes ee creq cert cv fin"
    using c s1(3) s2(3) s3(3) s4(3) s5(3) by (auto simp: flight_sizes_def split: option.splits)
  ultimately show ?thesis by blast
qed

lemma parse_server_flight_complete:
  assumes "flight_sizes ee creq cert cv fin"
  shows "parse_server_flight (flight_messages ee creq cert cv fin) = Inr (flight_view ee creq cert cv fin)"
proof -
  define c where "c = flight_messages ee creq cert cv fin"
  have m: "next_msg \<lparr>hr_buf = c, hr_pos = length pre\<rparr> =
      Inr ((t, body, hs_frame t body), \<lparr>hr_buf = c, hr_pos = length (pre @ hs_frame t body)\<rparr>)"
    if "c = pre @ hs_frame t body @ rest" "length body < 2 ^ 24" for pre t body rest
    using next_msg_complete [of "\<lparr>hr_buf = c, hr_pos = length pre\<rparr>" pre t body rest] that by simp
  note sz = assms [unfolded flight_sizes_def, simplified]
  define p1 where "p1 = hs_frame HS_ENCRYPTED_EXTENSIONS ee"
  define p2 where "p2 = p1 @ (case creq of None \<Rightarrow> [] | Some c \<Rightarrow> hs_frame HS_CERTIFICATE_REQUEST c)"
  define p3 where "p3 = p2 @ hs_frame HS_CERTIFICATE cert"
  define p4 where "p4 = p3 @ hs_frame HS_CERTIFICATE_VERIFY cv"
  note p = p1_def p2_def p3_def p4_def c_def flight_messages_def
  have m1: "next_msg (HsReader_new c) = Inr ((HS_ENCRYPTED_EXTENSIONS, ee, p1), \<lparr>hr_buf = c, hr_pos = length p1\<rparr>)"
    using m [of "[]" HS_ENCRYPTED_EXTENSIONS ee] sz by (simp add: HsReader_new_def p)
  have m3: "next_msg \<lparr>hr_buf = c, hr_pos = length p2\<rparr> =
      Inr ((HS_CERTIFICATE, cert, hs_frame HS_CERTIFICATE cert), \<lparr>hr_buf = c, hr_pos = length p3\<rparr>)"
    using m [of p2 HS_CERTIFICATE cert] sz by (simp add: p)
  have m4: "next_msg \<lparr>hr_buf = c, hr_pos = length p3\<rparr> =
      Inr ((HS_CERTIFICATE_VERIFY, cv, hs_frame HS_CERTIFICATE_VERIFY cv), \<lparr>hr_buf = c, hr_pos = length p4\<rparr>)"
    using m [of p3 HS_CERTIFICATE_VERIFY cv] sz by (simp add: p)
  have m5: "next_msg \<lparr>hr_buf = c, hr_pos = length p4\<rparr> =
      Inr ((HS_FINISHED, fin, hs_frame HS_FINISHED fin), \<lparr>hr_buf = c, hr_pos = length c\<rparr>)"
    using m [of p4 HS_FINISHED fin "[]"] sz by (simp add: p)
  show ?thesis
  proof (cases creq)
    case None
    then have "p2 = p1" by (simp add: p2_def)
    moreover have "HS_CERTIFICATE \<noteq> HS_CERTIFICATE_REQUEST" by (simp add: tls_consts)
    ultimately show ?thesis using None m1 m3 m4 m5 unfolding c_def [symmetric]
      by (simp add: parse_server_flight_def flight_view_def at_end_def p1_def [symmetric])
  next
    case (Some cr)
    have "next_msg \<lparr>hr_buf = c, hr_pos = length p1\<rparr> =
      Inr ((HS_CERTIFICATE_REQUEST, cr, hs_frame HS_CERTIFICATE_REQUEST cr), \<lparr>hr_buf = c, hr_pos = length p2\<rparr>)"
      using m [of p1 HS_CERTIFICATE_REQUEST cr] sz Some by (simp add: p)
    then show ?thesis using Some m1 m3 m4 m5 unfolding c_def [symmetric]
      by (simp add: parse_server_flight_def flight_view_def at_end_def p1_def [symmetric])
  qed
qed

text \<open>C25: The flight parser accepts exactly the concatenations of EncryptedExtensions, an optional
  CertificateRequest, Certificate, CertificateVerify and Finished, in this order and with
  nothing before, between or after them, and returns their bodies and frames.\<close>

theorem server_flight_exact:
  "parse_server_flight content = Inr view \<longleftrightarrow>
     (\<exists>ee creq cert cv fin. flight_sizes ee creq cert cv fin \<and>
        content = flight_messages ee creq cert cv fin \<and> view = flight_view ee creq cert cv fin)"
  using parse_server_flight_sound parse_server_flight_complete by blast

section \<open>The certificate list\<close>

definition cert_entry :: "bytes \<times> bytes \<Rightarrow> bytes" where
  "cert_entry = (\<lambda>(cert, exts). be_bytes 3 (length cert) @ cert @ be_bytes 2 (length exts) @ exts)"

definition entry_sizes :: "bytes \<times> bytes \<Rightarrow> bool" where
  "entry_sizes = (\<lambda>(cert, exts). length cert < 2 ^ 24 \<and> length exts < 2 ^ 16)"

lemma take_3_u24:
  assumes "3 \<le> length q"
  shows "take 3 q = be_bytes 3 (unat (sf_read_u24 (take 3 q)))" "unat (sf_read_u24 (take 3 q)) < 2 ^ 24"
proof -
  obtain a b c r where q: "q = a # b # c # r" using assms by (auto simp: Suc_le_length_iff numeral_eq_Suc)
  have e: "take 3 q = [a, b, c]" "unat (sf_read_u24 (take 3 q)) = be_val [a, b, c]"
    unfolding q sf_read_u24_def by (simp_all add: unat_u24 eval_nat_numeral del: be_val_Cons)
  show "take 3 q = be_bytes 3 (unat (sf_read_u24 (take 3 q)))" unfolding e(2) be_bytes_u24 by (rule e(1))
  show "unat (sf_read_u24 (take 3 q)) < 2 ^ 24" unfolding e(2) by (rule be_val_u24)
qed

lemma take_2_u16:
  assumes "2 \<le> length q"
  shows "take 2 q = be_bytes 2 (unat (from_be_bytes [q ! 0, q ! 1] :: 16 word))"
proof -
  obtain a b r where q: "q = a # b # r" using assms by (auto simp: Suc_le_length_iff numeral_eq_Suc)
  have "unat (from_be_bytes [a, b] :: 16 word) = be_val [a, b]" by (subst unat_from_be_bytes) simp_all
  then show ?thesis using be_bytes_be_val [of "[a, b]"] by (simp add: q numeral_2_eq_2 del: be_val_Cons)
qed

lemma extract_chain_loop_sound:
  assumes "extract_chain_loop cap list pos chain = Inr chain'" "pos \<le> length list" "length chain \<le> cap"
  shows "\<exists>new. chain' = chain @ map fst new \<and> length chain' \<le> cap \<and> list_all entry_sizes new \<and>
    drop pos list = concat (map cert_entry new)"
  using assms
proof (induction cap list pos chain rule: extract_chain_loop.induct)
  case (1 cap list pos chain)
  show ?case
  proof (cases "pos < length list")
    case False
    then show ?thesis using "1.prems" by (intro exI [of _ "[]"]) (simp add: extract_chain_loop.simps)
  next
    case True
    define q where "q = drop pos list"
    define n where "n = unat (sf_read_u24 (sub_range pos (pos + 3) list))"
    define e where "e = pos + 3 + n"
    define m where "m = unat (from_be_bytes [list ! e, list ! (e + 1)] :: 16 word)"
    have g: "3 \<le> length list - pos" "n \<le> length list - (pos + 3)" "2 \<le> length list - (pos + 3) - n"
        "length chain < cap" "m \<le> length list - e - 2"
      and r: "extract_chain_loop cap list (e + 2 + m) (chain @ [sub_range (pos + 3) e list]) = Inr chain'"
      using "1.prems"(1) True
      by (auto simp: extract_chain_loop.simps [of cap list pos] Let_def n_def e_def m_def not_less split: if_splits)
    obtain new where new: "chain' = (chain @ [sub_range (pos + 3) e list]) @ map fst new" "length chain' \<le> cap"
        "list_all entry_sizes new" "drop (e + 2 + m) list = concat (map cert_entry new)"
    proof -
      have "\<exists>new. chain' = (chain @ [sub_range (pos + 3) e list]) @ map fst new \<and> length chain' \<le> cap \<and>
          list_all entry_sizes new \<and> drop (e + 2 + m) list = concat (map cert_entry new)"
        using True g r by (intro "1.IH") (auto simp: n_def e_def m_def)
      then show thesis using that by blast
    qed
    define cert where "cert = sub_range (pos + 3) e list"
    define exts where "exts = sub_range (e + 2) (e + 2 + m) list"
    have len: "length cert = n" "length exts = m" using g by (auto simp: cert_def exts_def e_def)
    have n: "sub_range pos (pos + 3) list = be_bytes 3 n" "n < 2 ^ 24"
      using take_3_u24 [of "drop pos list"] g(1) by (simp_all add: n_def sub_range_def)
    have m: "sub_range e (e + 2) list = be_bytes 2 m" "m < 2 ^ 16"
      using take_2_u16 [of "drop e list"] g(2,3) unsigned_less [of "from_be_bytes [list ! e, list ! (e + 1)] :: 16 word"]
      by (simp_all add: m_def sub_range_def e_def)
    have "drop pos list = sub_range pos (pos + 3) list @ cert @ sub_range e (e + 2) list @ exts @ drop (e + 2 + m) list"
      using drop_sub_range [of pos "pos + 3" list] drop_sub_range [of "pos + 3" e list]
        drop_sub_range [of e "e + 2" list] drop_sub_range [of "e + 2" "e + 2 + m" list]
      by (simp add: cert_def exts_def e_def)
    then have "drop pos list = concat (map cert_entry ((cert, exts) # new))"
      using n m len new(4) by (simp add: cert_entry_def)
    then show ?thesis using new n m len
      by (intro exI [of _ "(cert, exts) # new"]) (simp add: entry_sizes_def cert_def)
  qed
qed

lemma extract_chain_loop_complete:
  assumes "list_all entry_sizes new" "length chain + length new \<le> cap"
  shows "extract_chain_loop cap (pre @ concat (map cert_entry new)) (length pre) chain = Inr (chain @ map fst new)"
  using assms
proof (induction new arbitrary: pre chain)
  case Nil
  then show ?case by (simp add: extract_chain_loop.simps)
next
  case (Cons en new)
  obtain cert exts where en: "en = (cert, exts)" by (cases en)
  define rest where "rest = concat (map cert_entry new)"
  define list where "list = pre @ cert_entry en @ rest"
  have sz: "length cert < 2 ^ 24" "length exts < 2 ^ 16" using Cons.prems by (simp_all add: entry_sizes_def en)
  have list: "list = pre @ be_bytes 3 (length cert) @ cert @ be_bytes 2 (length exts) @ exts @ rest"
    by (simp add: list_def cert_entry_def en)
  have n: "unat (sf_read_u24 (sub_range (length pre) (length pre + 3) list)) = length cert"
  proof -
    have "sub_range (length pre) (length pre + 3) list = be_bytes 3 (length cert)" by (simp add: list)
    moreover obtain a b c where abc: "be_bytes 3 (length cert) = [a, b, c]"
      using be_bytes_3_list [of "length cert"] by blast
    moreover have "be_val [a, b, c] = length cert" using be_val_be_bytes [of 3 "length cert"] sz by (simp only: abc) simp
    ultimately show ?thesis by (simp add: sf_read_u24_def unat_u24 del: be_val_Cons)
  qed
  define e where "e = length pre + 3 + length cert"
  have m: "unat (from_be_bytes [list ! e, list ! Suc e] :: 16 word) = length exts"
  proof -
    obtain a b where ab: "be_bytes 2 (length exts) = [a, b]"
      using be_bytes_2_list [of "length exts"] by blast
    have "be_val [a, b] = length exts" using be_val_be_bytes [of 2 "length exts"] sz by (simp only: ab) simp
    moreover have "list ! e = a" "list ! Suc e = b" by (simp_all add: list ab e_def nth_append)
    moreover have "unat (from_be_bytes [a, b] :: 16 word) = be_val [a, b]" by (subst unat_from_be_bytes) simp_all
    ultimately show ?thesis by simp
  qed
  have c: "sub_range (length pre + 3) e list = cert" by (simp add: list e_def)
  have l: "length list = e + 2 + length exts + length rest" by (simp add: list e_def)
  have "extract_chain_loop cap list (length pre) chain =
      extract_chain_loop cap list (e + 2 + length exts) (chain @ [cert])"
  proof -
    have g: "length pre < length list" "\<not> length list - length pre < 3"
      "\<not> (length list - (length pre + 3) < length cert \<or> length list - (length pre + 3) - length cert < 2)"
      "\<not> length list - e - 2 < length exts" "\<not> cap \<le> length chain"
      using Cons.prems(2) by (simp_all add: l e_def)
    show ?thesis
      unfolding extract_chain_loop.simps [of cap list "length pre"] Let_def n
      using g m c by (simp add: e_def [symmetric])
  qed
  also have "\<dots> = Inr ((chain @ [cert]) @ map fst new)"
  proof -
    have "list = (pre @ cert_entry en) @ concat (map cert_entry new)" by (simp add: list_def rest_def)
    moreover have "e + 2 + length exts = length (pre @ cert_entry en)" by (simp add: e_def cert_entry_def en)
    ultimately show ?thesis using Cons.IH [of "chain @ [cert]" "pre @ cert_entry en"] Cons.prems by simp
  qed
  finally show ?case by (simp add: list_def rest_def en)
qed

text \<open>A Certificate body: the request context, the list of entries and whatever follows it.\<close>

definition certificate_body :: "bytes \<Rightarrow> (bytes \<times> bytes) list \<Rightarrow> bytes \<Rightarrow> bytes" where
  "certificate_body ctx entries trailing =
     (let list = concat (map cert_entry entries)
      in word_of_nat (length ctx) # ctx @ be_bytes 3 (length list) @ list @ trailing)"

lemma extract_chain_sound:
  assumes "extract_chain cap body = Inr chain"
  shows "\<exists>ctx entries trailing. length ctx < 256 \<and> list_all entry_sizes entries \<and> length entries \<le> cap \<and>
    length (concat (map cert_entry entries)) < 2 ^ 24 \<and> chain = map fst entries \<and>
    body = certificate_body ctx entries trailing"
proof -
  obtain h q where body: "body = h # q" using assms by (cases body) (auto simp: extract_chain_def)
  define c where "c = Suc (unat h)"
  define n where "n = unat (sf_read_u24 (sub_range c (c + 3) body))"
  define list where "list = sub_range (c + 3) (c + 3 + n) body"
  have g: "c + 3 \<le> length body" "n \<le> length body - (c + 3)"
    and l: "extract_chain_loop cap list 0 [] = Inr chain"
    using assms by (auto simp: extract_chain_def Let_def body c_def n_def list_def not_less split: if_splits)
  obtain new where new: "chain = map fst new" "length chain \<le> cap" "list_all entry_sizes new"
      "list = concat (map cert_entry new)"
    using extract_chain_loop_sound [OF l] by auto
  have n: "sub_range c (c + 3) body = be_bytes 3 n" "n < 2 ^ 24"
    using take_3_u24 [of "drop c body"] g(1) by (simp_all add: n_def sub_range_def)
  have ll: "length list = n" using g by (simp add: list_def)
  have "1 \<le> c" "c \<le> c + 3" "c + 3 \<le> c + 3 + n" by (simp_all add: c_def)
  note d = this [THEN drop_sub_range, of body, symmetric]
  have "body = h # sub_range 1 c body @ sub_range c (c + 3) body @ list @ drop (c + 3 + n) body"
    unfolding list_def d by (simp add: body)
  moreover have "length (sub_range 1 c body) = unat h" using g(1) by (simp add: c_def)
  ultimately have "body = certificate_body (sub_range 1 c body) new (drop (c + 3 + n) body)"
    "length (sub_range 1 c body) < 256"
    using n(1) ll new(4) by (simp_all add: certificate_body_def Let_def)
  then show ?thesis using new n ll by (intro exI conjI) (assumption | simp)+
qed

lemma extract_chain_complete:
  assumes "length ctx < 256" "list_all entry_sizes entries" "length entries \<le> cap"
    "length (concat (map cert_entry entries)) < 2 ^ 24"
  shows "extract_chain cap (certificate_body ctx entries trailing) = Inr (map fst entries)"
proof -
  define list where "list = concat (map cert_entry entries)"
  define body where "body = certificate_body ctx entries trailing"
  have body: "body = word_of_nat (length ctx) # ctx @ be_bytes 3 (length list) @ list @ trailing"
    by (simp add: body_def certificate_body_def list_def Let_def)
  have h: "unat (body ! 0) = length ctx" using assms(1) by (simp add: body unat_of_nat_byte)
  have "sub_range (1 + length ctx) (1 + length ctx + 3) body = be_bytes 3 (length list)" by (simp add: body)
  moreover obtain a b c where abc: "be_bytes 3 (length list) = [a, b, c]"
    using be_bytes_3_list [of "length list"] by blast
  moreover have "be_val [a, b, c] = length list"
    using be_val_be_bytes [of 3 "length list"] assms(4) by (simp only: abc list_def [symmetric]) simp
  ultimately have n: "unat (sf_read_u24 (sub_range (1 + length ctx) (1 + length ctx + 3) body)) = length list"
    by (simp add: sf_read_u24_def unat_u24 del: be_val_Cons)
  have l: "sub_range (1 + length ctx + 3) (1 + length ctx + 3 + length list) body = list" by (simp add: body)
  have "extract_chain cap body = extract_chain_loop cap list 0 []"
  proof -
    have g: "body \<noteq> []" "\<not> length body < 1 + length ctx + 3" "\<not> length body - (1 + length ctx + 3) < length list"
      by (simp_all add: body)
    show ?thesis unfolding extract_chain_def Let_def h n using g l by simp
  qed
  then show ?thesis
    using extract_chain_loop_complete [of entries "[]" cap "[]"] assms(2,3) by (simp add: body_def list_def)
qed

text \<open>C26: The Certificate parser returns a chain exactly when the body is a request context followed by
  a certificate list whose entries carry just those certificates, at most the capacity many;
  no certificate of the list is dropped and none is cut short.\<close>

theorem extract_chain_exact:
  "extract_chain cap body = Inr chain \<longleftrightarrow>
     (\<exists>ctx entries trailing. length ctx < 256 \<and> list_all entry_sizes entries \<and> length entries \<le> cap \<and>
        length (concat (map cert_entry entries)) < 2 ^ 24 \<and> chain = map fst entries \<and>
        body = certificate_body ctx entries trailing)"
  using extract_chain_sound extract_chain_complete by blast

section \<open>What a verified flight establishes\<close>

fun scheme_verifies :: "'v VerifierBackend \<Rightarrow> 'v PreparedVerifier \<Rightarrow> 16 word \<Rightarrow> bytes \<Rightarrow> bytes \<Rightarrow> bool" where
  "scheme_verifies P (PV_Ed25519 v) scheme msg sig \<longleftrightarrow>
     scheme = SIG_SCHEME_ED25519 \<and> length sig = 64 \<and> ed_verify P v msg sig"
| "scheme_verifies P (PV_Rsa v) scheme msg sig \<longleftrightarrow>
     scheme = SIG_SCHEME_RSA_PSS_RSAE_SHA256 \<and> rsa_verify P v msg (PssSha256, sig)"
| "scheme_verifies P (PV_MlDsa v) scheme msg sig \<longleftrightarrow>
     (scheme, length sig) \<in> {(SIG_SCHEME_MLDSA44, 2420), (SIG_SCHEME_MLDSA65, 3309), (SIG_SCHEME_MLDSA87, 4627)} \<and>
     mldsa_verify P v msg sig"
| "scheme_verifies P (PV_EcdsaP256 v) scheme msg sig \<longleftrightarrow>
     scheme = SIG_SCHEME_ECDSA_P256 \<and> p256_verify P v msg sig"
| "scheme_verifies P (PV_EcdsaP384 v) scheme msg sig \<longleftrightarrow>
     scheme = SIG_SCHEME_ECDSA_P384 \<and> p384_verify P v msg sig"

definition cv_message :: "16 word \<Rightarrow> bytes \<Rightarrow> bytes" where
  "cv_message scheme sig = to_be_bytes scheme @ be_bytes 2 (length sig) @ sig"

definition cv_content :: "bytes \<Rightarrow> bytes" where
  "cv_content th = replicate 64 0x20 @ SERVER_CV_CTX @ [0] @ th"

lemma signed_content_ok [result_simps]:
  "signed_content th = Inr m \<longleftrightarrow> length th \<le> 32 \<and> m = cv_content th"
  by (auto simp: signed_content_def cv_content_def Let_def)

lemma cv_verified:
  assumes "verify_certificate_verify_with_prepared P prepared th cv = Inr u"
  shows "\<exists>scheme sig. cv = cv_message scheme sig \<and> scheme_verifies P prepared scheme (cv_content th) sig"
proof -
  have "4 \<le> length cv"
    using assms by (auto simp: verify_certificate_verify_with_prepared_def split: if_splits)
  then obtain a b c d sig where cv: "cv = a # b # c # d # sig"
    by (auto simp: Suc_le_length_iff numeral_eq_Suc)
  define scheme where "scheme = (from_be_bytes [a, b] :: 16 word)"
  have "length sig = be_val [c, d]"
    using assms by (auto simp: verify_certificate_verify_with_prepared_def cv unat_u16 Let_def simp del: be_val_Cons split: if_splits)
  then have "cv = cv_message scheme sig"
    by (simp add: cv cv_message_def scheme_def to_from_be_bytes be_bytes_u16 del: be_val_Cons)
  moreover have "scheme_verifies P prepared scheme (cv_content th) sig"
    using assms
    by (cases prepared) (auto simp: verify_certificate_verify_with_prepared_def cv result_simps Let_def
        scheme_def [symmetric] simp del: be_val_Cons split: if_splits)
  ultimately show ?thesis by blast
qed

lemma finished_verified:
  "verify_server_finished H secret th fin = Inr u \<longleftrightarrow> length fin = 32 \<and> finished_mac H secret th = Inr fin"
  by (auto simp: verify_server_finished_def finished_mac_def result_simps)

definition before_cv :: "bytes \<Rightarrow> bytes option \<Rightarrow> bytes \<Rightarrow> bytes" where
  "before_cv ee creq cert = hs_frame HS_ENCRYPTED_EXTENSIONS ee @
     (case creq of None \<Rightarrow> [] | Some c \<Rightarrow> hs_frame HS_CERTIFICATE_REQUEST c) @ hs_frame HS_CERTIFICATE cert"

text \<open>A verified flight binds the whole handshake: its CertificateVerify is a signature of the scheme
  of the prepared verifier over the server context and the hash of the transcript through
  Certificate, its Finished is the MAC of the hash of the transcript through
  CertificateVerify, and the transcript has advanced by exactly the flight.\<close>

lemma verified_flight_view:
  assumes "verify_server_flight H P t content secret prepared leaf = Inr (t', pk)"
  shows "t' = t @ content \<and> pk = server_pubkey_of leaf \<and>
    (\<exists>ee creq cert scheme sig fin th th'. parse_server_flight content = Inr (flight_view ee creq cert (cv_message scheme sig) fin) \<and>
       content = flight_messages ee creq cert (cv_message scheme sig) fin \<and>
       hk_digest H (t @ before_cv ee creq cert) = Inr th \<and>
       scheme_verifies P prepared scheme (cv_content th) sig \<and>
       hk_digest H (t @ before_cv ee creq cert @ hs_frame HS_CERTIFICATE_VERIFY (cv_message scheme sig)) = Inr th' \<and>
       finished_mac H secret th' = Inr fin)"
proof -
  obtain view where view: "parse_server_flight content = Inr view"
    using assms by (auto simp: verify_server_flight_def result_simps)
  obtain ee creq cert cv fin where f: "content = flight_messages ee creq cert cv fin" "view = flight_view ee creq cert cv fin"
    using parse_server_flight_sound [OF view] by blast
  have "t' = t @ content \<and> pk = server_pubkey_of leaf \<and> (\<exists>th th' u u'. hk_digest H (t @ before_cv ee creq cert) = Inr th \<and>
      verify_certificate_verify_with_prepared P prepared th cv = Inr u \<and>
      hk_digest H (t @ before_cv ee creq cert @ hs_frame HS_CERTIFICATE_VERIFY cv) = Inr th' \<and>
      verify_server_finished H secret th' fin = Inr u')"
    using assms view
    by (cases creq) (auto simp: verify_server_flight_def Let_def result_simps f flight_view_def update_def snapshot_def
        before_cv_def flight_messages_def)
  then show ?thesis using view f cv_verified finished_verified by metis
qed

lemma verified_flight_binds_transcript:
  assumes "verify_server_flight H P t content secret prepared leaf = Inr (t', pk)"
  shows "t' = t @ content \<and> pk = server_pubkey_of leaf \<and>
    (\<exists>ee creq cert scheme sig fin th th'. content = flight_messages ee creq cert (cv_message scheme sig) fin \<and>
       hk_digest H (t @ before_cv ee creq cert) = Inr th \<and>
       scheme_verifies P prepared scheme (cv_content th) sig \<and>
       hk_digest H (t @ before_cv ee creq cert @ hs_frame HS_CERTIFICATE_VERIFY (cv_message scheme sig)) = Inr th' \<and>
       finished_mac H secret th' = Inr fin)"
  using verified_flight_view [OF assms] by blast

definition flight_verifier :: "bytes VerifierBackend" where
  "flight_verifier = \<lparr>ed_prepare = Some, ed_verify = (\<lambda>v m s. s = replicate 64 (hd v + last m)), ed_matches = (=),
     rsa_prepare = (\<lambda>_. None), rsa_verify = (\<lambda>_ _ _. False), rsa_matches = (\<lambda>_ _. False),
     mldsa_prepare = (\<lambda>_. None), mldsa_verify = (\<lambda>_ _ _. False), mldsa_matches = (\<lambda>_ _. False),
     p256_prepare = (\<lambda>_. None), p256_verify = (\<lambda>_ _ _. False), p256_matches = (\<lambda>_ _. False),
     p384_prepare = (\<lambda>_. None), p384_verify = (\<lambda>_ _ _. False), p384_matches = (\<lambda>_ _. False)\<rparr>"

definition flight_hkdf :: HkdfBackend where
  "flight_hkdf = \<lparr>hk_extract = (\<lambda>salt ikm. Inr (replicate 32 (last ikm))),
     hk_expand = (\<lambda>prk info n. Inr (replicate n 7)),
     hk_digest = (\<lambda>m. Inr (replicate 32 (word_of_nat (length m))))\<rparr>"

lemma flight_hkdf_total: "backend_total flight_hkdf"
  by (simp add: backend_total_def flight_hkdf_def)

definition demo_flight :: bytes where
  "demo_flight = flight_messages [0, 0] None [0, 0, 0, 6, 0, 0, 1, 1, 0, 0]
     (cv_message SIG_SCHEME_ED25519 (replicate 64 26)) (replicate 32 93)"

definition demo_leaf :: CertView where
  "demo_leaf = CV_Ed25519 [] [] [5] (Some [0x82, 1, 0x61]) []"

lemma demo_flight_verifies:
  assumes "word_of_nat (length t) = (1 :: 8 word)"
  shows "verify_server_flight flight_hkdf flight_verifier t demo_flight secret (PV_Ed25519 [5]) demo_leaf =
     Inr (t @ demo_flight, SP_Ed25519 [5])"
proof -
  have p: "parse_server_flight demo_flight = Inr (flight_view [0, 0] None [0, 0, 0, 6, 0, 0, 1, 1, 0, 0]
      (cv_message SIG_SCHEME_ED25519 (replicate 64 26)) (replicate 32 93))"
    unfolding demo_flight_def by (rule parse_server_flight_complete) (simp add: flight_sizes_def cv_message_def)
  have cv: "verify_certificate_verify_with_prepared flight_verifier (PV_Ed25519 [5]) (replicate 32 21)
      (cv_message SIG_SCHEME_ED25519 (replicate 64 26)) = Inr ()"
    by code_simp
  have "verify_server_finished flight_hkdf secret (replicate 32 93) (replicate 32 93) =
      verify_server_finished flight_hkdf [] (replicate 32 93) (replicate 32 93)"
    by (simp add: verify_server_finished_def hkdf_expand_label_def hkdf_expand_label_prefixed_def flight_hkdf_def)
  also have "\<dots> = Inr ()" by code_simp
  finally have "verify_server_finished flight_hkdf secret (replicate 32 93) (replicate 32 93) = Inr ()" .
  with p cv assms show ?thesis
    by (simp add: verify_server_flight_def Let_def snapshot_def update_def flight_view_def flight_hkdf_def
        demo_leaf_def cv_message_def demo_flight_def flight_messages_def)
qed

end
