(* ===== verification/Flight_Reassembler.thy ===== *)
theory Flight_Reassembler
  imports Server_Flight
begin

text \<open>
  The accumulator of \<^verbatim>\<open>reassembler.rs\<close> for a server flight that spans several TLS records:
  its state is the buffer of decrypted handshake content, bounded by the capacity \<^verbatim>\<open>N\<close>; it finds
  the end of the flight by walking to the first Finished, and peeks at the
  \<^verbatim>\<open>record_size_limit\<close> extension of EncryptedExtensions.
\<close>

section \<open>Model\<close>

type_synonym ServerFlightReassembler = bytes

datatype ReassemblyError = ReassemblyOverflow

definition ServerFlightReassembler_new :: ServerFlightReassembler where
  "ServerFlightReassembler_new = []"

definition clear :: "ServerFlightReassembler \<Rightarrow> ServerFlightReassembler" where
  "clear buf = []"

definition push_content ::
  "nat \<Rightarrow> ServerFlightReassembler \<Rightarrow> bytes \<Rightarrow> ReassemblyError + ServerFlightReassembler" where
  "push_content N buf content =
     (if length buf + length content > N then Inl ReassemblyOverflow else Inr (buf @ content))"

function flight_end_loop :: "bytes \<Rightarrow> nat \<Rightarrow> nat option" where
  "flight_end_loop buf i =
     (if i + 4 \<le> length buf then
        let msg_type = buf ! i;
            len = unat (from_be_bytes [0, buf ! (i + 1), buf ! (i + 2), buf ! (i + 3)] :: 32 word)
        in if len > length buf - i - 4 then None
           else
             let i = i + 4 + len in
             if msg_type = HS_FINISHED then Some i else flight_end_loop buf i
      else None)"
  by pat_completeness auto
termination by (relation "measure (\<lambda>(buf, i). length buf - i)") auto

declare flight_end_loop.simps [simp del]

definition flight_end_offset :: "ServerFlightReassembler \<Rightarrow> nat option" where
  "flight_end_offset buf = flight_end_loop buf 0"

definition flight_is_complete :: "ServerFlightReassembler \<Rightarrow> bool" where
  "flight_is_complete buf = (flight_end_offset buf \<noteq> None)"

definition flight_bytes :: "ServerFlightReassembler \<Rightarrow> bytes option" where
  "flight_bytes buf = map_option (\<lambda>end_pos. take end_pos buf) (flight_end_offset buf)"

function peek_loop :: "bytes \<Rightarrow> 16 word option \<Rightarrow> FlightError + 16 word option" where
  "peek_loop rest found =
     (if rest = [] then Inr found
      else if length rest < 4 then Inl FL_Truncated
      else
        let ext_type = (from_be_bytes [rest ! 0, rest ! 1] :: 16 word);
            ext_len = unat (from_be_bytes [rest ! 2, rest ! 3] :: 16 word)
        in if length rest < 4 + ext_len then Inl FL_Truncated
           else
             let body = sub_range 4 (4 + ext_len) rest;
                 rest' = drop (4 + ext_len) rest
             in if ext_type = EXT_RECORD_SIZE_LIMIT then
                  if length body \<noteq> 2 then Inl FL_Truncated
                  else if found \<noteq> None then Inl (FL_DuplicateExtension ext_type)
                  else peek_loop rest' (Some (from_be_bytes [body ! 0, body ! 1]))
                else peek_loop rest' found)"
  by pat_completeness auto
termination by (relation "measure (\<lambda>(rest, found). length rest)") auto

declare peek_loop.simps [simp del]

definition peek_ee_record_size_limit :: "ServerFlightReassembler \<Rightarrow> FlightError + 16 word option" where
  "peek_ee_record_size_limit self =
     rbind (ok_or FL_Truncated (flight_bytes self)) (\<lambda>buf.
       if length buf < 4 then Inl FL_Truncated
       else if buf ! 0 \<noteq> HS_ENCRYPTED_EXTENSIONS
       then Inl (FL_UnexpectedHandshakeType HS_ENCRYPTED_EXTENSIONS (buf ! 0))
       else
         let ee_body_len = unat (from_be_bytes [0, buf ! 1, buf ! 2, buf ! 3] :: 32 word) in
         if length buf < 4 + ee_body_len then Inl FL_Truncated
         else
           let ee_body = sub_range 4 (4 + ee_body_len) buf in
           if length ee_body < 2 then Inl FL_Truncated
           else
             let ext_total = unat (from_be_bytes [ee_body ! 0, ee_body ! 1] :: 16 word) in
             if length ee_body \<noteq> 2 + ext_total then Inl FL_Truncated
             else peek_loop (drop 2 ee_body) None)"

section \<open>The end of the flight\<close>

lemma flight_end_step:
  assumes "length body < 2 ^ 24"
  shows "flight_end_loop (pre @ hs_frame t body @ rest) (length pre) =
    (if t = HS_FINISHED then Some (length pre + length (hs_frame t body))
     else flight_end_loop (pre @ hs_frame t body @ rest) (length (pre @ hs_frame t body)))"
proof -
  obtain a b c where l: "be_bytes 3 (length body) = [a, b, c]"
    using be_bytes_3_list [of "length body"] by blast
  define buf where "buf = pre @ hs_frame t body @ rest"
  have buf: "buf = pre @ t # a # b # c # body @ rest" by (simp add: buf_def hs_frame_def l)
  have nth: "buf ! length pre = t" "buf ! (length pre + 1) = a" "buf ! (length pre + 2) = b" "buf ! (length pre + 3) = c"
    by (simp_all add: buf nth_append)
  have len: "length pre + 4 \<le> length buf" "\<not> length buf - length pre - 4 < length body" by (simp_all add: buf)
  show ?thesis
    unfolding buf_def [symmetric]
    by (subst flight_end_loop.simps) (use len nth in \<open>simp add: Let_def u24_of_be_bytes [OF assms l] add.assoc\<close>)
qed

lemma flight_end_messages:
  assumes "list_all (\<lambda>(t, body). t \<noteq> HS_FINISHED \<and> length body < 2 ^ 24) msgs" "length fin < 2 ^ 24"
  shows "flight_end_loop (pre @ concat (map (\<lambda>(t, body). hs_frame t body) msgs) @ hs_frame HS_FINISHED fin @ rest) (length pre) =
    Some (length (pre @ concat (map (\<lambda>(t, body). hs_frame t body) msgs) @ hs_frame HS_FINISHED fin))"
  using assms
proof (induction msgs arbitrary: pre)
  case Nil
  then show ?case using flight_end_step [of fin pre HS_FINISHED rest] by simp
next
  case (Cons m msgs)
  obtain t body where m: "m = (t, body)" by (cases m)
  show ?case
    using Cons.IH [of "pre @ hs_frame t body"] Cons.prems
      flight_end_step [of body pre t "concat (map (\<lambda>(t, body). hs_frame t body) msgs) @ hs_frame HS_FINISHED fin @ rest"]
    by (simp add: m)
qed

lemma flight_end_mono:
  "flight_end_loop b i = Some n \<Longrightarrow> n \<le> length b \<and> flight_end_loop (b @ ys) i = Some n"
proof (induction b i rule: flight_end_loop.induct)
  case (1 b i)
  define len where "len = unat (from_be_bytes [0, b ! (i + 1), b ! (i + 2), b ! (i + 3)] :: 32 word)"
  have g: "i + 4 \<le> length b" "len \<le> length b - i - 4"
    and r: "if b ! i = HS_FINISHED then n = i + 4 + len else flight_end_loop b (i + 4 + len) = Some n"
    using "1.prems" by (subst (asm) (1) flight_end_loop.simps,
        auto simp: len_def Let_def not_less split: if_splits)+
  have "n \<le> length b \<and> (b ! i = HS_FINISHED \<or> flight_end_loop (b @ ys) (i + 4 + len) = Some n)"
    using "1.IH" [OF g(1) refl refl] r g by (auto simp: len_def not_less split: if_splits)
  then show ?case
    using g r by (subst flight_end_loop.simps) (auto simp: len_def Let_def nth_append)
qed

text \<open>The records' contents pushed one after the other.\<close>

fun push_all :: "nat \<Rightarrow> ServerFlightReassembler \<Rightarrow> bytes list \<Rightarrow> ReassemblyError + ServerFlightReassembler" where
  "push_all N buf [] = Inr buf"
| "push_all N buf (c # cs) = rbind (push_content N buf c) (\<lambda>buf. push_all N buf cs)"

lemma push_all_ok: "length (buf @ concat cs) \<le> N \<Longrightarrow> push_all N buf cs = Inr (buf @ concat cs)"
  by (induction cs arbitrary: buf) (auto simp: push_content_def)

lemma push_all_bounded: "push_all N buf cs = Inr buf' \<Longrightarrow> buf' = buf @ concat cs"
  by (induction cs arbitrary: buf) (fastforce simp: push_content_def result_simps split: if_splits)+

lemma flight_end_of_flight:
  assumes "flight_sizes ee creq cert cv fin"
  shows "flight_end_offset (flight_messages ee creq cert cv fin @ rest) = Some (length (flight_messages ee creq cert cv fin))"
proof -
  define msgs where "msgs = [(HS_ENCRYPTED_EXTENSIONS, ee)] @
    (case creq of None \<Rightarrow> [] | Some c \<Rightarrow> [(HS_CERTIFICATE_REQUEST, c)]) @ [(HS_CERTIFICATE, cert), (HS_CERTIFICATE_VERIFY, cv)]"
  have "list_all (\<lambda>(t, body). t \<noteq> HS_FINISHED \<and> length body < 2 ^ 24) msgs" "length fin < 2 ^ 24"
    using assms by (auto simp: msgs_def flight_sizes_def tls_consts split: option.splits)
  from flight_end_messages [OF this, of "[]" rest] show ?thesis
    by (auto simp: flight_end_offset_def msgs_def flight_messages_def split: option.splits)
qed

text \<open>C16: However the server splits its flight into records, the reassembler holds exactly the bytes
  received so far, reports the flight complete exactly when its last byte has arrived, and
  then yields exactly the flight, without what follows it, in the form the flight parser
  accepts.\<close>

theorem reassembled_flight:
  assumes "flight_sizes ee creq cert cv fin" "push_all N ServerFlightReassembler_new records = Inr buf"
    "concat records @ later = flight_messages ee creq cert cv fin @ rest"
  shows "flight_bytes buf =
      (if length (flight_messages ee creq cert cv fin) \<le> length (concat records)
       then Some (flight_messages ee creq cert cv fin) else None) \<and>
    parse_server_flight (flight_messages ee creq cert cv fin) = Inr (flight_view ee creq cert cv fin)"
proof -
  define f where "f = flight_messages ee creq cert cv fin"
  have buf: "buf = concat records" using push_all_bounded [OF assms(2)] by (simp add: ServerFlightReassembler_new_def)
  have whole: "flight_end_offset (f @ rest) = Some (length f)"
    unfolding f_def by (rule flight_end_of_flight [OF assms(1)])
  have "flight_bytes buf = (if length f \<le> length (concat records) then Some f else None)"
  proof (cases "length f \<le> length (concat records)")
    case True
    then have r: "concat records = f @ take (length (concat records) - length f) rest"
      using assms(3) append_eq_append_conv_if [of "concat records" later f rest]
      by (auto simp: f_def dest: arg_cong [where f = "take (length (concat records))"])
    have "flight_end_offset (concat records) = Some (length f)"
      by (subst r) (simp add: f_def flight_end_of_flight [OF assms(1)])
    then show ?thesis using True r buf by (simp add: flight_bytes_def) (metis append_eq_conv_conj)
  next
    case False
    have "flight_end_offset buf = None"
    proof (cases "flight_end_offset buf")
      case (Some n)
      then have "n \<le> length buf" "flight_end_offset (buf @ later) = Some n"
        using flight_end_mono [of buf 0 n later] by (simp_all add: flight_end_offset_def)
      moreover have "buf @ later = f @ rest" using assms(3) buf by (simp add: f_def)
      ultimately show ?thesis using whole False buf by simp
    qed
    then show ?thesis using False by (simp add: flight_bytes_def)
  qed
  then show ?thesis using parse_server_flight_complete [OF assms(1)] by (simp add: f_def)
qed

definition example_flight :: bytes where
  "example_flight = flight_messages [0, 0] None [1] [2] [3]"

theorem reassembled_flight_witness:
  "flight_bytes (example_flight @ [9]) = Some example_flight \<and>
   push_all 64 ServerFlightReassembler_new [take 9 example_flight, drop 9 example_flight @ [9]] = Inr (example_flight @ [9])"
proof -
  have p: "push_all 64 ServerFlightReassembler_new [take 9 example_flight, drop 9 example_flight @ [9]] = Inr (example_flight @ [9])"
    by code_simp
  have "flight_bytes (example_flight @ [9]) = (if length example_flight \<le>
      length (concat [take 9 example_flight, drop 9 example_flight @ [9]]) then Some example_flight else None)"
    using reassembled_flight [OF _ p, of "[0, 0]" None "[1]" "[2]" "[3]" "[]" "[9]"]
    by (simp add: flight_sizes_def flip: example_flight_def)
  then show ?thesis using p by simp
qed

section \<open>The record size limit\<close>

definition ext_bytes :: "16 word \<times> bytes \<Rightarrow> bytes" where
  "ext_bytes = (\<lambda>(t, body). to_be_bytes t @ be_bytes 2 (length body) @ body)"

definition ee_body_of :: "(16 word \<times> bytes) list \<Rightarrow> bytes" where
  "ee_body_of es = be_bytes 2 (length (concat (map ext_bytes es))) @ concat (map ext_bytes es)"

definition limits_of :: "(16 word \<times> bytes) list \<Rightarrow> bytes list" where
  "limits_of es = map snd (filter (\<lambda>e. fst e = EXT_RECORD_SIZE_LIMIT) es)"

text \<open>The answer, from the bodies of the \<^verbatim>\<open>record_size_limit\<close> extensions present.\<close>

fun limit_answer :: "bytes list \<Rightarrow> FlightError + 16 word option" where
  "limit_answer [] = Inr None"
| "limit_answer [b] = (if length b = 2 then Inr (Some (from_be_bytes b)) else Inl FL_Truncated)"
| "limit_answer (b # c # _) =
     (if length b = 2 \<and> length c = 2 then Inl (FL_DuplicateExtension EXT_RECORD_SIZE_LIMIT) else Inl FL_Truncated)"

lemma peek_loop_step:
  assumes "length body < 2 ^ 16"
  shows "peek_loop (ext_bytes (t, body) @ rest) found =
    (if t = EXT_RECORD_SIZE_LIMIT then
       if length body \<noteq> 2 then Inl FL_Truncated
       else if found \<noteq> None then Inl (FL_DuplicateExtension t)
       else peek_loop rest (Some (from_be_bytes body))
     else peek_loop rest found)"
proof -
  obtain a b where t: "to_be_bytes t = [a, b]"
    using be_bytes_2_list [of "unat t"] by (auto simp: to_be_bytes_16)
  obtain c d where l: "be_bytes 2 (length body) = [c, d]"
    using be_bytes_2_list [of "length body"] by blast
  have ft: "from_be_bytes [a, b] = t" using from_to_be_bytes [of t] t by simp
  have e: "ext_bytes (t, body) @ rest = a # b # c # d # body @ rest" by (simp add: ext_bytes_def t l)
  have d: "drop (4 + length body) (a # b # c # d # body @ rest) = rest" by (simp add: eval_nat_numeral)
  have two: "length body = 2 \<Longrightarrow> from_be_bytes [body ! 0, body ! 1] = (from_be_bytes body :: 16 word)"
    using list_of_length_2 [of body] by simp
  show ?thesis
    unfolding e by (subst peek_loop.simps) (use d two in \<open>simp add: Let_def ft u16_of_be_bytes [OF assms l]\<close>)
qed

lemma peek_loop_Nil: "peek_loop [] found = Inr found"
  by (simp add: peek_loop.simps)

lemma peek_loop_limits:
  assumes "list_all (\<lambda>e. length (snd e) < 2 ^ 16) es"
  shows "peek_loop (concat (map ext_bytes es)) found =
    (case found of None \<Rightarrow> limit_answer (limits_of es)
     | Some v \<Rightarrow> (case limits_of es of [] \<Rightarrow> Inr (Some v)
         | b # _ \<Rightarrow> if length b = 2 then Inl (FL_DuplicateExtension EXT_RECORD_SIZE_LIMIT) else Inl FL_Truncated))"
  using assms
proof (induction es arbitrary: found)
  case Nil
  then show ?case by (simp add: peek_loop_Nil limits_of_def split: option.splits)
next
  case (Cons e es)
  obtain t body where e: "e = (t, body)" by (cases e)
  show ?case
    using Cons.prems Cons.IH [of found] Cons.IH [of "Some (from_be_bytes body)"]
    by (auto simp: e peek_loop_step limits_of_def split: option.splits list.splits)
qed

text \<open>Peeking at the record size limit of a complete flight answers by the \<^verbatim>\<open>record_size_limit\<close>
  extensions of EncryptedExtensions alone: nothing when there is none, the value of a single
  well-formed one, and an error for a malformed or a repeated one.\<close>

lemma peek_record_size_limit_exact:
  assumes "list_all (\<lambda>e. length (snd e) < 2 ^ 16) es" "length (concat (map ext_bytes es)) < 2 ^ 16"
    "flight_sizes (ee_body_of es) creq cert cv fin"
  shows "peek_ee_record_size_limit (flight_messages (ee_body_of es) creq cert cv fin @ rest) = limit_answer (limits_of es)"
proof -
  define ee where "ee = ee_body_of es"
  define f where "f = flight_messages ee creq cert cv fin"
  have fb: "flight_bytes (f @ rest) = Some f"
    using flight_end_of_flight [OF assms(3), of rest] by (simp add: flight_bytes_def f_def ee_def)
  obtain tl where f: "f = hs_frame HS_ENCRYPTED_EXTENSIONS ee @ tl" by (simp add: f_def flight_messages_def)
  have eelen: "length ee < 2 ^ 24" using assms(3) by (simp add: flight_sizes_def ee_def)
  obtain a b c where abc: "be_bytes 3 (length ee) = [a, b, c]" using be_bytes_3_list [of "length ee"] by blast
  have f': "f = HS_ENCRYPTED_EXTENSIONS # a # b # c # ee @ tl" by (simp add: f hs_frame_def abc)
  define ls where "ls = concat (map ext_bytes es)"
  obtain x y where xy: "be_bytes 2 (length ls) = [x, y]" using be_bytes_2_list [of "length ls"] by blast
  have ee: "ee = x # y # ls" by (simp add: ee_def ee_body_of_def ls_def [symmetric] xy)
  have "peek_ee_record_size_limit (f @ rest) = peek_loop ls None"
    using u24_of_be_bytes [OF eelen abc] u16_of_be_bytes [OF assms(2) [folded ls_def] xy]
    by (simp add: peek_ee_record_size_limit_def fb) (simp add: f' Let_def ee)
  then show ?thesis using peek_loop_limits [OF assms(1), of None] by (simp add: f_def ee_def ls_def)
qed

end
