(* ===== verification/Pinned_Roots.thy ===== *)
theory Pinned_Roots
  imports Verify_Strategy
begin

text \<open>
  The chain validator of \<^verbatim>\<open>backends/pinned_roots.rs\<close>: a walk from the leaf up to the first
  certificate a fingerprint of the ledger names, or, when the presented chain ends first, to
  a stored anchor certificate that signed its top.  SHA-256 and the certificate parser are
  parameters; the depth cap \<^verbatim>\<open>CAP\<close> is a field.
\<close>

section \<open>Model\<close>

datatype Anchor = Fingerprint bytes | SpkiFingerprint bytes | AnchorCert bytes

definition DEFAULT_CHAIN_DEPTH :: nat where
  "DEFAULT_CHAIN_DEPTH = 8"

record PinnedRoots =
  pr_anchors :: "Anchor list"
  pr_clock :: Clock
  pr_enforce_anchor_expiry :: bool
  pr_cap :: nat

definition PinnedRoots_with_clock :: "Anchor list \<Rightarrow> Clock \<Rightarrow> PinnedRoots" where
  "PinnedRoots_with_clock anchors clock =
     \<lparr>pr_anchors = anchors, pr_clock = clock, pr_enforce_anchor_expiry = False, pr_cap = DEFAULT_CHAIN_DEPTH\<rparr>"

definition PinnedRoots_new :: "Anchor list \<Rightarrow> PinnedRoots" where
  "PinnedRoots_new anchors =
     \<lparr>pr_anchors = anchors, pr_clock = NoClock, pr_enforce_anchor_expiry = False, pr_cap = DEFAULT_CHAIN_DEPTH\<rparr>"

definition enforce_anchor_expiry :: "PinnedRoots \<Rightarrow> bool \<Rightarrow> PinnedRoots" where
  "enforce_anchor_expiry self on = self\<lparr>pr_enforce_anchor_expiry := on\<rparr>"

datatype PinnedRootsError =
    PR_EmptyChain
  | PR_ChainTooLong
  | PR_Parse CertParseError
  | PR_LinkSignatureInvalid
  | PR_UnknownLinkSigAlg
  | PR_RsaVerifierInvalid
  | PR_MlDsaVerifierInvalid
  | PR_IssuerNotCa
  | PR_IssuerKeyUsageForbidsCertSign
  | PR_PathLenExceeded
  | PR_UntrustedRoot
  | PR_Validity
  | PR_LeafVerifierInvalid

fun pr_of_link :: "LinkErr \<Rightarrow> PinnedRootsError" where
  "pr_of_link LE_LinkSignatureInvalid = PR_LinkSignatureInvalid"
| "pr_of_link LE_UnknownLinkSigAlg = PR_UnknownLinkSigAlg"
| "pr_of_link LE_RsaVerifierInvalid = PR_RsaVerifierInvalid"
| "pr_of_link LE_MlDsaVerifierInvalid = PR_MlDsaVerifierInvalid"

fun is_fingerprint :: "Anchor \<Rightarrow> bool" where
  "is_fingerprint (Fingerprint _) = True"
| "is_fingerprint _ = False"

fun is_spki_fingerprint :: "Anchor \<Rightarrow> bool" where
  "is_spki_fingerprint (SpkiFingerprint _) = True"
| "is_spki_fingerprint _ = False"

definition anchor_matches ::
  "(bytes \<Rightarrow> bytes) \<Rightarrow> CertParser \<Rightarrow> PinnedRoots \<Rightarrow> bytes \<Rightarrow> PinnedRootsError + bool" where
  "anchor_matches sha256 C self cert_der =
     (if list_ex is_fingerprint (pr_anchors self) \<and>
         list_ex (\<lambda>a. a = Fingerprint (sha256 cert_der)) (pr_anchors self)
      then Inr True
      else if list_ex is_spki_fingerprint (pr_anchors self)
      then rbind (map_err PR_Parse (cp_spki_der C cert_der)) (\<lambda>spki.
             Inr (list_ex (\<lambda>a. a = SpkiFingerprint (sha256 spki)) (pr_anchors self)))
      else Inr False)"

definition is_stored_cert_anchor :: "PinnedRoots \<Rightarrow> bytes \<Rightarrow> bool" where
  "is_stored_cert_anchor self cert_der = list_ex (\<lambda>a. a = AnchorCert cert_der) (pr_anchors self)"

definition check_validity_of :: "PinnedRoots \<Rightarrow> bytes \<Rightarrow> CertView \<Rightarrow> PinnedRootsError + unit" where
  "check_validity_of self cert_der view =
     (if pr_enforce_anchor_expiry self \<or> \<not> is_stored_cert_anchor self cert_der
      then require PR_Validity (pr_clock self view)
      else Inr ())"

definition require_issuer_ca :: "CertParser \<Rightarrow> bytes \<Rightarrow> nat \<Rightarrow> PinnedRootsError + unit" where
  "require_issuer_ca C issuer_der intermediates_below =
     rbind (map_err PR_Parse (cp_parse_ca_constraints C issuer_der)) (\<lambda>ca.
       if \<not> cc_is_ca ca then Inl PR_IssuerNotCa
       else if cc_key_cert_sign ca = Some False then Inl PR_IssuerKeyUsageForbidsCertSign
       else (case cc_path_len ca of
               Some p \<Rightarrow> if unat p < intermediates_below then Inl PR_PathLenExceeded else Inr ()
             | None \<Rightarrow> Inr ()))"

text \<open>The walk over the presented certificates: whether an anchor was reached, the view of the
  certificate it stopped at, and that certificate's position.\<close>

fun walk ::
  "'v VerifierBackend \<Rightarrow> (bytes \<Rightarrow> bytes) \<Rightarrow> CertParser \<Rightarrow> PinnedRoots \<Rightarrow> nat \<Rightarrow> CertView \<Rightarrow> bytes list \<Rightarrow>
   PinnedRootsError + bool \<times> CertView \<times> nat" where
  "walk P sha256 C self i child [] = Inr (False, child, i)"
| "walk P sha256 C self i child (cert # rest) =
     rbind (anchor_matches sha256 C self cert) (\<lambda>hit.
       if hit then rbind (check_validity_of self cert child) (\<lambda>_. Inr (True, child, i))
       else
         rbind (check_validity_of self cert child) (\<lambda>_.
           case rest of
             [] \<Rightarrow> Inr (False, child, i)
           | next_der # _ \<Rightarrow>
               rbind (map_err PR_Parse (cp_parse C next_der)) (\<lambda>parent.
               rbind (map_err pr_of_link (verify_link P child parent)) (\<lambda>_.
               rbind (require_issuer_ca C next_der i) (\<lambda>_.
                 walk P sha256 C self (i + 1) parent rest)))))"

fun stored_anchor_vouches ::
  "'v VerifierBackend \<Rightarrow> CertParser \<Rightarrow> PinnedRoots \<Rightarrow> nat \<Rightarrow> CertView \<Rightarrow> Anchor list \<Rightarrow> bool" where
  "stored_anchor_vouches P C self i child [] = False"
| "stored_anchor_vouches P C self i child (a # as) =
     (case a of
        AnchorCert anchor_der \<Rightarrow>
          (case cp_parse C anchor_der of
             Inl _ \<Rightarrow> stored_anchor_vouches P C self i child as
           | Inr anchor_view \<Rightarrow>
               if is_ok (require_issuer_ca C anchor_der i) \<and> is_ok (verify_link P child anchor_view) \<and>
                  is_ok (check_validity_of self anchor_der anchor_view)
               then True
               else stored_anchor_vouches P C self i child as)
      | _ \<Rightarrow> stored_anchor_vouches P C self i child as)"

definition PinnedRoots_verify_chain ::
  "'v VerifierBackend \<Rightarrow> (bytes \<Rightarrow> bytes) \<Rightarrow> CertParser \<Rightarrow> PinnedRoots \<Rightarrow> bytes list \<Rightarrow>
   PinnedRootsError + 'v PreparedVerifier" where
  "PinnedRoots_verify_chain P sha256 C self certs =
     (if certs = [] then Inl PR_EmptyChain
      else if length certs > pr_cap self then Inl PR_ChainTooLong
      else
        rbind (map_err PR_Parse (cp_parse C (certs ! 0))) (\<lambda>leaf_view.
        rbind (walk P sha256 C self 0 leaf_view certs) (\<lambda>(anchored, child, i).
          if \<not> anchored \<and> \<not> stored_anchor_vouches P C self i child (pr_anchors self)
          then Inl PR_UntrustedRoot
          else map_err (\<lambda>_. PR_LeafVerifierInvalid) (prepare_leaf P leaf_view))))"

section \<open>What an accepted chain is\<close>

text \<open>An issuer with \<^verbatim>\<open>below\<close> intermediates beneath it.\<close>

definition issuer_ok :: "CertParser \<Rightarrow> bytes \<Rightarrow> nat \<Rightarrow> bool" where
  "issuer_ok C der below \<longleftrightarrow>
     (\<exists>ca. cp_parse_ca_constraints C der = Inr ca \<and> cc_is_ca ca \<and> cc_key_cert_sign ca \<noteq> Some False \<and>
        (case cc_path_len ca of None \<Rightarrow> True | Some p \<Rightarrow> below \<le> unat p))"

definition time_ok :: "PinnedRoots \<Rightarrow> bytes \<Rightarrow> CertView \<Rightarrow> bool" where
  "time_ok self der view \<longleftrightarrow> pr_clock self view \<or>
     AnchorCert der \<in> set (pr_anchors self) \<and> \<not> pr_enforce_anchor_expiry self"

definition pinned :: "(bytes \<Rightarrow> bytes) \<Rightarrow> CertParser \<Rightarrow> PinnedRoots \<Rightarrow> bytes \<Rightarrow> bool" where
  "pinned sha256 C self der \<longleftrightarrow> Fingerprint (sha256 der) \<in> set (pr_anchors self) \<or>
     (\<exists>spki. cp_spki_der C der = Inr spki \<and> SpkiFingerprint (sha256 spki) \<in> set (pr_anchors self))"

text \<open>A certified path: certificates with their views, each time-valid, each signed by the next,
  and each but the first an eligible issuer for the intermediates below it; the first has
  \<^verbatim>\<open>i\<close> of them below it.\<close>

fun certified_path ::
  "'v VerifierBackend \<Rightarrow> CertParser \<Rightarrow> PinnedRoots \<Rightarrow> nat \<Rightarrow> bytes list \<Rightarrow> CertView list \<Rightarrow> bool" where
  "certified_path P C self i (der # ders) (view # views) \<longleftrightarrow>
     cp_parse C der = Inr view \<and> time_ok self der view \<and>
     (if ders = [] then views = []
      else views \<noteq> [] \<and> signed_by P view (hd views) \<and> issuer_ok C (hd ders) i \<and>
        certified_path P C self (Suc i) ders views)"
| "certified_path P C self i _ _ = False"

definition stored_root :: "'v VerifierBackend \<Rightarrow> CertParser \<Rightarrow> PinnedRoots \<Rightarrow> nat \<Rightarrow> CertView \<Rightarrow> bool" where
  "stored_root P C self i child \<longleftrightarrow>
     (\<exists>der view. AnchorCert der \<in> set (pr_anchors self) \<and> cp_parse C der = Inr view \<and>
        issuer_ok C der i \<and> signed_by P child view \<and> time_ok self der view)"

lemma check_validity_of_iff: "check_validity_of self der view = Inr u \<longleftrightarrow> time_ok self der view"
  by (auto simp: check_validity_of_def time_ok_def is_stored_cert_anchor_def list_ex_iff)

lemma require_issuer_ca_iff: "require_issuer_ca C der i = Inr u \<longleftrightarrow> issuer_ok C der i"
  by (cases "cp_parse_ca_constraints C der")
    (auto simp: require_issuer_ca_def issuer_ok_def result_simps split: option.splits)

lemmas pinned_iffs = check_validity_of_iff require_issuer_ca_iff verify_link_iff

lemma anchor_matches_True: "anchor_matches sha256 C self der = Inr True \<Longrightarrow> pinned sha256 C self der"
  by (auto simp: anchor_matches_def pinned_def list_ex_iff result_simps split: if_splits)

lemma stored_anchor_vouches_iff:
  "stored_anchor_vouches P C self i child as \<longleftrightarrow>
     (\<exists>der view. AnchorCert der \<in> set as \<and> cp_parse C der = Inr view \<and>
        issuer_ok C der i \<and> signed_by P child view \<and> time_ok self der view)"
proof (induction as)
  case Nil
  then show ?case by simp
next
  case (Cons a as)
  then show ?case
    by (cases a) (auto simp: is_ok_iff pinned_iffs split: sum.splits)
qed

text \<open>The walk stops after a certified path, at a pinned certificate or at the top.\<close>

lemma walk_sound:
  assumes "walk P sha256 C self i child (c # rest) = Inr (hit, v, n)" "cp_parse C c = Inr child"
  shows "\<exists>m views. n = i + m \<and> certified_path P C self i (take (Suc m) (c # rest)) views \<and>
    hd views = child \<and> last views = v \<and> m < length (c # rest) \<and>
    (if hit then pinned sha256 C self ((c # rest) ! m) else Suc m = length (c # rest))"
  using assms
proof (induction rest arbitrary: i child c)
  case Nil
  then show ?case
    by (intro exI [of _ 0] exI [of _ "[child]"])
      (auto simp: result_simps pinned_iffs dest: anchor_matches_True split: if_splits)
next
  case (Cons d ds)
  obtain b where am: "anchor_matches sha256 C self c = Inr b" and t: "time_ok self c child"
    using Cons.prems(1) by (auto simp: result_simps pinned_iffs split: if_splits)
  show ?case
  proof (cases b)
    case True
    then show ?thesis using Cons.prems am t
      by (intro exI [of _ 0] exI [of _ "[child]"]) (auto simp: result_simps pinned_iffs dest: anchor_matches_True)
  next
    case False
    then obtain parent where w: "walk P sha256 C self (Suc i) parent (d # ds) = Inr (hit, v, n)"
      and d: "cp_parse C d = Inr parent" "signed_by P child parent" "issuer_ok C d i"
      using Cons.prems(1) am by (auto simp: result_simps pinned_iffs)
    obtain m views where m: "n = Suc i + m" "certified_path P C self (Suc i) (take (Suc m) (d # ds)) views"
        "hd views = parent" "last views = v" "m < length (d # ds)"
        "if hit then pinned sha256 C self ((d # ds) ! m) else Suc m = length (d # ds)"
      using Cons.IH [OF w d(1)] by blast
    then have "views \<noteq> []" by (cases views) auto
    then show ?thesis using m d t Cons.prems(2)
      by (intro exI [of _ "Suc m"] exI [of _ "child # views"]) simp
  qed
qed

text \<open>C10: Soundness of the ledger walk: an accepted chain starts with a certified path from the leaf
  (every certificate parses, is time-valid unless it is an exempt stored anchor, is signed by
  the next, and every issuer is a CA that may sign certificates with path-length room for
  the intermediates below it) that ends at a certificate pinned by fingerprint, or at the top
  of the chain with a stored anchor that is itself an eligible issuer and signed it; and the
  verifier handed out is prepared from the leaf.\<close>

theorem pinned_roots_sound:
  assumes "PinnedRoots_verify_chain P sha256 C self certs = Inr v"
  shows "length certs \<le> pr_cap self \<and>
    (\<exists>m views. m < length certs \<and> certified_path P C self 0 (take (Suc m) certs) views \<and>
       (pinned sha256 C self (certs ! m) \<or>
        Suc m = length certs \<and> stored_root P C self m (last views)) \<and>
       prepare_leaf P (hd views) = Inr v)"
proof -
  obtain c rest where certs: "certs = c # rest" and cap: "length certs \<le> pr_cap self"
    using assms by (cases certs) (auto simp: PinnedRoots_verify_chain_def split: if_splits)
  then obtain leaf hit child i where leaf: "cp_parse C c = Inr leaf"
    and w: "walk P sha256 C self 0 leaf (c # rest) = Inr (hit, child, i)"
    and a: "hit \<or> stored_anchor_vouches P C self i child (pr_anchors self)"
    and v: "prepare_leaf P leaf = Inr v"
    using assms
    by (auto simp: PinnedRoots_verify_chain_def result_simps simp del: walk.simps split: if_splits)
  show ?thesis
    using walk_sound [OF w leaf] a v cap unfolding certs stored_anchor_vouches_iff stored_root_def
    by (auto split: if_splits)
qed

text \<open>A toy certificate is a subject key byte and a signer key byte; keys from 10 on are CAs that may
  have no intermediates below them.\<close>

definition demo_verifiers :: "bytes VerifierBackend" where
  "demo_verifiers = \<lparr>ed_prepare = Some, ed_verify = (\<lambda>v m s. s = replicate 64 (hd v + hd m)),
     ed_matches = (=), rsa_prepare = (\<lambda>_. None), rsa_verify = (\<lambda>_ _ _. False), rsa_matches = (\<lambda>_ _. False),
     mldsa_prepare = (\<lambda>_. None), mldsa_verify = (\<lambda>_ _ _. False), mldsa_matches = (\<lambda>_ _. False),
     p256_prepare = (\<lambda>_. None), p256_verify = (\<lambda>_ _ _. False), p256_matches = (\<lambda>_ _. False),
     p384_prepare = (\<lambda>_. None), p384_verify = (\<lambda>_ _ _. False), p384_matches = (\<lambda>_ _. False)\<rparr>"

definition demo_parse :: "bytes \<Rightarrow> CertParseError + CertView" where
  "demo_parse der = (if length der = 2
     then Inr (CV_Ed25519 [der ! 0] (replicate 64 (der ! 1 + der ! 0)) [der ! 0] None []) else Inl CP_Malformed)"

definition demo_parser :: CertParser where
  "demo_parser = \<lparr>cp_parse = demo_parse,
     cp_parse_ca_constraints = (\<lambda>der. Inr \<lparr>cc_is_ca = der ! 0 \<ge> 10, cc_path_len = Some 0, cc_key_cert_sign = None\<rparr>),
     cp_spki_der = (\<lambda>der. Inr (take 1 der))\<rparr>"

lemmas demo_defs = demo_verifiers_def demo_parse_def demo_parser_def PinnedRoots_verify_chain_def
  PinnedRoots_new_def DEFAULT_CHAIN_DEPTH_def anchor_matches_def check_validity_of_def NoClock_def
  require_issuer_ca_def is_stored_cert_anchor_def require_def

theorem pinned_roots_sound_witness:
  "PinnedRoots_verify_chain demo_verifiers id demo_parser (PinnedRoots_new [AnchorCert [10, 10]]) [[1, 10]] =
     Inr (PV_Ed25519 [1]) \<and>
   (\<exists>m views. m < length [[1, 10 :: byte]] \<and>
      certified_path demo_verifiers demo_parser (PinnedRoots_new [AnchorCert [10, 10]]) 0
        (take (Suc m) [[1, 10]]) views)"
proof
  show a: "PinnedRoots_verify_chain demo_verifiers id demo_parser (PinnedRoots_new [AnchorCert [10, 10]]) [[1, 10]] =
     Inr (PV_Ed25519 [1])" by (simp add: demo_defs)
  show "\<exists>m views. m < length [[1, 10 :: byte]] \<and>
      certified_path demo_verifiers demo_parser (PinnedRoots_new [AnchorCert [10, 10]]) 0
        (take (Suc m) [[1, 10]]) views"
    using pinned_roots_sound [OF a] by blast
qed

section \<open>The order of the ledger\<close>

lemma anchor_matches_set:
  "set as = set bs \<Longrightarrow>
   anchor_matches sha256 C (self\<lparr>pr_anchors := as\<rparr>) der = anchor_matches sha256 C (self\<lparr>pr_anchors := bs\<rparr>) der"
  by (simp add: anchor_matches_def list_ex_iff)

lemma check_validity_of_set:
  "set as = set bs \<Longrightarrow>
   check_validity_of (self\<lparr>pr_anchors := as\<rparr>) der v = check_validity_of (self\<lparr>pr_anchors := bs\<rparr>) der v"
  by (simp add: check_validity_of_def is_stored_cert_anchor_def list_ex_iff)

lemma walk_set:
  "set as = set bs \<Longrightarrow>
   walk P sha256 C (self\<lparr>pr_anchors := as\<rparr>) i child cs = walk P sha256 C (self\<lparr>pr_anchors := bs\<rparr>) i child cs"
  by (induction cs arbitrary: i child)
    (auto simp: anchor_matches_set [of as bs] check_validity_of_set [of as bs] intro!: rbind_cong split: list.splits)

lemma stored_anchor_vouches_set:
  "set as = set bs \<Longrightarrow>
   stored_anchor_vouches P C (self\<lparr>pr_anchors := as\<rparr>) i child as =
   stored_anchor_vouches P C (self\<lparr>pr_anchors := bs\<rparr>) i child bs"
  by (simp add: stored_anchor_vouches_iff time_ok_def)

text \<open>The ledger is order-independent: two ledgers with the same anchors give every chain the same
  verdict, the same error included.\<close>

lemma pinned_roots_order_independent:
  assumes "set as = set bs"
  shows "PinnedRoots_verify_chain P sha256 C (self\<lparr>pr_anchors := as\<rparr>) certs =
    PinnedRoots_verify_chain P sha256 C (self\<lparr>pr_anchors := bs\<rparr>) certs"
  by (simp add: PinnedRoots_verify_chain_def walk_set [OF assms] stored_anchor_vouches_set [OF assms])

text \<open>A server that transmits the stored root above its leaf is refused when the root has a zero
  path length, though the same chain without the root is accepted: the transmitted root is
  counted as an intermediate below its stored copy.\<close>

lemma transmitted_root_refused:
  "PinnedRoots_verify_chain demo_verifiers id demo_parser (PinnedRoots_new [AnchorCert [10, 10]])
     [[1, 10], [10, 10]] = Inl PR_UntrustedRoot"
  "PinnedRoots_verify_chain demo_verifiers id demo_parser (PinnedRoots_new [AnchorCert [10, 10]])
     [[1, 10]] = Inr (PV_Ed25519 [1])"
  by (simp_all add: demo_defs)

end
