(* ===== verification/Ecdsa_Verify.thy ===== *)
theory Ecdsa_Verify
  imports Krabi_Prelude
begin

text \<open>
  The signature decoders of \<^verbatim>\<open>backends/ecdsa_verify.rs\<close> and \<^verbatim>\<open>backends/mldsa_verify.rs\<close>: the
  strict DER reader that turns an \<^verbatim>\<open>ECDSA-Sig-Value\<close> into the fixed-width \<^verbatim>\<open>r || s\<close>, the ECDSA
  verify entry points over it, and the ML-DSA verifying key whose parameter set is chosen by
  the key length.  The curve and lattice arithmetic and the hashes are parameters.

  A reader takes the remaining input and returns what it read with the input that is left.
  The output buffer of the decoder is returned; its two callers pass one of \<^verbatim>\<open>2 * eb\<close> bytes, so
  the length check at its start is not repeated.
\<close>

section \<open>Model\<close>

datatype EcdsaVerifyError = EcdsaVerifyError

definition der_take :: "bytes \<Rightarrow> nat \<Rightarrow> EcdsaVerifyError + bytes \<times> bytes" where
  "der_take p n = (if length p < n then Inl EcdsaVerifyError else Inr (take n p, drop n p))"

definition der_length :: "bytes \<Rightarrow> EcdsaVerifyError + nat \<times> bytes" where
  "der_length p =
     rbind (der_take p 1) (\<lambda>(h, p).
       let n = h ! 0 in
       if n < 0x80 then Inr (unat n, p)
       else if n = 0x81 then
         rbind (der_take p 1) (\<lambda>(b, p).
           if b ! 0 \<ge> 0x80 then Inr (unat (b ! 0), p) else Inl EcdsaVerifyError)
       else if n = 0x82 then
         rbind (der_take p 2) (\<lambda>(b, p).
           let n = unat (b ! 0) * 256 + unat (b ! 1) in
           if n < 0x100 then Inl EcdsaVerifyError else Inr (n, p))
       else Inl EcdsaVerifyError)"

definition ecdsa_read_tlv :: "bytes \<Rightarrow> byte \<Rightarrow> EcdsaVerifyError + bytes \<times> bytes" where
  "ecdsa_read_tlv p tag =
     rbind (der_take p 1) (\<lambda>(t, p).
       if t ! 0 \<noteq> tag then Inl EcdsaVerifyError
       else rbind (der_length p) (\<lambda>(len, p). der_take p len))"

definition int_to_padded :: "bytes \<Rightarrow> nat \<Rightarrow> EcdsaVerifyError + bytes" where
  "int_to_padded v out_len =
     (if v = [] \<or> (v ! 0) AND 0x80 \<noteq> 0 then Inl EcdsaVerifyError
      else if length v > 1 \<and> v ! 0 = 0 \<and> (v ! 1) AND 0x80 = 0 then Inl EcdsaVerifyError
      else
        let val = (if length v > 1 \<and> v ! 0 = 0 then drop 1 v else v) in
        if out_len < length val then Inl EcdsaVerifyError
        else Inr (replicate (out_len - length val) 0 @ val))"

definition der_sig_to_p1363 :: "bytes \<Rightarrow> nat \<Rightarrow> EcdsaVerifyError + bytes" where
  "der_sig_to_p1363 der eb =
     rbind (ecdsa_read_tlv der 0x30) (\<lambda>(body, outer).
       if outer \<noteq> [] then Inl EcdsaVerifyError
       else
         rbind (ecdsa_read_tlv body 0x02) (\<lambda>(r, body).
         rbind (ecdsa_read_tlv body 0x02) (\<lambda>(s, body).
           if body \<noteq> [] then Inl EcdsaVerifyError
           else
             rbind (int_to_padded r eb) (\<lambda>out_r.
             rbind (int_to_padded s eb) (\<lambda>out_s. Inr (out_r @ out_s))))))"

definition verify_p256 :: "(bytes \<Rightarrow> bytes \<Rightarrow> bytes \<Rightarrow> bool) \<Rightarrow> bytes \<Rightarrow> bytes \<Rightarrow> bytes \<Rightarrow> EcdsaVerifyError + unit" where
  "verify_p256 verify_prehash pubkey_sec1 prehash der_sig =
     (if length pubkey_sec1 \<noteq> 65 then Inl EcdsaVerifyError
      else rbind (der_sig_to_p1363 der_sig 32) (\<lambda>rs.
             if verify_prehash pubkey_sec1 prehash rs then Inr () else Inl EcdsaVerifyError))"

definition verify_p384 :: "(bytes \<Rightarrow> bytes \<Rightarrow> bytes \<Rightarrow> bool) \<Rightarrow> bytes \<Rightarrow> bytes \<Rightarrow> bytes \<Rightarrow> EcdsaVerifyError + unit" where
  "verify_p384 verify_prehash pubkey_sec1 prehash der_sig =
     (if length pubkey_sec1 \<noteq> 97 then Inl EcdsaVerifyError
      else rbind (der_sig_to_p1363 der_sig 48) (\<lambda>rs.
             if verify_prehash pubkey_sec1 prehash rs then Inr () else Inl EcdsaVerifyError))"

text \<open>A prepared ECDSA verifier is its point; it hashes the message and verifies the digest.\<close>

definition PreparedEcdsaP256_verify ::
  "(bytes \<Rightarrow> bytes) \<Rightarrow> (bytes \<Rightarrow> bytes \<Rightarrow> bytes \<Rightarrow> bool) \<Rightarrow> bytes \<Rightarrow> bytes \<Rightarrow> bytes \<Rightarrow> bool" where
  "PreparedEcdsaP256_verify sha256 verify_prehash self msg sig = is_ok (verify_p256 verify_prehash self (sha256 msg) sig)"

definition PreparedEcdsaP384_verify ::
  "(bytes \<Rightarrow> bytes) \<Rightarrow> (bytes \<Rightarrow> bytes \<Rightarrow> bytes \<Rightarrow> bool) \<Rightarrow> bytes \<Rightarrow> bytes \<Rightarrow> bytes \<Rightarrow> bool" where
  "PreparedEcdsaP384_verify sha384 verify_prehash self msg sig = is_ok (verify_p384 verify_prehash self (sha384 msg) sig)"

datatype MlDsaVerifierKey = MlDsa44 bytes | MlDsa65 bytes | MlDsa87 bytes

fun MlDsaVerifierKey_pubkey :: "MlDsaVerifierKey \<Rightarrow> bytes" where
  "MlDsaVerifierKey_pubkey (MlDsa44 pk) = pk"
| "MlDsaVerifierKey_pubkey (MlDsa65 pk) = pk"
| "MlDsaVerifierKey_pubkey (MlDsa87 pk) = pk"

definition MlDsaVerifierKey_new :: "bytes \<Rightarrow> MlDsaVerifierKey option" where
  "MlDsaVerifierKey_new pk =
     (if length pk = 1312 then Some (MlDsa44 pk)
      else if length pk = 1952 then Some (MlDsa65 pk)
      else if length pk = 2592 then Some (MlDsa87 pk)
      else None)"

text \<open>The parameter \<^verbatim>\<open>facade\<close> is the verify function of the parameter set, by its name 44, 65 or 87,
  with the key, the message, the context and the signature.\<close>

fun MlDsaVerifierKey_verify ::
  "(nat \<Rightarrow> bytes \<Rightarrow> bytes \<Rightarrow> bytes \<Rightarrow> bytes \<Rightarrow> bool) \<Rightarrow> MlDsaVerifierKey \<Rightarrow> bytes \<Rightarrow> bytes \<Rightarrow> bool" where
  "MlDsaVerifierKey_verify facade (MlDsa44 pk) msg sig = (length sig = 2420 \<and> facade 44 pk msg [] sig)"
| "MlDsaVerifierKey_verify facade (MlDsa65 pk) msg sig = (length sig = 3309 \<and> facade 65 pk msg [] sig)"
| "MlDsaVerifierKey_verify facade (MlDsa87 pk) msg sig = (length sig = 4627 \<and> facade 87 pk msg [] sig)"

definition MlDsaVerifierKey_matches :: "MlDsaVerifierKey \<Rightarrow> bytes \<Rightarrow> bool" where
  "MlDsaVerifierKey_matches self candidate =
     (let pk = MlDsaVerifierKey_pubkey self in
      if length pk \<noteq> length candidate then False else pk = candidate)"

section \<open>Canonical encodings\<close>

definition der_len_bytes :: "nat \<Rightarrow> bytes" where
  "der_len_bytes n =
     (if n < 0x80 then [word_of_nat n]
      else if n < 0x100 then [0x81, word_of_nat n]
      else [0x82, word_of_nat (n div 256), word_of_nat n])"

definition der_tlv :: "byte \<Rightarrow> bytes \<Rightarrow> bytes" where
  "der_tlv tag v = tag # der_len_bytes (length v) @ v"

definition der_int :: "bytes \<Rightarrow> bytes" where
  "der_int out = (let d = dropWhile (\<lambda>b. b = 0) out in
     if d = [] then [0] else if hd d \<ge> 0x80 then 0 # d else d)"

definition der_sig :: "bytes \<Rightarrow> bytes \<Rightarrow> bytes" where
  "der_sig r s = der_tlv 0x30 (der_tlv 0x02 (der_int r) @ der_tlv 0x02 (der_int s))"

lemma der_take_ok [result_simps]:
  "der_take p n = Inr (h, t) \<longleftrightarrow> p = h @ t \<and> length h = n"
  by (auto simp: der_take_def)

lemma two_byte_number:
  assumes "n = unat x * 256 + unat (y :: byte)"
  shows "word_of_nat (n div 256) = (x :: byte)" "word_of_nat n = y"
proof -
  have "n div 256 = unat x" using assms unat_byte_less [of y] by simp
  then show "word_of_nat (n div 256) = x" by simp
  have "unat (word_of_nat n :: byte) = unat y" unfolding unat_of_nat_byte using assms by simp
  then show "word_of_nat n = y" by (rule word_unat_eq_iff [THEN iffD2])
qed

lemma der_length_sound:
  assumes "der_length p = Inr (n, rest)"
  shows "n < 65536 \<and> p = der_len_bytes n @ rest"
proof -
  obtain h q where p: "p = h # q" and l: "(if h < 0x80 then Inr (unat h, q)
       else if h = 0x81 then
         rbind (der_take q 1) (\<lambda>(b, p). if b ! 0 \<ge> 0x80 then Inr (unat (b ! 0), p) else Inl EcdsaVerifyError)
       else if h = 0x82 then
         rbind (der_take q 2) (\<lambda>(b, p). let n = unat (b ! 0) * 256 + unat (b ! 1) in
           if n < 0x100 then Inl EcdsaVerifyError else Inr (n, p))
       else Inl EcdsaVerifyError) = Inr (n, rest)"
    using assms by (auto simp: der_length_def result_simps length_one)
  consider "h < 0x80" "n = unat h" "q = rest"
    | b where "h = 0x81" "q = b # rest" "b \<ge> 0x80" "n = unat b"
    | x y where "h = 0x82" "q = x # y # rest" "n = unat x * 256 + unat y" "n \<ge> 256"
    using l by (auto simp: result_simps length_one length_two Let_def not_less split: if_splits)
  then show ?thesis
  proof cases
    case 1
    then show ?thesis using p by (simp add: der_len_bytes_def word_less_nat_alt)
  next
    case 2
    then show ?thesis using p order_less_trans [OF unat_byte_less [of b], of 65536]
      by (simp add: der_len_bytes_def word_le_nat_alt)
  next
    case 3
    have "n < 65536" using 3(3) unat_byte_less [of x] unat_byte_less [of y] by linarith
    then show ?thesis using p 3(1,2,4) two_byte_number [OF 3(3)] by (simp add: der_len_bytes_def)
  qed
qed

lemma der_take_Cons [simp]: "der_take (x # p) (Suc 0) = Inr ([x], p)" "der_take (x # y # p) 2 = Inr ([x, y], p)"
  by (simp_all add: der_take_def)

lemma der_length_complete:
  assumes "n < 65536"
  shows "der_length (der_len_bytes n @ rest) = Inr (n, rest)"
proof -
  consider "n < 128" | "128 \<le> n" "n < 256" | "256 \<le> n" by linarith
  then show ?thesis
  proof cases
    case 1
    then have "unat (word_of_nat n :: byte) = n" "(word_of_nat n :: byte) < 0x80"
      by (simp_all add: unat_word_of_nat_byte word_less_nat_alt)
    then show ?thesis using 1 by (simp add: der_length_def der_len_bytes_def)
  next
    case 2
    then have "unat (word_of_nat n :: byte) = n" "(word_of_nat n :: byte) \<ge> 0x80"
      by (simp_all add: unat_word_of_nat_byte word_le_nat_alt)
    then show ?thesis using 2 by (simp add: der_length_def der_len_bytes_def)
  next
    case 3
    have "unat (word_of_nat (n div 256) :: byte) = n div 256" "unat (word_of_nat n :: byte) = n mod 256"
      using assms by (simp_all add: unat_of_nat_byte)
    then show ?thesis using 3 by (simp add: der_length_def der_len_bytes_def)
  qed
qed

lemma der_length_ok [result_simps]:
  "der_length p = Inr (n, rest) \<longleftrightarrow> n < 65536 \<and> p = der_len_bytes n @ rest"
  using der_length_sound der_length_complete by blast

text \<open>A value read is one that was encoded with the shortest length.\<close>

lemma ecdsa_read_tlv_ok [result_simps]:
  "ecdsa_read_tlv p tag = Inr (v, rest) \<longleftrightarrow> length v < 65536 \<and> p = der_tlv tag v @ rest"
  by (auto simp: ecdsa_read_tlv_def der_tlv_def result_simps length_one)

lemma dropWhile_zeros: "dropWhile (\<lambda>b. b = 0) (replicate k 0 @ v) = dropWhile (\<lambda>b. b = (0 :: byte)) v"
  by (induction k) simp_all

lemma zeros_dropWhile:
  "replicate (length out - length (dropWhile (\<lambda>b. b = 0) out)) 0 @ dropWhile (\<lambda>b. b = 0) out = (out :: bytes)"
proof (induction out)
  case Nil
  then show ?case by simp
next
  case (Cons a out)
  have "length (dropWhile (\<lambda>b. b = 0) out) \<le> length out" by (rule length_dropWhile_le)
  with Cons show ?case by (simp add: Suc_diff_le)
qed

lemma int_to_padded_sound:
  assumes "int_to_padded v n = Inr out"
  shows "0 < n \<and> length out = n \<and> v = der_int out"
proof -
  have v: "v \<noteq> []" "v ! 0 < 0x80" "\<not> (length v > 1 \<and> v ! 0 = 0 \<and> v ! 1 < 0x80)"
    using assms by (auto simp: int_to_padded_def byte_high_bit split: if_splits)
  then obtain x xs where x: "v = x # xs" by (cases v) auto
  define w where "w = (if xs \<noteq> [] \<and> x = 0 then xs else v)"
  have out: "out = replicate (n - length w) 0 @ w" "length w \<le> n"
    using assms v by (auto simp: int_to_padded_def byte_high_bit Let_def w_def x split: if_splits)
  have "w \<noteq> []" using x by (simp add: w_def)
  moreover have "v = der_int out"
  proof (cases "x = 0")
    case True
    then show ?thesis using x v(3) out by (cases xs) (auto simp: der_int_def w_def dropWhile_zeros not_less Let_def)
  next
    case False
    then show ?thesis using x v(2) out by (auto simp: der_int_def w_def dropWhile_zeros not_less Let_def)
  qed
  ultimately show ?thesis using out by (cases w) auto
qed

lemma int_to_padded_complete:
  assumes "out \<noteq> []"
  shows "int_to_padded (der_int out) (length out) = Inr out"
proof (cases "dropWhile (\<lambda>b. b = 0) out")
  case Nil
  then have "out = replicate (length out) 0" by (simp add: replicate_eqI)
  then have "out = replicate (length out - 1) 0 @ [0]"
    using assms by (cases out rule: rev_cases) (simp_all add: replicate_append_same)
  then show ?thesis using Nil assms by (cases out) (simp_all add: der_int_def int_to_padded_def Let_def)
next
  case (Cons x xs)
  have le: "length (x # xs) \<le> length out" using length_dropWhile_le [of "\<lambda>b. b = 0" out] Cons by simp
  have out: "replicate (length out - length (x # xs)) 0 @ x # xs = out"
    using zeros_dropWhile [of out] Cons by simp
  have "x \<noteq> 0" using Cons by (auto simp: dropWhile_eq_Cons_conv)
  then show ?thesis using Cons le out
    by (auto simp: der_int_def int_to_padded_def Let_def byte_high_bit not_less)
qed

lemma int_to_padded_ok [result_simps]:
  "int_to_padded v n = Inr out \<longleftrightarrow> 0 < n \<and> length out = n \<and> v = der_int out"
  using int_to_padded_sound int_to_padded_complete by auto

lemma length_der_int: "length (der_int out) \<le> length out + 1"
  using length_dropWhile_le [of "\<lambda>b. b = 0" out] by (auto simp: der_int_def Let_def)

lemma length_der_tlv: "length (der_tlv tag v) \<le> length v + 4"
  by (simp add: der_tlv_def der_len_bytes_def)

lemma der_sig_complete:
  assumes "0 < eb" "eb \<le> 66" "length r = eb" "length s = eb"
  shows "der_sig_to_p1363 (der_sig r s) eb = Inr (r @ s)"
proof -
  have "length (der_int r) \<le> 67" "length (der_int s) \<le> 67"
    using length_der_int [of r] length_der_int [of s] assms by simp_all
  moreover from this have "length (der_tlv 2 (der_int r) @ der_tlv 2 (der_int s)) < 65536"
    using length_der_tlv [of 2 "der_int r"] length_der_tlv [of 2 "der_int s"] by simp
  moreover have "int_to_padded (der_int r) eb = Inr r" "int_to_padded (der_int s) eb = Inr s"
    using assms by (simp_all add: int_to_padded_ok)
  moreover have "ecdsa_read_tlv (der_sig r s) 0x30 = Inr (der_tlv 2 (der_int r) @ der_tlv 2 (der_int s), [])"
    using calculation by (simp add: ecdsa_read_tlv_ok der_sig_def)
  moreover have "ecdsa_read_tlv (der_tlv 2 (der_int r) @ der_tlv 2 (der_int s)) 2 = Inr (der_int r, der_tlv 2 (der_int s))"
    "ecdsa_read_tlv (der_tlv 2 (der_int s)) 2 = Inr (der_int s, [])"
    using calculation by (simp_all add: ecdsa_read_tlv_ok)
  ultimately show ?thesis by (simp add: der_sig_to_p1363_def)
qed

lemma der_sig_sound:
  assumes "der_sig_to_p1363 der eb = Inr rs"
  shows "length rs = 2 * eb \<and> der = der_sig (take eb rs) (drop eb rs)"
  using assms by (auto simp: der_sig_to_p1363_def der_sig_def result_simps split: if_splits)

lemma der_sig_ok:
  assumes "0 < eb" "eb \<le> 66"
  shows "der_sig_to_p1363 der eb = Inr rs \<longleftrightarrow> (\<exists>r s. length r = eb \<and> length s = eb \<and> der = der_sig r s \<and> rs = r @ s)"
proof
  assume "der_sig_to_p1363 der eb = Inr rs"
  from der_sig_sound [OF this] show "\<exists>r s. length r = eb \<and> length s = eb \<and> der = der_sig r s \<and> rs = r @ s"
    by (intro exI [of _ "take eb rs"] exI [of _ "drop eb rs"]) simp
qed (use der_sig_complete [OF assms] in auto)

text \<open>C32: The decoder accepts exactly one encoding of a signature: it returns \<^verbatim>\<open>r || s\<close> from a byte
  string just in case that string is the canonical DER encoding of \<^verbatim>\<open>r\<close> and \<^verbatim>\<open>s\<close> (shortest
  lengths, minimal positive integers, nothing trailing), so a signature cannot be re-encoded.\<close>

theorem ecdsa_sig_canonical:
  assumes "0 < eb" "eb \<le> 66"
  shows "der_sig_to_p1363 der eb = Inr rs \<longleftrightarrow>
    length rs = 2 * eb \<and> der = der_sig (take eb rs) (drop eb rs)"
  using der_sig_sound [of der eb rs] der_sig_complete [OF assms, of "take eb rs" "drop eb rs"] by auto

theorem ecdsa_sig_canonical_witness:
  "der_sig_to_p1363 [0x30, 0x07, 0x02, 0x02, 0x00, 0x80, 0x02, 0x01, 0x05] 2 = Inr [0x00, 0x80, 0x00, 0x05]"
  by (subst ecdsa_sig_canonical) (simp_all add: der_sig_def der_tlv_def der_int_def der_len_bytes_def Let_def)

text \<open>The ML-DSA key keeps the material it was built from.\<close>

lemma mldsa_matches_new: "MlDsaVerifierKey_new k = Some v \<Longrightarrow> MlDsaVerifierKey_matches v k' \<longleftrightarrow> k' = k"
  by (auto simp: MlDsaVerifierKey_new_def MlDsaVerifierKey_matches_def Let_def split: if_splits)

end
