(* ===== verification/Pin_Or_Self_Signed.thy ===== *)
theory Pin_Or_Self_Signed
  imports Verify_Strategy Ecdsa_Verify
begin

text \<open>
  The bundled trust decision of \<^verbatim>\<open>backends/pin_or_self_signed.rs\<close>: a leaf whose key equals a
  pinned key, or a single certificate whose signature verifies under its own key.  The ML-DSA
  and ECDSA self-signatures go to \<^verbatim>\<open>backends/mldsa_verify.rs\<close> and \<^verbatim>\<open>backends/ecdsa_verify.rs\<close>
  directly, so their primitives are parameters here beside the verifier backend.
\<close>

section \<open>Model\<close>

definition MAX_RSA_MODULUS_BYTES :: nat where
  "MAX_RSA_MODULUS_BYTES = 256"

definition MAX_MLDSA_PUBKEY_BYTES :: nat where
  "MAX_MLDSA_PUBKEY_BYTES = 2592"

datatype PinnedPubkeyOwned =
    Pin_Ed25519 bytes
  | Pin_Rsa bytes "32 word"
  | Pin_MlDsa bytes
  | Pin_EcdsaP256 bytes
  | Pin_EcdsaP384 bytes

datatype PinnedPubkeyOwnedError = ModulusTooLong | PubkeyTooLong

definition pin_rsa :: "bytes \<Rightarrow> 32 word \<Rightarrow> PinnedPubkeyOwnedError + PinnedPubkeyOwned" where
  "pin_rsa m e = (if length m \<le> MAX_RSA_MODULUS_BYTES then Inr (Pin_Rsa m e) else Inl ModulusTooLong)"

definition pin_mldsa :: "bytes \<Rightarrow> PinnedPubkeyOwnedError + PinnedPubkeyOwned" where
  "pin_mldsa pk = (if length pk \<le> MAX_MLDSA_PUBKEY_BYTES then Inr (Pin_MlDsa pk) else Inl PubkeyTooLong)"

datatype Mode = Pinned PinnedPubkeyOwned | SelfSigned

datatype PinOrSelfSignedError =
    PS_MultiCertChain
  | PS_PinMismatch
  | PS_PinAlgorithmMismatch
  | PS_SelfSignatureInvalid
  | PS_RsaVerifierInvalid
  | PS_MlDsaVerifierInvalid
  | PS_UnknownSigAlg

text \<open>The primitives below the backend: the hashes, the curves and the ML-DSA parameter sets.\<close>

record SelfSigPrimitives =
  sp_sha256 :: "bytes \<Rightarrow> bytes"
  sp_sha384 :: "bytes \<Rightarrow> bytes"
  sp_p256 :: "bytes \<Rightarrow> bytes \<Rightarrow> bytes \<Rightarrow> bool"
  sp_p384 :: "bytes \<Rightarrow> bytes \<Rightarrow> bytes \<Rightarrow> bool"
  sp_mldsa :: "nat \<Rightarrow> bytes \<Rightarrow> bytes \<Rightarrow> bytes \<Rightarrow> bytes \<Rightarrow> bool"

definition ct_eq_pin :: "bytes \<Rightarrow> bytes \<Rightarrow> PinOrSelfSignedError + unit" where
  "ct_eq_pin pk pin = (if length pk = length pin \<and> pk = pin then Inr () else Inl PS_PinMismatch)"

fun verify_pin :: "CertView \<Rightarrow> PinnedPubkeyOwned \<Rightarrow> PinOrSelfSignedError + unit" where
  "verify_pin (CV_Ed25519 _ _ pk _ _) (Pin_Ed25519 expected) =
     (if pk = expected then Inr () else Inl PS_PinMismatch)"
| "verify_pin (CV_Rsa _ _ _ m e _ _) (Pin_Rsa pm pe) =
     (if length m \<noteq> length pm then Inl PS_PinMismatch
      else if m = pm \<and> e = pe then Inr () else Inl PS_PinMismatch)"
| "verify_pin (CV_MlDsa _ _ pk _ _) (Pin_MlDsa pin) =
     (if length pk \<noteq> length pin then Inl PS_PinMismatch
      else if pk = pin then Inr () else Inl PS_PinMismatch)"
| "verify_pin (CV_EcdsaP256 _ _ pk _ _ _) (Pin_EcdsaP256 pin) = ct_eq_pin pk pin"
| "verify_pin (CV_EcdsaP384 _ _ pk _ _ _) (Pin_EcdsaP384 pin) = ct_eq_pin pk pin"
| "verify_pin _ _ = Inl PS_PinAlgorithmMismatch"

fun verify_self_sig ::
  "'v VerifierBackend \<Rightarrow> SelfSigPrimitives \<Rightarrow> CertView \<Rightarrow> PinOrSelfSignedError + unit" where
  "verify_self_sig P prims (CV_Ed25519 t sig pk _ _) =
     rbind (ok_or PS_SelfSignatureInvalid (ed_prepare P pk)) (\<lambda>v.
       require PS_SelfSignatureInvalid (ed_verify P v t sig))"
| "verify_self_sig P prims (CV_Rsa t sig outer m e _ _) =
     rbind (ok_or PS_UnknownSigAlg outer) (\<lambda>alg.
     rbind (ok_or PS_RsaVerifierInvalid (rsa_prepare P (m, e))) (\<lambda>v.
       require PS_SelfSignatureInvalid (rsa_verify P v t (alg, sig))))"
| "verify_self_sig P prims (CV_MlDsa t sig pk _ _) =
     rbind (ok_or PS_MlDsaVerifierInvalid (MlDsaVerifierKey_new pk)) (\<lambda>v.
       require PS_SelfSignatureInvalid (MlDsaVerifierKey_verify (sp_mldsa prims) v t sig))"
| "verify_self_sig P prims (CV_EcdsaP256 t sig pk _ _ _) =
     map_err (\<lambda>_. PS_SelfSignatureInvalid) (verify_p256 (sp_p256 prims) pk (sp_sha256 prims t) sig)"
| "verify_self_sig P prims (CV_EcdsaP384 t sig pk _ _ _) =
     map_err (\<lambda>_. PS_SelfSignatureInvalid) (verify_p384 (sp_p384 prims) pk (sp_sha384 prims t) sig)"

definition anchors_at_leaf :: "Mode \<Rightarrow> bool" where
  "anchors_at_leaf mode = (case mode of Pinned _ \<Rightarrow> True | SelfSigned \<Rightarrow> False)"

definition accept_chain ::
  "'v VerifierBackend \<Rightarrow> SelfSigPrimitives \<Rightarrow> Mode \<Rightarrow> CertView list \<Rightarrow> PinOrSelfSignedError + unit" where
  "accept_chain P prims mode chain =
     (case chain of
        [] \<Rightarrow> Inl PS_MultiCertChain
      | leaf # _ \<Rightarrow>
          (case mode of
             Pinned pin \<Rightarrow> verify_pin leaf pin
           | SelfSigned \<Rightarrow>
               if length chain \<noteq> 1 then Inl PS_MultiCertChain else verify_self_sig P prims leaf))"

definition PinOrSelfSigned :: "'v VerifierBackend \<Rightarrow> SelfSigPrimitives \<Rightarrow> Mode \<Rightarrow> PinOrSelfSignedError TrustRootDecision" where
  "PinOrSelfSigned P prims mode =
     \<lparr>td_anchors_at_leaf = anchors_at_leaf mode, td_accept_chain = accept_chain P prims mode\<rparr>"

section \<open>What a pin and a self-signature accept\<close>

fun pin_of_view :: "CertView \<Rightarrow> PinnedPubkeyOwned" where
  "pin_of_view (CV_Ed25519 _ _ pk _ _) = Pin_Ed25519 pk"
| "pin_of_view (CV_Rsa _ _ _ m e _ _) = Pin_Rsa m e"
| "pin_of_view (CV_MlDsa _ _ pk _ _) = Pin_MlDsa pk"
| "pin_of_view (CV_EcdsaP256 _ _ pk _ _ _) = Pin_EcdsaP256 pk"
| "pin_of_view (CV_EcdsaP384 _ _ pk _ _ _) = Pin_EcdsaP384 pk"

lemma verify_pin_iff: "verify_pin leaf pin = Inr u \<longleftrightarrow> pin_of_view leaf = pin"
  by (cases leaf; cases pin) (auto simp: ct_eq_pin_def)

text \<open>A certificate whose signature verifies under its own key: RSA with the padding it names, ML-DSA with the
  parameter set of the key length, ECDSA with a canonical DER signature over the digest.\<close>

fun self_signature_valid :: "'v VerifierBackend \<Rightarrow> SelfSigPrimitives \<Rightarrow> CertView \<Rightarrow> bool" where
  "self_signature_valid P prims (CV_Ed25519 tbs sig pk _ _) \<longleftrightarrow> (\<exists>k. ed_prepare P pk = Some k \<and> ed_verify P k tbs sig)"
| "self_signature_valid P prims (CV_Rsa tbs sig outer m e _ _) \<longleftrightarrow>
     (\<exists>alg k. outer = Some alg \<and> rsa_prepare P (m, e) = Some k \<and> rsa_verify P k tbs (alg, sig))"
| "self_signature_valid P prims (CV_MlDsa tbs sig pk _ _) \<longleftrightarrow>
     (\<exists>level. (level, length pk, length sig) \<in> {(44, 1312, 2420), (65, 1952, 3309), (87, 2592, 4627)} \<and> sp_mldsa prims level pk tbs [] sig)"
| "self_signature_valid P prims (CV_EcdsaP256 tbs sig pk _ _ _) \<longleftrightarrow> length pk = 65 \<and>
     (\<exists>r s. length r = 32 \<and> length s = 32 \<and> sig = der_sig r s \<and> sp_p256 prims pk (sp_sha256 prims tbs) (r @ s))"
| "self_signature_valid P prims (CV_EcdsaP384 tbs sig pk _ _ _) \<longleftrightarrow> length pk = 97 \<and>
     (\<exists>r s. length r = 48 \<and> length s = 48 \<and> sig = der_sig r s \<and> sp_p384 prims pk (sp_sha384 prims tbs) (r @ s))"

text \<open>The verifier of the leaf's key.\<close>

fun leaf_verifier :: "'v VerifierBackend \<Rightarrow> CertView \<Rightarrow> 'v PreparedVerifier \<Rightarrow> bool" where
  "leaf_verifier P (CV_Ed25519 _ _ pk _ _) v \<longleftrightarrow> (\<exists>k. ed_prepare P pk = Some k \<and> v = PV_Ed25519 k)"
| "leaf_verifier P (CV_Rsa _ _ _ m e _ _) v \<longleftrightarrow> (\<exists>k. rsa_prepare P (m, e) = Some k \<and> v = PV_Rsa k)"
| "leaf_verifier P (CV_MlDsa _ _ pk _ _) v \<longleftrightarrow> (\<exists>k. mldsa_prepare P pk = Some k \<and> v = PV_MlDsa k)"
| "leaf_verifier P (CV_EcdsaP256 _ _ pk _ _ _) v \<longleftrightarrow> length pk = 65 \<and> (\<exists>k. p256_prepare P pk = Some k \<and> v = PV_EcdsaP256 k)"
| "leaf_verifier P (CV_EcdsaP384 _ _ pk _ _ _) v \<longleftrightarrow> length pk = 97 \<and> (\<exists>k. p384_prepare P pk = Some k \<and> v = PV_EcdsaP384 k)"

lemma prepare_leaf_iff: "prepare_leaf P view = Inr v \<longleftrightarrow> leaf_verifier P view v"
  by (cases view) (auto simp: result_simps)

lemma verify_self_sig_iff: "verify_self_sig P prims view = Inr u \<longleftrightarrow> self_signature_valid P prims view"
proof (cases view)
  case (CV_MlDsa tbs sig pk san validity)
  then show ?thesis
    by (cases "MlDsaVerifierKey_new pk") (auto simp: MlDsaVerifierKey_new_def result_simps split: if_splits)
qed (auto simp: verify_p256_def verify_p384_def result_simps der_sig_ok split: if_splits)

lemma accept_chain_self_signed:
  "accept_chain P prims SelfSigned views = Inr u \<longleftrightarrow> (\<exists>leaf. views = [leaf] \<and> self_signature_valid P prims leaf)"
  by (cases views) (auto simp: accept_chain_def verify_self_sig_iff)

lemma parse_views_single [simp]:
  "parse_views parse [c] [] = rbind (map_err SS_Parse (parse c)) (\<lambda>view. Inr [view])"
  by (simp add: SAFE_STRATEGY_CHAIN_CAP_def)

text \<open>The decision of a pin on a chain of at most eight certificates, which is that on its leaf alone.  The
  documentation of the module says that a longer chain is rejected.\<close>

lemma pin_decides_by_leaf:
  assumes "length (leaf # upper) \<le> 8"
  shows "SafeStrategy_verify_chain P C (PinOrSelfSigned P prims (Pinned pin)) K (leaf # upper) = Inr v \<longleftrightarrow>
    (\<exists>view. cp_parse C leaf = Inr view \<and> pin_of_view view = pin \<and> K view \<and> leaf_verifier P view v)"
  using assms
  by (auto simp: SafeStrategy_verify_chain_def PinOrSelfSigned_def anchors_at_leaf_def accept_chain_def
      SAFE_STRATEGY_CHAIN_CAP_def Let_def result_simps verify_pin_iff prepare_leaf_iff simp del: parse_views.simps)

text \<open>C34: A pin is about the key of the leaf.  Whatever chain is presented, it is accepted only if its first
  certificate parses, has exactly the pinned key, algorithm included, and is time-valid, and then the verifier
  handed out is the one of that key; a chain of one certificate is accepted exactly then.\<close>

theorem pinned_key_decides:
  "(SafeStrategy_verify_chain P C (PinOrSelfSigned P prims (Pinned pin)) K certs = Inr v \<longrightarrow>
      certs \<noteq> [] \<and> (\<exists>view. cp_parse C (hd certs) = Inr view \<and> pin_of_view view = pin \<and> K view \<and> leaf_verifier P view v)) \<and>
   (SafeStrategy_verify_chain P C (PinOrSelfSigned P prims (Pinned pin)) K [cert] = Inr v \<longleftrightarrow>
      (\<exists>view. cp_parse C cert = Inr view \<and> pin_of_view view = pin \<and> K view \<and> leaf_verifier P view v))"
proof (intro conjI impI)
  assume ok: "SafeStrategy_verify_chain P C (PinOrSelfSigned P prims (Pinned pin)) K certs = Inr v"
  then obtain leaf upper where "certs = leaf # upper" "length certs \<le> 8"
    by (cases certs) (auto simp: SafeStrategy_verify_chain_def SAFE_STRATEGY_CHAIN_CAP_def split: if_splits)
  then show "certs \<noteq> []" "\<exists>view. cp_parse C (hd certs) = Inr view \<and> pin_of_view view = pin \<and> K view \<and> leaf_verifier P view v"
    using pin_decides_by_leaf [of leaf upper P C prims pin K v] ok by simp_all
qed (rule pin_decides_by_leaf, simp)

definition toy_backend :: "bytes VerifierBackend" where
  "toy_backend = \<lparr>ed_prepare = Some, ed_verify = (\<lambda>v m s. take 1 s = v), ed_matches = (=),
     rsa_prepare = (\<lambda>_. None), rsa_verify = (\<lambda>_ _ _. False), rsa_matches = (\<lambda>_ _. False),
     mldsa_prepare = (\<lambda>_. None), mldsa_verify = (\<lambda>_ _ _. False), mldsa_matches = (\<lambda>_ _. False),
     p256_prepare = (\<lambda>_. None), p256_verify = (\<lambda>_ _ _. False), p256_matches = (\<lambda>_ _. False),
     p384_prepare = (\<lambda>_. None), p384_verify = (\<lambda>_ _ _. False), p384_matches = (\<lambda>_ _. False)\<rparr>"

definition toy_parser :: CertParser where
  "toy_parser = \<lparr>cp_parse = (\<lambda>der. if length der = 2 then Inr (CV_Ed25519 [] (drop 1 der) (take 1 der) None [])
       else Inl CP_Malformed),
     cp_parse_ca_constraints = (\<lambda>_. Inl CP_Malformed), cp_spki_der = (\<lambda>_. Inl CP_Malformed)\<rparr>"

definition toy_prims :: SelfSigPrimitives where
  "toy_prims = \<lparr>sp_sha256 = id, sp_sha384 = id, sp_p256 = (\<lambda>_ _ _. False), sp_p384 = (\<lambda>_ _ _. False),
     sp_mldsa = (\<lambda>_ _ _ _ _. False)\<rparr>"

theorem pinned_key_decides_witness:
  "SafeStrategy_verify_chain toy_backend toy_parser (PinOrSelfSigned toy_backend toy_prims (Pinned (Pin_Ed25519 [7]))) NoClock [[7, 9]] =
     Inr (PV_Ed25519 [7]) \<and>
   (\<exists>view. cp_parse toy_parser [7, 9] = Inr view \<and> pin_of_view view = Pin_Ed25519 [7])"
proof
  show *: "SafeStrategy_verify_chain toy_backend toy_parser (PinOrSelfSigned toy_backend toy_prims (Pinned (Pin_Ed25519 [7]))) NoClock [[7, 9]] =
     Inr (PV_Ed25519 [7])"
    using pinned_key_decides [of toy_backend toy_parser toy_prims "Pin_Ed25519 [7]" NoClock _ "PV_Ed25519 [7]" "[7, 9]"]
    by (simp add: toy_backend_def toy_parser_def NoClock_def)
  show "\<exists>view. cp_parse toy_parser [7, 9] = Inr view \<and> pin_of_view view = Pin_Ed25519 [7]"
    using pinned_key_decides * by fastforce
qed

text \<open>C35: The self-signed mode accepts exactly a chain of one certificate that parses, whose signature verifies
  under its own key, for every key type, and that is time-valid, and hands out the verifier of that key.\<close>

theorem self_signed_decides:
  "SafeStrategy_verify_chain P C (PinOrSelfSigned P prims SelfSigned) K certs = Inr v \<longleftrightarrow>
     (\<exists>cert view. certs = [cert] \<and> cp_parse C cert = Inr view \<and> self_signature_valid P prims view \<and>
        K view \<and> leaf_verifier P view v)"
proof (cases certs)
  case Nil
  then show ?thesis by (simp add: SafeStrategy_verify_chain_def)
next
  case (Cons c cs)
  show ?thesis
  proof (cases "length certs \<le> 8")
    case False
    then show ?thesis using Cons by (auto simp: SafeStrategy_verify_chain_def SAFE_STRATEGY_CHAIN_CAP_def)
  next
    case True
    then have "SafeStrategy_verify_chain P C (PinOrSelfSigned P prims SelfSigned) K certs = Inr v \<longleftrightarrow>
        (\<exists>views. map (cp_parse C) certs = map Inr views \<and> successively (signed_by P) views \<and>
           accept_chain P prims SelfSigned views = Inr () \<and> list_all K views \<and> prepare_leaf P (views ! 0) = Inr v)"
      using Cons by (auto simp: SafeStrategy_verify_chain_def PinOrSelfSigned_def anchors_at_leaf_def
          SAFE_STRATEGY_CHAIN_CAP_def result_simps simp del: parse_views.simps)
    also have "\<dots> \<longleftrightarrow> (\<exists>cert view. certs = [cert] \<and> cp_parse C cert = Inr view \<and>
        self_signature_valid P prims view \<and> K view \<and> leaf_verifier P view v)"
      using Cons by (auto simp: accept_chain_self_signed prepare_leaf_iff Cons_eq_map_conv)
    finally show ?thesis .
  qed
qed

end
