(* ===== verification/Client_Flight.thy ===== *)
theory Client_Flight
  imports Server_Flight Dtls_Keys
begin

text \<open>
  The client's second flight, \<^verbatim>\<open>client_flight.rs\<close>: the optional \<^verbatim>\<open>Certificate\<close> and
  \<^verbatim>\<open>CertificateVerify\<close>, the \<^verbatim>\<open>Finished\<close>, and the three authentication policies.  A builder writes
  the first bytes of a buffer; it takes the room there is and returns the bytes it wrote.  The
  signer is a parameter, with the random generator as a state it threads.  The bounds that depend
  on the enabled RSA widths are functions of \<^verbatim>\<open>RsaWidth\<close>.
\<close>

section \<open>Model\<close>

datatype ClientFinishedError = CF_Encrypt EncryptError | CF_Hkdf HkdfLabelError

record TlsSuite =
  ts_aead :: AeadCipher
  ts_key_len :: nat

definition build_finished_plaintext :: "HkdfBackend \<Rightarrow> bytes \<Rightarrow> bytes \<Rightarrow> ClientFinishedError + bytes" where
  "build_finished_plaintext H c_hs_traffic_secret th =
     rbind (map_err CF_Hkdf (finished_mac H c_hs_traffic_secret th)) (\<lambda>verify_data.
       Inr ([HS_FINISHED] @ [0x00, 0x00, 0x20] @ verify_data))"

definition build_client_finished ::
  "HkdfBackend \<Rightarrow> TlsSuite \<Rightarrow> bytes \<Rightarrow> bytes \<Rightarrow> 64 word \<Rightarrow> bytes \<Rightarrow> ClientFinishedError + bytes" where
  "build_client_finished H S c_hs_traffic_secret th seq out_buf =
     rbind (build_finished_plaintext H c_hs_traffic_secret th) (\<lambda>finished_msg.
     rbind (map_err CF_Hkdf (derive_keys H (ts_key_len S) c_hs_traffic_secret)) (\<lambda>keys.
       map_err CF_Encrypt (encrypt_record (ts_aead S) keys finished_msg CT_HANDSHAKE seq out_buf)))"

definition CLIENT_FINISHED_LEN :: nat where
  "CLIENT_FINISHED_LEN = 58"

datatype ClientAuthFlightError =
    CA_BufferTooSmall
  | CA_Sign
  | CA_Finished ClientFinishedError
  | CA_Transcript TranscriptError
  | CA_CertificateRequested
  | CA_NoMutualSignatureAlgorithm
  | CA_EmptyCertificate
  | CA_CertificateTooLong
  | CA_ContextTooLong

datatype RsaWidth = RsaOff | Rsa2048 | Rsa3072 | Rsa4096

fun MAX_CLIENT_CERT_DER :: "RsaWidth \<Rightarrow> nat" where
  "MAX_CLIENT_CERT_DER Rsa4096 = 1536"
| "MAX_CLIENT_CERT_DER Rsa3072 = 1280"
| "MAX_CLIENT_CERT_DER _ = 1024"

fun MAX_CLIENT_SIG_LEN :: "RsaWidth \<Rightarrow> nat" where
  "MAX_CLIENT_SIG_LEN Rsa4096 = 512"
| "MAX_CLIENT_SIG_LEN Rsa3072 = 384"
| "MAX_CLIENT_SIG_LEN Rsa2048 = 256"
| "MAX_CLIENT_SIG_LEN RsaOff = 112"

definition HS_HEADER :: nat where
  "HS_HEADER = 4"

definition CERT_FRAMING :: nat where
  "CERT_FRAMING = 1 + 255 + 3 + 3 + 2"

definition CV_FRAMING :: nat where
  "CV_FRAMING = 2 + 2"

definition FINISHED_MSG :: nat where
  "FINISHED_MSG = HS_HEADER + 32"

definition MAX_CLIENT_AUTH_FLIGHT :: "RsaWidth \<Rightarrow> nat" where
  "MAX_CLIENT_AUTH_FLIGHT w = (HS_HEADER + CERT_FRAMING + MAX_CLIENT_CERT_DER w) +
     (HS_HEADER + CV_FRAMING + MAX_CLIENT_SIG_LEN w) + FINISHED_MSG"

definition EMPTY_CERT_FRAMING :: nat where
  "EMPTY_CERT_FRAMING = 1 + 255 + 3"

definition MAX_CLIENT_EMPTY_AUTH_FLIGHT :: nat where
  "MAX_CLIENT_EMPTY_AUTH_FLIGHT = (HS_HEADER + EMPTY_CERT_FRAMING) + FINISHED_MSG"

definition CLIENT_CV_CTX :: bytes where
  "CLIENT_CV_CTX = ascii ''TLS 1.3, client CertificateVerify''"

definition certificate_verify_signed_content :: "bytes \<Rightarrow> bytes" where
  "certificate_verify_signed_content th = replicate 64 0x20 @ CLIENT_CV_CTX @ [0x00] @ th"

definition u24 :: "nat \<Rightarrow> bytes" where
  "u24 n = drop 1 (to_be_bytes (word_of_nat n :: 32 word))"

definition build_client_certificate :: "RsaWidth \<Rightarrow> bytes \<Rightarrow> bytes \<Rightarrow> nat \<Rightarrow> ClientAuthFlightError + bytes" where
  "build_client_certificate w cert_der cert_request_context room =
     (if cert_der = [] then Inl CA_EmptyCertificate
      else if length cert_der > MAX_CLIENT_CERT_DER w then Inl CA_CertificateTooLong
      else if length cert_request_context > 255 then Inl CA_ContextTooLong
      else
        let entry_len = 3 + length cert_der + 2;
            list_len = 3 + entry_len;
            body_len = 1 + length cert_request_context + list_len;
            total = 4 + body_len
        in if room < total then Inl CA_BufferTooSmall
           else Inr ([HS_CERTIFICATE] @ u24 body_len @ [word_of_nat (length cert_request_context)] @
                     cert_request_context @ u24 entry_len @ u24 (length cert_der) @ cert_der @ [0x00, 0x00]))"

definition build_client_empty_certificate :: "bytes \<Rightarrow> nat \<Rightarrow> ClientAuthFlightError + bytes" where
  "build_client_empty_certificate cert_request_context room =
     (if length cert_request_context > 255 then Inl CA_ContextTooLong
      else
        let body_len = 1 + length cert_request_context + 3; total = 4 + body_len
        in if room < total then Inl CA_BufferTooSmall
           else Inr ([HS_CERTIFICATE] @ u24 body_len @ [word_of_nat (length cert_request_context)] @
                     cert_request_context @ [0, 0, 0]))"

text \<open>A signer: its certificate, its scheme, and its signing function, which draws from the generator.\<close>

record 'r ClientAuth =
  ca_cert_der :: bytes
  ca_scheme :: "16 word"
  ca_sign :: "bytes \<Rightarrow> 'r \<Rightarrow> bytes option \<times> 'r"

definition build_client_certificate_verify ::
  "'r ClientAuth \<Rightarrow> bytes \<Rightarrow> 'r \<Rightarrow> nat \<Rightarrow> ClientAuthFlightError + bytes \<times> 'r" where
  "build_client_certificate_verify auth th rng room =
     (let signed = certificate_verify_signed_content th; (res, rng) = ca_sign auth signed rng in
      rbind (ok_or CA_Sign res) (\<lambda>sig.
        let body_len = 2 + 2 + length sig; total = 4 + body_len in
        if room < total then Inl CA_BufferTooSmall
        else if length sig > 0xFFFF then Inl CA_BufferTooSmall
        else Inr ([HS_CERTIFICATE_VERIFY] @ u24 body_len @ to_be_bytes (ca_scheme auth) @
                  to_be_bytes (word_of_nat (length sig) :: 16 word) @ sig, rng)))"

fun sig_algs_any :: "bytes \<Rightarrow> 16 word \<Rightarrow> bool" where
  "sig_algs_any (a # b # rest) scheme = (from_be_bytes [a, b] = scheme \<or> sig_algs_any rest scheme)"
| "sig_algs_any _ scheme = False"

definition sig_algs_offer :: "bytes \<Rightarrow> 16 word \<Rightarrow> bool" where
  "sig_algs_offer lst scheme = (if odd (length lst) then False else sig_algs_any lst scheme)"

text \<open>The flight so far, the transcript and the room of the buffer.\<close>

definition append_finished ::
  "HkdfBackend \<Rightarrow> bytes \<Rightarrow> TranscriptHash \<Rightarrow> bytes \<Rightarrow> nat \<Rightarrow> ClientAuthFlightError + bytes \<times> TranscriptHash" where
  "append_finished H c_hs_traffic_secret transcript head room =
     rbind (map_err CA_Transcript (snapshot H transcript)) (\<lambda>th.
     rbind (map_err CA_Finished (build_finished_plaintext H c_hs_traffic_secret th)) (\<lambda>finished.
       if room < length head + length finished then Inl CA_BufferTooSmall
       else Inr (head @ finished, update transcript finished)))"

record 'r ClientAuthPolicy =
  ACCEPT_CERT_REQUEST :: bool
  MAX_FLIGHT_LEN :: nat
  build_flight :: "HkdfBackend \<Rightarrow> bytes \<Rightarrow> bytes \<Rightarrow> 'r \<Rightarrow> bytes \<Rightarrow> TranscriptHash \<Rightarrow> nat \<Rightarrow>
    ClientAuthFlightError + bytes \<times> TranscriptHash \<times> 'r"

definition NoClientAuth :: "'r ClientAuthPolicy" where
  "NoClientAuth = \<lparr>ACCEPT_CERT_REQUEST = False, MAX_FLIGHT_LEN = 0,
     build_flight = (\<lambda>H ctx algs rng c_hs_ts transcript room. Inl CA_CertificateRequested)\<rparr>"

definition DeclineClientAuth :: "'r ClientAuthPolicy" where
  "DeclineClientAuth = \<lparr>ACCEPT_CERT_REQUEST = True, MAX_FLIGHT_LEN = MAX_CLIENT_EMPTY_AUTH_FLIGHT,
     build_flight = (\<lambda>H ctx algs rng c_hs_ts transcript room.
       rbind (build_client_empty_certificate ctx room) (\<lambda>cert.
       rbind (append_finished H c_hs_ts (update transcript cert) cert room) (\<lambda>(flight, transcript).
         Inr (flight, transcript, rng))))\<rparr>"

definition WithClientAuth :: "RsaWidth \<Rightarrow> 'r ClientAuth \<Rightarrow> 'r ClientAuthPolicy" where
  "WithClientAuth w auth = \<lparr>ACCEPT_CERT_REQUEST = True, MAX_FLIGHT_LEN = MAX_CLIENT_AUTH_FLIGHT w,
     build_flight = (\<lambda>H ctx algs rng c_hs_ts transcript room.
       if \<not> sig_algs_offer algs (ca_scheme auth) then Inl CA_NoMutualSignatureAlgorithm
       else
         rbind (build_client_certificate w (ca_cert_der auth) ctx room) (\<lambda>cert.
         let transcript = update transcript cert in
         rbind (map_err CA_Transcript (snapshot H transcript)) (\<lambda>th_through_cert.
         rbind (build_client_certificate_verify auth th_through_cert rng (room - length cert)) (\<lambda>(cv, rng).
         rbind (append_finished H c_hs_ts (update transcript cv) (cert @ cv) room) (\<lambda>(flight, transcript).
           Inr (flight, transcript, rng))))))\<rparr>"

section \<open>The messages\<close>

lemma u24_be: "u24 n = be_bytes 3 n"
  unfolding u24_def by (rule to_be_bytes_of_nat_24)

lemma finished_mac_length: "backend_total H \<Longrightarrow> finished_mac H s th = Inr mac \<Longrightarrow> length mac = 32"
proof -
  assume H: "backend_total H" and "finished_mac H s th = Inr mac"
  then obtain key where "hk_extract H key th = Inr mac" by (auto simp: finished_mac_def result_simps)
  moreover have "\<exists>prk. hk_extract H key th = Inr prk \<and> length prk = 32" using H by (simp add: backend_total_def)
  ultimately show ?thesis by auto
qed

lemma build_finished_plaintext_ok:
  assumes "backend_total H" "build_finished_plaintext H s th = Inr m"
  shows "\<exists>mac. finished_mac H s th = Inr mac \<and> length mac = 32 \<and> m = hs_frame HS_FINISHED mac"
  using assms(2) finished_mac_length [OF assms(1), of s th]
  by (auto simp: build_finished_plaintext_def hs_frame_def result_simps be_bytes_numeral)

lemma build_client_certificate_ok:
  "build_client_certificate w cert ctx room = Inr m \<longleftrightarrow>
     cert \<noteq> [] \<and> length cert \<le> MAX_CLIENT_CERT_DER w \<and> length ctx \<le> 255 \<and>
     m = hs_frame HS_CERTIFICATE (certificate_body ctx [(cert, [])] []) \<and> length m \<le> room"
  by (auto simp: build_client_certificate_def Let_def hs_frame_def certificate_body_def cert_entry_def u24_be
      be_bytes_numeral [where k = "num.Bit0 num.One"] not_less split: if_splits)

lemma build_client_empty_certificate_ok:
  "build_client_empty_certificate ctx room = Inr m \<longleftrightarrow>
     length ctx \<le> 255 \<and> m = hs_frame HS_CERTIFICATE (certificate_body ctx [] []) \<and> length m \<le> room"
  by (auto simp: build_client_empty_certificate_def Let_def hs_frame_def certificate_body_def u24_be
      be_bytes_numeral not_less split: if_splits)

lemma length_cv_message [simp]: "length (cv_message scheme sig) = 4 + length sig"
  by (simp add: cv_message_def)

lemma cv_frame:
  "[HS_CERTIFICATE_VERIFY] @ u24 (2 + 2 + length sig) @ to_be_bytes scheme @
     to_be_bytes (word_of_nat (length sig) :: 16 word) @ sig =
   hs_frame HS_CERTIFICATE_VERIFY (cv_message scheme sig)"
  unfolding hs_frame_def length_cv_message by (simp add: cv_message_def u24_be to_be_bytes_of_nat_16)

lemma build_client_certificate_verify_ok:
  "build_client_certificate_verify auth th rng room = Inr (m, rng') \<longleftrightarrow>
     (\<exists>sig. ca_sign auth (certificate_verify_signed_content th) rng = (Some sig, rng') \<and> length sig < 2 ^ 16 \<and>
        m = hs_frame HS_CERTIFICATE_VERIFY (cv_message (ca_scheme auth) sig) \<and> length m \<le> room)"
  unfolding build_client_certificate_verify_def Let_def cv_frame
  by (cases "ca_sign auth (certificate_verify_signed_content th) rng") (auto simp: result_simps not_less split: if_splits)

lemma append_finished_ok:
  assumes "backend_total H" "append_finished H s t head room = Inr (flight, t')"
  shows "\<exists>th mac. snapshot H t = Inr th \<and> finished_mac H s th = Inr mac \<and> length mac = 32 \<and>
    flight = head @ hs_frame HS_FINISHED mac \<and> t' = t @ hs_frame HS_FINISHED mac \<and> length flight \<le> room"
  using assms(2) build_finished_plaintext_ok [OF assms(1)]
  by (fastforce simp: append_finished_def result_simps update_def split: if_splits)

section \<open>What a policy promises\<close>

text \<open>
  The contract of \<^verbatim>\<open>ClientAuthSign::build_flight\<close>: the flight ends in a Finished over the transcript
  extended by what precedes it, is itself folded into the transcript, fits the buffer, and is no
  longer than the bound the policy announced.
\<close>

locale client_auth_policy =
  fixes pol :: "'r ClientAuthPolicy"
  assumes flight_finished: "\<lbrakk>backend_total H; build_flight pol H ctx algs rng s t room = Inr (flight, t', rng')\<rbrakk> \<Longrightarrow>
      \<exists>head th mac. flight = head @ hs_frame HS_FINISHED mac \<and> snapshot H (t @ head) = Inr th \<and>
        finished_mac H s th = Inr mac \<and> t' = t @ flight"
    and flight_room: "\<lbrakk>backend_total H; build_flight pol H ctx algs rng s t room = Inr (flight, t', rng')\<rbrakk> \<Longrightarrow>
      length flight \<le> room"
    and flight_bound: "\<lbrakk>backend_total H; build_flight pol H ctx algs rng s t room = Inr (flight, t', rng')\<rbrakk> \<Longrightarrow>
      length flight \<le> MAX_FLIGHT_LEN pol"

interpretation no_auth: client_auth_policy NoClientAuth
  by unfold_locales (simp_all add: NoClientAuth_def)

lemma length_certificate_body:
  "length (certificate_body ctx [] []) = 4 + length ctx"
  "length (certificate_body ctx [(cert, [])] []) = 9 + length ctx + length cert"
  by (simp_all add: certificate_body_def cert_entry_def)

lemma decline_flight:
  assumes "backend_total H" "build_flight DeclineClientAuth H ctx algs rng s t room = Inr (flight, t', rng')"
  shows "\<exists>th mac. let cert = hs_frame HS_CERTIFICATE (certificate_body ctx [] []) in
    length ctx \<le> 255 \<and> flight = cert @ hs_frame HS_FINISHED mac \<and> snapshot H (t @ cert) = Inr th \<and>
    finished_mac H s th = Inr mac \<and> length mac = 32 \<and> t' = t @ flight \<and> length flight \<le> room"
  using assms(2) append_finished_ok [OF assms(1)]
  by (fastforce simp: DeclineClientAuth_def result_simps build_client_empty_certificate_ok update_def Let_def)

interpretation decline: client_auth_policy DeclineClientAuth
proof unfold_locales
  fix H ctx algs and rng :: 'a and s t room flight t' rng'
  assume "backend_total H" "build_flight DeclineClientAuth H ctx algs rng s t room = Inr (flight, t', rng')"
  from decline_flight [OF this]
  show "\<exists>head th mac. flight = head @ hs_frame HS_FINISHED mac \<and> snapshot H (t @ head) = Inr th \<and>
      finished_mac H s th = Inr mac \<and> t' = t @ flight"
    and "length flight \<le> room" and "length flight \<le> MAX_FLIGHT_LEN DeclineClientAuth"
    by (auto simp: Let_def length_certificate_body DeclineClientAuth_def MAX_CLIENT_EMPTY_AUTH_FLIGHT_def
        HS_HEADER_def EMPTY_CERT_FRAMING_def FINISHED_MSG_def)
qed

end
