(* ===== verification/Client_Auth.thy ===== *)
theory Client_Auth
  imports Client_Flight Ecdsa_Verify
begin

text \<open>
  Client authentication: the mutual-TLS policy \<^verbatim>\<open>WithClientAuth\<close> over an arbitrary signer, and the
  bundled signers of \<^verbatim>\<open>backends/client_auth.rs\<close>.  The private-key operations belong to third-party
  crates and are parameters; what the source does with their output, copying it into a bounded
  vector and encoding ECDSA halves as DER, is modelled.  A parameter draws from the random
  generator or ignores it, which covers the builds with and without the feature \<^verbatim>\<open>blinding\<close>.
\<close>

section \<open>Model\<close>

definition ca_extend :: "RsaWidth \<Rightarrow> bytes \<Rightarrow> bytes \<Rightarrow> bytes option" where
  "ca_extend w out bs = (if length out + length bs \<le> MAX_CLIENT_SIG_LEN w then Some (out @ bs) else None)"

definition Ed25519ClientAuth :: "RsaWidth \<Rightarrow> (bytes \<Rightarrow> 'r \<Rightarrow> bytes option \<times> 'r) \<Rightarrow> bytes \<Rightarrow> 'r ClientAuth" where
  "Ed25519ClientAuth w try_sign cert_der = \<lparr>ca_cert_der = cert_der, ca_scheme = SIG_SCHEME_ED25519,
     ca_sign = (\<lambda>content rng. let (res, rng) = try_sign content rng in
       (Option.bind res (ca_extend w []), rng))\<rparr>"

definition RsaClientAuth ::
  "RsaWidth \<Rightarrow> (bytes \<Rightarrow> bytes) \<Rightarrow> (bytes \<Rightarrow> 'r \<Rightarrow> bytes option \<times> 'r) \<Rightarrow> bytes \<Rightarrow> 'r ClientAuth" where
  "RsaClientAuth w sha256 sign_prehash cert_der = \<lparr>ca_cert_der = cert_der,
     ca_scheme = SIG_SCHEME_RSA_PSS_RSAE_SHA256,
     ca_sign = (\<lambda>content rng. let prehash = sha256 content; (res, rng) = sign_prehash prehash rng in
       (Option.bind res (ca_extend w []), rng))\<rparr>"

fun strip_zeros :: "bytes \<Rightarrow> bytes" where
  "strip_zeros (x # y # xs) = (if x = 0 then strip_zeros (y # xs) else x # y # xs)"
| "strip_zeros xs = xs"

definition ca_der_int :: "RsaWidth \<Rightarrow> bytes \<Rightarrow> bytes \<Rightarrow> bytes option" where
  "ca_der_int w bs out =
     (let v = strip_zeros bs; pad = ((v ! 0) AND 0x80 \<noteq> 0) in
      Option.bind (ca_extend w out [0x02]) (\<lambda>out.
      Option.bind (ca_extend w out [word_of_nat (length v + of_bool pad)]) (\<lambda>out.
      Option.bind (if pad then ca_extend w out [0x00] else Some out) (\<lambda>out.
        ca_extend w out v))))"

definition der_ecdsa_sig :: "RsaWidth \<Rightarrow> bytes \<Rightarrow> bytes \<Rightarrow> bytes option" where
  "der_ecdsa_sig w r s =
     Option.bind (ca_der_int w r []) (\<lambda>body.
     Option.bind (ca_der_int w s body) (\<lambda>body.
     Option.bind (ca_extend w [] [0x30]) (\<lambda>out.
     Option.bind (ca_extend w out [word_of_nat (length body)]) (\<lambda>out. ca_extend w out body))))"

datatype EcdsaCurve = P256 | P384

fun curve_width :: "EcdsaCurve \<Rightarrow> nat" where
  "curve_width P256 = 32"
| "curve_width P384 = 48"

fun curve_scheme :: "EcdsaCurve \<Rightarrow> 16 word" where
  "curve_scheme P256 = SIG_SCHEME_ECDSA_P256"
| "curve_scheme P384 = SIG_SCHEME_ECDSA_P384"

definition EcdsaClientAuth ::
  "RsaWidth \<Rightarrow> EcdsaCurve \<Rightarrow> (bytes \<Rightarrow> bytes) \<Rightarrow> (bytes \<Rightarrow> 'r \<Rightarrow> bytes option \<times> 'r) \<Rightarrow> bytes \<Rightarrow> 'r ClientAuth" where
  "EcdsaClientAuth w c hash sign_prehash cert_der = \<lparr>ca_cert_der = cert_der, ca_scheme = curve_scheme c,
     ca_sign = (\<lambda>content rng. let digest = hash content; (res, rng) = sign_prehash digest rng in
       (Option.bind res (\<lambda>sig. der_ecdsa_sig w (take (curve_width c) sig) (drop (curve_width c) sig)), rng))\<rparr>"

section \<open>The mutual-TLS policy\<close>

lemma with_auth_flight:
  assumes H: "backend_total H"
    and flight: "build_flight (WithClientAuth w auth) H ctx algs rng s t room = Inr (flight, t', rng')"
  shows "\<exists>sig th_cert th mac.
    let cert = hs_frame HS_CERTIFICATE (certificate_body ctx [(ca_cert_der auth, [])] []);
        cv = hs_frame HS_CERTIFICATE_VERIFY (cv_message (ca_scheme auth) sig)
    in sig_algs_offer algs (ca_scheme auth) \<and> length ctx \<le> 255 \<and>
       length (ca_cert_der auth) \<le> MAX_CLIENT_CERT_DER w \<and> ca_cert_der auth \<noteq> [] \<and>
       snapshot H (t @ cert) = Inr th_cert \<and>
       ca_sign auth (certificate_verify_signed_content th_cert) rng = (Some sig, rng') \<and>
       snapshot H (t @ cert @ cv) = Inr th \<and> finished_mac H s th = Inr mac \<and> length mac = 32 \<and>
       flight = cert @ cv @ hs_frame HS_FINISHED mac \<and> t' = t @ flight \<and> length flight \<le> room"
proof -
  obtain cert th_cert cv where 1: "sig_algs_offer algs (ca_scheme auth)"
    "build_client_certificate w (ca_cert_der auth) ctx room = Inr cert"
    "snapshot H (t @ cert) = Inr th_cert"
    "build_client_certificate_verify auth th_cert rng (room - length cert) = Inr (cv, rng')"
    "append_finished H s ((t @ cert) @ cv) (cert @ cv) room = Inr (flight, t')"
    using flight by (auto simp: WithClientAuth_def result_simps update_def Let_def split: if_splits)
  obtain th mac where 2: "snapshot H ((t @ cert) @ cv) = Inr th" "finished_mac H s th = Inr mac" "length mac = 32"
    "flight = (cert @ cv) @ hs_frame HS_FINISHED mac" "t' = ((t @ cert) @ cv) @ hs_frame HS_FINISHED mac"
    "length flight \<le> room" using append_finished_ok [OF H 1(5)] by blast
  obtain sig where "ca_sign auth (certificate_verify_signed_content th_cert) rng = (Some sig, rng')"
    "cv = hs_frame HS_CERTIFICATE_VERIFY (cv_message (ca_scheme auth) sig)"
    using 1(4) by (auto simp: build_client_certificate_verify_ok)
  then show ?thesis using 1 2
    by (intro exI [of _ sig] exI [of _ th_cert] exI [of _ th] exI [of _ mac]) (simp add: build_client_certificate_ok Let_def)
qed

text \<open>A signer, whose signatures fit the vector type that carries them.\<close>

locale client_auth_signer =
  fixes w :: RsaWidth and auth :: "'r ClientAuth"
  assumes signature_fits: "ca_sign auth content rng = (Some sig, rng') \<Longrightarrow> length sig \<le> MAX_CLIENT_SIG_LEN w"

sublocale client_auth_signer \<subseteq> mutual: client_auth_policy "WithClientAuth w auth"
proof unfold_locales
  fix H ctx algs and rng :: 'r and s t room flight t' rng'
  assume "backend_total H" "build_flight (WithClientAuth w auth) H ctx algs rng s t room = Inr (flight, t', rng')"
  from with_auth_flight [OF this]
  obtain cert cv mac sig th th_cert where
    f: "flight = cert @ cv @ hs_frame HS_FINISHED mac" "t' = t @ flight" "length flight \<le> room" and
    th: "snapshot H (t @ cert @ cv) = Inr th" "finished_mac H s th = Inr mac" "length mac = 32" and
    parts: "cert = hs_frame HS_CERTIFICATE (certificate_body ctx [(ca_cert_der auth, [])] [])"
      "cv = hs_frame HS_CERTIFICATE_VERIFY (cv_message (ca_scheme auth) sig)"
      "length ctx \<le> 255" "length (ca_cert_der auth) \<le> MAX_CLIENT_CERT_DER w" and
    sig: "ca_sign auth (certificate_verify_signed_content th_cert) rng = (Some sig, rng')"
    by (auto simp: Let_def)
  show "\<exists>head th mac. flight = head @ hs_frame HS_FINISHED mac \<and> snapshot H (t @ head) = Inr th \<and>
      finished_mac H s th = Inr mac \<and> t' = t @ flight"
    using f th by (intro exI [of _ "cert @ cv"] exI [of _ th] exI [of _ mac]) simp
  show "length flight \<le> room" by (fact f(3))
  show "length flight \<le> MAX_FLIGHT_LEN (WithClientAuth w auth)"
    using parts signature_fits [OF sig] th(3)
    by (simp add: f(1) length_certificate_body WithClientAuth_def MAX_CLIENT_AUTH_FLIGHT_def HS_HEADER_def
        CERT_FRAMING_def CV_FRAMING_def FINISHED_MSG_def)
qed

section \<open>The bundled signers\<close>

lemma ca_extend_fits: "ca_extend w out bs = Some r \<longleftrightarrow> r = out @ bs \<and> length r \<le> MAX_CLIENT_SIG_LEN w"
  by (auto simp: ca_extend_def)

interpretation ed25519: client_auth_signer w "Ed25519ClientAuth w try_sign cert_der"
  by unfold_locales (auto simp: Ed25519ClientAuth_def ca_extend_fits bind_eq_Some_conv split: prod.splits)

interpretation rsa: client_auth_signer w "RsaClientAuth w sha256 sign_prehash cert_der"
  by unfold_locales (auto simp: RsaClientAuth_def ca_extend_fits bind_eq_Some_conv Let_def split: prod.splits)

interpretation ecdsa: client_auth_signer w "EcdsaClientAuth w c hash sign_prehash cert_der"
  by unfold_locales
    (auto simp: EcdsaClientAuth_def der_ecdsa_sig_def ca_extend_fits bind_eq_Some_conv Let_def split: prod.splits)

text \<open>The ECDSA encoder writes the canonical encoding, which the verifying side decodes.\<close>

lemma strip_zeros_dropWhile:
  "bs \<noteq> [] \<Longrightarrow> strip_zeros bs = (let d = dropWhile (\<lambda>b. b = 0) bs in if d = [] then [0] else d)"
  by (induction bs rule: strip_zeros.induct) (auto simp: Let_def split: if_splits)

lemma ca_der_int_tlv:
  assumes "bs \<noteq> []" "length bs < 100" "ca_der_int w bs out = Some r"
  shows "r = out @ der_tlv 0x02 (der_int bs)"
proof -
  define d where "d = dropWhile (\<lambda>b. b = 0) bs"
  have v: "strip_zeros bs = (if d = [] then [0] else d)" using strip_zeros_dropWhile [OF assms(1)] by (simp add: d_def Let_def)
  have len: "length d \<le> length bs" by (simp add: d_def length_dropWhile_le)
  show ?thesis
  proof (cases "d = []")
    case True
    then show ?thesis using assms(3)
      by (simp add: ca_der_int_def v der_tlv_def der_int_def der_len_bytes_def d_def [symmetric] ca_extend_fits
          bind_eq_Some_conv Let_def)
  next
    case False
    then show ?thesis using assms(2,3) len
      by (cases "0x80 \<le> hd d") (auto simp: ca_der_int_def v der_tlv_def der_int_def der_len_bytes_def d_def [symmetric]
          ca_extend_fits bind_eq_Some_conv Let_def byte_high_bit hd_conv_nth not_less)
  qed
qed

lemma ca_der_int_total:
  assumes "length out + length bs + 3 \<le> MAX_CLIENT_SIG_LEN w" "bs \<noteq> []"
  shows "\<exists>r. ca_der_int w bs out = Some r"
proof -
  have "length (strip_zeros bs) \<le> length bs" by (induction bs rule: strip_zeros.induct) auto
  then show ?thesis using assms by (auto simp: ca_der_int_def ca_extend_def Let_def)
qed

lemma der_ecdsa_sig_total:
  assumes "length r = curve_width c" "length s = curve_width c"
  shows "der_ecdsa_sig w r s = Some (der_sig r s)"
proof -
  have eb: "curve_width c \<noteq> 0" "curve_width c \<le> 48" by (cases c; simp)+
  have cap: "112 \<le> MAX_CLIENT_SIG_LEN w" by (cases w) simp_all
  have ne: "r \<noteq> []" "s \<noteq> []" using assms eb(1) by auto
  obtain b1 where b1: "ca_der_int w r [] = Some b1"
    using ca_der_int_total [of "[]" r w] assms ne eb cap by auto
  then have b1': "b1 = der_tlv 2 (der_int r)" using ca_der_int_tlv [OF ne(1) _ b1] assms eb by simp
  have len: "length (der_tlv 2 (der_int x)) \<le> length x + 3" if "length x \<le> 48" for x
    using that length_der_int [of x] by (simp add: der_tlv_def der_len_bytes_def)
  have l1: "length b1 \<le> 51" using len [of r] assms eb b1' by simp
  obtain b2 where b2: "ca_der_int w s b1 = Some b2"
    using ca_der_int_total [of b1 s w] assms ne eb cap l1 by auto
  then have b2': "b2 = b1 @ der_tlv 2 (der_int s)" using ca_der_int_tlv [OF ne(2) _ b2] assms eb by simp
  have l2: "length b2 \<le> 102" using l1 len [of s] assms eb b2' by simp
  have "der_sig r s = 0x30 # word_of_nat (length b2) # b2"
    using l2 unfolding der_sig_def der_tlv_def [of "0x30"] b1' [symmetric] b2' [symmetric] by (simp add: der_len_bytes_def)
  then show ?thesis using b1 b2 cap l2 by (simp add: der_ecdsa_sig_def ca_extend_def)
qed

text \<open>
  C33: the client's ECDSA signatures are readable: in every build, the DER encoding the signer sends
  for the halves \<^verbatim>\<open>r\<close> and \<^verbatim>\<open>s\<close> of a P-256 or P-384 signature is produced without error, fits the
  signature buffer, and the verifying decoder returns exactly \<^verbatim>\<open>r || s\<close>.
\<close>

theorem client_ecdsa_signature_round_trip:
  assumes "length r = curve_width c" "length s = curve_width c"
  shows "\<exists>sig. der_ecdsa_sig w r s = Some sig \<and> length sig \<le> MAX_CLIENT_SIG_LEN w \<and>
    der_sig_to_p1363 sig (curve_width c) = Inr (r @ s)"
proof -
  have eb: "0 < curve_width c" "curve_width c \<le> 66" by (cases c; simp)+
  have "length (der_sig r s) \<le> MAX_CLIENT_SIG_LEN w"
    using der_ecdsa_sig_total [OF assms, of w] by (auto simp: der_ecdsa_sig_def ca_extend_fits bind_eq_Some_conv)
  then show ?thesis using der_ecdsa_sig_total [OF assms, of w] der_sig_complete [OF eb assms] by auto
qed

theorem client_ecdsa_signature_round_trip_witness:
  "\<exists>sig. der_ecdsa_sig RsaOff (replicate 32 0x91) (replicate 32 0) = Some sig \<and>
     der_sig_to_p1363 sig 32 = Inr (replicate 32 0x91 @ replicate 32 0)"
  using client_ecdsa_signature_round_trip [of "replicate 32 0x91" P256 "replicate 32 0" RsaOff] by auto

text \<open>The second flight of every policy a client can configure stays within the bound it announces.\<close>

lemma client_flight_within_bound:
  assumes "backend_total H"
    and "pol \<in> {NoClientAuth, DeclineClientAuth, WithClientAuth w (Ed25519ClientAuth w ed cert),
        WithClientAuth w (RsaClientAuth w sha rs cert), WithClientAuth w (EcdsaClientAuth w c hash ec cert)}"
    and "build_flight pol H ctx algs rng s t room = Inr (flight, t', rng')"
  shows "length flight \<le> MAX_FLIGHT_LEN pol \<and> t' = t @ flight"
proof -
  have "client_auth_policy pol"
    using assms(2) no_auth.client_auth_policy_axioms decline.client_auth_policy_axioms
      ed25519.mutual.client_auth_policy_axioms rsa.mutual.client_auth_policy_axioms
      ecdsa.mutual.client_auth_policy_axioms by blast
  then show ?thesis
    using client_auth_policy.flight_bound [OF _ assms(1,3)] client_auth_policy.flight_finished [OF _ assms(1,3)] by blast
qed

end
