(* ===== verification/Client_Hello.thy ===== *)
theory Client_Hello
  imports Tls_Consts
begin

text \<open>
  The ClientHello writer of \<^verbatim>\<open>lib.rs\<close> and the functions that compute its exact size ahead of
  time.  The Cargo features that decide what is advertised are a record, so every build is
  covered; \<^verbatim>\<open>features_ok\<close> are the combinations the source compiles.  The sink is a slice of \<^verbatim>\<open>cap\<close>
  bytes: a write that does not fit fails.  Lengths are computed in \<^verbatim>\<open>usize\<close> and narrowed to the
  16-bit fields where the source narrows them.
\<close>

section \<open>Model\<close>

record Features =
  f_x25519_kx :: bool
  f_p256_kx :: bool
  f_mlkem :: bool
  f_rsa :: bool
  f_mldsa :: bool
  f_ecdsa :: bool
  f_cipher_aes :: bool
  f_chacha20 :: bool

text \<open>The build-time guards, and the dependency of \<^verbatim>\<open>mlkem\<close> on \<^verbatim>\<open>x25519-kx\<close> in the manifest.\<close>

definition features_ok :: "Features \<Rightarrow> bool" where
  "features_ok F \<longleftrightarrow> (f_cipher_aes F \<or> f_chacha20 F) \<and> (f_x25519_kx F \<or> f_p256_kx F) \<and>
     (if f_mlkem F then f_x25519_kx F else True)"

datatype ClientHelloError =
    CH_HostnameTooLong
  | CH_MessageTooLong
  | CH_IntegerOverflow
  | CH_RecordSizeLimitOutOfRange
  | CH_AlpnNameLen
  | CH_MissingMlKemKeyShare
  | CH_MissingP256KeyShare
  | CH_Write

definition MLKEM768_EK_BYTES :: nat where
  "MLKEM768_EK_BYTES = 1184"

definition MLKEM768_CT_BYTES :: nat where
  "MLKEM768_CT_BYTES = 1088"

definition P256_SHARE_BYTES :: nat where
  "P256_SHARE_BYTES = 65"

definition EXT_SUPPORTED_VERSIONS_TOTAL :: nat where
  "EXT_SUPPORTED_VERSIONS_TOTAL = 4 + 3"

definition SUPPORTED_GROUPS_COUNT :: "Features \<Rightarrow> nat" where
  "SUPPORTED_GROUPS_COUNT F = of_bool (f_x25519_kx F) + of_bool (f_p256_kx F)"

definition EXT_SUPPORTED_GROUPS_TOTAL :: "Features \<Rightarrow> nat" where
  "EXT_SUPPORTED_GROUPS_TOTAL F = 4 + 2 + 2 * SUPPORTED_GROUPS_COUNT F"

definition SIG_SCHEME_COUNT :: "Features \<Rightarrow> nat" where
  "SIG_SCHEME_COUNT F = 1 + of_bool (f_rsa F) + 3 * of_bool (f_mldsa F) + 2 * of_bool (f_ecdsa F)"

definition EXT_SIGNATURE_ALGORITHMS_TOTAL :: "Features \<Rightarrow> nat" where
  "EXT_SIGNATURE_ALGORITHMS_TOTAL F = 4 + 2 + 2 * SIG_SCHEME_COUNT F"

definition KEY_SHARE_GROUP :: "Features \<Rightarrow> 16 word" where
  "KEY_SHARE_GROUP F =
     (if f_mlkem F then NAMED_GROUP_X25519MLKEM768
      else if f_x25519_kx F then NAMED_GROUP_X25519 else NAMED_GROUP_SECP256R1)"

definition KEY_SHARE_KEY_LEN :: "Features \<Rightarrow> nat" where
  "KEY_SHARE_KEY_LEN F =
     (if f_mlkem F then MLKEM768_EK_BYTES + 32 else if f_x25519_kx F then 32 else P256_SHARE_BYTES)"

definition PRIMARY_PUB_LEN :: "Features \<Rightarrow> nat" where
  "PRIMARY_PUB_LEN F = (if f_mlkem F then 32 else KEY_SHARE_KEY_LEN F)"

definition PRIMARY_KEY_SHARE_ENTRY :: "Features \<Rightarrow> nat" where
  "PRIMARY_KEY_SHARE_ENTRY F = 4 + KEY_SHARE_KEY_LEN F"

definition P256_KX_ENTRY_LEN :: "Features \<Rightarrow> nat" where
  "P256_KX_ENTRY_LEN F = (if f_p256_kx F \<and> f_x25519_kx F then 4 + 65 else 0)"

definition KEY_SHARE_LIST_LEN :: "Features \<Rightarrow> nat" where
  "KEY_SHARE_LIST_LEN F = PRIMARY_KEY_SHARE_ENTRY F + P256_KX_ENTRY_LEN F"

definition KEY_SHARE_EXT_DATA_LEN :: "Features \<Rightarrow> nat" where
  "KEY_SHARE_EXT_DATA_LEN F = 2 + KEY_SHARE_LIST_LEN F"

definition EXT_KEY_SHARE_TOTAL :: "Features \<Rightarrow> nat" where
  "EXT_KEY_SHARE_TOTAL F = 4 + KEY_SHARE_EXT_DATA_LEN F"

definition CH_CIPHER_SUITES_COUNT :: "Features \<Rightarrow> nat" where
  "CH_CIPHER_SUITES_COUNT F = of_bool (f_cipher_aes F) + of_bool (f_chacha20 F)"

definition EXT_RECORD_SIZE_LIMIT_TOTAL :: nat where
  "EXT_RECORD_SIZE_LIMIT_TOTAL = 4 + 2"

datatype SuiteList = SuiteDefault | AesOnly | ChaChaOnly

record ClientHelloOptions =
  co_hostname :: "bytes option"
  co_record_size_limit :: "16 word option"
  co_session_id :: "bytes option"
  co_alpn :: "bytes list option"
  co_suites :: SuiteList
  co_mlkem_ek :: "bytes option"
  co_p256_pub :: "bytes option"

definition CH_EXTENSIONS_FIXED_TOTAL :: "Features \<Rightarrow> nat" where
  "CH_EXTENSIONS_FIXED_TOTAL F = EXT_SUPPORTED_VERSIONS_TOTAL + EXT_SUPPORTED_GROUPS_TOTAL F +
     EXT_SIGNATURE_ALGORITHMS_TOTAL F + EXT_KEY_SHARE_TOTAL F"

definition sni_ext_total :: "nat \<Rightarrow> nat" where
  "sni_ext_total hostname_len = 9 + hostname_len"

definition ch_n_suites :: "Features \<Rightarrow> SuiteList \<Rightarrow> nat" where
  "ch_n_suites F suites =
     (case suites of SuiteDefault \<Rightarrow> CH_CIPHER_SUITES_COUNT F | AesOnly \<Rightarrow> 1 | ChaChaOnly \<Rightarrow> 1)"

definition ch_cipher_suites_field_len :: "Features \<Rightarrow> SuiteList \<Rightarrow> nat" where
  "ch_cipher_suites_field_len F suites = 2 + 2 * ch_n_suites F suites"

definition alpn_ext_total :: "bytes list option \<Rightarrow> nat" where
  "alpn_ext_total protocols =
     (case protocols of
        None \<Rightarrow> 0
      | Some names \<Rightarrow> 4 + 2 + foldl (\<lambda>n name. n + (1 + length name)) 0 names)"

definition ch_extensions_total :: "Features \<Rightarrow> nat option \<Rightarrow> bool \<Rightarrow> nat \<Rightarrow> nat" where
  "ch_extensions_total F sni_host_len has_record_size_limit alpn_total =
     (let sni = (case sni_host_len of None \<Rightarrow> 0 | Some n \<Rightarrow> sni_ext_total n);
          rsl = (if has_record_size_limit then EXT_RECORD_SIZE_LIMIT_TOTAL else 0)
      in CH_EXTENSIONS_FIXED_TOTAL F + sni + rsl + alpn_total)"

definition ch_body_len :: "Features \<Rightarrow> SuiteList \<Rightarrow> nat option \<Rightarrow> bool \<Rightarrow> bool \<Rightarrow> nat \<Rightarrow> nat" where
  "ch_body_len F suites sni_host_len has_record_size_limit has_session_id alpn_total =
     (let session_id = (if has_session_id then LEGACY_SESSION_ID_LEN else 0)
      in 2 + 32 + (1 + session_id) + ch_cipher_suites_field_len F suites + (1 + 1) + 2 +
         ch_extensions_total F sni_host_len has_record_size_limit alpn_total)"

definition ch_total_len :: "Features \<Rightarrow> SuiteList \<Rightarrow> nat option \<Rightarrow> bool \<Rightarrow> bool \<Rightarrow> nat \<Rightarrow> nat" where
  "ch_total_len F suites sni_host_len has_record_size_limit has_session_id alpn_total =
     5 + 4 + ch_body_len F suites sni_host_len has_record_size_limit has_session_id alpn_total"

definition client_hello_len :: "Features \<Rightarrow> nat option \<Rightarrow> nat" where
  "client_hello_len F hostname_len = ch_total_len F SuiteDefault hostname_len False False 0"

definition client_hello_len_with :: "Features \<Rightarrow> ClientHelloOptions \<Rightarrow> nat" where
  "client_hello_len_with F opts =
     ch_total_len F (co_suites opts) (map_option length (co_hostname opts))
       (co_record_size_limit opts \<noteq> None) (co_session_id opts \<noteq> None) (alpn_ext_total (co_alpn opts))"

definition CLIENT_HELLO_LEN :: "Features \<Rightarrow> nat" where
  "CLIENT_HELLO_LEN F = client_hello_len F None"

definition CH_PLAINTEXT_MAX :: nat where
  "CH_PLAINTEXT_MAX = 2 ^ 14"

text \<open>The big-endian fields the writer emits, and the sink.\<close>

definition u8 :: "nat \<Rightarrow> bytes" where
  "u8 n = [word_of_nat n]"

definition u16 :: "nat \<Rightarrow> bytes" where
  "u16 n = to_be_bytes (word_of_nat n :: 16 word)"

definition ch_write_u24 :: "nat \<Rightarrow> ClientHelloError + bytes" where
  "ch_write_u24 n =
     (if n > 0xFFFFFF then Inl CH_IntegerOverflow else Inr (drop 1 (to_be_bytes (word_of_nat n :: 32 word))))"

fun emit :: "nat \<Rightarrow> bytes \<Rightarrow> bytes list \<Rightarrow> ClientHelloError + bytes" where
  "emit cap out [] = Inr out"
| "emit cap out (bs # rest) =
     (if length out + length bs \<le> cap then emit cap (out @ bs) rest else Inl CH_Write)"

definition ch_suites :: "Features \<Rightarrow> SuiteList \<Rightarrow> bytes list" where
  "ch_suites F suites =
     (let advertise_chacha = (f_chacha20 F \<and> (suites = SuiteDefault \<or> suites = ChaChaOnly));
          advertise_aes = (f_cipher_aes F \<and> \<not> (f_chacha20 F \<and> suites = ChaChaOnly))
      in (if advertise_chacha then [to_be_bytes CIPHER_CHACHA20_POLY1305_SHA256] else []) @
         (if advertise_aes then [to_be_bytes CIPHER_AES_128_GCM_SHA256] else []))"

definition ch_sig_schemes :: "Features \<Rightarrow> bytes list" where
  "ch_sig_schemes F =
     [to_be_bytes SIG_SCHEME_ED25519] @
     (if f_ecdsa F then [to_be_bytes SIG_SCHEME_ECDSA_P256, to_be_bytes SIG_SCHEME_ECDSA_P384] else []) @
     (if f_rsa F then [to_be_bytes SIG_SCHEME_RSA_PSS_RSAE_SHA256] else []) @
     (if f_mldsa F then [to_be_bytes SIG_SCHEME_MLDSA44, to_be_bytes SIG_SCHEME_MLDSA65, to_be_bytes SIG_SCHEME_MLDSA87] else [])"

definition ch_groups :: "Features \<Rightarrow> bytes list" where
  "ch_groups F = [to_be_bytes (KEY_SHARE_GROUP F)] @
     (if f_p256_kx F \<and> f_x25519_kx F then [to_be_bytes NAMED_GROUP_SECP256R1] else [])"

definition ch_ext_pieces :: "Features \<Rightarrow> ClientHelloOptions \<Rightarrow> bytes list" where
  "ch_ext_pieces F opts =
     [to_be_bytes EXT_SUPPORTED_VERSIONS, u16 3, u8 2, to_be_bytes TLS_1_3] @
     [to_be_bytes EXT_SUPPORTED_GROUPS, u16 (2 + 2 * SUPPORTED_GROUPS_COUNT F),
      u16 (2 * SUPPORTED_GROUPS_COUNT F)] @ ch_groups F @
     [to_be_bytes EXT_SIGNATURE_ALGORITHMS, u16 (2 + 2 * SIG_SCHEME_COUNT F),
      u16 (2 * SIG_SCHEME_COUNT F)] @ ch_sig_schemes F @
     (case co_hostname opts of
        None \<Rightarrow> []
      | Some h \<Rightarrow>
          let host_len = length h; list_len = 1 + 2 + host_len; ext_data_len = 2 + list_len
          in [to_be_bytes EXT_SERVER_NAME, u16 ext_data_len, u16 list_len,
              [SNI_NAME_TYPE_HOST_NAME], u16 host_len, h]) @
     (case co_record_size_limit opts of
        None \<Rightarrow> []
      | Some v \<Rightarrow> [to_be_bytes EXT_RECORD_SIZE_LIMIT, u16 2, to_be_bytes v]) @
     (case co_alpn opts of
        None \<Rightarrow> []
      | Some protocols \<Rightarrow>
          let list_len = alpn_ext_total (Some protocols) - 6
          in [to_be_bytes EXT_ALPN, u16 (2 + list_len), u16 list_len] @
             concat (map (\<lambda>name. [u8 (length name), name]) protocols)) @
     [to_be_bytes EXT_KEY_SHARE, u16 (KEY_SHARE_EXT_DATA_LEN F), u16 (KEY_SHARE_LIST_LEN F),
      to_be_bytes (KEY_SHARE_GROUP F), u16 (KEY_SHARE_KEY_LEN F)]"

definition write_key_shares ::
  "Features \<Rightarrow> nat \<Rightarrow> bytes \<Rightarrow> bytes \<Rightarrow> ClientHelloOptions \<Rightarrow> ClientHelloError + bytes" where
  "write_key_shares F cap out primary_pub opts =
     rbind (if f_mlkem F then
              rbind (ok_or CH_MissingMlKemKeyShare (co_mlkem_ek opts)) (\<lambda>ek. emit cap out [ek])
            else Inr out) (\<lambda>out.
     rbind (emit cap out [primary_pub]) (\<lambda>out.
       if f_p256_kx F \<and> f_x25519_kx F then
         rbind (emit cap out [to_be_bytes NAMED_GROUP_SECP256R1, u16 P256_SHARE_BYTES]) (\<lambda>out.
         rbind (ok_or CH_MissingP256KeyShare (co_p256_pub opts)) (\<lambda>p256_pub. emit cap out [p256_pub]))
       else Inr out))"

definition write_client_hello_with ::
  "Features \<Rightarrow> nat \<Rightarrow> bytes \<Rightarrow> bytes \<Rightarrow> ClientHelloOptions \<Rightarrow> ClientHelloError + bytes" where
  "write_client_hello_with F cap random primary_pub opts =
     (let host_len = (case co_hostname opts of Some h \<Rightarrow> length h | None \<Rightarrow> 0) in
      if host_len > 0xFFFF then Inl CH_HostnameTooLong
      else if (case co_record_size_limit opts of Some rsl \<Rightarrow> \<not> (64 \<le> rsl \<and> rsl \<le> 16385) | None \<Rightarrow> False)
      then Inl CH_RecordSizeLimitOutOfRange
      else if (case co_alpn opts of
                 Some protocols \<Rightarrow> protocols = [] \<or> list_ex (\<lambda>n. n = [] \<or> length n > 255) protocols
               | None \<Rightarrow> False)
      then Inl CH_AlpnNameLen
      else
        let total_len = client_hello_len_with F opts in
        if total_len > 5 + CH_PLAINTEXT_MAX then Inl CH_MessageTooLong
        else
          let sni_host_len = map_option length (co_hostname opts);
              has_rsl = (co_record_size_limit opts \<noteq> None);
              has_session_id = (co_session_id opts \<noteq> None);
              alpn_total = alpn_ext_total (co_alpn opts);
              n_suites = ch_n_suites F (co_suites opts);
              extensions_total = ch_extensions_total F sni_host_len has_rsl alpn_total;
              body_len = ch_body_len F (co_suites opts) sni_host_len has_rsl has_session_id alpn_total;
              hs_len = 4 + body_len
          in rbind (emit cap [] [[CT_HANDSHAKE], to_be_bytes LEGACY_VERSION, u16 hs_len, [HS_CLIENT_HELLO]]) (\<lambda>out.
             rbind (ch_write_u24 body_len) (\<lambda>hs_body_len.
             rbind (emit cap out
               ([hs_body_len, to_be_bytes LEGACY_VERSION, random] @
                (case co_session_id opts of None \<Rightarrow> [u8 0] | Some sid \<Rightarrow> [u8 LEGACY_SESSION_ID_LEN, sid]) @
                [u16 (2 * n_suites)] @ ch_suites F (co_suites opts) @ [u8 1, u8 0, u16 extensions_total] @
                ch_ext_pieces F opts)) (\<lambda>out.
             write_key_shares F cap out primary_pub opts))))"

section \<open>The reference encoding\<close>

text \<open>Vectors with the length prefix of their presentation syntax, and extensions.\<close>

definition vec8 :: "bytes \<Rightarrow> bytes" where
  "vec8 b = be_bytes 1 (length b) @ b"

definition vec16 :: "bytes \<Rightarrow> bytes" where
  "vec16 b = be_bytes 2 (length b) @ b"

definition vec24 :: "bytes \<Rightarrow> bytes" where
  "vec24 b = be_bytes 3 (length b) @ b"

definition extension :: "16 word \<times> bytes \<Rightarrow> bytes" where
  "extension = (\<lambda>(t, data). to_be_bytes t @ vec16 data)"

definition key_share_entries :: "Features \<Rightarrow> bytes \<Rightarrow> ClientHelloOptions \<Rightarrow> (16 word \<times> bytes) list" where
  "key_share_entries F primary_pub opts =
     (KEY_SHARE_GROUP F, (if f_mlkem F then the (co_mlkem_ek opts) else []) @ primary_pub) #
     (if f_p256_kx F \<and> f_x25519_kx F then [(NAMED_GROUP_SECP256R1, the (co_p256_pub opts))] else [])"

definition ch_extensions :: "Features \<Rightarrow> bytes \<Rightarrow> ClientHelloOptions \<Rightarrow> (16 word \<times> bytes) list" where
  "ch_extensions F primary_pub opts =
     [(EXT_SUPPORTED_VERSIONS, vec8 (to_be_bytes TLS_1_3)),
      (EXT_SUPPORTED_GROUPS, vec16 (concat (ch_groups F))),
      (EXT_SIGNATURE_ALGORITHMS, vec16 (concat (ch_sig_schemes F)))] @
     (case co_hostname opts of None \<Rightarrow> []
      | Some h \<Rightarrow> [(EXT_SERVER_NAME, vec16 ([SNI_NAME_TYPE_HOST_NAME] @ vec16 h))]) @
     (case co_record_size_limit opts of None \<Rightarrow> [] | Some v \<Rightarrow> [(EXT_RECORD_SIZE_LIMIT, to_be_bytes v)]) @
     (case co_alpn opts of None \<Rightarrow> [] | Some names \<Rightarrow> [(EXT_ALPN, vec16 (concat (map vec8 names)))]) @
     [(EXT_KEY_SHARE, vec16 (concat (map extension (key_share_entries F primary_pub opts))))]"

definition client_hello_bytes :: "Features \<Rightarrow> bytes \<Rightarrow> bytes \<Rightarrow> ClientHelloOptions \<Rightarrow> bytes" where
  "client_hello_bytes F random primary_pub opts =
     [CT_HANDSHAKE] @ to_be_bytes LEGACY_VERSION @
     vec16 ([HS_CLIENT_HELLO] @
       vec24 (to_be_bytes LEGACY_VERSION @ random @
         vec8 (case co_session_id opts of None \<Rightarrow> [] | Some sid \<Rightarrow> sid) @
         vec16 (concat (ch_suites F (co_suites opts))) @ vec8 [0] @
         vec16 (concat (map extension (ch_extensions F primary_pub opts)))))"

text \<open>What the types of the options guarantee, and which options a ClientHello can carry.\<close>

definition opts_typed :: "Features \<Rightarrow> ClientHelloOptions \<Rightarrow> bool" where
  "opts_typed F opts \<longleftrightarrow>
     pred_option (\<lambda>sid. length sid = LEGACY_SESSION_ID_LEN) (co_session_id opts) \<and>
     pred_option (\<lambda>ek. length ek = MLKEM768_EK_BYTES) (co_mlkem_ek opts) \<and>
     pred_option (\<lambda>pk. length pk = P256_SHARE_BYTES) (co_p256_pub opts) \<and>
     (case co_suites opts of SuiteDefault \<Rightarrow> True | AesOnly \<Rightarrow> f_cipher_aes F | ChaChaOnly \<Rightarrow> f_chacha20 F)"

definition shares_present :: "Features \<Rightarrow> ClientHelloOptions \<Rightarrow> bool" where
  "shares_present F opts \<longleftrightarrow> (if f_mlkem F then co_mlkem_ek opts \<noteq> None else True) \<and>
     (if f_p256_kx F \<and> f_x25519_kx F then co_p256_pub opts \<noteq> None else True)"

definition opts_sendable :: "Features \<Rightarrow> ClientHelloOptions \<Rightarrow> bool" where
  "opts_sendable F opts \<longleftrightarrow>
     pred_option (\<lambda>h. length h \<le> 0xFFFF) (co_hostname opts) \<and>
     pred_option (\<lambda>v. 64 \<le> v \<and> v \<le> 16385) (co_record_size_limit opts) \<and>
     pred_option (\<lambda>ps. ps \<noteq> [] \<and> list_all (\<lambda>n. n \<noteq> [] \<and> length n \<le> 255) ps) (co_alpn opts) \<and>
     client_hello_len_with F opts \<le> 5 + 2 ^ 14 \<and> shares_present F opts"

lemma u16_be: "u16 n = be_bytes 2 n"
  by (simp add: u16_def to_be_bytes_of_nat_16)

lemma u8_be: "u8 n = be_bytes 1 n"
  by (simp add: u8_def)

lemma ch_write_u24_be: "ch_write_u24 n = (if n < 2 ^ 24 then Inr (be_bytes 3 n) else Inl CH_IntegerOverflow)"
  unfolding ch_write_u24_def to_be_bytes_of_nat_24 by (simp add: not_less)

lemma emit_ok:
  "length out \<le> cap \<Longrightarrow> emit cap out ps = Inr r \<longleftrightarrow> length (out @ concat ps) \<le> cap \<and> r = out @ concat ps"
proof (induction ps arbitrary: out)
  case Nil
  then show ?case by auto
next
  case (Cons p ps)
  show ?case
  proof (cases "length out + length p \<le> cap")
    case True
    then show ?thesis using Cons.IH [of "out @ p"] by (simp add: add.assoc)
  next
    case False
    then show ?thesis by simp
  qed
qed

lemma length_vecs [simp]:
  "length (vec8 b) = 1 + length b" "length (vec16 b) = 2 + length b" "length (vec24 b) = 3 + length b"
  by (simp_all add: vec8_def vec16_def vec24_def)

lemma length_extension [simp]: "length (extension (t, d)) = 4 + length d"
  by (simp add: extension_def)

lemma emit_bind:
  "length out \<le> cap \<Longrightarrow> rbind (emit cap out ps) f = Inr r \<longleftrightarrow>
     length (out @ concat ps) \<le> cap \<and> f (out @ concat ps) = Inr r"
  by (auto simp: rbind_eq_Inr emit_ok)

lemma length_ch_suites:
  "features_ok F \<Longrightarrow> opts_typed F opts \<Longrightarrow>
     length (concat (ch_suites F (co_suites opts))) = 2 * ch_n_suites F (co_suites opts)"
  by (auto simp: features_ok_def opts_typed_def ch_suites_def ch_n_suites_def CH_CIPHER_SUITES_COUNT_def
      split: SuiteList.splits)

lemma length_ch_groups:
  "features_ok F \<Longrightarrow> length (concat (ch_groups F)) = 2 * SUPPORTED_GROUPS_COUNT F"
  by (auto simp: features_ok_def ch_groups_def SUPPORTED_GROUPS_COUNT_def)

lemma length_ch_sig_schemes: "length (concat (ch_sig_schemes F)) = 2 * SIG_SCHEME_COUNT F"
  by (simp add: ch_sig_schemes_def SIG_SCHEME_COUNT_def)

lemma length_primary_share:
  "features_ok F \<Longrightarrow> opts_typed F opts \<Longrightarrow> shares_present F opts \<Longrightarrow> length pk = PRIMARY_PUB_LEN F \<Longrightarrow>
     length ((if f_mlkem F then the (co_mlkem_ek opts) else []) @ pk) = KEY_SHARE_KEY_LEN F"
  by (auto simp: features_ok_def opts_typed_def shares_present_def PRIMARY_PUB_LEN_def KEY_SHARE_KEY_LEN_def)

lemma length_p256_share:
  "opts_typed F opts \<Longrightarrow> shares_present F opts \<Longrightarrow> f_p256_kx F \<Longrightarrow> f_x25519_kx F \<Longrightarrow>
     length (the (co_p256_pub opts)) = P256_SHARE_BYTES"
  by (auto simp: opts_typed_def shares_present_def)

lemma length_key_shares:
  "features_ok F \<Longrightarrow> opts_typed F opts \<Longrightarrow> shares_present F opts \<Longrightarrow> length pk = PRIMARY_PUB_LEN F \<Longrightarrow>
     length (concat (map extension (key_share_entries F pk opts))) = KEY_SHARE_LIST_LEN F"
  using length_primary_share [of F opts pk] length_p256_share [of F opts]
  by (cases "f_p256_kx F \<and> f_x25519_kx F")
    (auto simp: key_share_entries_def KEY_SHARE_LIST_LEN_def PRIMARY_KEY_SHARE_ENTRY_def
      P256_KX_ENTRY_LEN_def P256_SHARE_BYTES_def)

lemma foldl_add_length: "foldl (\<lambda>n name. n + (1 + length name)) a names = a + length (concat (map vec8 names))"
  by (induction names arbitrary: a) auto

lemma alpn_ext_total_Some: "alpn_ext_total (Some names) = 6 + length (concat (map vec8 names))"
  unfolding alpn_ext_total_def option.case foldl_add_length by simp

lemma alpn_ext_total_None: "alpn_ext_total None = 0"
  by (simp add: alpn_ext_total_def)

lemma length_ch_extensions:
  assumes "features_ok F" "opts_typed F opts" "shares_present F opts" "length pk = PRIMARY_PUB_LEN F"
  shows "length (concat (map extension (ch_extensions F pk opts))) =
    ch_extensions_total F (map_option length (co_hostname opts)) (co_record_size_limit opts \<noteq> None)
      (alpn_ext_total (co_alpn opts))"
proof -
  have "length (concat (map extension (case co_hostname opts of None \<Rightarrow> []
      | Some h \<Rightarrow> [(EXT_SERVER_NAME, vec16 ([SNI_NAME_TYPE_HOST_NAME] @ vec16 h))]))) =
      (case map_option length (co_hostname opts) of None \<Rightarrow> 0 | Some n \<Rightarrow> sni_ext_total n)"
    by (simp add: sni_ext_total_def split: option.split)
  moreover have "length (concat (map extension (case co_record_size_limit opts of None \<Rightarrow> []
      | Some v \<Rightarrow> [(EXT_RECORD_SIZE_LIMIT, to_be_bytes v)]))) =
      (if co_record_size_limit opts \<noteq> None then EXT_RECORD_SIZE_LIMIT_TOTAL else 0)"
    by (simp add: EXT_RECORD_SIZE_LIMIT_TOTAL_def split: option.split)
  moreover have "length (concat (map extension (case co_alpn opts of None \<Rightarrow> []
      | Some names \<Rightarrow> [(EXT_ALPN, vec16 (concat (map vec8 names)))]))) = alpn_ext_total (co_alpn opts)"
    by (cases "co_alpn opts") (simp_all add: alpn_ext_total_Some alpn_ext_total_None)
  ultimately show ?thesis
    using length_ch_groups [OF assms(1)] length_ch_sig_schemes [of F] length_key_shares [OF assms]
    by (simp add: ch_extensions_def ch_extensions_total_def CH_EXTENSIONS_FIXED_TOTAL_def Let_def
        EXT_SUPPORTED_VERSIONS_TOTAL_def EXT_SUPPORTED_GROUPS_TOTAL_def EXT_SIGNATURE_ALGORITHMS_TOTAL_def
        EXT_KEY_SHARE_TOTAL_def KEY_SHARE_EXT_DATA_LEN_def)
qed

lemma length_client_hello_bytes:
  assumes "features_ok F" "opts_typed F opts" "shares_present F opts" "length pk = PRIMARY_PUB_LEN F"
    and "length random = 32"
  shows "length (client_hello_bytes F random pk opts) = client_hello_len_with F opts"
  using length_ch_extensions [OF assms(1-4)] length_ch_suites [OF assms(1,2)] assms(2,5)
  by (auto simp: client_hello_bytes_def client_hello_len_with_def ch_total_len_def ch_body_len_def Let_def
      ch_cipher_suites_field_len_def opts_typed_def split: option.splits)

lemma client_hello_body_length:
  assumes "features_ok F" "opts_typed F opts" "shares_present F opts" "length pk = PRIMARY_PUB_LEN F"
    and "length random = 32"
  shows "length (to_be_bytes LEGACY_VERSION @ random @
         vec8 (case co_session_id opts of None \<Rightarrow> [] | Some sid \<Rightarrow> sid) @
         vec16 (concat (ch_suites F (co_suites opts))) @ vec8 [0] @
         vec16 (concat (map extension (ch_extensions F pk opts)))) =
     ch_body_len F (co_suites opts) (map_option length (co_hostname opts))
       (co_record_size_limit opts \<noteq> None) (co_session_id opts \<noteq> None) (alpn_ext_total (co_alpn opts))"
  using length_client_hello_bytes [OF assms]
  by (simp add: client_hello_bytes_def client_hello_len_with_def ch_total_len_def)

definition shares_written :: "Features \<Rightarrow> bytes \<Rightarrow> ClientHelloOptions \<Rightarrow> bytes" where
  "shares_written F pk opts = (if f_mlkem F then the (co_mlkem_ek opts) else []) @ pk @
     (if f_p256_kx F \<and> f_x25519_kx F
      then to_be_bytes NAMED_GROUP_SECP256R1 @ u16 P256_SHARE_BYTES @ the (co_p256_pub opts) else [])"

lemma ch_extensions_written:
  assumes "features_ok F" "opts_typed F opts" "shares_present F opts" "length pk = PRIMARY_PUB_LEN F"
  shows "concat (map extension (ch_extensions F pk opts)) =
    concat (ch_ext_pieces F opts) @ shares_written F pk opts"
proof -
  have shares: "extension (EXT_KEY_SHARE, vec16 (concat (map extension (key_share_entries F pk opts)))) =
      concat [to_be_bytes EXT_KEY_SHARE, u16 (KEY_SHARE_EXT_DATA_LEN F), u16 (KEY_SHARE_LIST_LEN F),
       to_be_bytes (KEY_SHARE_GROUP F), u16 (KEY_SHARE_KEY_LEN F)] @
      shares_written F pk opts"
    using length_key_shares [OF assms] length_primary_share [OF assms] length_p256_share [OF assms(2,3)]
    by (auto simp: extension_def vec16_def key_share_entries_def u16_be KEY_SHARE_EXT_DATA_LEN_def shares_written_def)
  have alpn: "concat (map vec8 names) = concat (concat (map (\<lambda>name. [u8 (length name), name]) names))" for names
    by (induction names) (simp_all add: vec8_def u8_be del: One_nat_def)
  have fixed: "extension (EXT_SUPPORTED_VERSIONS, vec8 (to_be_bytes TLS_1_3)) =
      concat [to_be_bytes EXT_SUPPORTED_VERSIONS, u16 3, u8 2, to_be_bytes TLS_1_3]"
    "extension (EXT_SUPPORTED_GROUPS, vec16 (concat (ch_groups F))) =
      concat ([to_be_bytes EXT_SUPPORTED_GROUPS, u16 (2 + 2 * SUPPORTED_GROUPS_COUNT F),
       u16 (2 * SUPPORTED_GROUPS_COUNT F)] @ ch_groups F)"
    "extension (EXT_SIGNATURE_ALGORITHMS, vec16 (concat (ch_sig_schemes F))) =
      concat ([to_be_bytes EXT_SIGNATURE_ALGORITHMS, u16 (2 + 2 * SIG_SCHEME_COUNT F),
       u16 (2 * SIG_SCHEME_COUNT F)] @ ch_sig_schemes F)"
    using length_ch_groups [OF assms(1)] length_ch_sig_schemes [of F]
    by (simp_all add: extension_def vec16_def vec8_def u16_be u8_be del: One_nat_def)
  have optional: "concat (map extension (case co_hostname opts of None \<Rightarrow> []
      | Some h \<Rightarrow> [(EXT_SERVER_NAME, vec16 ([SNI_NAME_TYPE_HOST_NAME] @ vec16 h))])) =
      concat (case co_hostname opts of
         None \<Rightarrow> []
       | Some h \<Rightarrow>
           let host_len = length h; list_len = 1 + 2 + host_len; ext_data_len = 2 + list_len
           in [to_be_bytes EXT_SERVER_NAME, u16 ext_data_len, u16 list_len,
               [SNI_NAME_TYPE_HOST_NAME], u16 host_len, h])"
    "concat (map extension (case co_record_size_limit opts of None \<Rightarrow> []
      | Some v \<Rightarrow> [(EXT_RECORD_SIZE_LIMIT, to_be_bytes v)])) =
      concat (case co_record_size_limit opts of
         None \<Rightarrow> []
       | Some v \<Rightarrow> [to_be_bytes EXT_RECORD_SIZE_LIMIT, u16 2, to_be_bytes v])"
    "concat (map extension (case co_alpn opts of None \<Rightarrow> []
      | Some names \<Rightarrow> [(EXT_ALPN, vec16 (concat (map vec8 names)))])) =
      concat (case co_alpn opts of
         None \<Rightarrow> []
       | Some protocols \<Rightarrow>
           let list_len = alpn_ext_total (Some protocols) - 6
           in [to_be_bytes EXT_ALPN, u16 (2 + list_len), u16 list_len] @
              concat (map (\<lambda>name. [u8 (length name), name]) protocols))"
    by (simp_all add: extension_def vec16_def u16_be alpn alpn_ext_total_Some Let_def split: option.split)
  show ?thesis
    by (simp only: ch_extensions_def ch_ext_pieces_def map_append list.map concat_append concat.simps fixed shares optional
        append_assoc append_Nil2)
qed

lemma write_key_shares_ok:
  "length out \<le> cap \<Longrightarrow> write_key_shares F cap out pk opts = Inr r \<longleftrightarrow>
     shares_present F opts \<and> length (out @ shares_written F pk opts) \<le> cap \<and>
     r = out @ shares_written F pk opts"
  by (cases "f_mlkem F"; cases "f_p256_kx F \<and> f_x25519_kx F"; cases "co_mlkem_ek opts"; cases "co_p256_pub opts")
    (auto simp: write_key_shares_def shares_written_def shares_present_def rbind_eq_Inr emit_ok ok_or_def)

text \<open>The reference encoding as the writer emits it.\<close>

lemma client_hello_bytes_written:
  assumes "features_ok F" "opts_typed F opts" "shares_present F opts" "length pk = PRIMARY_PUB_LEN F"
    and "length random = 32"
  defines "body_len \<equiv> ch_body_len F (co_suites opts) (map_option length (co_hostname opts))
       (co_record_size_limit opts \<noteq> None) (co_session_id opts \<noteq> None) (alpn_ext_total (co_alpn opts))"
  shows "client_hello_bytes F random pk opts =
    concat [[CT_HANDSHAKE], to_be_bytes LEGACY_VERSION, u16 (4 + body_len), [HS_CLIENT_HELLO]] @
    concat ([be_bytes 3 body_len, to_be_bytes LEGACY_VERSION, random] @
      (case co_session_id opts of None \<Rightarrow> [u8 0] | Some sid \<Rightarrow> [u8 LEGACY_SESSION_ID_LEN, sid]) @
      [u16 (2 * ch_n_suites F (co_suites opts))] @ ch_suites F (co_suites opts) @
      [u8 1, u8 0, u16 (ch_extensions_total F (map_option length (co_hostname opts))
        (co_record_size_limit opts \<noteq> None) (alpn_ext_total (co_alpn opts)))] @ ch_ext_pieces F opts) @
    shares_written F pk opts"
proof -
  note body = client_hello_body_length [OF assms(1-5), folded body_len_def]
  have sid: "vec8 (case co_session_id opts of None \<Rightarrow> [] | Some sid \<Rightarrow> sid) =
      concat (case co_session_id opts of None \<Rightarrow> [u8 0] | Some sid \<Rightarrow> [u8 LEGACY_SESSION_ID_LEN, sid])"
    using assms(2) by (auto simp: vec8_def u8_be opts_typed_def simp del: One_nat_def split: option.split)
  have compression: "vec8 [0] = u8 1 @ u8 0"
    by (simp add: vec8_def u8_def)
  have vecs: "vec16 (concat (ch_suites F (co_suites opts))) =
      u16 (2 * ch_n_suites F (co_suites opts)) @ concat (ch_suites F (co_suites opts))"
    "vec16 (concat (map extension (ch_extensions F pk opts))) =
      u16 (ch_extensions_total F (map_option length (co_hostname opts))
        (co_record_size_limit opts \<noteq> None) (alpn_ext_total (co_alpn opts))) @
      concat (ch_ext_pieces F opts) @ shares_written F pk opts"
    by (simp_all only: vec16_def u16_be length_ch_suites [OF assms(1,2)] length_ch_extensions [OF assms(1-4)]
        ch_extensions_written [OF assms(1-4), symmetric])
  have "vec16 ([HS_CLIENT_HELLO] @ vec24 b) = u16 (4 + length b) @ [HS_CLIENT_HELLO] @ be_bytes 3 (length b) @ b" for b
    by (simp add: vec16_def vec24_def u16_be)
  then show ?thesis
    unfolding client_hello_bytes_def
    by (simp only: body) (simp only: sid compression vecs concat_append concat.simps append_assoc append_Nil2)
qed

lemma emit_client_hello:
  "rbind (emit cap [] ps) (\<lambda>out. rbind (emit cap out qs) (\<lambda>out. write_key_shares F cap out pk opts)) = Inr out \<longleftrightarrow>
     shares_present F opts \<and> length (concat ps @ concat qs @ shares_written F pk opts) \<le> cap \<and>
     out = concat ps @ concat qs @ shares_written F pk opts"
  by (auto simp: emit_bind write_key_shares_ok)

lemma write_client_hello_guards:
  "opts_sendable F opts \<longleftrightarrow>
     \<not> (case co_hostname opts of Some h \<Rightarrow> length h | None \<Rightarrow> 0) > 0xFFFF \<and>
     \<not> (case co_record_size_limit opts of Some rsl \<Rightarrow> \<not> (64 \<le> rsl \<and> rsl \<le> 16385) | None \<Rightarrow> False) \<and>
     \<not> (case co_alpn opts of
           Some protocols \<Rightarrow> protocols = [] \<or> list_ex (\<lambda>n. n = [] \<or> length n > 255) protocols
         | None \<Rightarrow> False) \<and>
     \<not> client_hello_len_with F opts > 5 + CH_PLAINTEXT_MAX \<and> shares_present F opts"
proof -
  have "list_ex (\<lambda>n. n = [] \<or> length n > 255) ps \<longleftrightarrow> \<not> list_all (\<lambda>n. n \<noteq> [] \<and> length n \<le> 255) ps"
    for ps :: "bytes list" by (simp add: list_ex_iff list_all_iff not_le)
  then show ?thesis
    unfolding opts_sendable_def CH_PLAINTEXT_MAX_def
    by (cases "co_hostname opts"; cases "co_record_size_limit opts"; cases "co_alpn opts") (simp_all add: not_less)
qed

lemma client_hello_len_with_u24:
  "\<not> client_hello_len_with F opts > 5 + CH_PLAINTEXT_MAX \<Longrightarrow>
     ch_write_u24 (ch_body_len F (co_suites opts) (map_option length (co_hostname opts))
       (co_record_size_limit opts \<noteq> None) (co_session_id opts \<noteq> None) (alpn_ext_total (co_alpn opts))) =
     Inr (be_bytes 3 (ch_body_len F (co_suites opts) (map_option length (co_hostname opts))
       (co_record_size_limit opts \<noteq> None) (co_session_id opts \<noteq> None) (alpn_ext_total (co_alpn opts))))"
  by (simp add: client_hello_len_with_def ch_total_len_def CH_PLAINTEXT_MAX_def ch_write_u24_be)

lemma write_key_shares_present: "write_key_shares F cap out pk opts = Inr r \<Longrightarrow> shares_present F opts"
  by (auto simp: write_key_shares_def shares_present_def rbind_eq_Inr ok_or_def split: if_splits option.splits)

lemma write_client_hello_with_sendable:
  "write_client_hello_with F cap random pk opts = Inr out \<Longrightarrow> opts_sendable F opts"
  unfolding write_client_hello_guards write_client_hello_with_def Let_def
  by (auto simp only: rbind_eq_Inr sum.distinct dest: write_key_shares_present split: if_split_asm)

text \<open>
  C24: the ClientHello writer is exact in every build the source compiles.  It succeeds exactly
  when the host name, record size limit, ALPN names and key shares are admissible, the message
  fits one record and the buffer holds it; what it writes is then the RFC 8446 ClientHello, every
  nested length field equal to the length of what it prefixes, and it is as long as
  \<^verbatim>\<open>client_hello_len_with\<close> promised beforehand.
\<close>

theorem client_hello_exact:
  assumes F: "features_ok F" "opts_typed F opts" and pk: "length pk = PRIMARY_PUB_LEN F"
    and random: "length random = 32"
  shows "write_client_hello_with F cap random pk opts = Inr out \<longleftrightarrow>
    opts_sendable F opts \<and> client_hello_len_with F opts \<le> cap \<and>
    length out = client_hello_len_with F opts \<and> out = client_hello_bytes F random pk opts"
proof (cases "opts_sendable F opts")
  case True
  then have ok: "shares_present F opts" by (simp add: opts_sendable_def)
  note guards = True [unfolded write_client_hello_guards]
  have "write_client_hello_with F cap random pk opts = Inr out \<longleftrightarrow>
      length (client_hello_bytes F random pk opts) \<le> cap \<and> out = client_hello_bytes F random pk opts"
    unfolding client_hello_bytes_written [OF F ok pk random] write_client_hello_with_def Let_def
    by (simp only: guards if_False client_hello_len_with_u24 rbind_simps emit_client_hello simp_thms)
  then show ?thesis using True length_client_hello_bytes [OF F ok pk random] by auto
next
  case False
  then show ?thesis using write_client_hello_with_sendable [of F cap random pk opts out] by blast
qed

definition demo_features :: Features where
  "demo_features = \<lparr>f_x25519_kx = True, f_p256_kx = True, f_mlkem = False, f_rsa = False, f_mldsa = False,
     f_ecdsa = True, f_cipher_aes = True, f_chacha20 = True\<rparr>"

definition demo_opts :: ClientHelloOptions where
  "demo_opts = \<lparr>co_hostname = Some (replicate 11 0x61), co_record_size_limit = Some 1024, co_session_id = None,
     co_alpn = Some [[0x68, 0x32]], co_suites = AesOnly, co_mlkem_ek = None,
     co_p256_pub = Some (replicate 65 4)\<rparr>"

theorem client_hello_exact_witness:
  "\<exists>out. write_client_hello_with demo_features 300 (replicate 32 1) (replicate 32 2) demo_opts = Inr out \<and>
     length out = 227"
proof -
  have len: "client_hello_len_with demo_features demo_opts = 227" "PRIMARY_PUB_LEN demo_features = 32"
    "features_ok demo_features" "shares_present demo_features demo_opts" by code_simp+
  then have "opts_sendable demo_features demo_opts"
    by (simp add: opts_sendable_def demo_opts_def)
  moreover have "opts_typed demo_features demo_opts"
    by (simp add: opts_typed_def demo_opts_def demo_features_def P256_SHARE_BYTES_def)
  moreover note len
  ultimately show ?thesis
    using client_hello_exact [of demo_features demo_opts "replicate 32 2" "replicate 32 1" 300
        "client_hello_bytes demo_features (replicate 32 1) (replicate 32 2) demo_opts"]
    by (auto simp: opts_sendable_def length_client_hello_bytes)
qed

text \<open>The build-time assertion on the minimal ClientHello holds in every build.\<close>

lemma CLIENT_HELLO_LEN_asserted:
  "features_ok F \<Longrightarrow> CLIENT_HELLO_LEN F =
     117 + 2 * (CH_CIPHER_SUITES_COUNT F - 1) + 2 * (SIG_SCHEME_COUNT F - 1) + (KEY_SHARE_KEY_LEN F - 32) +
     P256_KX_ENTRY_LEN F + 2 * of_bool (f_p256_kx F \<and> f_x25519_kx F)"
  by (auto simp: features_ok_def CLIENT_HELLO_LEN_def client_hello_len_def ch_total_len_def ch_body_len_def
      ch_cipher_suites_field_len_def ch_n_suites_def ch_extensions_total_def CH_EXTENSIONS_FIXED_TOTAL_def
      EXT_SUPPORTED_VERSIONS_TOTAL_def EXT_SUPPORTED_GROUPS_TOTAL_def SUPPORTED_GROUPS_COUNT_def
      EXT_SIGNATURE_ALGORITHMS_TOTAL_def SIG_SCHEME_COUNT_def EXT_KEY_SHARE_TOTAL_def
      KEY_SHARE_EXT_DATA_LEN_def KEY_SHARE_LIST_LEN_def PRIMARY_KEY_SHARE_ENTRY_def P256_KX_ENTRY_LEN_def
      KEY_SHARE_KEY_LEN_def CH_CIPHER_SUITES_COUNT_def P256_SHARE_BYTES_def MLKEM768_EK_BYTES_def Let_def)

end
