(* ===== verification/Server_Hello.thy ===== *)
theory Server_Hello
  imports Client_Hello
begin

text \<open>
  The ServerHello parser of \<^verbatim>\<open>lib.rs\<close> and the bounds-checked \<^verbatim>\<open>Reader\<close> it is written with.  The
  reader keeps the buffer and a cursor as the source does; \<^verbatim>\<open>reads r bs r'\<close> says that the cursor
  moves over exactly the bytes \<^verbatim>\<open>bs\<close>, and every reader operation is characterised by it.  The
  shares a build compiles out are the value \<^verbatim>\<open>None\<close>.  \<^verbatim>\<open>usize\<close> has at least 24 bits, so the
  conversion in \<^verbatim>\<open>vec_u24\<close> does not fail.
\<close>

section \<open>Model\<close>

datatype ParseError =
    PE_Truncated
  | PE_UnexpectedContentType "8 word"
  | PE_UnexpectedHandshakeType "8 word"
  | PE_UnexpectedLegacyVersion "16 word"
  | PE_UnsupportedCipherSuite "16 word"
  | PE_UnexpectedCompressionMethod "8 word"
  | PE_BadSupportedVersions
  | PE_BadKeyShare
  | PE_TrailingBytes
  | PE_LengthMismatch
  | PE_UnknownExtension "16 word"
  | PE_DuplicateExtension "16 word"
  | PE_UnexpectedSessionIdEcho
  | PE_HelloRetryRequested
  | PE_DowngradeDetected
  | PE_DhAllZero

record Reader =
  rd_buf :: bytes
  rd_pos :: nat

definition rd_new :: "bytes \<Rightarrow> Reader" where
  "rd_new buf = \<lparr>rd_buf = buf, rd_pos = 0\<rparr>"

definition rd_remaining :: "Reader \<Rightarrow> nat" where
  "rd_remaining r = length (rd_buf r) - rd_pos r"

definition rd_at_end :: "Reader \<Rightarrow> bool" where
  "rd_at_end r \<longleftrightarrow> rd_pos r = length (rd_buf r)"

definition rd_take :: "nat \<Rightarrow> Reader \<Rightarrow> ParseError + bytes \<times> Reader" where
  "rd_take n r =
     (if rd_remaining r < n then Inl PE_Truncated
      else Inr (sub_range (rd_pos r) (rd_pos r + n) (rd_buf r), r\<lparr>rd_pos := rd_pos r + n\<rparr>))"

definition rd_u8 :: "Reader \<Rightarrow> ParseError + 8 word \<times> Reader" where
  "rd_u8 r = rbind (rd_take 1 r) (\<lambda>(bs, r). Inr (bs ! 0, r))"

definition rd_u16 :: "Reader \<Rightarrow> ParseError + 16 word \<times> Reader" where
  "rd_u16 r = rbind (rd_take 2 r) (\<lambda>(bs, r). Inr (from_be_bytes [bs ! 0, bs ! 1], r))"

definition rd_u24 :: "Reader \<Rightarrow> ParseError + 32 word \<times> Reader" where
  "rd_u24 r = rbind (rd_take 3 r) (\<lambda>(bs, r). Inr (from_be_bytes [0, bs ! 0, bs ! 1, bs ! 2], r))"

definition rd_vec_u8 :: "Reader \<Rightarrow> ParseError + bytes \<times> Reader" where
  "rd_vec_u8 r = rbind (rd_u8 r) (\<lambda>(n, r). rd_take (unat n) r)"

definition rd_vec_u16 :: "Reader \<Rightarrow> ParseError + bytes \<times> Reader" where
  "rd_vec_u16 r = rbind (rd_u16 r) (\<lambda>(n, r). rd_take (unat n) r)"

definition rd_vec_u24 :: "Reader \<Rightarrow> ParseError + bytes \<times> Reader" where
  "rd_vec_u24 r = rbind (rd_u24 r) (\<lambda>(n, r). rd_take (unat n) r)"

record ServerHelloView =
  sh_random :: bytes
  sh_session_id_echo :: bytes
  sh_cipher_suite :: "16 word"
  sh_selected_version :: "16 word"
  sh_selected_group :: "16 word"
  sh_x25519_share :: "bytes option"
  sh_hybrid_share :: "bytes option"
  sh_p256_share :: "bytes option"

text \<open>The variables the extension loop fills in.\<close>

record ShSelected =
  sel_version :: "16 word option"
  sel_group :: "16 word option"
  sel_x25519 :: "bytes option"
  sel_hybrid :: "bytes option"
  sel_p256 :: "bytes option"

definition sel_empty :: ShSelected where
  "sel_empty = \<lparr>sel_version = None, sel_group = None, sel_x25519 = None, sel_hybrid = None, sel_p256 = None\<rparr>"

definition try_array :: "nat \<Rightarrow> bytes \<Rightarrow> ParseError + bytes" where
  "try_array n key = (if length key = n then Inr key else Inl PE_BadKeyShare)"

definition sh_share :: "Features \<Rightarrow> 16 word \<Rightarrow> bytes \<Rightarrow> ShSelected \<Rightarrow> ParseError + ShSelected" where
  "sh_share F grp key sel =
     (if grp = KEY_SHARE_GROUP F then
        (if f_mlkem F then
           (if length key < MLKEM768_CT_BYTES then Inl PE_BadKeyShare
            else rbind (try_array 32 (drop MLKEM768_CT_BYTES key)) (\<lambda>x.
                   Inr (sel\<lparr>sel_x25519 := Some x, sel_hybrid := Some key\<rparr>)))
         else if f_x25519_kx F then
           rbind (try_array 32 key) (\<lambda>x. Inr (sel\<lparr>sel_x25519 := Some x\<rparr>))
         else
           rbind (try_array P256_SHARE_BYTES key) (\<lambda>p. Inr (sel\<lparr>sel_p256 := Some p\<rparr>)))
      else if f_p256_kx F \<and> f_x25519_kx F \<and> grp = NAMED_GROUP_SECP256R1 then
        rbind (try_array P256_SHARE_BYTES key) (\<lambda>p. Inr (sel\<lparr>sel_p256 := Some p\<rparr>))
      else Inl PE_BadKeyShare)"

definition sh_extension :: "Features \<Rightarrow> 16 word \<Rightarrow> bytes \<Rightarrow> ShSelected \<Rightarrow> ParseError + ShSelected" where
  "sh_extension F ext_type ext_data sel =
     (if ext_type = EXT_SUPPORTED_VERSIONS then
        (if sel_version sel \<noteq> None then Inl (PE_DuplicateExtension ext_type)
         else if length ext_data \<noteq> 2 then Inl PE_BadSupportedVersions
         else let v = from_be_bytes [ext_data ! 0, ext_data ! 1] in
           if v \<noteq> TLS_1_3 then Inl PE_BadSupportedVersions else Inr (sel\<lparr>sel_version := Some v\<rparr>))
      else if ext_type = EXT_KEY_SHARE then
        (if sel_group sel \<noteq> None then Inl (PE_DuplicateExtension ext_type)
         else
           rbind (rd_u16 (rd_new ext_data)) (\<lambda>(grp, kr).
           rbind (rd_vec_u16 kr) (\<lambda>(key, kr).
             if \<not> rd_at_end kr then Inl PE_BadKeyShare
             else rbind (sh_share F grp key sel) (\<lambda>sel. Inr (sel\<lparr>sel_group := Some grp\<rparr>)))))
      else Inl (PE_UnknownExtension ext_type))"

lemma rd_take_progress:
  "rd_take n r = Inr (bs, r') \<Longrightarrow> rd_remaining r' + n = rd_remaining r \<and> rd_buf r' = rd_buf r"
  by (auto simp: rd_take_def rd_remaining_def split: if_splits)

lemma rd_u16_progress: "rd_u16 r = Inr (v, r') \<Longrightarrow> rd_remaining r' + 2 = rd_remaining r"
  by (auto simp: rd_u16_def rbind_eq_Inr dest: rd_take_progress)

lemma rd_vec_u16_progress: "rd_vec_u16 r = Inr (v, r') \<Longrightarrow> rd_remaining r' + 2 \<le> rd_remaining r"
  by (fastforce simp: rd_vec_u16_def rbind_eq_Inr dest: rd_take_progress rd_u16_progress)

function sh_extensions :: "Features \<Rightarrow> Reader \<Rightarrow> ShSelected \<Rightarrow> ParseError + ShSelected" where
  "sh_extensions F e sel =
     (if rd_at_end e then Inr sel
      else
        rbind (rd_u16 e) (\<lambda>(ext_type, e1).
        rbind (rd_vec_u16 e1) (\<lambda>(ext_data, e2).
        rbind (sh_extension F ext_type ext_data sel) (\<lambda>sel. sh_extensions F e2 sel))))"
  by auto
termination
  by (relation "measure (\<lambda>(F, e, sel). rd_remaining e)") (auto dest!: rd_u16_progress rd_vec_u16_progress)

declare sh_extensions.simps [simp del]

definition sh_finish :: "Features \<Rightarrow> bytes \<Rightarrow> bytes \<Rightarrow> 16 word \<Rightarrow> ShSelected \<Rightarrow> ParseError + ServerHelloView" where
  "sh_finish F random sid suite sel =
     rbind (ok_or PE_BadKeyShare (sel_group sel)) (\<lambda>selected_group.
     if f_x25519_kx F \<and> selected_group = KEY_SHARE_GROUP F \<and> sel_x25519 sel = None then Inl PE_BadKeyShare else
     if \<not> f_x25519_kx F \<and> selected_group = KEY_SHARE_GROUP F \<and> sel_p256 sel = None then Inl PE_BadKeyShare else
     rbind (ok_or PE_BadSupportedVersions (sel_version sel)) (\<lambda>selected_version.
       Inr \<lparr>sh_random = random, sh_session_id_echo = sid, sh_cipher_suite = suite,
         sh_selected_version = selected_version, sh_selected_group = selected_group,
         sh_x25519_share = sel_x25519 sel, sh_hybrid_share = sel_hybrid sel,
         sh_p256_share = sel_p256 sel\<rparr>))"

definition parse_server_hello :: "Features \<Rightarrow> bytes \<Rightarrow> ParseError + ServerHelloView" where
  "parse_server_hello F input =
     rbind (rd_u8 (rd_new input)) (\<lambda>(content_type, r).
     if content_type \<noteq> CT_HANDSHAKE then Inl (PE_UnexpectedContentType content_type) else
     rbind (rd_u16 r) (\<lambda>(record_version, r).
     if record_version \<noteq> LEGACY_VERSION then Inl (PE_UnexpectedLegacyVersion record_version) else
     rbind (rd_vec_u16 r) (\<lambda>(record_body, r).
     if \<not> rd_at_end r then Inl PE_TrailingBytes else
     rbind (rd_u8 (rd_new record_body)) (\<lambda>(hs_type, hr).
     if hs_type \<noteq> HS_SERVER_HELLO then Inl (PE_UnexpectedHandshakeType hs_type) else
     rbind (rd_vec_u24 hr) (\<lambda>(hs_body, hr).
     if \<not> rd_at_end hr then Inl PE_LengthMismatch else
     rbind (rd_u16 (rd_new hs_body)) (\<lambda>(legacy_version, b).
     if legacy_version \<noteq> LEGACY_VERSION then Inl (PE_UnexpectedLegacyVersion legacy_version) else
     rbind (rd_take 32 b) (\<lambda>(random, b).
     if random = HRR_RANDOM then Inl PE_HelloRetryRequested else
     let suffix = drop 24 random in
     if suffix = DOWNGRADE_TLS12 \<or> suffix = DOWNGRADE_TLS11_OR_BELOW then Inl PE_DowngradeDetected else
     rbind (rd_vec_u8 b) (\<lambda>(session_id_echo, b).
     if length session_id_echo > LEGACY_SESSION_ID_LEN then Inl PE_UnexpectedSessionIdEcho else
     rbind (rd_u16 b) (\<lambda>(cipher_suite, b).
     if \<not> (cipher_suite = CIPHER_AES_128_GCM_SHA256 \<or>
           f_chacha20 F \<and> cipher_suite = CIPHER_CHACHA20_POLY1305_SHA256)
     then Inl (PE_UnsupportedCipherSuite cipher_suite) else
     rbind (rd_u8 b) (\<lambda>(compression, b).
     if compression \<noteq> 0 then Inl (PE_UnexpectedCompressionMethod compression) else
     rbind (rd_vec_u16 b) (\<lambda>(ext_body, b).
     if \<not> rd_at_end b then Inl PE_TrailingBytes else
     rbind (sh_extensions F (rd_new ext_body) sel_empty) (\<lambda>sel.
       sh_finish F random session_id_echo cipher_suite sel))))))))))))"

section \<open>Reading a buffer\<close>

text \<open>A reader in front of \<^verbatim>\<open>rest\<close>, having consumed \<^verbatim>\<open>pre\<close>.\<close>

definition rd_at :: "bytes \<Rightarrow> bytes \<Rightarrow> Reader" where
  "rd_at pre rest = \<lparr>rd_buf = pre @ rest, rd_pos = length pre\<rparr>"

named_theorems reader

lemma rd_new_at [reader]: "rd_new buf = rd_at [] buf"
  by (simp add: rd_new_def rd_at_def)

lemma rd_at_end_at [reader]: "rd_at_end (rd_at pre s) \<longleftrightarrow> s = []"
  by (simp add: rd_at_end_def rd_at_def)

lemma rd_take_at:
  "rd_take n (rd_at pre s) = (if length s < n then Inl PE_Truncated else Inr (take n s, rd_at (pre @ take n s) (drop n s)))"
  by (simp add: rd_take_def rd_remaining_def rd_at_def sub_range_def min_def)

lemma bind_take [reader]:
  "rbind (rd_take n (rd_at pre s)) f = Inr y \<longleftrightarrow>
     (\<exists>bs t. s = bs @ t \<and> length bs = n \<and> f (bs, rd_at (pre @ bs) t) = Inr y)"
proof
  assume "rbind (rd_take n (rd_at pre s)) f = Inr y"
  then show "\<exists>bs t. s = bs @ t \<and> length bs = n \<and> f (bs, rd_at (pre @ bs) t) = Inr y"
    by (intro exI [of _ "take n s"] exI [of _ "drop n s"]) (auto simp: rd_take_at not_less split: if_splits)
qed (auto simp: rd_take_at)

lemma bind_u8 [reader]:
  "rbind (rd_u8 (rd_at pre s)) f = Inr y \<longleftrightarrow> (\<exists>x t. s = [x] @ t \<and> f (x, rd_at (pre @ [x]) t) = Inr y)"
  by (cases s) (simp_all add: rd_u8_def rd_take_at)

lemma bind_u16 [reader]:
  "rbind (rd_u16 (rd_at pre s)) f = Inr y \<longleftrightarrow>
     (\<exists>x t. s = to_be_bytes x @ t \<and> f (x, rd_at (pre @ to_be_bytes x) t) = Inr y)" (is "?l \<longleftrightarrow> ?r")
proof
  assume ?l
  then have "2 \<le> length s" by (auto simp: rd_u16_def rd_take_at split: if_splits)
  then obtain a b t where s: "s = a # b # t" by (auto simp: numeral_2_eq_2 Suc_le_length_iff)
  have "to_be_bytes (from_be_bytes [a, b] :: 16 word) = [a, b]" by (simp add: to_from_be_bytes)
  with \<open>?l\<close> show ?r unfolding s
    by (intro exI [of _ "from_be_bytes [a, b]"] exI [of _ t]) (simp add: rd_u16_def rd_take_at)
next
  assume ?r
  then obtain x t where s: "s = to_be_bytes x @ t" "f (x, rd_at (pre @ to_be_bytes x) t) = Inr y" by blast
  obtain a b where ab: "to_be_bytes x = [a, b]" using length_two [of "to_be_bytes x"] by auto
  then have "from_be_bytes [a, b] = x" using from_to_be_bytes [of x] by simp
  with s show ?l by (simp add: ab rd_u16_def rd_take_at)
qed

text \<open>The three length-prefixed vectors are one scheme.\<close>

definition rd_vec :: "nat \<Rightarrow> Reader \<Rightarrow> ParseError + bytes \<times> Reader" where
  "rd_vec k r = rbind (rd_take k r) (\<lambda>(bs, r). rd_take (be_val bs) r)"

lemma rd_take_length: "rd_take n r = Inr (bs, r') \<Longrightarrow> length bs = n"
  by (auto simp: rd_take_def rd_remaining_def split: if_splits)

lemma rd_vecs:
  "rd_vec_u8 r = rd_vec 1 r" "rd_vec_u16 r = rd_vec 2 r" "rd_vec_u24 r = rd_vec 3 r"
proof -
  show "rd_vec_u8 r = rd_vec 1 r"
    by (cases "rd_take 1 r") (auto simp: rd_vec_u8_def rd_u8_def rd_vec_def length_one dest!: rd_take_length)
  show "rd_vec_u16 r = rd_vec 2 r"
    by (cases "rd_take 2 r")
      (auto simp: rd_vec_u16_def rd_u16_def rd_vec_def length_two unat_u16 simp del: be_val_Cons dest!: rd_take_length)
  show "rd_vec_u24 r = rd_vec 3 r"
    by (cases "rd_take 3 r")
      (auto simp: rd_vec_u24_def rd_u24_def rd_vec_def length_three unat_u24 simp del: be_val_Cons dest!: rd_take_length)
qed

lemma bind_vec:
  "rbind (rd_vec k (rd_at pre s)) f = Inr y \<longleftrightarrow>
     (\<exists>b t. s = be_bytes k (length b) @ b @ t \<and> length b < 256 ^ k \<and>
        f (b, rd_at (pre @ be_bytes k (length b) @ b) t) = Inr y)" (is "?l \<longleftrightarrow> ?r")
proof -
  have "rbind (rd_vec k (rd_at pre s)) f = rbind (rd_take k (rd_at pre s)) (\<lambda>(n, r). rbind (rd_take (be_val n) r) f)"
    by (cases "rd_take k (rd_at pre s)") (auto simp: rd_vec_def)
  then have "?l \<longleftrightarrow> (\<exists>n t. s = n @ t \<and> length n = k \<and> (\<exists>b u. t = b @ u \<and> length b = be_val n \<and>
      f (b, rd_at ((pre @ n) @ b) u) = Inr y))"
    by (simp add: bind_take)
  also have "\<dots> \<longleftrightarrow> (\<exists>n b u. s = n @ b @ u \<and> length n = k \<and> length b = be_val n \<and>
      f (b, rd_at (pre @ n @ b) u) = Inr y)" by auto
  also have "\<dots> \<longleftrightarrow> (\<exists>n b u. s = n @ b @ u \<and> n = be_bytes k (length b) \<and> length b < 256 ^ k \<and>
      f (b, rd_at (pre @ n @ b) u) = Inr y)"
  proof -
    have "length n = k \<and> length b = be_val n \<longleftrightarrow> n = be_bytes k (length b) \<and> length b < 256 ^ k"
      for n b :: bytes
      using be_bytes_be_val [of n] be_val_less [of n] be_val_be_bytes [of k "length b"] by auto
    then show ?thesis by blast
  qed
  finally show ?thesis by blast
qed

lemma bind_vecs [reader]:
  "rbind (rd_vec_u8 (rd_at pre s)) f = Inr y \<longleftrightarrow>
     (\<exists>b t. s = vec8 b @ t \<and> length b < 2 ^ 8 \<and> f (b, rd_at (pre @ vec8 b) t) = Inr y)"
  "rbind (rd_vec_u16 (rd_at pre s)) f = Inr y \<longleftrightarrow>
     (\<exists>b t. s = vec16 b @ t \<and> length b < 2 ^ 16 \<and> f (b, rd_at (pre @ vec16 b) t) = Inr y)"
  "rbind (rd_vec_u24 (rd_at pre s)) f = Inr y \<longleftrightarrow>
     (\<exists>b t. s = vec24 b @ t \<and> length b < 2 ^ 24 \<and> f (b, rd_at (pre @ vec24 b) t) = Inr y)"
  unfolding rd_vecs bind_vec vec8_def vec16_def vec24_def by simp_all

section \<open>What the parser accepts\<close>

definition share_len :: "Features \<Rightarrow> 16 word \<Rightarrow> nat option" where
  "share_len F grp =
     (if grp = KEY_SHARE_GROUP F
      then Some (if f_mlkem F then MLKEM768_CT_BYTES + 32 else if f_x25519_kx F then 32 else P256_SHARE_BYTES)
      else if f_p256_kx F \<and> f_x25519_kx F \<and> grp = NAMED_GROUP_SECP256R1 then Some P256_SHARE_BYTES else None)"

definition share_sel :: "Features \<Rightarrow> 16 word \<Rightarrow> bytes \<Rightarrow> ShSelected \<Rightarrow> ShSelected" where
  "share_sel F grp key sel =
     (if grp = KEY_SHARE_GROUP F \<and> f_mlkem F
      then sel\<lparr>sel_x25519 := Some (drop MLKEM768_CT_BYTES key), sel_hybrid := Some key\<rparr>
      else if grp = KEY_SHARE_GROUP F \<and> f_x25519_kx F then sel\<lparr>sel_x25519 := Some key\<rparr>
      else sel\<lparr>sel_p256 := Some key\<rparr>)"

lemma try_array_eq [simp]: "try_array n key = Inr x \<longleftrightarrow> length key = n \<and> x = key"
  by (auto simp: try_array_def)

lemma sh_share_ok:
  "sh_share F grp key sel = Inr sel' \<longleftrightarrow> share_len F grp = Some (length key) \<and> sel' = share_sel F grp key sel"
  by (auto simp: sh_share_def share_len_def share_sel_def rbind_eq_Inr MLKEM768_CT_BYTES_def)

lemma to_be_bytes_pair: "length d = 2 \<Longrightarrow> from_be_bytes [d ! 0, d ! 1] = (v :: 16 word) \<longleftrightarrow> d = to_be_bytes v"
proof -
  assume "length d = 2"
  then obtain a b where "d = [a, b]" by (auto simp: length_two)
  then show ?thesis
    using from_to_be_bytes [of v] to_from_be_bytes [where 'a = 16 and bs = "[a, b]"] by auto
qed

lemma sh_extension_ok:
  "sh_extension F t d sel = Inr sel' \<longleftrightarrow>
     t = EXT_SUPPORTED_VERSIONS \<and> sel_version sel = None \<and> d = to_be_bytes TLS_1_3 \<and>
       sel' = sel\<lparr>sel_version := Some TLS_1_3\<rparr> \<or>
     t = EXT_KEY_SHARE \<and> sel_group sel = None \<and>
       (\<exists>grp key. d = to_be_bytes grp @ vec16 key \<and> length key < 2 ^ 16 \<and> share_len F grp = Some (length key) \<and>
          sel' = (share_sel F grp key sel)\<lparr>sel_group := Some grp\<rparr>)"
proof -
  have ne: "EXT_SUPPORTED_VERSIONS \<noteq> EXT_KEY_SHARE" by (simp add: tls_consts)
  consider "t = EXT_SUPPORTED_VERSIONS" | "t = EXT_KEY_SHARE" | "t \<noteq> EXT_SUPPORTED_VERSIONS" "t \<noteq> EXT_KEY_SHARE"
    by blast
  then show ?thesis
  proof cases
    case 1
    then show ?thesis using ne to_be_bytes_pair [of d TLS_1_3] by (auto simp: sh_extension_def Let_def)
  next
    case 2
    then show ?thesis using ne
      by (auto simp: sh_extension_def reader if_Inl_eq_Inr sh_share_ok
          rbind_eq_Inr [of "sh_share F g k sel" for g k])
  next
    case 3
    then show ?thesis by (simp add: sh_extension_def)
  qed
qed

fun sh_fold :: "Features \<Rightarrow> (16 word \<times> bytes) list \<Rightarrow> ShSelected \<Rightarrow> ParseError + ShSelected" where
  "sh_fold F [] sel = Inr sel"
| "sh_fold F ((t, d) # exts) sel = rbind (sh_extension F t d sel) (sh_fold F exts)"

lemma extension_ne [simp]: "extension x \<noteq> []"
  by (cases x) (simp flip: length_greater_0_conv)

lemma ex_Cons_pair:
  "\<not> Q [] \<Longrightarrow> (\<exists>xs. Q xs) \<longleftrightarrow> (\<exists>a b ys. Q ((a, b) # ys))"
  by (metis list.exhaust surj_pair)

lemma sh_extensions_ok:
  "sh_extensions F (rd_at pre s) sel = Inr sel' \<longleftrightarrow>
     (\<exists>exts. s = concat (map extension exts) \<and> list_all (\<lambda>(t, d). length d < 2 ^ 16) exts \<and>
        sh_fold F exts sel = Inr sel')"
proof (induction "length s" arbitrary: pre s sel rule: less_induct)
  case less
  show ?case
  proof (cases "s = []")
    case True
    then have "s = concat (map extension exts) \<longleftrightarrow> exts = []" for exts by (cases exts) auto
    with True show ?thesis by (subst sh_extensions.simps) (simp add: reader)
  next
    case False
    then have "sh_extensions F (rd_at pre s) sel = Inr sel' \<longleftrightarrow>
        (\<exists>t d u. s = extension (t, d) @ u \<and> length d < 2 ^ 16 \<and>
          (\<exists>sel1. sh_extension F t d sel = Inr sel1 \<and>
            sh_extensions F (rd_at ((pre @ to_be_bytes t) @ vec16 d) u) sel1 = Inr sel'))"
      by (subst sh_extensions.simps) (auto simp: reader rbind_eq_Inr [of "sh_extension F t d sel" for t d] extension_def)
    also have "\<dots> \<longleftrightarrow> (\<exists>t d u. s = extension (t, d) @ u \<and> length d < 2 ^ 16 \<and>
          (\<exists>sel1. sh_extension F t d sel = Inr sel1 \<and>
            (\<exists>exts. u = concat (map extension exts) \<and> list_all (\<lambda>(t, d). length d < 2 ^ 16) exts \<and>
              sh_fold F exts sel1 = Inr sel')))"
      using less.hyps by (auto cong: conj_cong)
    finally have step: "sh_extensions F (rd_at pre s) sel = Inr sel' \<longleftrightarrow>
        (\<exists>t d exts. s = concat (map extension ((t, d) # exts)) \<and>
          list_all (\<lambda>(t, d). length d < 2 ^ 16) ((t, d) # exts) \<and> sh_fold F ((t, d) # exts) sel = Inr sel')"
      by (simp add: rbind_eq_Inr) blast
    show ?thesis unfolding step by (rule ex_Cons_pair [symmetric]) (simp add: False)
  qed
qed

text \<open>The two extensions of an acceptable ServerHello, in either order.\<close>

definition sh_exts :: "bool \<Rightarrow> 16 word \<Rightarrow> bytes \<Rightarrow> (16 word \<times> bytes) list" where
  "sh_exts flip grp key =
     (let v = (EXT_SUPPORTED_VERSIONS, to_be_bytes TLS_1_3); k = (EXT_KEY_SHARE, to_be_bytes grp @ vec16 key)
      in if flip then [k, v] else [v, k])"

definition sh_selected :: "Features \<Rightarrow> 16 word \<Rightarrow> bytes \<Rightarrow> ShSelected" where
  "sh_selected F grp key =
     (share_sel F grp key sel_empty)\<lparr>sel_version := Some TLS_1_3, sel_group := Some grp\<rparr>"

lemma share_sel_other [simp]:
  "sel_version (share_sel F grp key sel) = sel_version sel" "sel_group (share_sel F grp key sel) = sel_group sel"
  "share_sel F grp key (sel\<lparr>sel_version := v\<rparr>) = (share_sel F grp key sel)\<lparr>sel_version := v\<rparr>"
  by (simp_all add: share_sel_def)

lemma share_len_bound: "share_len F grp = Some n \<Longrightarrow> n \<le> 1120"
  by (auto simp: share_len_def MLKEM768_CT_BYTES_def P256_SHARE_BYTES_def split: if_splits)

lemma sel_empty_simps [simp]: "sel_version sel_empty = None" "sel_group sel_empty = None"
  by (simp_all add: sel_empty_def)

lemma sh_fold_both:
  "sh_fold F exts sel_empty = Inr sel \<and> sel_version sel \<noteq> None \<and> sel_group sel \<noteq> None \<longleftrightarrow>
     (\<exists>flip grp key. exts = sh_exts flip grp key \<and> share_len F grp = Some (length key) \<and>
        sel = sh_selected F grp key)" (is "?l \<longleftrightarrow> ?r")
proof
  assume ?l
  consider "exts = []" | a b where "exts = [(a, b)]" | a b c d where "exts = [(a, b), (c, d)]"
    | a b c d e f rest where "exts = (a, b) # (c, d) # (e, f) # rest"
    by (metis list.exhaust surj_pair)
  then show ?r
  proof cases
    case 3
    with \<open>?l\<close> obtain sel1 where steps: "sh_extension F a b sel_empty = Inr sel1" "sh_extension F c d sel1 = Inr sel"
      and set: "sel_version sel \<noteq> None" "sel_group sel \<noteq> None" by (auto simp: rbind_eq_Inr)
    from steps(1) [unfolded sh_extension_ok]
    consider (version) "a = EXT_SUPPORTED_VERSIONS" "b = to_be_bytes TLS_1_3" "sel1 = sel_empty\<lparr>sel_version := Some TLS_1_3\<rparr>"
      | (share) grp key where "a = EXT_KEY_SHARE" "b = to_be_bytes grp @ vec16 key" "share_len F grp = Some (length key)"
        "sel1 = (share_sel F grp key sel_empty)\<lparr>sel_group := Some grp\<rparr>" by blast
    then show ?thesis
    proof cases
      case version
      with steps(2) [unfolded sh_extension_ok] set obtain grp key where "c = EXT_KEY_SHARE"
        "d = to_be_bytes grp @ vec16 key" "share_len F grp = Some (length key)" "sel = sh_selected F grp key"
        by (auto simp: sh_selected_def)
      then show ?thesis using 3 version
        by (intro exI [of _ False] exI [of _ grp] exI [of _ key]) (simp add: sh_exts_def)
    next
      case share
      with steps(2) [unfolded sh_extension_ok] set have "c = EXT_SUPPORTED_VERSIONS" "d = to_be_bytes TLS_1_3"
        "sel = sh_selected F grp key" by (auto simp: sh_selected_def)
      then show ?thesis using 3 share
        by (intro exI [of _ True] exI [of _ grp] exI [of _ key]) (simp add: sh_exts_def)
    qed
  qed (use \<open>?l\<close> in \<open>auto simp: rbind_eq_Inr sh_extension_ok\<close>)
next
  assume ?r
  then obtain flip grp key where *: "exts = sh_exts flip grp key" "share_len F grp = Some (length key)"
    "sel = sh_selected F grp key" by blast
  then have "length key < 2 ^ 16" using share_len_bound [OF *(2)] by simp
  then show ?l
    by (cases flip) (auto simp: * sh_exts_def Let_def sh_selected_def rbind_eq_Inr sh_extension_ok
      intro!: exI [of _ grp] exI [of _ key])
qed

definition server_hello_frame :: "bytes \<Rightarrow> bytes \<Rightarrow> 16 word \<Rightarrow> bytes \<Rightarrow> bytes" where
  "server_hello_frame random sid suite ext_body =
     [CT_HANDSHAKE] @ to_be_bytes LEGACY_VERSION @
     vec16 ([HS_SERVER_HELLO] @
       vec24 (to_be_bytes LEGACY_VERSION @ random @ vec8 sid @ to_be_bytes suite @ [0] @ vec16 ext_body))"

definition server_view :: "Features \<Rightarrow> bytes \<Rightarrow> bytes \<Rightarrow> 16 word \<Rightarrow> 16 word \<Rightarrow> bytes \<Rightarrow> ServerHelloView" where
  "server_view F random sid suite grp key =
     (let x25519 = (if grp = KEY_SHARE_GROUP F \<and> f_mlkem F then Some (drop MLKEM768_CT_BYTES key)
                    else if grp = KEY_SHARE_GROUP F \<and> f_x25519_kx F then Some key else None)
      in \<lparr>sh_random = random, sh_session_id_echo = sid, sh_cipher_suite = suite, sh_selected_version = TLS_1_3,
         sh_selected_group = grp, sh_x25519_share = x25519,
         sh_hybrid_share = (if grp = KEY_SHARE_GROUP F \<and> f_mlkem F then Some key else None),
         sh_p256_share = (if x25519 = None then Some key else None)\<rparr>)"

definition random_ok :: "bytes \<Rightarrow> bool" where
  "random_ok random \<longleftrightarrow> length random = 32 \<and> random \<noteq> HRR_RANDOM \<and>
     drop 24 random \<noteq> DOWNGRADE_TLS12 \<and> drop 24 random \<noteq> DOWNGRADE_TLS11_OR_BELOW"

definition suite_accepted :: "Features \<Rightarrow> 16 word \<Rightarrow> bool" where
  "suite_accepted F suite \<longleftrightarrow> suite = CIPHER_AES_128_GCM_SHA256 \<or>
     f_chacha20 F \<and> suite = CIPHER_CHACHA20_POLY1305_SHA256"

lemma parse_server_hello_frame:
  "parse_server_hello F input = Inr v \<longleftrightarrow>
     (\<exists>random sid suite ext_body sel. input = server_hello_frame random sid suite ext_body \<and>
        length (server_hello_frame random sid suite ext_body) < 5 + 2 ^ 16 \<and> random_ok random \<and>
        length sid \<le> LEGACY_SESSION_ID_LEN \<and> suite_accepted F suite \<and>
        sh_extensions F (rd_at [] ext_body) sel_empty = Inr sel \<and> sh_finish F random sid suite sel = Inr v)"
  (is "?l \<longleftrightarrow> ?r")
proof -
  let ?frame = server_hello_frame
  have "?l \<longleftrightarrow> (\<exists>random sid suite ext_body sel. input = ?frame random sid suite ext_body \<and>
      length (?frame random sid suite ext_body) < 5 + 2 ^ 16 \<and>
      length (?frame random sid suite ext_body) < 9 + 2 ^ 24 \<and> random_ok random \<and> length sid < 2 ^ 8 \<and>
      length sid \<le> LEGACY_SESSION_ID_LEN \<and> suite_accepted F suite \<and> length ext_body < 2 ^ 16 \<and>
      sh_extensions F (rd_at [] ext_body) sel_empty = Inr sel \<and> sh_finish F random sid suite sel = Inr v)"
    unfolding parse_server_hello_def suite_accepted_def [symmetric] server_hello_frame_def random_ok_def
    by (simp add: reader if_Inl_eq_Inr rbind_eq_Inr [of "sh_extensions F r sel" for r sel] Let_def
        split del: if_split) (simp del: ex_simps add: ex_simps [symmetric] not_less)
  moreover have "length (?frame random sid suite ext_body) < 5 + 2 ^ 16 \<and> length sid \<le> LEGACY_SESSION_ID_LEN \<Longrightarrow>
      length (?frame random sid suite ext_body) < 9 + 2 ^ 24 \<and> length sid < 2 ^ 8 \<and> length ext_body < 2 ^ 16"
    for random sid suite ext_body by (simp add: server_hello_frame_def LEGACY_SESSION_ID_LEN_def)
  ultimately show ?thesis by blast
qed

lemma sh_finish_selected:
  "features_ok F \<Longrightarrow> share_len F grp = Some (length key) \<Longrightarrow>
     sh_finish F random sid suite (sh_selected F grp key) = Inr (server_view F random sid suite grp key)"
  by (auto simp: sh_finish_def sh_selected_def server_view_def share_sel_def share_len_def sel_empty_def
      features_ok_def Let_def)

lemma sh_finish_set: "sh_finish F random sid suite sel = Inr v \<Longrightarrow> sel_version sel \<noteq> None \<and> sel_group sel \<noteq> None"
  by (auto simp: sh_finish_def result_simps)

lemma length_sh_exts:
  "share_len F grp = Some (length key) \<Longrightarrow> length (concat (map extension (sh_exts flip grp key))) \<le> 1134 \<and>
     list_all (\<lambda>(t, d). length d < 2 ^ 16) (sh_exts flip grp key)"
  using share_len_bound [of F grp "length key"] by (simp add: sh_exts_def Let_def)

text \<open>
  C23: in every build, the ServerHello parser accepts exactly the ServerHello records of the locked
  profile: one handshake record holding one ServerHello, a random that is neither the
  HelloRetryRequest value nor ends in a downgrade sentinel, an echoed session id of at most 32
  bytes, an accepted suite, compression 0, and as its only extensions TLS 1.3 in
  \<^verbatim>\<open>supported_versions\<close> and, in \<^verbatim>\<open>key_share\<close>, one share of an advertised group with that group's key
  length, in either order.  The view it returns is then determined by those fields.
\<close>

theorem server_hello_exact:
  assumes "features_ok F"
  shows "parse_server_hello F input = Inr v \<longleftrightarrow>
    (\<exists>flip random sid suite grp key.
       input = server_hello_frame random sid suite (concat (map extension (sh_exts flip grp key))) \<and>
       random_ok random \<and> length sid \<le> LEGACY_SESSION_ID_LEN \<and> suite_accepted F suite \<and>
       share_len F grp = Some (length key) \<and> v = server_view F random sid suite grp key)"
  (is "?l \<longleftrightarrow> ?r")
proof
  assume ?l
  then obtain random sid suite exts sel where
    a: "input = server_hello_frame random sid suite (concat (map extension exts))" "random_ok random"
      "length sid \<le> LEGACY_SESSION_ID_LEN" "suite_accepted F suite"
    and fold: "sh_fold F exts sel_empty = Inr sel" and fin: "sh_finish F random sid suite sel = Inr v"
    unfolding parse_server_hello_frame sh_extensions_ok by blast
  obtain flip grp key where "exts = sh_exts flip grp key" "share_len F grp = Some (length key)"
    "sel = sh_selected F grp key"
    using sh_fold_both [of F exts sel] fold sh_finish_set [OF fin] by blast
  moreover from this have "v = server_view F random sid suite grp key"
    using fin sh_finish_selected [OF assms] by simp
  ultimately show ?r using a by blast
next
  assume ?r
  then obtain flip random sid suite grp key where
    a: "input = server_hello_frame random sid suite (concat (map extension (sh_exts flip grp key)))"
      "random_ok random" "length sid \<le> LEGACY_SESSION_ID_LEN" "suite_accepted F suite"
      "share_len F grp = Some (length key)" "v = server_view F random sid suite grp key" by blast
  have "sh_extensions F (rd_at [] (concat (map extension (sh_exts flip grp key)))) sel_empty =
      Inr (sh_selected F grp key)"
    unfolding sh_extensions_ok using sh_fold_both [of F] length_sh_exts [OF a(5)] a(5) by blast
  moreover have "length (server_hello_frame random sid suite (concat (map extension (sh_exts flip grp key)))) < 5 + 2 ^ 16"
    using length_sh_exts [OF a(5), of flip] a(2,3)
    by (simp add: server_hello_frame_def random_ok_def LEGACY_SESSION_ID_LEN_def)
  ultimately show ?l
    unfolding parse_server_hello_frame using a sh_finish_selected [OF assms a(5)] by blast
qed

theorem server_hello_exact_witness:
  "parse_server_hello demo_features (server_hello_frame (replicate 32 0x55) [] CIPHER_AES_128_GCM_SHA256
       (concat (map extension (sh_exts True NAMED_GROUP_X25519 (replicate 32 9))))) =
     Inr (server_view demo_features (replicate 32 0x55) [] CIPHER_AES_128_GCM_SHA256 NAMED_GROUP_X25519
       (replicate 32 9))"
proof -
  have "features_ok demo_features" "random_ok (replicate 32 0x55)"
    "suite_accepted demo_features CIPHER_AES_128_GCM_SHA256"
    "share_len demo_features NAMED_GROUP_X25519 = Some (length (replicate 32 (9 :: 8 word)))" by code_simp+
  then show ?thesis
    by (subst server_hello_exact) (auto intro!: exI)
qed

end
