(* ===== verification/Buffer_Dims.thy ===== *)
theory Buffer_Dims
  imports Client_Flight Server_Hello
begin

text \<open>
  The sizes of \<^verbatim>\<open>client/scratch.rs\<close>: the record-size-limit type with its validated range, and the
  floors the receive and send buffers are checked against before a connection is opened.
\<close>

section \<open>Model\<close>

definition TLS_HEADER :: nat where
  "TLS_HEADER = 5"

definition AEAD_TAG :: nat where
  "AEAD_TAG = 16"

definition RECORD_OVERHEAD :: nat where
  "RECORD_OVERHEAD = TLS_HEADER + AEAD_TAG"

definition PROTO_MAX_INNER_PLAINTEXT :: "16 word" where
  "PROTO_MAX_INNER_PLAINTEXT = 16385"

definition MIN_RECORD_SIZE_LIMIT :: "16 word" where
  "MIN_RECORD_SIZE_LIMIT = 64"

datatype RecordSizeLimit = RecordSizeLimit (rsl_get: "16 word")

definition rsl_DEFAULT :: RecordSizeLimit where
  "rsl_DEFAULT = RecordSizeLimit PROTO_MAX_INNER_PLAINTEXT"

definition rsl_try_from :: "16 word \<Rightarrow> RecordSizeLimit option" where
  "rsl_try_from value =
     (if MIN_RECORD_SIZE_LIMIT \<le> value \<and> value \<le> PROTO_MAX_INNER_PLAINTEXT
      then Some (RecordSizeLimit value) else None)"

definition SERVER_HELLO_RECORD_LEN :: "Features \<Rightarrow> nat" where
  "SERVER_HELLO_RECORD_LEN F = (if f_mlkem F then 95 + MLKEM768_CT_BYTES else 95)"

definition MIN_RECV :: "Features \<Rightarrow> nat" where
  "MIN_RECV F =
     (let proto_floor = unat MIN_RECORD_SIZE_LIMIT + RECORD_OVERHEAD
      in if SERVER_HELLO_RECORD_LEN F > proto_floor then SERVER_HELLO_RECORD_LEN F else proto_floor)"

definition MIN_SEND_STANDARD :: nat where
  "MIN_SEND_STANDARD =
     max (max CLIENT_FINISHED_LEN (TLS_HEADER + AEAD_TAG + 2 + 1)) (TLS_HEADER + AEAD_TAG + 1 + 1)"

definition client_auth_send_floor :: "nat \<Rightarrow> nat" where
  "client_auth_send_floor max_flight =
     (if max_flight = 0 then 0
      else let size = unat MIN_RECORD_SIZE_LIMIT - CONTENT_TYPE_LEN;
               records = (max_flight + size - 1) div size
           in max_flight + records * (RECORD_OVERHEAD + CONTENT_TYPE_LEN))"

section \<open>Bounds\<close>

definition rsl_ok :: "RecordSizeLimit \<Rightarrow> bool" where
  "rsl_ok r \<longleftrightarrow> 64 \<le> unat (rsl_get r) \<and> unat (rsl_get r) \<le> 2 ^ 14 + 1"

lemma rsl_ok_range: "rsl_ok rsl_DEFAULT" "rsl_try_from v = Some r \<Longrightarrow> rsl_ok r"
  by (auto simp: rsl_ok_def rsl_DEFAULT_def rsl_try_from_def PROTO_MAX_INNER_PLAINTEXT_def
      MIN_RECORD_SIZE_LIMIT_def word_le_nat_alt split: if_splits)

lemma client_auth_send_floor_eq:
  "client_auth_send_floor n = n + 22 * ((n + 62) div 63)"
  by (simp add: client_auth_send_floor_def MIN_RECORD_SIZE_LIMIT_def RECORD_OVERHEAD_def TLS_HEADER_def AEAD_TAG_def
      CONTENT_TYPE_LEN_def Let_def add.commute [of 62])

lemma min_recv_eq: "MIN_RECV F = (if f_mlkem F then 1183 else 95)"
  by (simp add: MIN_RECV_def SERVER_HELLO_RECORD_LEN_def MIN_RECORD_SIZE_LIMIT_def RECORD_OVERHEAD_def TLS_HEADER_def
      AEAD_TAG_def MLKEM768_CT_BYTES_def)

text \<open>The receive floor holds a ServerHello with an empty session id and an X25519 share only: a record the
  parser accepts is longer by the echoed session id, and by 33 bytes when P-256 is selected.\<close>

lemma server_hello_record_len:
  assumes "share_len F grp = Some (length key)"
  shows "length (server_hello_frame random sid suite (concat (map extension (sh_exts flip grp key)))) =
    31 + length random + length sid + length key"
  by (cases flip) (simp_all add: server_hello_frame_def sh_exts_def Let_def)

end
