(* ===== verification/Connection.thy ===== *)
theory Connection
  imports Client_Auth Buffer_Dims Flight_Reassembler
begin

unbundle bit_operations_syntax

text \<open>
  The typestate connection of \<^verbatim>\<open>connection.rs\<close>.  Each state is a record that carries the transcript,
  and each transition a function from one record to the next, so a wrong call is a type error as in
  the source.  The cipher suites and the key-exchange groups are parameters (\<^verbatim>\<open>TlsSuite\<close>,
  \<^verbatim>\<open>KxBackend\<close>); the ephemeral secrets are values of an arbitrary type.  A function that decrypts in
  place returns the record as it leaves it.  Sequence numbers are 64-bit words and wrap.
\<close>

section \<open>Model\<close>

datatype ConnectionError =
    CE_ClientHello ClientHelloError
  | CE_Parse ParseError
  | CE_Hkdf HkdfLabelError
  | CE_Flight FlightError
  | CE_Decrypt DecryptError
  | CE_Encrypt EncryptError
  | CE_Transcript TranscriptError
  | CE_Reassembly ReassemblyError
  | CE_ClientFinished ClientFinishedError
  | CE_ClientAuth ClientAuthFlightError
  | CE_IncompleteFlight
  | CE_UnexpectedSuite "16 word"
  | CE_Alert "8 word" "8 word"
  | CE_UnknownContentType "8 word"

text \<open>Key exchange: deriving the shared secret of a group from the ephemeral secret and the share.\<close>

record 'k KxBackend =
  x25519_derive :: "'k \<Rightarrow> bytes \<Rightarrow> bytes option"
  mlkem_derive :: "'k \<Rightarrow> bytes \<Rightarrow> bytes option"
  p256_derive :: "'k \<Rightarrow> bytes \<Rightarrow> bytes option"

record 'k KxSecrets =
  ks_x25519 :: 'k
  ks_mlkem :: 'k
  ks_p256 :: 'k

record 'k Init =
  in_transcript :: TranscriptHash
  in_client_random :: bytes
  in_secrets :: "'k KxSecrets"

record 'k WaitServerHello =
  wh_transcript :: TranscriptHash
  wh_session_id :: "bytes option"
  wh_secrets :: "'k KxSecrets"
  wh_advertised :: SuiteList

record WaitServerFlight =
  wf_transcript :: TranscriptHash
  wf_hs :: bytes
  wf_c_hs_ts :: bytes
  wf_s_hs_ts :: bytes
  wf_s_hs_keys :: RecordKeys
  wf_seq_in :: "64 word"

record ServerFlightDone =
  fd_transcript :: TranscriptHash
  fd_hs :: bytes
  fd_c_hs_ts :: bytes
  fd_server_pubkey :: ServerPubkey

record AppData =
  ad_transcript :: TranscriptHash
  ad_c_ap_keys :: RecordKeys
  ad_s_ap_keys :: RecordKeys
  ad_c_ap_ts :: bytes
  ad_s_ap_ts :: bytes
  ad_seq_out :: "64 word"
  ad_seq_in :: "64 word"

datatype NegotiatedSuite = NegAes128Gcm WaitServerFlight | NegChaCha20Poly1305 WaitServerFlight

datatype FlightStep = FlightPending | FlightReady

definition CH_SCRATCH :: "Features \<Rightarrow> nat" where
  "CH_SCRATCH F = (if f_mlkem F then 2048 else 768)"

definition Init_new :: "bytes \<Rightarrow> 'k KxSecrets \<Rightarrow> 'k Init" where
  "Init_new client_random secrets =
     \<lparr>in_transcript = TranscriptHash_new, in_client_random = client_random, in_secrets = secrets\<rparr>"

fun client_hello_error :: "ClientHelloError \<Rightarrow> ConnectionError" where
  "client_hello_error CH_Write = CE_ClientHello CH_MessageTooLong"
| "client_hello_error e = CE_ClientHello e"

definition conn_write_client_hello ::
  "Features \<Rightarrow> nat \<Rightarrow> 'k Init \<Rightarrow> bytes \<Rightarrow> ClientHelloOptions \<Rightarrow> ConnectionError + bytes \<times> 'k WaitServerHello" where
  "conn_write_client_hello F room conn primary_pub opts =
     rbind (map_err client_hello_error
       (write_client_hello_with F (CH_SCRATCH F) (in_client_random conn) primary_pub opts)) (\<lambda>ch_bytes.
     if room < length ch_bytes then Inl (CE_ClientHello CH_Write)
     else
       rbind (map_err CE_Transcript (update_record (in_transcript conn) ch_bytes)) (\<lambda>transcript.
         Inr (ch_bytes, \<lparr>wh_transcript = transcript, wh_session_id = co_session_id opts,
           wh_secrets = in_secrets conn, wh_advertised = co_suites opts\<rparr>)))"

definition advertised_ok :: "Features \<Rightarrow> SuiteList \<Rightarrow> 16 word \<Rightarrow> bool" where
  "advertised_ok F advertised suite =
     (if f_cipher_aes F \<and> suite = CIPHER_AES_128_GCM_SHA256 then
        (if f_chacha20 F then advertised \<noteq> ChaChaOnly else True)
      else if f_chacha20 F \<and> suite = CIPHER_CHACHA20_POLY1305_SHA256 then
        advertised = SuiteDefault \<or> advertised = ChaChaOnly
      else False)"

definition derive_ikm ::
  "Features \<Rightarrow> 'k KxBackend \<Rightarrow> 'k KxSecrets \<Rightarrow> ServerHelloView \<Rightarrow> ConnectionError + bytes" where
  "derive_ikm F KX secrets sh =
     (let p256_selected = (f_p256_kx F \<and> sh_selected_group sh = NAMED_GROUP_SECP256R1) in
      if p256_selected then
        rbind (ok_or (CE_Parse PE_BadKeyShare) (sh_p256_share sh)) (\<lambda>server_share.
          ok_or (CE_Parse PE_DhAllZero) (p256_derive KX (ks_p256 secrets) server_share))
      else if \<not> f_x25519_kx F then Inl (CE_Parse PE_BadKeyShare)
      else if f_mlkem F then
        rbind (ok_or (CE_Parse PE_BadKeyShare) (sh_hybrid_share sh)) (\<lambda>server_share.
          ok_or (CE_Parse PE_DhAllZero) (mlkem_derive KX (ks_mlkem secrets) server_share))
      else
        rbind (ok_or (CE_Parse PE_BadKeyShare) (sh_x25519_share sh)) (\<lambda>server_share.
          ok_or (CE_Parse PE_DhAllZero) (x25519_derive KX (ks_x25519 secrets) server_share)))"

record TlsSuites =
  aes_suite :: TlsSuite
  chacha_suite :: TlsSuite

definition read_server_hello ::
  "Features \<Rightarrow> HkdfBackend \<Rightarrow> 'k KxBackend \<Rightarrow> TlsSuites \<Rightarrow> 'k WaitServerHello \<Rightarrow> bytes \<Rightarrow>
   ConnectionError + NegotiatedSuite" where
  "read_server_hello F H KX AB conn sh_record =
     rbind (map_err CE_Parse (parse_server_hello F sh_record)) (\<lambda>sh.
     let sent_id = (case wh_session_id conn of Some i \<Rightarrow> i | None \<Rightarrow> []) in
     if sh_session_id_echo sh \<noteq> sent_id then Inl (CE_Parse PE_UnexpectedSessionIdEcho)
     else if \<not> advertised_ok F (wh_advertised conn) (sh_cipher_suite sh)
     then Inl (CE_UnexpectedSuite (sh_cipher_suite sh))
     else
       rbind (derive_ikm F KX (wh_secrets conn) sh) (\<lambda>ikm.
       rbind (map_err CE_Transcript (update_record (wh_transcript conn) sh_record)) (\<lambda>transcript.
       rbind (map_err CE_Transcript (snapshot H transcript)) (\<lambda>th_ch_sh.
       rbind (map_err CE_Hkdf (handshake_secret H ikm)) (\<lambda>hs.
       rbind (map_err CE_Hkdf (handshake_traffic_secrets H hs th_ch_sh)) (\<lambda>(c_hs_ts, s_hs_ts).
       let wait = (\<lambda>keys. \<lparr>wf_transcript = transcript, wf_hs = hs, wf_c_hs_ts = c_hs_ts, wf_s_hs_ts = s_hs_ts,
             wf_s_hs_keys = keys, wf_seq_in = 0\<rparr>) in
       if f_cipher_aes F \<and> sh_cipher_suite sh = CIPHER_AES_128_GCM_SHA256 then
         rbind (map_err CE_Hkdf (derive_keys H (ts_key_len (aes_suite AB)) s_hs_ts)) (\<lambda>keys.
           Inr (NegAes128Gcm (wait keys)))
       else if f_chacha20 F \<and> sh_cipher_suite sh = CIPHER_CHACHA20_POLY1305_SHA256 then
         rbind (map_err CE_Hkdf (derive_keys H (ts_key_len (chacha_suite AB)) s_hs_ts)) (\<lambda>keys.
           Inr (NegChaCha20Poly1305 (wait keys)))
       else Inl (CE_Parse (PE_UnsupportedCipherSuite (sh_cipher_suite sh)))))))))"

definition flight_step :: "ServerFlightReassembler \<Rightarrow> FlightStep" where
  "flight_step reassembler = (if flight_is_complete reassembler then FlightReady else FlightPending)"

text \<open>The record as the call leaves it, and the result with the state and the reassembler.\<close>

definition feed_server_record_inplace ::
  "nat \<Rightarrow> TlsSuite \<Rightarrow> WaitServerFlight \<Rightarrow> bytes \<Rightarrow> ServerFlightReassembler \<Rightarrow>
   bytes \<times> (ConnectionError + FlightStep \<times> WaitServerFlight \<times> ServerFlightReassembler)" where
  "feed_server_record_inplace N S conn record reassembler =
     (if record = [] then (record, Inl (CE_Decrypt DecTruncated))
      else if record ! 0 = CT_CHANGE_CIPHER_SPEC
      then (record, Inr (flight_step reassembler, conn, reassembler))
      else if record ! 0 = CT_APPLICATION_DATA then
        (case decrypt_record_inplace (ts_aead S) (wf_s_hs_keys conn) record (wf_seq_in conn) of
           (record, Inl e) \<Rightarrow> (record, Inl (CE_Decrypt e))
         | (record, Inr inner_len) \<Rightarrow>
             (record,
              let inner = sub_range 5 (5 + inner_len) record in
              rbind (map_err CE_Decrypt (split_inner_plaintext inner)) (\<lambda>(content, inner_ct).
              if inner_ct \<noteq> CT_HANDSHAKE then Inl (CE_Decrypt (DecUnexpectedContentType inner_ct))
              else
                rbind (map_err CE_Reassembly (push_content N reassembler content)) (\<lambda>reassembler.
                  Inr (flight_step reassembler, conn\<lparr>wf_seq_in := wf_seq_in conn + 1\<rparr>, reassembler)))))
      else (record, Inl (CE_Decrypt (DecUnexpectedContentType (record ! 0)))))"

text \<open>The owned key has room for a 2048-bit modulus and the largest ML-DSA key.\<close>

fun ServerPubkeyOwned_from_view :: "ServerPubkey \<Rightarrow> FlightError + ServerPubkey" where
  "ServerPubkeyOwned_from_view (SP_Ed25519 pk) = Inr (SP_Ed25519 pk)"
| "ServerPubkeyOwned_from_view (SP_Rsa modulus e) =
     (if length modulus \<le> 256 then Inr (SP_Rsa modulus e) else Inl FL_InternalEncoding)"
| "ServerPubkeyOwned_from_view (SP_MlDsa pk) =
     (if length pk \<le> 2592 then Inr (SP_MlDsa pk) else Inl FL_InternalEncoding)"
| "ServerPubkeyOwned_from_view (SP_EcdsaP256 pk) =
     (if length pk = 65 then Inr (SP_EcdsaP256 pk) else Inl FL_InternalEncoding)"
| "ServerPubkeyOwned_from_view (SP_EcdsaP384 pk) =
     (if length pk = 97 then Inr (SP_EcdsaP384 pk) else Inl FL_InternalEncoding)"

definition finalize_server_flight ::
  "HkdfBackend \<Rightarrow> 'v VerifierBackend \<Rightarrow> WaitServerFlight \<Rightarrow> ServerFlightReassembler \<Rightarrow> 'v PreparedVerifier \<Rightarrow>
   CertView \<Rightarrow> ConnectionError + ServerFlightDone" where
  "finalize_server_flight H P conn reassembler prepared leaf_view =
     (if \<not> matches_cert P prepared leaf_view then Inl (CE_Flight FL_CertVerifyInvalid)
      else
        rbind (ok_or CE_IncompleteFlight (flight_bytes reassembler)) (\<lambda>plaintext.
        rbind (map_err CE_Flight
          (verify_server_flight H P (wf_transcript conn) plaintext (wf_s_hs_ts conn) prepared leaf_view)) (\<lambda>(transcript, pk).
        rbind (map_err CE_Flight (ServerPubkeyOwned_from_view pk)) (\<lambda>server_pubkey.
          Inr \<lparr>fd_transcript = transcript, fd_hs = wf_hs conn, fd_c_hs_ts = wf_c_hs_ts conn,
            fd_server_pubkey = server_pubkey\<rparr>))))"

text \<open>The last derivations, shared by the two ways of finishing: application keys bind to the transcript
  through the server Finished.\<close>

definition app_data ::
  "HkdfBackend \<Rightarrow> TlsSuite \<Rightarrow> bytes \<Rightarrow> bytes \<Rightarrow> TranscriptHash \<Rightarrow> ConnectionError + AppData" where
  "app_data H S hs th transcript =
     rbind (map_err CE_Hkdf (master_secret H hs)) (\<lambda>ms.
     rbind (map_err CE_Hkdf (application_traffic_secrets H ms th)) (\<lambda>(c_ap_ts, s_ap_ts).
     rbind (map_err CE_Hkdf (derive_keys H (ts_key_len S) c_ap_ts)) (\<lambda>c_ap_keys.
     rbind (map_err CE_Hkdf (derive_keys H (ts_key_len S) s_ap_ts)) (\<lambda>s_ap_keys.
       Inr \<lparr>ad_transcript = transcript, ad_c_ap_keys = c_ap_keys, ad_s_ap_keys = s_ap_keys,
         ad_c_ap_ts = c_ap_ts, ad_s_ap_ts = s_ap_ts, ad_seq_out = 0, ad_seq_in = 0\<rparr>))))"

definition finish_handshake ::
  "HkdfBackend \<Rightarrow> TlsSuite \<Rightarrow> ServerFlightDone \<Rightarrow> bytes \<Rightarrow> ConnectionError + bytes \<times> AppData" where
  "finish_handshake H S conn out_buf =
     rbind (map_err CE_Transcript (snapshot H (fd_transcript conn))) (\<lambda>th.
     rbind (map_err CE_ClientFinished (build_client_finished H S (fd_c_hs_ts conn) th 0 out_buf)) (\<lambda>record.
     rbind (app_data H S (fd_hs conn) th (fd_transcript conn)) (\<lambda>ad.
       Inr (record, ad))))"

function chunks :: "nat \<Rightarrow> 'a list \<Rightarrow> 'a list list" where
  "chunks n xs = (if xs = [] \<or> n = 0 then [] else take n xs # chunks n (drop n xs))"
  by auto
termination by (relation "measure (\<lambda>(n, xs). length xs)") auto

declare chunks.simps [simp del]

fun encrypt_chunks ::
  "TlsSuite \<Rightarrow> RecordKeys \<Rightarrow> nat \<Rightarrow> nat \<Rightarrow> bytes \<Rightarrow> bytes list \<Rightarrow> EncryptError + bytes" where
  "encrypt_chunks S keys i written out [] = Inr []"
| "encrypt_chunks S keys i written out (chunk # rest) =
     rbind (encrypt_record (ts_aead S) keys chunk CT_HANDSHAKE (word_of_nat i) (drop written out)) (\<lambda>record.
     rbind (encrypt_chunks S keys (i + 1) (written + length record) out rest) (\<lambda>records.
       Inr (record @ records)))"

definition encrypt_handshake_flight ::
  "TlsSuite \<Rightarrow> RecordKeys \<Rightarrow> bytes \<Rightarrow> 16 word \<Rightarrow> bytes \<Rightarrow> ConnectionError + bytes" where
  "encrypt_handshake_flight S keys plaintext peer_rsl out =
     (let max_chunk = max (unat peer_rsl - CONTENT_TYPE_LEN) 1
      in map_err CE_Encrypt (encrypt_chunks S keys 0 0 out (chunks max_chunk plaintext)))"

text \<open>With a policy the plaintext is built in \<^verbatim>\<open>flight_scratch\<close>, which is returned as the call leaves it.\<close>

definition finish_handshake_with_policy ::
  "HkdfBackend \<Rightarrow> TlsSuite \<Rightarrow> 'r ClientAuthPolicy \<Rightarrow> ServerFlightDone \<Rightarrow> bytes \<Rightarrow> bytes \<Rightarrow> 'r \<Rightarrow> 16 word \<Rightarrow> bytes \<Rightarrow>
   bytes \<Rightarrow> ConnectionError + bytes \<times> AppData \<times> bytes \<times> 'r" where
  "finish_handshake_with_policy H S policy conn ctx sig_algs rng peer_rsl flight_scratch out_buf =
     rbind (map_err CE_Transcript (snapshot H (fd_transcript conn))) (\<lambda>th_through_sfin.
     rbind (map_err CE_ClientAuth (build_flight policy H ctx sig_algs rng (fd_c_hs_ts conn) (fd_transcript conn)
         (length flight_scratch))) (\<lambda>(plaintext, transcript, rng).
     rbind (map_err CE_Hkdf (derive_keys H (ts_key_len S) (fd_c_hs_ts conn))) (\<lambda>keys.
     rbind (encrypt_handshake_flight S keys plaintext peer_rsl out_buf) (\<lambda>record.
     rbind (app_data H S (fd_hs conn) th_through_sfin transcript) (\<lambda>ad.
       Inr (record, ad, put_at 0 plaintext flight_scratch, rng))))))"

definition ad_encrypt_record ::
  "TlsSuite \<Rightarrow> AppData \<Rightarrow> bytes \<Rightarrow> 8 word \<Rightarrow> bytes \<Rightarrow> ConnectionError + bytes \<times> AppData" where
  "ad_encrypt_record S ad content content_type out_buf =
     rbind (map_err CE_Encrypt
       (encrypt_record (ts_aead S) (ad_c_ap_keys ad) content content_type (ad_seq_out ad) out_buf)) (\<lambda>record.
       Inr (record, ad\<lparr>ad_seq_out := ad_seq_out ad + 1\<rparr>))"

definition ad_decrypt_record_inplace ::
  "TlsSuite \<Rightarrow> AppData \<Rightarrow> bytes \<Rightarrow> bytes \<times> (ConnectionError + (nat \<times> 8 word) \<times> AppData)" where
  "ad_decrypt_record_inplace S ad record =
     (case decrypt_record_inplace (ts_aead S) (ad_s_ap_keys ad) record (ad_seq_in ad) of
        (record, Inl e) \<Rightarrow> (record, Inl (CE_Decrypt e))
      | (record, Inr inner_len) \<Rightarrow>
          (record,
           let inner = sub_range 5 (5 + inner_len) record in
           rbind (map_err CE_Decrypt (split_inner_plaintext inner)) (\<lambda>(content, ct).
             Inr ((length content, ct), ad\<lparr>ad_seq_in := ad_seq_in ad + 1\<rparr>))))"

definition ad_encrypt_key_update ::
  "TlsSuite \<Rightarrow> AppData \<Rightarrow> bool \<Rightarrow> bytes \<Rightarrow> ConnectionError + bytes \<times> AppData" where
  "ad_encrypt_key_update S ad request_update out_buf =
     ad_encrypt_record S ad [HS_KEY_UPDATE, 0x00, 0x00, 0x01, of_bool request_update] CT_HANDSHAKE out_buf"

definition ad_apply_recv_key_update :: "HkdfBackend \<Rightarrow> TlsSuite \<Rightarrow> AppData \<Rightarrow> ConnectionError + AppData" where
  "ad_apply_recv_key_update H S ad =
     rbind (map_err CE_Hkdf (next_application_traffic_secret H (ad_s_ap_ts ad))) (\<lambda>ts.
     rbind (map_err CE_Hkdf (derive_keys H (ts_key_len S) ts)) (\<lambda>keys.
       Inr (ad\<lparr>ad_s_ap_keys := keys, ad_s_ap_ts := ts, ad_seq_in := 0\<rparr>)))"

definition ad_apply_send_key_update :: "HkdfBackend \<Rightarrow> TlsSuite \<Rightarrow> AppData \<Rightarrow> ConnectionError + AppData" where
  "ad_apply_send_key_update H S ad =
     rbind (map_err CE_Hkdf (next_application_traffic_secret H (ad_c_ap_ts ad))) (\<lambda>ts.
     rbind (map_err CE_Hkdf (derive_keys H (ts_key_len S) ts)) (\<lambda>keys.
       Inr (ad\<lparr>ad_c_ap_keys := keys, ad_c_ap_ts := ts, ad_seq_out := 0\<rparr>)))"

section \<open>Fragmenting the second flight\<close>

lemma chunks_Nil [simp]: "chunks n [] = []"
  by (simp add: chunks.simps)

lemma chunks_step: "0 < n \<Longrightarrow> xs \<noteq> [] \<Longrightarrow> chunks n xs = take n xs # chunks n (drop n xs)"
  by (subst chunks.simps) simp

text \<open>Chunking takes a list apart into pieces of at most the chunk size, as many as the rounded-up
  quotient, that concatenate to the list.\<close>

lemma chunks_split:
  assumes "0 < n"
  shows "concat (chunks n xs) = xs \<and> list_all (\<lambda>c. length c \<le> n) (chunks n xs)"
proof (induction "length xs" arbitrary: xs rule: less_induct)
  case less
  then show ?case using assms less [of "drop n xs"]
    by (cases "xs = []") (simp_all add: chunks_step)
qed

lemma length_chunks:
  assumes "0 < n"
  shows "length (chunks n xs) = (length xs + n - 1) div n"
proof (induction "length xs" arbitrary: xs rule: less_induct)
  case less
  show ?case
  proof (cases "xs = []")
    case False
    then have "length (chunks n xs) = Suc ((length xs - n + n - 1) div n)"
      using assms less [of "drop n xs"] by (simp add: chunks_step)
    also have "\<dots> = (length xs - n + n - 1 + n) div n"
      using assms div_add_self2 [of n "length xs - n + n - 1"] by linarith
    also have "\<dots> = (length xs + n - 1) div n"
    proof (cases "n \<le> length xs")
      case le: False
      have "(length xs - n + n - 1 + n) div n = 1" using le assms div_add_self2 [of n "n - 1"] by simp
      moreover have "(length xs + n - 1) div n = 1"
        using le False div_add_self2 [of n "length xs - 1"] by (cases xs) simp_all
      ultimately show ?thesis by simp
    qed (use assms in simp)
    finally show ?thesis .
  qed (use assms in simp)
qed

lemma encrypt_record_total:
  assumes "aead_total c" "length content \<le> 2 ^ 14" "length content + 22 \<le> length out"
  shows "\<exists>r. encrypt_record c keys content ct seq out = Inr r \<and> length r = length content + 22"
proof -
  obtain body tag where "run_encrypt c (rk_key keys) (aead_nonce (rk_iv keys) seq)
      ([CT_APPLICATION_DATA] @ to_be_bytes LEGACY_VERSION @
        to_be_bytes (word_of_nat (length content + 1 + AEAD_TAG_LEN) :: 16 word)) (content @ [ct]) = Some (body, tag)"
    "length body = length (content @ [ct])" "length tag = 16"
    using assms(1) unfolding aead_total_def run_encrypt_def by blast
  then show ?thesis using assms(2,3)
    by (simp add: encrypt_record_def encrypt_record_with_def Let_def TLS_PLAINTEXT_MAX_def
        TLS_CIPHERTEXT_MAX_def AEAD_TAG_LEN_def)
qed

lemma encrypt_chunks_total:
  assumes "aead_total (ts_aead S)"
  shows "list_all (\<lambda>c. length c \<le> 2 ^ 14) cs \<Longrightarrow> written + length (concat cs) + 22 * length cs \<le> length out \<Longrightarrow>
    \<exists>r. encrypt_chunks S keys i written out cs = Inr r \<and> length r = length (concat cs) + 22 * length cs"
proof (induction cs arbitrary: i written)
  case (Cons c cs)
  have "length c + 22 \<le> length (drop written out)" using Cons.prems(2) by simp
  then obtain r where r: "encrypt_record (ts_aead S) keys c CT_HANDSHAKE (word_of_nat i) (drop written out) = Inr r"
    "length r = length c + 22"
    using encrypt_record_total [OF assms, of c "drop written out" keys CT_HANDSHAKE "word_of_nat i"] Cons.prems(1)
    by (auto simp del: length_drop)
  obtain rs where "encrypt_chunks S keys (i + 1) (written + length r) out cs = Inr rs"
    "length rs = length (concat cs) + 22 * length cs"
    using Cons.IH [of "written + length r" "i + 1"] Cons.prems r(2) by auto
  with r show ?case by simp
qed simp

lemma div_ceil_le_floor:
  assumes "(63 :: nat) \<le> n"
  shows "(a + n - 1) div n \<le> (a + 62) div 63"
proof (cases "a = 0")
  case False
  have "(a + n - 1) div n = (a - 1) div n + 1" "(a + 62) div 63 = (a - 1) div 63 + 1"
    using False assms div_add_self2 [of n "a - 1"] div_add_self2 [of 63 "a - 1"] by simp_all
  then show ?thesis using div_le_mono2 [of 63 n "a - 1"] assms by simp
qed (use assms in simp)

lemma encrypt_handshake_flight_fits:
  assumes "aead_total (ts_aead S)" "64 \<le> unat peer_rsl" "unat peer_rsl \<le> 2 ^ 14 + 1"
    and "length plaintext \<le> max_flight" "client_auth_send_floor max_flight \<le> length out"
  shows "\<exists>r. encrypt_handshake_flight S keys plaintext peer_rsl out = Inr r \<and>
    length r = length plaintext + 22 * length (chunks (unat peer_rsl - 1) plaintext) \<and> length r \<le> length out"
proof -
  define n where "n = unat peer_rsl - 1"
  have n: "63 \<le> n" "n \<le> 2 ^ 14" "max (unat peer_rsl - CONTENT_TYPE_LEN) 1 = n"
    using assms(2,3) by (simp_all add: n_def CONTENT_TYPE_LEN_def)
  have pos: "0 < n" using n(1) by simp
  have floor: "max_flight + 22 * ((max_flight + 62) div 63) \<le> length out"
    using assms(5) by (simp add: client_auth_send_floor_eq)
  have "length plaintext + 22 * ((length plaintext + 62) div 63) \<le> length out"
    using floor div_le_mono [of "length plaintext + 62" "max_flight + 62" 63] assms(4) by linarith
  then have room: "length plaintext + 22 * length (chunks n plaintext) \<le> length out"
    using length_chunks [OF pos, of plaintext] div_ceil_le_floor [OF n(1), of "length plaintext"] by linarith
  have "list_all (\<lambda>c. length c \<le> 2 ^ 14) (chunks n plaintext)"
    using chunks_split [OF pos, of plaintext] n(2) by (auto simp: list_all_iff)
  then obtain r where "encrypt_chunks S keys 0 0 out (chunks n plaintext) = Inr r"
      "length r = length plaintext + 22 * length (chunks n plaintext)"
    using encrypt_chunks_total [OF assms(1), of "chunks n plaintext" 0 out keys 0] room chunks_split [OF pos, of plaintext]
    by auto
  then show ?thesis using room n(3) unfolding n_def [symmetric] by (simp add: encrypt_handshake_flight_def)
qed

lemma app_data_total:
  assumes "backend_total H" "ts_key_len S \<le> 32" "length th = 32"
  shows "\<exists>ad. app_data H S hs th t = Inr ad"
proof -
  have "is_ok (master_secret H hs)"
    using assms(1) unfolding master_secret_def derive_secret_def by (intro schedule_ok) simp_all
  then obtain ms where ms: "master_secret H hs = Inr ms" by (auto simp: is_ok_iff)
  have "is_ok (application_traffic_secrets H ms th)"
    using assms unfolding application_traffic_secrets_def derive_secret_def by (intro schedule_ok) simp_all
  then obtain c s where ts: "application_traffic_secrets H ms th = Inr (c, s)" by (auto simp: is_ok_iff)
  obtain ck sk where "derive_keys H (ts_key_len S) c = Inr ck" "derive_keys H (ts_key_len S) s = Inr sk"
    using derive_keys_total [OF assms(1,2)] by meson
  with ms ts show ?thesis by (simp add: app_data_def)
qed

lemma snapshot_total: "backend_total H \<Longrightarrow> \<exists>th. snapshot H t = Inr th \<and> length th = 32"
  unfolding backend_total_def snapshot_def by (metis map_err_simps(2))

text \<open>A send buffer of 58 bytes is enough for the client Finished.\<close>

lemma finish_handshake_total:
  assumes "backend_total H" "aead_total (ts_aead S)" "ts_key_len S \<le> 32" "CLIENT_FINISHED_LEN \<le> length out"
  shows "\<exists>fin_record ad. finish_handshake H S conn out = Inr (fin_record, ad) \<and> length fin_record = CLIENT_FINISHED_LEN"
proof -
  obtain th where th: "snapshot H (fd_transcript conn) = Inr th" "length th = 32"
    using snapshot_total [OF assms(1)] by blast
  have "is_ok (finished_mac H (fd_c_hs_ts conn) th)"
    using assms(1) unfolding finished_mac_def by (intro schedule_ok) simp_all
  then obtain m where m: "build_finished_plaintext H (fd_c_hs_ts conn) th = Inr m"
    by (auto simp: is_ok_iff build_finished_plaintext_def)
  have len: "length m = 36" using build_finished_plaintext_ok [OF assms(1) m] by auto
  obtain keys where keys: "derive_keys H (ts_key_len S) (fd_c_hs_ts conn) = Inr keys"
    using derive_keys_total [OF assms(1,3)] by blast
  obtain r where "encrypt_record (ts_aead S) keys m CT_HANDSHAKE 0 out = Inr r" "length r = 58"
    using encrypt_record_total [OF assms(2), of m out keys CT_HANDSHAKE 0] assms(4) len by (auto simp: CLIENT_FINISHED_LEN_def)
  moreover obtain ad where "app_data H S (fd_hs conn) th (fd_transcript conn) = Inr ad"
    using app_data_total [OF assms(1,3) th(2)] by blast
  ultimately show ?thesis using th m keys
    by (simp add: finish_handshake_def build_client_finished_def CLIENT_FINISHED_LEN_def)
qed

text \<open>
  C22: the configured buffers are always large enough for the client's second flight.  For every
  policy a client can configure, every record size limit a server may send and every send buffer
  of at least \<^verbatim>\<open>client_auth_send_floor\<close> of the policy's bound - the check made before
  connecting - once the flight is built, the handshake finishes: with working HKDF and AEAD
  engines no later step fails, the emitted records fit the send buffer, and each carries at most
  the number of plaintext bytes the server allows.
\<close>

theorem second_flight_always_fits:
  assumes "backend_total H" "aead_total (ts_aead S)" "ts_key_len S \<le> 32"
    and "64 \<le> unat peer_rsl" "unat peer_rsl \<le> 2 ^ 14 + 1"
    and "pol \<in> {NoClientAuth, DeclineClientAuth, WithClientAuth w (Ed25519ClientAuth w ed cert),
        WithClientAuth w (RsaClientAuth w sha rs cert), WithClientAuth w (EcdsaClientAuth w c hash ec cert)}"
    and "client_auth_send_floor (MAX_FLIGHT_LEN pol) \<le> length out"
    and "build_flight pol H ctx algs rng (fd_c_hs_ts conn) (fd_transcript conn) (length scratch) = Inr (flight, t', rng')"
  shows "\<exists>records ad scratch'. let sent = chunks (unat peer_rsl - 1) flight in
    finish_handshake_with_policy H S pol conn ctx algs rng peer_rsl scratch out = Inr (records, ad, scratch', rng') \<and>
    length records = length flight + 22 * length sent \<and> length records \<le> length out \<and>
    concat sent = flight \<and> list_all (\<lambda>content. length content + 1 \<le> unat peer_rsl) sent"
proof -
  obtain th where th: "snapshot H (fd_transcript conn) = Inr th" "length th = 32"
    using snapshot_total [OF assms(1)] by blast
  obtain keys where keys: "derive_keys H (ts_key_len S) (fd_c_hs_ts conn) = Inr keys"
    using derive_keys_total [OF assms(1,3)] by blast
  obtain ad where ad: "app_data H S (fd_hs conn) th t' = Inr ad"
    using app_data_total [OF assms(1,3) th(2)] by blast
  have "length flight \<le> MAX_FLIGHT_LEN pol" using client_flight_within_bound [OF assms(1,6,8)] by simp
  from encrypt_handshake_flight_fits [OF assms(2,4,5) this assms(7)]
  obtain records where "encrypt_handshake_flight S keys flight peer_rsl out = Inr records"
    "length records = length flight + 22 * length (chunks (unat peer_rsl - 1) flight)" "length records \<le> length out"
    by blast
  moreover have "0 < unat peer_rsl - 1" using assms(4) by simp
  then have "concat (chunks (unat peer_rsl - 1) flight) = flight \<and>
      list_all (\<lambda>content. length content + 1 \<le> unat peer_rsl) (chunks (unat peer_rsl - 1) flight)"
    using chunks_split [of "unat peer_rsl - 1" flight] by (auto simp: list_all_iff)
  ultimately show ?thesis using th keys ad assms(8)
    by (auto simp: finish_handshake_with_policy_def Let_def)
qed

definition flight_suite :: TlsSuite where
  "flight_suite = \<lparr>ts_aead = demo_cipher, ts_key_len = 16\<rparr>"

theorem second_flight_always_fits_witness:
  "\<exists>records ad scratch'. finish_handshake_with_policy flight_hkdf flight_suite DeclineClientAuth
      \<lparr>fd_transcript = [2], fd_hs = [3], fd_c_hs_ts = [1], fd_server_pubkey = SP_Ed25519 []\<rparr> [7] [] () 64
      (replicate 400 0) (replicate 500 0) = Inr (records, ad, scratch', ()) \<and> length records \<le> 500"
proof -
  let ?conn = "\<lparr>fd_transcript = [2], fd_hs = [3], fd_c_hs_ts = [1], fd_server_pubkey = SP_Ed25519 []\<rparr>"
  have "is_ok (build_flight DeclineClientAuth flight_hkdf [7] [] () [1] [2] 400)" by code_simp
  then obtain flight t' where f: "build_flight DeclineClientAuth flight_hkdf [7] [] () [1] [2] 400 = Inr (flight, t', ())"
    by (auto simp: is_ok_iff)
  have "client_auth_send_floor (MAX_FLIGHT_LEN (DeclineClientAuth :: unit ClientAuthPolicy)) \<le> 500" by code_simp
  with second_flight_always_fits [OF flight_hkdf_total, where S = flight_suite and peer_rsl = 64 and
      pol = DeclineClientAuth and out = "replicate 500 0" and ctx = "[7]" and algs = "[]" and rng = "()" and
      conn = ?conn and scratch = "replicate 400 0" and flight = flight and t' = t' and rng' = "()"] f
  show ?thesis by (auto simp: flight_suite_def demo_cipher_total Let_def)
qed

section \<open>An authenticated handshake\<close>

text \<open>The records of the server flight, fed in order.\<close>

fun feed_records ::
  "nat \<Rightarrow> TlsSuite \<Rightarrow> WaitServerFlight \<Rightarrow> bytes list \<Rightarrow> ServerFlightReassembler \<Rightarrow>
   ConnectionError + WaitServerFlight \<times> ServerFlightReassembler" where
  "feed_records N S conn [] reassembler = Inr (conn, reassembler)"
| "feed_records N S conn (record # records) reassembler =
     rbind (snd (feed_server_record_inplace N S conn record reassembler)) (\<lambda>(step, conn, reassembler).
       feed_records N S conn records reassembler)"

fun negotiated :: "NegotiatedSuite \<Rightarrow> WaitServerFlight" where
  "negotiated (NegAes128Gcm conn) = conn"
| "negotiated (NegChaCha20Poly1305 conn) = conn"

lemma feed_server_record_state:
  "snd (feed_server_record_inplace N S conn record reasm) = Inr (step, conn', reasm') \<Longrightarrow>
     conn' = conn\<lparr>wf_seq_in := wf_seq_in conn'\<rparr> \<and> (\<exists>content. reasm' = reasm @ content)"
  by (auto simp: feed_server_record_inplace_def result_simps push_content_def Let_def
      split: if_splits prod.splits sum.splits)

lemma feed_records_state:
  "feed_records N S conn records reasm = Inr (conn', reasm') \<Longrightarrow> \<exists>s. conn' = conn\<lparr>wf_seq_in := s\<rparr>"
proof (induction records arbitrary: conn reasm)
  case Nil
  then show ?case by (intro exI [of _ "wf_seq_in conn"]) simp
next
  case (Cons r rs)
  then obtain step conn1 reasm1 where f: "snd (feed_server_record_inplace N S conn r reasm) = Inr (step, conn1, reasm1)"
    and r: "feed_records N S conn1 rs reasm1 = Inr (conn', reasm')"
    by (auto simp: result_simps)
  obtain s where "conn1 = conn\<lparr>wf_seq_in := s\<rparr>" using feed_server_record_state [OF f] by blast
  with Cons.IH [OF r] show ?case by auto
qed

lemma update_record_frame:
  assumes "length ver = 2" "length body < 2 ^ 16"
  shows "update_record t ([ct] @ ver @ vec16 body) = Inr (t @ body)"
proof -
  have l: "length (be_bytes 2 (length body)) = 2" by simp
  have "unat (word_of_nat (length body) :: 16 word) = length body" using assms(2) by (simp add: unat_of_nat)
  then show ?thesis using assms
    unfolding update_record_def vec16_def record_header_fields [OF assms(1) l]
    by (simp add: from_be_bytes_def be_val_be_bytes Let_def)
qed

lemma server_hello_transcript:
  assumes "parse_server_hello F sh_record = Inr sh"
  shows "update_record t sh_record = Inr (t @ drop 5 sh_record)"
proof -
  obtain body where "sh_record = [CT_HANDSHAKE] @ to_be_bytes LEGACY_VERSION @ vec16 body" "length body < 2 ^ 16"
    using assms unfolding parse_server_hello_frame server_hello_frame_def by (auto simp: vec16_def)
  then show ?thesis using update_record_frame [of "to_be_bytes LEGACY_VERSION" body t CT_HANDSHAKE]
    by (simp add: vec16_def)
qed

lemma read_server_hello_sound:
  assumes "read_server_hello F H KX AB conn sh_record = Inr neg"
  shows "\<exists>sh ikm th. parse_server_hello F sh_record = Inr sh \<and>
    sh_session_id_echo sh = (case wh_session_id conn of Some i \<Rightarrow> i | None \<Rightarrow> []) \<and>
    advertised_ok F (wh_advertised conn) (sh_cipher_suite sh) \<and>
    derive_ikm F KX (wh_secrets conn) sh = Inr ikm \<and>
    wf_transcript (negotiated neg) = wh_transcript conn @ drop 5 sh_record \<and>
    hk_digest H (wf_transcript (negotiated neg)) = Inr th \<and>
    handshake_secret H ikm = Inr (wf_hs (negotiated neg)) \<and>
    handshake_traffic_secrets H (wf_hs (negotiated neg)) th = Inr (wf_c_hs_ts (negotiated neg), wf_s_hs_ts (negotiated neg))"
proof -
  obtain sh where sh: "parse_server_hello F sh_record = Inr sh"
    using assms by (auto simp: read_server_hello_def result_simps)
  show ?thesis using assms
    by (auto simp: read_server_hello_def result_simps sh server_hello_transcript [OF sh] snapshot_def Let_def
        split: if_splits)
qed

lemma from_view_same: "ServerPubkeyOwned_from_view v = Inr v' \<Longrightarrow> v' = v"
  by (cases v) (auto split: if_splits)

lemma finalize_server_flight_sound:
  assumes "finalize_server_flight H P conn reasm prepared leaf = Inr sfd"
  shows "matches_cert P prepared leaf \<and> fd_hs sfd = wf_hs conn \<and> fd_c_hs_ts sfd = wf_c_hs_ts conn \<and>
    fd_server_pubkey sfd = server_pubkey_of leaf \<and>
    (\<exists>flight pk. flight_bytes reasm = Some flight \<and>
       verify_server_flight H P (wf_transcript conn) flight (wf_s_hs_ts conn) prepared leaf = Inr (fd_transcript sfd, pk))"
proof -
  obtain flight t pk pk' where v: "matches_cert P prepared leaf" "flight_bytes reasm = Some flight"
      "verify_server_flight H P (wf_transcript conn) flight (wf_s_hs_ts conn) prepared leaf = Inr (t, pk)"
    and pk': "ServerPubkeyOwned_from_view pk = Inr pk'"
    and sfd: "sfd = \<lparr>fd_transcript = t, fd_hs = wf_hs conn, fd_c_hs_ts = wf_c_hs_ts conn, fd_server_pubkey = pk'\<rparr>"
    using assms by (auto simp: finalize_server_flight_def result_simps split: if_splits)
  have "pk' = server_pubkey_of leaf"
    using from_view_same [OF pk'] verified_flight_binds_transcript [OF v(3)] by simp
  then show ?thesis using v sfd by simp
qed

lemma finish_handshake_sound:
  assumes "finish_handshake H S sfd out = Inr (fin_record, ad)"
  shows "\<exists>th ms. hk_digest H (fd_transcript sfd) = Inr th \<and>
    build_client_finished H S (fd_c_hs_ts sfd) th 0 out = Inr fin_record \<and>
    master_secret H (fd_hs sfd) = Inr ms \<and> application_traffic_secrets H ms th = Inr (ad_c_ap_ts ad, ad_s_ap_ts ad)"
  using assms by (auto simp: finish_handshake_def app_data_def result_simps snapshot_def)

text \<open>
  C1: a finished handshake is authenticated.  When the client has read the ServerHello, fed the
  records of the server flight, verified it and built its Finished, then the ServerHello answered
  what the client sent (session id echoed, an advertised suite), the handshake secrets come from
  the key exchange and the transcript through ServerHello, the flight is a well-formed server
  flight whose CertificateVerify is a signature, under the key of the leaf the verifier was
  prepared for, of the transcript through Certificate, its Finished is the MAC of the transcript
  through CertificateVerify, and the client Finished and the application traffic secrets are
  computed over the transcript through the server Finished.
\<close>

theorem handshake_authenticates_server:
  assumes "read_server_hello F H KX AB conn sh_record = Inr neg"
    and "feed_records N S (negotiated neg) records ServerFlightReassembler_new = Inr (wait, reasm)"
    and "finalize_server_flight H P wait reasm prepared leaf = Inr sfd"
    and "finish_handshake H S sfd out = Inr (fin_record, ad)"
  shows "\<exists>sh ikm hs th_sh c_ts s_ts ee creq cert scheme sig mac th_cert th_cv th_fin ms.
    let t = wh_transcript conn @ drop 5 sh_record; flight = flight_messages ee creq cert (cv_message scheme sig) mac in
    parse_server_hello F sh_record = Inr sh \<and>
    sh_session_id_echo sh = (case wh_session_id conn of Some i \<Rightarrow> i | None \<Rightarrow> []) \<and>
    advertised_ok F (wh_advertised conn) (sh_cipher_suite sh) \<and>
    derive_ikm F KX (wh_secrets conn) sh = Inr ikm \<and> handshake_secret H ikm = Inr hs \<and>
    hk_digest H t = Inr th_sh \<and> handshake_traffic_secrets H hs th_sh = Inr (c_ts, s_ts) \<and>
    matches_cert P prepared leaf \<and> fd_server_pubkey sfd = server_pubkey_of leaf \<and>
    flight_bytes reasm = Some flight \<and>
    hk_digest H (t @ before_cv ee creq cert) = Inr th_cert \<and> scheme_verifies P prepared scheme (cv_content th_cert) sig \<and>
    hk_digest H (t @ before_cv ee creq cert @ hs_frame HS_CERTIFICATE_VERIFY (cv_message scheme sig)) = Inr th_cv \<and>
    finished_mac H s_ts th_cv = Inr mac \<and>
    hk_digest H (t @ flight) = Inr th_fin \<and> build_client_finished H S c_ts th_fin 0 out = Inr fin_record \<and>
    master_secret H hs = Inr ms \<and> application_traffic_secrets H ms th_fin = Inr (ad_c_ap_ts ad, ad_s_ap_ts ad)"
proof -
  let ?n = "negotiated neg"
  from read_server_hello_sound [OF assms(1)] obtain sh ikm th_sh where
    sh: "parse_server_hello F sh_record = Inr sh" "sh_session_id_echo sh = (case wh_session_id conn of Some i \<Rightarrow> i | None \<Rightarrow> [])"
      "advertised_ok F (wh_advertised conn) (sh_cipher_suite sh)" "derive_ikm F KX (wh_secrets conn) sh = Inr ikm"
      "handshake_secret H ikm = Inr (wf_hs ?n)" "hk_digest H (wf_transcript ?n) = Inr th_sh"
      "handshake_traffic_secrets H (wf_hs ?n) th_sh = Inr (wf_c_hs_ts ?n, wf_s_hs_ts ?n)"
    and t: "wf_transcript ?n = wh_transcript conn @ drop 5 sh_record" by blast
  obtain s where wait: "wait = ?n\<lparr>wf_seq_in := s\<rparr>" using feed_records_state [OF assms(2)] by blast
  from finalize_server_flight_sound [OF assms(3)] obtain flight pk where
    sfd: "matches_cert P prepared leaf" "fd_server_pubkey sfd = server_pubkey_of leaf" "fd_hs sfd = wf_hs ?n"
      "fd_c_hs_ts sfd = wf_c_hs_ts ?n" "flight_bytes reasm = Some flight" and
    v: "verify_server_flight H P (wf_transcript ?n) flight (wf_s_hs_ts ?n) prepared leaf = Inr (fd_transcript sfd, pk)"
    using wait by auto
  from verified_flight_binds_transcript [OF v] obtain ee creq cert scheme sig mac th_cert th_cv where
    f: "fd_transcript sfd = wf_transcript ?n @ flight" "flight = flight_messages ee creq cert (cv_message scheme sig) mac"
      "hk_digest H (wf_transcript ?n @ before_cv ee creq cert) = Inr th_cert"
      "scheme_verifies P prepared scheme (cv_content th_cert) sig"
      "hk_digest H (wf_transcript ?n @ before_cv ee creq cert @ hs_frame HS_CERTIFICATE_VERIFY (cv_message scheme sig)) = Inr th_cv"
      "finished_mac H (wf_s_hs_ts ?n) th_cv = Inr mac" by blast
  obtain th_fin ms where
    "hk_digest H (fd_transcript sfd) = Inr th_fin" "build_client_finished H S (fd_c_hs_ts sfd) th_fin 0 out = Inr fin_record"
    "master_secret H (fd_hs sfd) = Inr ms" "application_traffic_secrets H ms th_fin = Inr (ad_c_ap_ts ad, ad_s_ap_ts ad)"
    using finish_handshake_sound [OF assms(4)] by blast
  with sh sfd f show ?thesis unfolding Let_def t [symmetric]
    by - (rule exI [of _ sh], rule exI [of _ ikm], rule exI [of _ "wf_hs ?n"], rule exI [of _ th_sh], rule exI
        [of _ "wf_c_hs_ts ?n"], rule exI [of _ "wf_s_hs_ts ?n"], rule exI [of _ ee], rule exI [of _ creq],
        rule exI [of _ cert], rule exI [of _ scheme], rule exI [of _ sig], rule exI [of _ mac], rule exI [of
        _ th_cert], rule exI [of _ th_cv], rule exI [of _ th_fin], rule exI [of _ ms], simp)
qed

definition demo_kx :: "bytes KxBackend" where
  "demo_kx = \<lparr>x25519_derive = (\<lambda>k share. Some share), mlkem_derive = (\<lambda>_ _. None), p256_derive = (\<lambda>_ _. None)\<rparr>"

text \<open>The ClientHello of the instances and the state it leaves.\<close>

definition demo_hello :: bytes where
  "demo_hello = client_hello_bytes demo_features (replicate 32 1) (replicate 32 2)
     \<lparr>co_hostname = Some [0x61], co_record_size_limit = Some 279, co_session_id = None,
      co_alpn = Some [replicate 211 0x68], co_suites = SuiteDefault, co_mlkem_ek = None, co_p256_pub = Some (replicate 65 4)\<rparr>"

definition demo_conn :: "bytes WaitServerHello" where
  "demo_conn = \<lparr>wh_transcript = drop 5 demo_hello, wh_session_id = None,
     wh_secrets = \<lparr>ks_x25519 = [1], ks_mlkem = [1], ks_p256 = []\<rparr>, wh_advertised = SuiteDefault\<rparr>"

definition demo_server_hello :: bytes where
  "demo_server_hello = server_hello_frame (replicate 32 0x55) [] CIPHER_AES_128_GCM_SHA256
     (concat (map extension (sh_exts True NAMED_GROUP_X25519 (replicate 32 9))))"

definition demo_suites :: TlsSuites where
  "demo_suites = \<lparr>aes_suite = flight_suite, chacha_suite = flight_suite\<rparr>"

definition demo_flight_record :: bytes where
  "demo_flight_record = [23, 3, 3, 0, 145] @ map (\<lambda>b. NOT b) (demo_flight @ [22]) @ replicate 16 7"

definition demo_wait :: WaitServerFlight where
  "demo_wait = \<lparr>wf_transcript = wh_transcript demo_conn @ drop 5 demo_server_hello, wf_hs = replicate 32 9,
     wf_c_hs_ts = replicate 32 7, wf_s_hs_ts = replicate 32 7,
     wf_s_hs_keys = \<lparr>rk_key = replicate 16 7, rk_iv = replicate 12 7\<rparr>, wf_seq_in = 0\<rparr>"

definition demo_done :: ServerFlightDone where
  "demo_done = \<lparr>fd_transcript = wf_transcript demo_wait @ demo_flight, fd_hs = wf_hs demo_wait,
     fd_c_hs_ts = wf_c_hs_ts demo_wait, fd_server_pubkey = SP_Ed25519 [5]\<rparr>"

text \<open>A handshake of the instances, run to its end.\<close>

lemma demo_hello_read:
  "read_server_hello demo_features flight_hkdf demo_kx demo_suites demo_conn demo_server_hello =
     Inr (NegAes128Gcm demo_wait)"
  by code_simp

lemma demo_record_fed:
  "feed_records 1000 flight_suite (negotiated (NegAes128Gcm demo_wait)) [demo_flight_record] ServerFlightReassembler_new =
     Inr (demo_wait\<lparr>wf_seq_in := 1\<rparr>, demo_flight)"
proof -
  have "snd (feed_server_record_inplace 1000 flight_suite demo_wait demo_flight_record ServerFlightReassembler_new) =
      Inr (FlightReady, demo_wait\<lparr>wf_seq_in := 1\<rparr>, demo_flight)"
    by code_simp
  then show ?thesis by simp
qed

lemma demo_flight_finalized:
  "finalize_server_flight flight_hkdf flight_verifier (demo_wait\<lparr>wf_seq_in := 1\<rparr>) demo_flight (PV_Ed25519 [5]) demo_leaf =
     Inr demo_done"
proof -
  have "word_of_nat (length (wf_transcript demo_wait)) = (1 :: 8 word)" "flight_bytes demo_flight = Some demo_flight"
    "matches_cert flight_verifier (PV_Ed25519 [5]) demo_leaf"
    by code_simp+
  then show ?thesis using demo_flight_verifies [of "wf_transcript demo_wait"]
    by (simp add: finalize_server_flight_def demo_done_def)
qed

theorem handshake_authenticates_server_witness:
  "\<exists>fin_record ad. finish_handshake flight_hkdf flight_suite demo_done (replicate 80 0) = Inr (fin_record, ad) \<and>
     fd_server_pubkey demo_done = server_pubkey_of demo_leaf"
proof -
  obtain fin_record ad where "finish_handshake flight_hkdf flight_suite demo_done (replicate 80 0) = Inr (fin_record, ad)"
    using finish_handshake_total [OF flight_hkdf_total, of flight_suite "replicate 80 0" demo_done]
    by (auto simp: flight_suite_def demo_cipher_total CLIENT_FINISHED_LEN_def)
  moreover from handshake_authenticates_server [OF demo_hello_read demo_record_fed demo_flight_finalized this]
  have "fd_server_pubkey demo_done = server_pubkey_of demo_leaf" unfolding Let_def by (elim exE conjE)
  ultimately show ?thesis by blast
qed

text \<open>A leaf with a longer modulus than 256 bytes, which the \<^verbatim>\<open>rsa-3072\<close> and \<^verbatim>\<open>rsa-4096\<close> builds parse and
  verify, never gets past this state: the owned copy of the key has room for 2048 bits only.\<close>

lemma wide_rsa_leaf_refused:
  assumes "256 < length modulus"
  shows "finalize_server_flight H P conn reasm prepared (CV_Rsa a b c modulus e f g) \<noteq> Inr sfd"
proof
  assume *: "finalize_server_flight H P conn reasm prepared (CV_Rsa a b c modulus e f g) = Inr sfd"
  then obtain t pk pk' flight where
    v: "verify_server_flight H P (wf_transcript conn) flight (wf_s_hs_ts conn) prepared (CV_Rsa a b c modulus e f g) = Inr (t, pk)"
    and "ServerPubkeyOwned_from_view pk = Inr pk'"
    by (auto simp: finalize_server_flight_def result_simps split: if_splits)
  then show False using verified_flight_binds_transcript [OF v] assms by simp
qed

section \<open>Nonces\<close>

text \<open>What the protected sender does: it seals a record, seals a KeyUpdate, or moves to the next send
  secret.  The log holds, per record that left, the generation of the send secret, the plaintext with its
  content type, and the bytes of the record.\<close>

inductive app_sends ::
  "HkdfBackend \<Rightarrow> TlsSuite \<Rightarrow> AppData \<Rightarrow> AppData \<Rightarrow> nat \<Rightarrow> (nat \<times> bytes \<times> bytes) list \<Rightarrow> bool"
  for H :: HkdfBackend and S :: TlsSuite and start :: AppData where
  start: "app_sends H S start start 0 []"
| seal: "\<lbrakk>app_sends H S start ad gen log; ad_encrypt_record S ad content ct out = Inr (record, ad')\<rbrakk> \<Longrightarrow>
    app_sends H S start ad' gen (log @ [(gen, content @ [ct], record)])"
| key_update: "\<lbrakk>app_sends H S start ad gen log; ad_encrypt_key_update S ad request out = Inr (record, ad')\<rbrakk> \<Longrightarrow>
    app_sends H S start ad' gen (log @ [(gen, [HS_KEY_UPDATE, 0, 0, 1, of_bool request, CT_HANDSHAKE], record)])"
| rekey: "\<lbrakk>app_sends H S start ad gen log; ad_apply_send_key_update H S ad = Inr ad'\<rbrakk> \<Longrightarrow>
    app_sends H S start ad' (gen + 1) log"
| received: "\<lbrakk>app_sends H S start ad gen log; snd (ad_decrypt_record_inplace S ad r) = Inr (res, ad')\<rbrakk> \<Longrightarrow>
    app_sends H S start ad' gen log"
| rekeyed: "\<lbrakk>app_sends H S start ad gen log; ad_apply_recv_key_update H S ad = Inr ad'\<rbrakk> \<Longrightarrow>
    app_sends H S start ad' gen log"

text \<open>The secrets and keys of the generations: each secret is derived from the one before.\<close>

fun generation_secret :: "HkdfBackend \<Rightarrow> bytes \<Rightarrow> nat \<Rightarrow> HkdfLabelError + bytes" where
  "generation_secret H ts 0 = Inr ts"
| "generation_secret H ts (Suc g) = rbind (generation_secret H ts g) (next_application_traffic_secret H)"

definition generation_keys :: "HkdfBackend \<Rightarrow> TlsSuite \<Rightarrow> bytes \<Rightarrow> nat \<Rightarrow> HkdfLabelError + RecordKeys" where
  "generation_keys H S ts g = rbind (generation_secret H ts g) (derive_keys H (ts_key_len S))"

text \<open>The record is the output of the cipher under the key of its generation and this nonce, with the header
  of the record as the additional data.\<close>

definition sealed_under ::
  "HkdfBackend \<Rightarrow> TlsSuite \<Rightarrow> bytes \<Rightarrow> nat \<times> bytes \<times> bytes \<Rightarrow> bytes \<Rightarrow> bool" where
  "sealed_under H S ts = (\<lambda>(g, plain, rec) nonce. \<exists>keys body tag. generation_keys H S ts g = Inr keys \<and>
     encrypt_inout_detached (ts_aead S) (rk_key keys) nonce (take 5 rec) plain = Some (body, tag) \<and> rec = take 5 rec @ body @ tag)"

lemma encrypt_record_sealed:
  assumes "encrypt_record c keys content ct seq out = Inr rec"
  shows "\<exists>body tag. encrypt_inout_detached c (rk_key keys) (aead_nonce (rk_iv keys) seq) (take 5 rec) (content @ [ct]) =
    Some (body, tag) \<and> rec = take 5 rec @ body @ tag"
  using encrypt_record_ok [OF assms] by (auto simp: seal_in_place_def run_encrypt_def)

text \<open>The sender's invariant: the records of a generation are sealed under its key with different sequence
  numbers \<^verbatim>\<open>k\<close>, those of the current one below the counter.\<close>

definition nonce_inv :: "HkdfBackend \<Rightarrow> TlsSuite \<Rightarrow> bytes \<Rightarrow> AppData \<Rightarrow> nat \<Rightarrow> (nat \<times> bytes \<times> bytes) list \<Rightarrow> bool" where
  "nonce_inv H S ts ad gen log \<longleftrightarrow>
     generation_secret H ts gen = Inr (ad_c_ap_ts ad) \<and> generation_keys H S ts gen = Inr (ad_c_ap_keys ad) \<and>
     (\<exists>ks n. list_all2 (\<lambda>e k. \<exists>keys. generation_keys H S ts (fst e) = Inr keys \<and>
          sealed_under H S ts e (aead_nonce (rk_iv keys) (word_of_nat k))) log ks \<and>
        distinct (zip (map fst log) ks) \<and> (\<forall>(g, k) \<in> set (zip (map fst log) ks). g \<le> gen \<and> k < length log \<and> (g = gen \<longrightarrow> k < n)) \<and>
        n \<le> length log \<and> ad_seq_out ad = word_of_nat n)"

lemma nonce_inv_seal:
  assumes "nonce_inv H S ts ad gen log" "ad_encrypt_record S ad content ct out = Inr (r, ad')"
  shows "nonce_inv H S ts ad' gen (log @ [(gen, content @ [ct], r)])"
proof -
  let ?P = "\<lambda>e k. \<exists>keys. generation_keys H S ts (fst e) = Inr keys \<and> sealed_under H S ts e (aead_nonce (rk_iv keys) (word_of_nat k))"
  let ?log = "log @ [(gen, content @ [ct], r)]"
  have ad': "ad' = ad\<lparr>ad_seq_out := ad_seq_out ad + 1\<rparr>"
    and enc: "encrypt_record (ts_aead S) (ad_c_ap_keys ad) content ct (ad_seq_out ad) out = Inr r"
    using assms(2) by (auto simp: ad_encrypt_record_def result_simps)
  obtain ks n where ks: "list_all2 ?P log ks" "distinct (zip (map fst log) ks)"
    "\<forall>(g, k) \<in> set (zip (map fst log) ks). g \<le> gen \<and> k < length log \<and> (g = gen \<longrightarrow> k < n)"
    "n \<le> length log" "ad_seq_out ad = word_of_nat n"
    and gen: "generation_secret H ts gen = Inr (ad_c_ap_ts ad)" "generation_keys H S ts gen = Inr (ad_c_ap_keys ad)"
    using assms(1) unfolding nonce_inv_def by blast
  have len: "length log = length ks" using ks(1) by (rule list_all2_lengthD)
  then have z: "zip (map fst ?log) (ks @ [n]) = zip (map fst log) ks @ [(gen, n)]" by simp
  have "?P (gen, content @ [ct], r) n"
    using encrypt_record_sealed [OF enc] gen(2) ks(5) by (auto simp: sealed_under_def)
  then have "list_all2 ?P ?log (ks @ [n])" using ks(1) by (simp add: list_all2_appendI)
  moreover have "distinct (zip (map fst ?log) (ks @ [n]))" using ks(2,3) unfolding z by auto
  moreover have "\<forall>(g, k) \<in> set (zip (map fst ?log) (ks @ [n])). g \<le> gen \<and> k < length ?log \<and> (g = gen \<longrightarrow> k < Suc n)"
    using ks(3,4) unfolding z by fastforce
  ultimately show ?thesis unfolding nonce_inv_def using gen ad' ks(4,5)
    by (intro conjI exI [of _ "ks @ [n]"] exI [of _ "Suc n"]) simp_all
qed

lemma nonce_inv_rekey:
  assumes inv: "nonce_inv H S ts ad gen log" and step: "ad_apply_send_key_update H S ad = Inr ad'"
  shows "nonce_inv H S ts ad' (gen + 1) log"
proof -
  have "next_application_traffic_secret H (ad_c_ap_ts ad) = Inr (ad_c_ap_ts ad')"
    "derive_keys H (ts_key_len S) (ad_c_ap_ts ad') = Inr (ad_c_ap_keys ad')" "ad_seq_out ad' = word_of_nat 0"
    using step by (auto simp: ad_apply_send_key_update_def result_simps)
  then show ?thesis using inv unfolding nonce_inv_def
    by (fastforce simp: generation_keys_def intro: exI [of _ "0 :: nat"])
qed

lemma nonce_inv_same:
  assumes "nonce_inv H S ts ad gen log" "ad_c_ap_ts ad' = ad_c_ap_ts ad" "ad_c_ap_keys ad' = ad_c_ap_keys ad" "ad_seq_out ad' = ad_seq_out ad"
  shows "nonce_inv H S ts ad' gen log"
  using assms(1) unfolding nonce_inv_def assms(2-4) .

lemma app_sends_inv:
  assumes "derive_keys H (ts_key_len S) (ad_c_ap_ts start) = Inr (ad_c_ap_keys start)" "ad_seq_out start = 0"
  shows "app_sends H S start ad gen log \<Longrightarrow> nonce_inv H S (ad_c_ap_ts start) ad gen log"
proof (induction rule: app_sends.induct)
  case start
  show ?case using assms by (auto simp: nonce_inv_def generation_keys_def intro!: exI [of _ "0 :: nat"])
next
  case (key_update ad gen log request out r ad')
  then show ?case using nonce_inv_seal by (fastforce simp: ad_encrypt_key_update_def)
next
  case (rekey ad gen log ad')
  then show ?case using nonce_inv_rekey by blast
next
  case (received ad gen log r res ad')
  have "ad' = ad\<lparr>ad_seq_in := ad_seq_in ad + 1\<rparr>"
    using received.hyps(2) by (auto simp: ad_decrypt_record_inplace_def result_simps Let_def split: prod.splits sum.splits)
  then show ?case by (intro nonce_inv_same [OF received.IH]) simp_all
next
  case (rekeyed ad gen log ad')
  then show ?case by (intro nonce_inv_same [OF rekeyed.IH]) (auto simp: ad_apply_recv_key_update_def result_simps)
qed (rule nonce_inv_seal)

text \<open>
  C11: no nonce is used twice under one key.  From the application keys a handshake ends with,
  through any sequence of sent records, sent and received KeyUpdates and received records, of
  at most 2^64 sealed records, there are nonces, pairwise different among the records of one generation of the
  send secret, such that every record that left is the output of the cipher on its plaintext under the key of
  its generation and its nonce.
\<close>

theorem app_nonces_never_repeat:
  assumes "backend_total H" "ts_key_len S \<le> 32"
    and "finish_handshake H S conn out = Inr (fin_record, start)"
    and "app_sends H S start ad gen log" "length log \<le> 2 ^ 64"
  shows "\<exists>nonces. list_all2 (sealed_under H S (ad_c_ap_ts start)) log nonces \<and> distinct (zip (map fst log) nonces)"
proof -
  let ?keys = "generation_keys H S (ad_c_ap_ts start)"
  have "derive_keys H (ts_key_len S) (ad_c_ap_ts start) = Inr (ad_c_ap_keys start)" "ad_seq_out start = 0"
    using assms(3) by (auto simp: finish_handshake_def app_data_def result_simps)
  from app_sends_inv [OF this assms(4)] obtain ks where
    ks: "list_all2 (\<lambda>e k. \<exists>keys. ?keys (fst e) = Inr keys \<and>
        sealed_under H S (ad_c_ap_ts start) e (aead_nonce (rk_iv keys) (word_of_nat k))) log ks"
    and d: "distinct (zip (map fst log) ks)" and small: "\<forall>(g, k) \<in> set (zip (map fst log) ks). k < length log"
    unfolding nonce_inv_def by fastforce
  define nonce where "nonce = (\<lambda>(g, k :: nat). aead_nonce (rk_iv (case ?keys g of Inr keys \<Rightarrow> keys)) (word_of_nat k))"
  define nonces where "nonces = map nonce (zip (map fst log) ks)"
  have len: "length log = length ks" using ks by (rule list_all2_lengthD)
  have iv: "length (rk_iv keys) = 12" if k: "?keys g = Inr keys" for g keys
  proof -
    obtain secret where "derive_keys H (ts_key_len S) secret = Inr keys" using k by (auto simp: generation_keys_def result_simps)
    then show ?thesis using derive_keys_total [OF assms(1,2), of secret] by auto
  qed
  have "list_all2 (sealed_under H S (ad_c_ap_ts start)) log nonces"
    using ks len by (auto simp: list_all2_conv_all_nth nonces_def nonce_def)
  moreover have "distinct (zip (map fst log) nonces)"
  proof -
    have z: "zip (map fst log) nonces = map (\<lambda>p. (fst p, nonce p)) (zip (map fst log) ks)"
      using len by (intro nth_equalityI) (simp_all add: nonces_def)
    have "inj_on (\<lambda>p. (fst p, nonce p)) (set (zip (map fst log) ks))"
    proof (rule inj_onI, clarify)
      fix g k g' k'
      assume p: "(g, k) \<in> set (zip (map fst log) ks)" "(g', k') \<in> set (zip (map fst log) ks)"
        and eq: "fst (g, k) = fst (g', k')" "nonce (g, k) = nonce (g', k')"
      obtain keys where keys: "?keys g = Inr keys" using p(1) ks by (auto simp: set_zip list_all2_conv_all_nth)
      then have "(word_of_nat k :: 64 word) = word_of_nat k'"
        using eq aead_nonce_injective [OF iv [OF keys]] by (simp add: nonce_def)
      moreover have "k < 2 ^ 64" "k' < 2 ^ 64" using p small assms(5) by fastforce+
      ultimately have "k = k'" by (simp add: word_of_nat_eq_iff take_bit_nat_eq_self)
      then show "g = g' \<and> k = k'" using eq(1) by simp
    qed
    then show ?thesis using d unfolding z by (simp add: distinct_map)
  qed
  ultimately show ?thesis by blast
qed

lemma ad_encrypt_record_total:
  "aead_total (ts_aead S) \<Longrightarrow> length content \<le> 2 ^ 14 \<Longrightarrow> length content + 22 \<le> length out \<Longrightarrow>
     \<exists>r. ad_encrypt_record S ad content ct out = Inr (r, ad\<lparr>ad_seq_out := ad_seq_out ad + 1\<rparr>)"
  using encrypt_record_total [of "ts_aead S" content out "ad_c_ap_keys ad" ct "ad_seq_out ad"]
  by (auto simp: ad_encrypt_record_def)

theorem app_nonces_never_repeat_witness:
  "\<exists>fin_record start ad log. finish_handshake flight_hkdf flight_suite demo_done (replicate 80 0) = Inr (fin_record, start) \<and>
     app_sends flight_hkdf flight_suite start ad 0 log \<and> length log = 2 \<and>
     (\<exists>nonces. list_all2 (sealed_under flight_hkdf flight_suite (ad_c_ap_ts start)) log nonces \<and> distinct (zip (map fst log) nonces))"
proof -
  have S: "aead_total (ts_aead flight_suite)" "ts_key_len flight_suite \<le> 32"
    by (simp_all add: flight_suite_def demo_cipher_total)
  obtain fin_record start where fin: "finish_handshake flight_hkdf flight_suite demo_done (replicate 80 0) = Inr (fin_record, start)"
    using finish_handshake_total [OF flight_hkdf_total S, of "replicate 80 0" demo_done]
    by (auto simp: CLIENT_FINISHED_LEN_def)
  have sent: "\<exists>r. ad_encrypt_record flight_suite ad [1] 23 (replicate 80 0) = Inr (r, ad\<lparr>ad_seq_out := ad_seq_out ad + 1\<rparr>)" for ad
    by (rule ad_encrypt_record_total [OF S(1)]) simp_all
  obtain r1 where "ad_encrypt_record flight_suite start [1] 23 (replicate 80 0) = Inr (r1, start\<lparr>ad_seq_out := ad_seq_out start + 1\<rparr>)"
    using sent by blast
  note one = app_sends.seal [OF app_sends.start this]
  obtain r2 ad2 where "ad_encrypt_record flight_suite (start\<lparr>ad_seq_out := ad_seq_out start + 1\<rparr>) [1] 23 (replicate 80 0) = Inr (r2, ad2)"
    using sent by blast
  then have "\<exists>log. app_sends flight_hkdf flight_suite start ad2 0 log \<and> length log = 2"
    using app_sends.seal [OF one] by (intro exI conjI) (blast, simp)
  then obtain log where log: "app_sends flight_hkdf flight_suite start ad2 0 log" "length log = 2" by blast
  have "\<exists>nonces. list_all2 (sealed_under flight_hkdf flight_suite (ad_c_ap_ts start)) log nonces \<and> distinct (zip (map fst log) nonces)"
    using app_nonces_never_repeat [OF flight_hkdf_total S(2) fin log(1)] log(2) by simp
  with fin log show ?thesis by blast
qed

end
