(* ===== verification/Tlv.thy ===== *)
theory Tlv
  imports Krabi_Prelude
begin

text \<open>
  The DER walker of \<^verbatim>\<open>backends/tlv.rs\<close>.  \<^verbatim>\<open>usize\<close> has at least 32 bits, so accumulating at most four
  length octets loses nothing; the accumulator is a natural number.  The reference is the
  canonical encoding \<^verbatim>\<open>tlv_bytes\<close>, with the shortest length form.
\<close>

section \<open>Model\<close>

datatype TlvError = TlvError

record Tlv =
  tlv_tag :: byte
  tlv_header_len :: nat
  tlv_body :: bytes
  tlv_rest :: bytes

definition read_tlv_len :: "bytes \<Rightarrow> TlvError + nat \<times> nat" where
  "read_tlv_len buf =
     (let len_first = buf ! 1 in
      if len_first AND 0x80 = 0 then Inr (2, unat len_first)
      else
        let n = unat (len_first AND 0x7F) in
        if n = 0 \<or> n > 4 then Inl TlvError
        else if length buf < 2 + n then Inl TlvError
        else
          let len = foldl (\<lambda>len b. len * 256 + unat b) 0 (sub_range 2 (2 + n) buf) in
          if len < 0x80 \<or> buf ! 2 = 0 then Inl TlvError else Inr (2 + n, len))"

definition read_tlv :: "bytes \<Rightarrow> TlvError + Tlv" where
  "read_tlv buf =
     (if buf = [] then Inl TlvError
      else if (buf ! 0) AND 0x1F = 0x1F then Inl TlvError
      else if length buf < 2 then Inl TlvError
      else
        rbind (read_tlv_len buf) (\<lambda>(header_len, body_len).
        let end_pos = header_len + body_len in
        if length buf < end_pos then Inl TlvError
        else Inr \<lparr>tlv_tag = buf ! 0, tlv_header_len = header_len,
                  tlv_body = sub_range header_len end_pos buf, tlv_rest = drop end_pos buf\<rparr>))"

definition tag_ctx_primitive :: "byte \<Rightarrow> byte" where
  "tag_ctx_primitive n = 0x80 OR (n AND 0x1F)"

section \<open>The canonical encoding\<close>

definition len_octets :: "nat \<Rightarrow> nat" where
  "len_octets n = (if n < 256 then 1 else if n < 256 ^ 2 then 2 else if n < 256 ^ 3 then 3 else 4)"

definition tlv_len :: "nat \<Rightarrow> bytes" where
  "tlv_len n = (if n < 0x80 then [word_of_nat n] else word_of_nat (0x80 + len_octets n) # be_bytes (len_octets n) n)"

definition tlv_bytes :: "byte \<times> bytes \<Rightarrow> bytes" where
  "tlv_bytes = (\<lambda>(tag, body). tag # tlv_len (length body) @ body)"

definition low_tag :: "byte \<Rightarrow> bool" where
  "low_tag tag \<longleftrightarrow> tag AND 0x1F \<noteq> 0x1F"

definition tlv_ok :: "byte \<times> bytes \<Rightarrow> bool" where
  "tlv_ok = (\<lambda>(tag, body). low_tag tag \<and> length body < 2 ^ 32)"

lemma be_val_foldl: "foldl (\<lambda>len b. len * 256 + unat b) 0 bs = be_val bs"
  by (simp add: be_val_def)

lemma low_bit_count: "0 < len_octets n \<and> len_octets n \<le> 4"
  by (simp add: len_octets_def)

lemma length_tlv_len [simp]: "length (tlv_len n) = (if n < 0x80 then 1 else 1 + len_octets n)"
  by (simp add: tlv_len_def)

text \<open>A length field without a leading zero octet has the minimal number of octets.\<close>

lemma be_val_minimal:
  assumes "bs \<noteq> []" "hd bs \<noteq> 0" "length bs \<le> 4"
  shows "len_octets (be_val bs) = length bs"
proof -
  obtain b t where bs: "bs = b # t" using assms(1) by (cases bs) auto
  have "unat b \<noteq> 0" using assms(2) by (simp add: bs unat_eq_0)
  then have "256 ^ length t \<le> be_val bs" unfolding bs be_val_Cons
    by (simp add: trans_le_add1)
  moreover have "be_val bs < 256 ^ Suc (length t)" using be_val_less [of bs] by (simp add: bs del: be_val_Cons)
  moreover have "length t = 0 \<or> length t = 1 \<or> length t = 2 \<or> length t = 3"
    using assms(3) unfolding bs list.size by linarith
  ultimately show ?thesis by (auto simp: len_octets_def bs simp del: be_val_Cons)
qed

lemma read_tlv_len_sound:
  assumes "2 \<le> length buf" "read_tlv_len buf = Inr (h, n)"
  shows "n < 2 ^ 32 \<and> h = 1 + length (tlv_len n) \<and> h \<le> length buf \<and> sub_range 1 h buf = tlv_len n"
proof -
  obtain a f t where buf: "buf = a # f # t"
    using assms(1) by (metis Suc_le_length_iff numeral_2_eq_2)
  show ?thesis
  proof (cases "unat f < 128")
    case True
    then have "h = 2" "n = unat f" using assms(2)
      by (auto simp: read_tlv_len_def buf byte_high_bit word_less_nat_alt)
    then show ?thesis using True by (simp add: tlv_len_def buf sub_range_def)
  next
    case False
    define k where "k = unat f - 128"
    have f: "f = word_of_nat (0x80 + k)" "unat (f AND 0x7F) = k"
    proof -
      show "f = word_of_nat (0x80 + k)" using False by (simp add: k_def)
      have "unat f mod 128 = (unat f - 128) mod 128" using False by (simp add: le_mod_geq)
      moreover have "unat f - 128 < 128" using unat_byte_less [of f] by linarith
      ultimately have "unat f mod 128 = unat f - 128" by simp
      then show "unat (f AND 0x7F) = k" by (simp add: unat_and_mask7 k_def)
    qed
    define bs where "bs = take k t"
    have "read_tlv_len buf =
        (if k = 0 \<or> k > 4 then Inl TlvError else if length buf < 2 + k then Inl TlvError
         else if be_val bs < 0x80 \<or> t ! 0 = 0 then Inl TlvError else Inr (2 + k, be_val bs))"
      using False by (simp add: read_tlv_len_def buf byte_high_bit word_less_nat_alt f(2) Let_def be_val_def bs_def
          sub_range_def)
    then have 1: "0 < k" "k \<le> 4" "2 + k \<le> length buf" "n = be_val bs" "h = 2 + k" "\<not> n < 0x80" "t ! 0 \<noteq> 0"
      using assms(2) by (auto split: if_splits)
    have bs: "length bs = k" using 1(3) by (simp add: bs_def buf)
    then have ne: "bs \<noteq> []" using 1(1) by auto
    then have "hd bs = t ! 0" using 1(1) by (simp add: bs_def hd_conv_nth)
    then have oct: "len_octets n = k" using be_val_minimal [OF ne] bs 1 by simp
    have "be_val bs < 256 ^ 4"
      by (rule order_less_le_trans [OF be_val_less power_increasing]) (use bs 1(2) in simp_all)
    then have "n < 2 ^ 32" using 1(4) by simp
    moreover have "be_bytes k n = bs" using be_bytes_be_val [of bs] unfolding bs 1(4) .
    then have "tlv_len n = f # bs" unfolding tlv_len_def if_not_P [OF 1(6)] oct f(1) [symmetric] by simp
    moreover have "sub_range 1 h buf = f # bs" by (simp add: buf sub_range_def bs_def 1(5))
    ultimately show ?thesis using 1(3,5) bs by simp
  qed
qed

lemma read_tlv_len_complete:
  assumes "n < 2 ^ 32" "buf = a # tlv_len n @ t"
  shows "read_tlv_len buf = Inr (1 + length (tlv_len n), n)"
proof (cases "n < 0x80")
  case True
  then have "unat (word_of_nat n :: byte) = n" by (simp add: unat_word_of_nat_byte)
  then show ?thesis using True
    by (simp add: assms(2) tlv_len_def read_tlv_len_def byte_high_bit word_less_nat_alt)
next
  case False
  define k where "k = len_octets n"
  define f :: byte where "f = word_of_nat (0x80 + k)"
  have k: "0 < k" "k \<le> 4" "n < 256 ^ k" "256 ^ (k - 1) \<le> n"
    using False assms(1) by (auto simp: k_def len_octets_def)
  have f1: "unat f = 0x80 + k" unfolding f_def by (rule unat_word_of_nat_byte) (use k in simp)
  have f: "unat f = 0x80 + k" "unat (f AND 0x7F) = k" using k by (simp_all add: f1 unat_and_mask7)
  have buf: "buf = a # f # be_bytes k n @ t" using False by (simp add: assms(2) tlv_len_def f_def k_def)
  have sub: "sub_range 2 (2 + k) buf = be_bytes k n" by (simp add: buf sub_range_def)
  have val: "be_val (be_bytes k n) = n" using k(3) by (simp add: be_val_be_bytes)
  have "be_bytes k n ! 0 \<noteq> 0"
  proof
    assume "be_bytes k n ! 0 = 0"
    moreover obtain b r where br: "be_bytes k n = b # r" using k(1) by (cases "be_bytes k n") (auto dest: arg_cong [of _ _ length])
    ultimately have "be_val (be_bytes k n) = be_val r" by simp
    moreover have "length r = k - 1" using br by (metis diff_Suc_1 length_Cons length_be_bytes)
    ultimately show False using be_val_less [of r] k(4) val by simp
  qed
  then have "buf ! 2 \<noteq> 0" using k(1) by (simp add: buf nth_append)
  then show ?thesis using False f k sub val
    by (simp add: read_tlv_len_def byte_high_bit word_less_nat_alt be_val_foldl buf k_def [symmetric] nth_append Let_def)
qed

text \<open>The walker accepts exactly a canonical TLV in front of anything.\<close>

lemma read_tlv_ok:
  "read_tlv buf = Inr t \<longleftrightarrow> tlv_ok (tlv_tag t, tlv_body t) \<and> buf = tlv_bytes (tlv_tag t, tlv_body t) @ tlv_rest t \<and>
     tlv_header_len t = 1 + length (tlv_len (length (tlv_body t)))" (is "?l \<longleftrightarrow> ?r")
proof
  assume ?l
  then obtain h n where buf: "buf \<noteq> []" "low_tag (buf ! 0)" "2 \<le> length buf"
    and len: "read_tlv_len buf = Inr (h, n)" and fits: "h + n \<le> length buf"
    and t: "t = \<lparr>tlv_tag = buf ! 0, tlv_header_len = h, tlv_body = sub_range h (h + n) buf, tlv_rest = drop (h + n) buf\<rparr>"
    by (auto simp: read_tlv_def low_tag_def Let_def rbind_eq_Inr split: if_splits)
  have n: "n < 2 ^ 32" "h = 1 + length (tlv_len n)" "h \<le> length buf" "sub_range 1 h buf = tlv_len n"
    using read_tlv_len_sound [OF buf(3) len] by auto
  have body: "length (sub_range h (h + n) buf) = n" using fits by simp
  have "buf = [buf ! 0] @ drop 1 buf" using buf(1) by (cases buf) auto
  also have "drop 1 buf = sub_range 1 h buf @ sub_range h (h + n) buf @ drop (h + n) buf"
    using drop_sub_range [of 1 h buf] drop_sub_range [of h "h + n" buf] n(2) by (metis le_add1)
  finally show ?r using buf n body by (simp add: t tlv_bytes_def tlv_ok_def)
next
  assume r: ?r
  define n where "n = length (tlv_body t)"
  define h where "h = 1 + length (tlv_len n)"
  have buf: "buf = tlv_tag t # tlv_len n @ tlv_body t @ tlv_rest t" and n: "n < 2 ^ 32" and h: "tlv_header_len t = h"
    using r by (auto simp: tlv_bytes_def tlv_ok_def n_def h_def)
  have len: "read_tlv_len buf = Inr (h, n)" unfolding h_def by (rule read_tlv_len_complete [OF n buf])
  have "h + n \<le> length buf" "sub_range h (h + n) buf = tlv_body t" "drop (h + n) buf = tlv_rest t"
    by (simp_all add: buf h_def n_def sub_range_def)
  moreover have "2 \<le> length buf" "buf ! 0 = tlv_tag t" "buf \<noteq> []" by (auto simp: buf tlv_len_def)
  ultimately show ?l using r len h by (auto simp: read_tlv_def Let_def tlv_ok_def low_tag_def)
qed

end
