(* ===== verification/Identity.thy ===== *)
theory Identity
  imports Tlv Verify_Strategy
begin

text \<open>
  Server identity, \<^verbatim>\<open>identity.rs\<close>: matching the host name against the \<^verbatim>\<open>dNSName\<close> entries of the
  subjectAltName, and the validity window.  The model is the default build, without the feature
  \<^verbatim>\<open>ip-host\<close>, in which an IP literal never matches.  Host names are their bytes.  Decoding the two
  \<^verbatim>\<open>Time\<close> values is done by the crate \<^verbatim>\<open>der\<close> and is the parameter \<^verbatim>\<open>decode_validity\<close>.
\<close>

section \<open>Model\<close>

datatype IdentityError = ID_NoSan | ID_HostnameMismatch | ID_MalformedSan | ID_PinMismatch | ID_PinAlgorithmMismatch

fun ip_scan :: "bytes \<Rightarrow> bool \<Rightarrow> bool \<Rightarrow> bool option" where
  "ip_scan [] saw_dot all_digit_or_dot = Some (all_digit_or_dot \<and> saw_dot)"
| "ip_scan (b # bs) saw_dot all_digit_or_dot =
     (if b = 0x3A then None
      else if b = 0x2E then ip_scan bs True all_digit_or_dot
      else ip_scan bs saw_dot (all_digit_or_dot \<and> 0x30 \<le> b \<and> b \<le> 0x39))"

definition looks_like_ip_literal :: "bytes \<Rightarrow> bool" where
  "looks_like_ip_literal hostname =
     (if hostname \<noteq> [] \<and> hostname ! 0 = 0x5B then True
      else case ip_scan hostname False True of
             None \<Rightarrow> True
           | Some shape \<Rightarrow> hostname \<noteq> [] \<and> shape)"

definition DNS_NAME_TAG :: byte where
  "DNS_NAME_TAG = tag_ctx_primitive 2"

lemma read_tlv_shorter [dest]: "read_tlv buf = Inr t \<Longrightarrow> length (tlv_rest t) < length buf"
  by (auto simp: read_tlv_ok tlv_bytes_def)

function san_entry_next :: "byte \<Rightarrow> bytes \<Rightarrow> ((IdentityError + bytes) \<times> bytes) option" where
  "san_entry_next target_tag rest =
     (if rest = [] then None
      else case read_tlv rest of
             Inl _ \<Rightarrow> Some (Inl ID_MalformedSan, [])
           | Inr t \<Rightarrow>
               if tlv_tag t = target_tag then Some (Inr (tlv_body t), tlv_rest t)
               else san_entry_next target_tag (tlv_rest t))"
  by auto
termination by (relation "measure (\<lambda>(tag, rest). length rest)") auto

declare san_entry_next.simps [simp del]

lemma san_entry_next_shorter:
  "san_entry_next tag rest = Some (Inr b, rest') \<Longrightarrow> length rest' < length rest"
proof (induction tag rest rule: san_entry_next.induct)
  case (1 tag rest)
  then show ?case
    by (subst (asm) (2) san_entry_next.simps)
      (auto split: sum.splits if_splits intro: order_less_trans)
qed

definition ascii_lower :: "byte \<Rightarrow> byte" where
  "ascii_lower b = (if 0x41 \<le> b \<and> b \<le> 0x5A then b + 32 else b)"

definition ascii_eq_ignore_case :: "bytes \<Rightarrow> bytes \<Rightarrow> bool" where
  "ascii_eq_ignore_case a b \<longleftrightarrow> length a = length b \<and> list_all2 (\<lambda>x y. ascii_lower x = ascii_lower y) a b"

definition dns_name_matches :: "bytes \<Rightarrow> bytes \<Rightarrow> bool" where
  "dns_name_matches pattern hostname =
     (if take 2 pattern = [0x2A, 0x2E] then
        let suffix = drop 2 pattern in
        if suffix = [] \<or> 0x2A \<in> set suffix then False
        else if length hostname \<le> length suffix + 1 then False
        else
          let split_at = length hostname - length suffix;
              label_with_dot = take split_at hostname;
              tail = drop split_at hostname
          in
          if \<not> ascii_eq_ignore_case tail suffix then False
          else if last label_with_dot \<noteq> 0x2E then False
          else
            let label = take (length label_with_dot - 1) label_with_dot in
            if label = [] \<or> 0x2E \<in> set label then False else True
      else if 0x2A \<in> set pattern then False
      else ascii_eq_ignore_case pattern hostname)"

function hostname_loop :: "bytes \<Rightarrow> bytes \<Rightarrow> IdentityError + unit" where
  "hostname_loop hostname rest =
     (case san_entry_next DNS_NAME_TAG rest of
        None \<Rightarrow> Inl ID_HostnameMismatch
      | Some (Inl e, _) \<Rightarrow> Inl e
      | Some (Inr entry, rest') \<Rightarrow>
          if dns_name_matches entry hostname then Inr () else hostname_loop hostname rest')"
  by auto
termination
  by (relation "measure (\<lambda>(h, rest). length rest)") (auto dest: san_entry_next_shorter)

declare hostname_loop.simps [simp del]

definition verify_hostname :: "CertView \<Rightarrow> bytes \<Rightarrow> IdentityError + unit" where
  "verify_hostname cert_view hostname =
     rbind (ok_or ID_NoSan (cv_san cert_view)) (\<lambda>san.
       if looks_like_ip_literal hostname then Inl ID_HostnameMismatch
       else hostname_loop hostname san)"

datatype ValidityError = NotYetValid "64 word" "64 word" | Expired "64 word" "64 word" | ValidityMalformed

definition verify_validity ::
  "(bytes \<Rightarrow> (64 word \<times> 64 word) option) \<Rightarrow> CertView \<Rightarrow> 64 word \<Rightarrow> ValidityError + unit" where
  "verify_validity decode_validity cert_view now =
     rbind (ok_or ValidityMalformed (decode_validity (cv_validity_der cert_view))) (\<lambda>(not_before, not_after).
       if now < not_before then Inl (NotYetValid not_before now)
       else if now > not_after then Inl (Expired not_after now)
       else Inr ())"

section \<open>Which names are bound\<close>

text \<open>The reference: equal up to ASCII case without a wildcard, or a wildcard as the whole leftmost
  label, which stands for exactly one non-empty label.\<close>

definition name_binds :: "bytes \<Rightarrow> bytes \<Rightarrow> bool" where
  "name_binds pattern hostname \<longleftrightarrow>
     0x2A \<notin> set pattern \<and> map ascii_lower pattern = map ascii_lower hostname \<or>
     (\<exists>suffix label rest. pattern = [0x2A, 0x2E] @ suffix \<and> suffix \<noteq> [] \<and> 0x2A \<notin> set suffix \<and>
        hostname = label @ [0x2E] @ rest \<and> map ascii_lower rest = map ascii_lower suffix \<and>
        label \<noteq> [] \<and> 0x2E \<notin> set label)"

lemma ascii_eq_map: "ascii_eq_ignore_case a b \<longleftrightarrow> map ascii_lower a = map ascii_lower b"
  by (auto simp: ascii_eq_ignore_case_def list_all2_conv_all_nth list_eq_iff_nth_eq)

lemma dns_name_matches_wildcard:
  assumes "take 2 pattern = [0x2A, 0x2E]"
  shows "dns_name_matches pattern hostname \<longleftrightarrow> name_binds pattern hostname"
proof -
  obtain suffix where p: "pattern = [0x2A, 0x2E] @ suffix"
    using assms by (metis append_take_drop_id)
  show ?thesis
  proof
    assume m: "dns_name_matches pattern hostname"
    define k where "k = length hostname - length suffix"
    have 1: "suffix \<noteq> []" "0x2A \<notin> set suffix" "length suffix + 1 < length hostname"
      "map ascii_lower (drop k hostname) = map ascii_lower suffix" "last (take k hostname) = 0x2E"
      "take (k - 1) hostname \<noteq> []" "0x2E \<notin> set (take (k - 1) hostname)"
      using m unfolding dns_name_matches_def p k_def
      by (auto simp: Let_def ascii_eq_map not_le min_def split: if_splits)
    have "hostname = take k hostname @ drop k hostname" by simp
    also have "take k hostname = take (k - 1) hostname @ [0x2E]"
    proof -
      have "take k hostname \<noteq> []" using 1(3) by (auto simp: k_def)
      then have "take k hostname = butlast (take k hostname) @ [0x2E]" using 1(5) by (metis append_butlast_last_id)
      then show ?thesis using 1(3) by (simp add: butlast_take k_def)
    qed
    finally show "name_binds pattern hostname"
      unfolding name_binds_def p using 1 by (metis append.assoc)
  next
    assume "name_binds pattern hostname"
    then obtain label rest where 1: "suffix \<noteq> []" "0x2A \<notin> set suffix" "hostname = label @ [0x2E] @ rest"
      "map ascii_lower rest = map ascii_lower suffix" "label \<noteq> []" "0x2E \<notin> set label"
      by (auto simp: name_binds_def p)
    have "length rest = length suffix" using 1(4) by (metis length_map)
    then show "dns_name_matches pattern hostname" using 1
      by (simp add: dns_name_matches_def p Let_def ascii_eq_map Suc_diff_le)
  qed
qed

lemma dns_name_matches_binds: "dns_name_matches pattern hostname \<longleftrightarrow> name_binds pattern hostname"
proof (cases "take 2 pattern = [0x2A, 0x2E]")
  case True
  then show ?thesis by (rule dns_name_matches_wildcard)
next
  case False
  then have "\<nexists>suffix. pattern = [0x2A, 0x2E] @ suffix" by auto
  with False show ?thesis by (auto simp: dns_name_matches_def name_binds_def ascii_eq_map)
qed

section \<open>The entries of the extension\<close>

lemma read_tlv_bytes:
  "tlv_ok (tag, body) \<Longrightarrow> \<exists>t. read_tlv (tlv_bytes (tag, body) @ rest) = Inr t \<and>
     tlv_tag t = tag \<and> tlv_body t = body \<and> tlv_rest t = rest"
  by (rule exI [of _ "\<lparr>tlv_tag = tag, tlv_header_len = 1 + length (tlv_len (length body)), tlv_body = body,
        tlv_rest = rest\<rparr>"]) (simp add: read_tlv_ok)

lemma san_entry_next_step:
  assumes "tlv_ok (tag, body)"
  shows "san_entry_next target (tlv_bytes (tag, body) @ rest) =
    (if tag = target then Some (Inr body, rest) else san_entry_next target rest)"
proof -
  obtain t where "read_tlv (tlv_bytes (tag, body) @ rest) = Inr t" "tlv_tag t = tag" "tlv_body t = body"
    "tlv_rest t = rest" using read_tlv_bytes [OF assms, of rest] by auto
  moreover have "tlv_bytes (tag, body) \<noteq> []" by (simp add: tlv_bytes_def)
  ultimately show ?thesis
    by (simp add: san_entry_next.simps [of target "tlv_bytes (tag, body) @ rest"])
qed

lemma san_entry_next_found:
  "san_entry_next target rest = Some (Inr body, rest') \<Longrightarrow>
     \<exists>es. rest = concat (map tlv_bytes es) @ tlv_bytes (target, body) @ rest' \<and> list_all tlv_ok es \<and>
       tlv_ok (target, body)"
proof (induction target rest rule: san_entry_next.induct)
  case (1 target rest)
  from "1.prems" obtain t where t: "rest \<noteq> []" "read_tlv rest = Inr t"
    by (subst (asm) san_entry_next.simps) (auto split: if_splits sum.splits)
  then have r: "tlv_ok (tlv_tag t, tlv_body t)" "rest = tlv_bytes (tlv_tag t, tlv_body t) @ tlv_rest t"
    by (simp_all add: read_tlv_ok)
  show ?case
  proof (cases "tlv_tag t = target")
    case True
    with "1.prems" t have "body = tlv_body t" "rest' = tlv_rest t" by (simp_all add: san_entry_next.simps [of target rest])
    with True r show ?thesis by (intro exI [of _ "[]"]) simp
  next
    case False
    with "1.prems" t have "san_entry_next target (tlv_rest t) = Some (Inr body, rest')"
      by (simp add: san_entry_next.simps [of target rest])
    then obtain es where "tlv_rest t = concat (map tlv_bytes es) @ tlv_bytes (target, body) @ rest'"
      "list_all tlv_ok es" "tlv_ok (target, body)" using "1.IH" t False by blast
    with r show ?thesis by (intro exI [of _ "(tlv_tag t, tlv_body t) # es"]) simp
  qed
qed

lemma hostname_loop_found:
  "list_all tlv_ok es \<Longrightarrow> tlv_ok (DNS_NAME_TAG, name) \<Longrightarrow> dns_name_matches name hostname \<Longrightarrow>
     hostname_loop hostname (concat (map tlv_bytes es) @ tlv_bytes (DNS_NAME_TAG, name) @ rest) = Inr ()"
proof (induction es)
  case Nil
  then show ?case by (simp add: hostname_loop.simps [of hostname "tlv_bytes (DNS_NAME_TAG, name) @ rest"] san_entry_next_step)
next
  case (Cons e es)
  obtain tag body where e: "e = (tag, body)" by fastforce
  let ?tl = "concat (map tlv_bytes es) @ tlv_bytes (DNS_NAME_TAG, name) @ rest"
  have ok: "tlv_ok (tag, body)" using Cons.prems by (simp add: e)
  have IH: "hostname_loop hostname ?tl = Inr ()" using Cons by simp
  then have "hostname_loop hostname (tlv_bytes (tag, body) @ ?tl) = Inr ()"
    using hostname_loop.simps [of hostname ?tl]
    by (simp add: hostname_loop.simps [of hostname "tlv_bytes (tag, body) @ ?tl"] san_entry_next_step [OF ok])
  then show ?case by (simp add: e)
qed

lemma hostname_loop_sound:
  "hostname_loop hostname rest = Inr () \<Longrightarrow>
     \<exists>es name rest'. rest = concat (map tlv_bytes es) @ tlv_bytes (DNS_NAME_TAG, name) @ rest' \<and>
       list_all tlv_ok es \<and> tlv_ok (DNS_NAME_TAG, name) \<and> dns_name_matches name hostname"
proof (induction hostname rest rule: hostname_loop.induct)
  case (1 hostname rest)
  from "1.prems" obtain body rest' where n: "san_entry_next DNS_NAME_TAG rest = Some (Inr body, rest')"
    by (subst (asm) hostname_loop.simps) (auto split: option.splits sum.splits)
  obtain es where es: "rest = concat (map tlv_bytes es) @ tlv_bytes (DNS_NAME_TAG, body) @ rest'"
    "list_all tlv_ok es" "tlv_ok (DNS_NAME_TAG, body)" using san_entry_next_found [OF n] by blast
  show ?case
  proof (cases "dns_name_matches body hostname")
    case True
    then show ?thesis using es by blast
  next
    case False
    then have "hostname_loop hostname rest' = Inr ()"
      using "1.prems" n by (simp add: hostname_loop.simps [of hostname rest])
    then obtain es' name rest'' where "rest' = concat (map tlv_bytes es') @ tlv_bytes (DNS_NAME_TAG, name) @ rest''"
      "list_all tlv_ok es'" "tlv_ok (DNS_NAME_TAG, name)" "dns_name_matches name hostname"
      using "1.IH" n False by blast
    then show ?thesis using es by (intro exI [of _ "es @ (DNS_NAME_TAG, body) # es'"] exI [of _ name] exI [of _ rest'']) simp
  qed
qed

text \<open>
  C17: a host name is accepted exactly when it is not an IP literal and the subjectAltName holds,
  after well-formed entries only, a \<^verbatim>\<open>dNSName\<close> that binds it: equal up to ASCII case, or with one
  leading wildcard label standing for exactly one non-empty label.
\<close>

theorem verify_hostname_exact:
  "verify_hostname cv hostname = Inr () \<longleftrightarrow>
     \<not> looks_like_ip_literal hostname \<and>
     (\<exists>es name rest. cv_san cv = Some (concat (map tlv_bytes es) @ tlv_bytes (DNS_NAME_TAG, name) @ rest) \<and>
        list_all tlv_ok es \<and> tlv_ok (DNS_NAME_TAG, name) \<and> name_binds name hostname)"
  using hostname_loop_found [of _ _ hostname] hostname_loop_sound [of hostname]
  by (cases "cv_san cv") (auto simp: verify_hostname_def dns_name_matches_binds)

text \<open>An IP literal contains no dot-separated label a certificate could bind by accident: the shape
  check catches every name made of digits and dots.\<close>

lemma ip_scan_digits:
  "list_all (\<lambda>b. b = 0x2E \<or> 0x30 \<le> b \<and> b \<le> 0x39) bs \<Longrightarrow> ip_scan bs d True = Some (d \<or> 0x2E \<in> set bs)"
proof (induction bs arbitrary: d)
  case (Cons b bs)
  then have "b \<noteq> 0x3A" by auto
  with Cons show ?case by auto
qed simp

lemma dotted_quad_is_ip_literal:
  "list_all (\<lambda>b. b = 0x2E \<or> 0x30 \<le> b \<and> b \<le> 0x39) h \<Longrightarrow> 0x2E \<in> set h \<Longrightarrow> looks_like_ip_literal h"
  by (auto simp: looks_like_ip_literal_def ip_scan_digits)

end
