(* ===== verification/Client_Error.thy ===== *)
theory Client_Error
  imports Connection Identity
begin

text \<open>
  The error tree of \<^verbatim>\<open>client/error.rs\<close> as far as the engine raises it.  The variants that carry no data
  are constants; \<^verbatim>\<open>RecordTooLarge\<close> carries the limit and the length that exceeded it.
\<close>

datatype InternalError =
    RecvBufferEmptyOnRecvEvent
  | DrainStateInconsistent
  | WriteBeforeHandshake
  | MarkSentTooLarge
  | HandshakeStepInDataPhase
  | HandshakeStepWrongState
  | ServerHelloWrongState
  | FlightWrongState
  | FinalizeWrongState
  | FrameWithParkedPlaintext
  | AdvanceWhileParked
  | AppDataDuringDriveHandshake
  | HandshakeDoneInDataPhase
  | WriteAppZeroProgress

datatype HandshakeError =
    HE_Connection ConnectionError
  | HE_Identity IdentityError
  | HE_ClientHelloTooLong
  | HE_RecordTooLarge "16 word" "16 word"
  | HE_InvalidRecordSizeLimit "16 word"
  | HE_AdvanceTooLarge
  | HE_Busy
  | HE_NotReady
  | HE_PostHandshakeNotSupported
  | HE_MalformedKeyUpdate
  | HE_InterleavedPostHandshake
  | HE_Internal InternalError
  | HE_Rng
  | HE_StrategyRejected
  | HE_StrategyPubkeyMismatch

datatype WriteAppError = WA_Closed | WA_Busy | WA_NotReady | WA_Other HandshakeError

end
