(* ===== verification/Post_Handshake.thy ===== *)
theory Post_Handshake
  imports Client_Error
begin

text \<open>
  Reassembly of post-handshake messages (\<^verbatim>\<open>client/engine.rs\<close>, \<^verbatim>\<open>PostHandshakeReasm\<close> and
  \<^verbatim>\<open>feed_post_handshake\<close>).  The cursor into the decrypted record is the part of it not yet read; the
  tail call of the source on a complete KeyUpdate is the result \<^verbatim>\<open>Some update_requested\<close>, which the
  engine acts on.
\<close>

section \<open>Model\<close>

definition PH_STAGE_MAX :: nat where
  "PH_STAGE_MAX = 5"

record PostHandshakeReasm =
  ph_stage :: bytes
  ph_stage_len :: nat
  ph_skip_remaining :: nat

definition ph_default :: PostHandshakeReasm where
  "ph_default = \<lparr>ph_stage = replicate PH_STAGE_MAX 0, ph_stage_len = 0, ph_skip_remaining = 0\<rparr>"

definition in_progress :: "PostHandshakeReasm \<Rightarrow> bool" where
  "in_progress ph \<longleftrightarrow> ph_stage_len ph \<noteq> 0 \<or> ph_skip_remaining ph \<noteq> 0"

text \<open>Stage bytes of the record until \<^verbatim>\<open>want\<close> are there or the record is used up.\<close>

definition ph_fill :: "nat \<Rightarrow> PostHandshakeReasm \<Rightarrow> bytes \<Rightarrow> PostHandshakeReasm \<times> bytes" where
  "ph_fill want ph rest =
     (let n = min (want - ph_stage_len ph) (length rest)
      in (ph\<lparr>ph_stage := put_at (ph_stage_len ph) (take n rest) (ph_stage ph),
             ph_stage_len := ph_stage_len ph + n\<rparr>, drop n rest))"

text \<open>One message: what the record leaves, and the result unless the loop goes on with the rest.\<close>

definition ph_message ::
  "PostHandshakeReasm \<Rightarrow> bytes \<Rightarrow> PostHandshakeReasm \<times> bytes \<times> (HandshakeError + bool option) option" where
  "ph_message ph1 content =
     (let (ph2, rest) = ph_fill 4 ph1 content in
      if ph_stage_len ph2 < 4 then (ph2, rest, Some (Inr None))
      else
        let msg_type = ph_stage ph2 ! 0;
            body_len = unat (from_be_bytes [0, ph_stage ph2 ! 1, ph_stage ph2 ! 2, ph_stage ph2 ! 3] :: 32 word)
        in
        if msg_type = HS_NEW_SESSION_TICKET then
          let ph3 = ph2\<lparr>ph_stage_len := 0\<rparr>;
              n = min body_len (length rest)
          in if n < body_len then (ph3\<lparr>ph_skip_remaining := body_len - n\<rparr>, drop n rest, Some (Inr None))
             else (ph3, drop n rest, None)
        else if msg_type = HS_KEY_UPDATE then
          (if body_len \<noteq> 1 then (ph2, rest, Some (Inl HE_MalformedKeyUpdate))
           else
             let (ph3, rest) = ph_fill PH_STAGE_MAX ph2 rest in
             if ph_stage_len ph3 < PH_STAGE_MAX then (ph3, rest, Some (Inr None))
             else if rest \<noteq> [] then (ph3, rest, Some (Inl HE_MalformedKeyUpdate))
             else if ph_stage ph3 ! 4 = 0 then (ph3\<lparr>ph_stage_len := 0\<rparr>, rest, Some (Inr (Some False)))
             else if ph_stage ph3 ! 4 = 1 then (ph3\<lparr>ph_stage_len := 0\<rparr>, rest, Some (Inr (Some True)))
             else (ph3, rest, Some (Inl HE_MalformedKeyUpdate)))
        else (ph2, rest, Some (Inl HE_PostHandshakeNotSupported)))"

lemma ph_fill_measure:
  "ph_fill want ph rest = (ph', rest') \<Longrightarrow>
     length rest' \<le> length rest \<and> (length rest' = length rest \<longrightarrow> ph_stage_len ph' = ph_stage_len ph)"
  by (auto simp: ph_fill_def Let_def)

lemma ph_message_measure:
  assumes "ph_message ph content = (ph', rest, None)"
  shows "length rest < length content \<or> length rest = length content \<and> ph_stage_len ph' < ph_stage_len ph"
proof -
  obtain ph2 rest2 where f: "ph_fill 4 ph content = (ph2, rest2)" by (metis surj_pair)
  show ?thesis using assms ph_fill_measure [OF f]
    by (auto simp: ph_message_def f Let_def split: if_splits prod.splits)
qed

function ph_feed :: "bytes \<Rightarrow> PostHandshakeReasm \<Rightarrow> PostHandshakeReasm \<times> (HandshakeError + bool option)" where
  "ph_feed content ph =
     (let n = min (ph_skip_remaining ph) (length content);
          ph1 = ph\<lparr>ph_skip_remaining := ph_skip_remaining ph - n\<rparr>
      in
      if ph_skip_remaining ph1 > 0 then (ph1, Inr None)
      else
        case ph_message ph1 (drop n content) of
          (ph2, rest, Some r) \<Rightarrow> (ph2, r)
        | (ph2, rest, None) \<Rightarrow> ph_feed rest ph2)"
  by pat_completeness auto
termination
  by (relation "measures [\<lambda>(content, ph). length content, \<lambda>(content, ph). ph_stage_len ph]")
    (auto dest!: ph_message_measure [OF sym])

declare ph_feed.simps [simp del]

section \<open>Records and messages\<close>

definition ph_ok :: "PostHandshakeReasm \<Rightarrow> bool" where
  "ph_ok ph \<longleftrightarrow> length (ph_stage ph) = PH_STAGE_MAX \<and> ph_stage_len ph \<le> PH_STAGE_MAX"

lemma ph_default_ok [simp]: "ph_ok ph_default"
  by (simp add: ph_ok_def ph_default_def)

lemma ph_fill_ok: "ph_ok ph \<Longrightarrow> want \<le> PH_STAGE_MAX \<Longrightarrow> ph_ok (fst (ph_fill want ph d))"
  by (auto simp: ph_ok_def ph_fill_def Let_def put_at_def)

lemma ph_fill_done: "ph_ok ph \<Longrightarrow> want \<le> ph_stage_len ph \<Longrightarrow> ph_fill want ph d = (ph, d)"
  by (simp add: ph_ok_def ph_fill_def put_at_def)

lemma ph_fill_more:
  "ph_fill want ph d = (ph', r) \<Longrightarrow> want \<le> ph_stage_len ph' \<Longrightarrow> ph_fill want ph (d @ c) = (ph', r @ c)"
  by (auto simp: ph_fill_def Let_def)

lemma ph_fill_short: "ph_fill want ph d = (ph', r) \<Longrightarrow> ph_stage_len ph' < want \<Longrightarrow> r = []"
  by (auto simp: ph_fill_def Let_def split: if_splits)

lemma ph_fill_append:
  assumes "ph_ok ph" "want \<le> PH_STAGE_MAX" "ph_fill want ph d = (ph', r)" "ph_stage_len ph' < want"
  shows "ph_fill want ph (d @ c) = ph_fill want ph' c"
proof -
  have len: "ph_stage_len ph + length d < want" "ph' = ph\<lparr>ph_stage := put_at (ph_stage_len ph) d (ph_stage ph),
      ph_stage_len := ph_stage_len ph + length d\<rparr>"
    using assms(3,4) by (auto simp: ph_fill_def Let_def min_def split: if_splits)
  have n: "min (want - ph_stage_len ph) (length (d @ c)) = length d + min (want - ph_stage_len ph') (length c)"
    using len by auto
  have "put_at (ph_stage_len ph) (d @ x) (ph_stage ph) =
      put_at (ph_stage_len ph + length d) x (put_at (ph_stage_len ph) d (ph_stage ph))" for x
    using len assms(1,2) by (simp add: put_at_def ph_ok_def ac_simps)
  with n show ?thesis unfolding ph_fill_def Let_def n by (simp add: len(2))
qed

lemma ph_feed_message:
  "ph_skip_remaining ph \<le> length c \<Longrightarrow>
     ph_feed c ph =
       (case ph_message (ph\<lparr>ph_skip_remaining := 0\<rparr>) (drop (ph_skip_remaining ph) c) of
          (ph2, rest, Some r) \<Rightarrow> (ph2, r) | (ph2, rest, None) \<Rightarrow> ph_feed rest ph2)"
  by (subst ph_feed.simps) (simp add: Let_def)

lemma ph_feed_skipping:
  "length c < ph_skip_remaining ph \<Longrightarrow>
     ph_feed c ph = (ph\<lparr>ph_skip_remaining := ph_skip_remaining ph - length c\<rparr>, Inr None)"
  by (subst ph_feed.simps) (simp add: Let_def)

text \<open>A message that goes on, fails or completes with the bytes at hand does so with more bytes after
  them, except that nothing may follow a KeyUpdate.\<close>

lemma ph_message_more:
  assumes "ph_message ph d = (ph', r, res)"
  shows "res = None \<Longrightarrow> ph_message ph (d @ c) = (ph', r @ c, None)"
    and "res = Some (Inl e) \<Longrightarrow> \<exists>ph2 r2. ph_message ph (d @ c) = (ph2, r2, Some (Inl e))"
    and "res = Some (Inr (Some u)) \<Longrightarrow> c \<noteq> [] \<Longrightarrow> \<exists>ph2 r2. ph_message ph (d @ c) = (ph2, r2, Some (Inl HE_MalformedKeyUpdate))"
proof -
  obtain ph2 r2 where f: "ph_fill 4 ph d = (ph2, r2)" by (metis surj_pair)
  obtain ph3 r3 where g: "ph_fill PH_STAGE_MAX ph2 r2 = (ph3, r3)" by (metis surj_pair)
  have f': "ph_fill 4 ph (d @ c) = (ph2, r2 @ c)" if "\<not> ph_stage_len ph2 < 4"
    using ph_fill_more [OF f] that by simp
  have g': "ph_fill PH_STAGE_MAX ph2 (r2 @ c) = (ph3, r3 @ c)" if "\<not> ph_stage_len ph3 < PH_STAGE_MAX"
    using ph_fill_more [OF g] that by simp
  show "ph_message ph (d @ c) = (ph', r @ c, None)" if "res = None"
    using assms f' that by (auto simp: ph_message_def f g Let_def split: if_splits)
  show "\<exists>ph2 r2. ph_message ph (d @ c) = (ph2, r2, Some (Inl e))" if "res = Some (Inl e)"
    using assms f' g' that by (auto simp: ph_message_def f g Let_def split: if_splits)
  show "\<exists>ph2 r2. ph_message ph (d @ c) = (ph2, r2, Some (Inl HE_MalformedKeyUpdate))"
    if "res = Some (Inr (Some u))" "c \<noteq> []"
    using assms f' g' that by (auto simp: ph_message_def f g Let_def split: if_splits)
qed

text \<open>A message the bytes do not complete is carried over.\<close>

lemma ph_feed_idle:
  "ph_skip_remaining ph = 0 \<Longrightarrow>
     ph_feed c ph = (case ph_message ph c of (ph2, rest, Some r) \<Rightarrow> (ph2, r) | (ph2, rest, None) \<Rightarrow> ph_feed rest ph2)"
  by (cases ph) (simp add: ph_feed_message)

lemma ph_feed_skip:
  assumes "ph_skip_remaining ph \<le> length c"
  shows "ph_feed c ph = ph_feed (drop (ph_skip_remaining ph) c) (ph\<lparr>ph_skip_remaining := 0\<rparr>)"
  by (subst ph_feed_idle [of "ph\<lparr>ph_skip_remaining := 0\<rparr>"]) (simp_all add: ph_feed_message [OF assms])

lemma ph_message_cases:
  assumes "ph_ok ph" "ph_message ph d = (ph', r, Some (Inr None))" "ph_fill 4 ph d = (ph2, r2)"
  shows "ph_stage_len ph2 < 4 \<and> ph' = ph2 \<or>
    \<not> ph_stage_len ph2 < 4 \<and> ph_stage ph2 ! 0 = HS_NEW_SESSION_TICKET \<and>
      (\<exists>l. l = unat (from_be_bytes [0, ph_stage ph2 ! 1, ph_stage ph2 ! 2, ph_stage ph2 ! 3] :: 32 word) \<and> length r2 < l \<and>
        ph' = ph2\<lparr>ph_stage_len := 0, ph_skip_remaining := l - length r2\<rparr>) \<or>
    \<not> ph_stage_len ph2 < 4 \<and> r2 = [] \<and> ph' = ph2"
proof -
  have ok2: "ph_ok ph2" using ph_fill_ok [OF assms(1), of 4 d] assms(3) by (simp add: PH_STAGE_MAX_def)
  obtain ph3 r3 where g: "ph_fill PH_STAGE_MAX ph2 r2 = (ph3, r3)" by (metis surj_pair)
  have "r2 = [] \<and> ph3 = ph2" if "ph_stage_len ph3 < PH_STAGE_MAX" "\<not> ph_stage_len ph2 < 4"
  proof -
    have "ph_stage_len ph2 + length r2 < 5"
      using that(1) g by (auto simp: ph_fill_def Let_def PH_STAGE_MAX_def min_def split: if_splits)
    then have "r2 = []" using that(2) by (cases r2) auto
    then show ?thesis using g ok2 by (auto simp: ph_fill_def put_at_def ph_ok_def)
  qed
  then show ?thesis using assms(2) unfolding ph_message_def assms(3) g Let_def
    by (auto simp: g split: if_splits)
qed

lemma ph_feed_carry:
  assumes ok: "ph_ok ph" and idle: "ph_skip_remaining ph = 0" and m: "ph_message ph d = (ph', r, Some (Inr None))"
  shows "ph_feed (d @ c) ph = ph_feed c ph'"
proof -
  obtain ph2 r2 where f: "ph_fill 4 ph d = (ph2, r2)" by (metis surj_pair)
  have s2: "ph_skip_remaining ph2 = 0" using f idle by (auto simp: ph_fill_def Let_def)
  have ok2: "ph_ok ph2" using ph_fill_ok [OF ok, of 4 d] f by (simp add: PH_STAGE_MAX_def)
  let ?l = "unat (from_be_bytes [0, ph_stage ph2 ! 1, ph_stage ph2 ! 2, ph_stage ph2 ! 3] :: 32 word)"
  consider (short) "ph_stage_len ph2 < 4" "ph' = ph2"
    | (ticket) "\<not> ph_stage_len ph2 < 4" "ph_stage ph2 ! 0 = HS_NEW_SESSION_TICKET" "length r2 < ?l"
        "ph' = ph2\<lparr>ph_stage_len := 0, ph_skip_remaining := ?l - length r2\<rparr>"
    | (update) "\<not> ph_stage_len ph2 < 4" "r2 = []" "ph' = ph2"
    using ph_message_cases [OF ok m f] by blast
  then show ?thesis
  proof cases
    case short
    then have "ph_fill 4 ph (d @ c) = ph_fill 4 ph2 c"
      using ph_fill_append [OF ok _ f] by (simp add: PH_STAGE_MAX_def)
    then have "ph_message ph (d @ c) = ph_message ph' c" by (simp add: ph_message_def short(2))
    then show ?thesis using s2 idle short(2) by (simp add: ph_feed_idle)
  next
    case update
    then have "ph_fill 4 ph (d @ c) = ph_fill 4 ph2 c"
      using ph_fill_more [OF f, of c] ph_fill_done [OF ok2, of 4 c] by simp
    then have "ph_message ph (d @ c) = ph_message ph' c" by (simp add: ph_message_def update(3))
    then show ?thesis using s2 idle update(3) by (simp add: ph_feed_idle)
  next
    case ticket
    then have f': "ph_fill 4 ph (d @ c) = (ph2, r2 @ c)" using ph_fill_more [OF f, of c] by simp
    have skip: "ph_skip_remaining ph' = ?l - length r2" by (simp add: ticket(4))
    have m': "ph_message ph (d @ c) =
        (if length (r2 @ c) < ?l
         then (ph2\<lparr>ph_stage_len := 0, ph_skip_remaining := ?l - length (r2 @ c)\<rparr>, [], Some (Inr None))
         else (ph2\<lparr>ph_stage_len := 0\<rparr>, drop ?l (r2 @ c), None))"
      unfolding ph_message_def f' using ticket(1,2) by (simp add: Let_def min_def)
    show ?thesis
    proof (cases "length (r2 @ c) < ?l")
      case True
      have "ph_feed c ph' = (ph'\<lparr>ph_skip_remaining := ?l - length r2 - length c\<rparr>, Inr None)"
        using ph_feed_skipping [of c ph'] True skip by simp
      then show ?thesis unfolding ph_feed_idle [OF idle] m' using True by (simp add: ticket(4))
    next
      case False
      have "ph2\<lparr>ph_stage_len := 0, ph_skip_remaining := 0\<rparr> = ph2\<lparr>ph_stage_len := 0\<rparr>" using s2 by (cases ph2) simp
      then have "ph_feed c ph' = ph_feed (drop (?l - length r2) c) (ph2\<lparr>ph_stage_len := 0\<rparr>)"
        using ph_feed_skip [of ph' c] False skip by (simp add: ticket(4))
      then show ?thesis unfolding ph_feed_idle [OF idle] m' using False ticket(3) by simp
    qed
  qed
qed

lemma ph_message_ok: "ph_ok ph \<Longrightarrow> ph_message ph d = (ph', r, res) \<Longrightarrow> ph_ok ph'"
proof -
  assume ok: "ph_ok ph" and m: "ph_message ph d = (ph', r, res)"
  obtain ph2 r2 where f: "ph_fill 4 ph d = (ph2, r2)" by (metis surj_pair)
  obtain ph3 r3 where g: "ph_fill PH_STAGE_MAX ph2 r2 = (ph3, r3)" by (metis surj_pair)
  have ok2: "ph_ok ph2" using ph_fill_ok [OF ok, of 4 d] f by (simp add: PH_STAGE_MAX_def)
  have "ph_ok ph3" using ph_fill_ok [OF ok2, of PH_STAGE_MAX r2] g by simp
  with ok2 m show ?thesis by (auto simp: ph_message_def f g Let_def ph_ok_def split: if_splits)
qed

text \<open>Feeding two records in a row is feeding their concatenation, unless the first completes a
  KeyUpdate; an error in the first is the error of the concatenation.\<close>

lemma ph_feed_append:
  assumes "ph_ok ph" "ph_feed d ph = (ph', res)"
  shows "(res = Inr None \<longrightarrow> ph_feed (d @ c) ph = ph_feed c ph') \<and>
    (\<forall>e. res = Inl e \<longrightarrow> snd (ph_feed (d @ c) ph) = Inl e) \<and>
    (\<forall>u. res = Inr (Some u) \<and> c \<noteq> [] \<longrightarrow> snd (ph_feed (d @ c) ph) = Inl HE_MalformedKeyUpdate)"
  using assms
proof (induction d ph arbitrary: ph' res rule: ph_feed.induct)
  case (1 d ph)
  show ?case
  proof (cases "ph_skip_remaining ph \<le> length d")
    case False
    then have "ph' = ph\<lparr>ph_skip_remaining := ph_skip_remaining ph - length d\<rparr>" "res = Inr None"
      using 1(3) ph_feed_skipping [of d ph] by auto
    moreover have "ph_feed (d @ c) ph = ph_feed c ph'"
    proof (cases "length (d @ c) < ph_skip_remaining ph")
      case True
      then show ?thesis using ph_feed_skipping [of "d @ c" ph] ph_feed_skipping [of c ph'] calculation(1) by simp
    next
      case le: False
      then show ?thesis using ph_feed_skip [of ph "d @ c"] ph_feed_skip [of ph' c] calculation(1) False by simp
    qed
    ultimately show ?thesis by simp
  next
    case True
    define ph1 where "ph1 = ph\<lparr>ph_skip_remaining := 0\<rparr>"
    define d1 where "d1 = drop (ph_skip_remaining ph) d"
    have ok1: "ph_ok ph1" "ph_skip_remaining ph1 = 0" using 1(2) by (simp_all add: ph1_def ph_ok_def)
    have d: "ph_feed d ph = ph_feed d1 ph1" "ph_feed (d @ c) ph = ph_feed (d1 @ c) ph1"
      using ph_feed_skip [of ph d] ph_feed_skip [of ph "d @ c"] True by (simp_all add: ph1_def d1_def)
    obtain ph2 r opt where m: "ph_message ph1 d1 = (ph2, r, opt)" by (metis surj_pair)
    note m1 = ph_feed_idle [OF ok1(2), of d1, unfolded m] and more = ph_message_more [OF m, where c = c]
    show ?thesis
    proof (cases opt)
      case None
      have ih: "ph_ok ph2 \<Longrightarrow> ph_feed r ph2 = (ph', res) \<Longrightarrow>
          (res = Inr None \<longrightarrow> ph_feed (r @ c) ph2 = ph_feed c ph') \<and>
          (\<forall>e. res = Inl e \<longrightarrow> snd (ph_feed (r @ c) ph2) = Inl e) \<and>
          (\<forall>u. res = Inr (Some u) \<and> c \<noteq> [] \<longrightarrow> snd (ph_feed (r @ c) ph2) = Inl HE_MalformedKeyUpdate)"
        using 1(1) [of "ph_skip_remaining ph" ph1 ph2 "(r, opt)" r opt ph' res] True m None by (simp add: ph1_def d1_def)
      have "ph_feed r ph2 = (ph', res)" "ph_feed (d1 @ c) ph1 = ph_feed (r @ c) ph2"
        using 1(3) d(1) m1 more(1) None ph_feed_idle [OF ok1(2), of "d1 @ c"] by simp_all
      then show ?thesis using ih ph_message_ok [OF ok1(1) m] d(2) by simp
    next
      case (Some x)
      then have "ph' = ph2" "x = res" using 1(3) d(1) m1 by simp_all
      then show ?thesis
        using more(2,3) Some ph_feed_idle [OF ok1(2), of "d1 @ c"] ph_feed_carry [OF ok1, of d1 ph2 r c] m d(2)
        by (fastforce split: prod.splits)
    qed
  qed
qed

definition ph_idle :: "PostHandshakeReasm \<Rightarrow> bool" where
  "ph_idle ph \<longleftrightarrow> ph_ok ph \<and> \<not> in_progress ph"

lemma ph_fill_header:
  assumes "ph_idle ph"
  shows "ph_fill 4 ph (a # b # c # d # rest) =
    (ph\<lparr>ph_stage := [a, b, c, d, ph_stage ph ! 4], ph_stage_len := 4\<rparr>, rest)"
proof -
  obtain s0 s1 s2 s3 s4 where "ph_stage ph = [s0, s1, s2, s3, s4]"
    using assms by (auto simp: ph_idle_def ph_ok_def PH_STAGE_MAX_def numeral_eq_Suc length_Suc_conv)
  then show ?thesis using assms by (simp add: ph_fill_def ph_idle_def in_progress_def put_at_def Let_def)
qed

lemma header_length:
  assumes "length body < 2 ^ 24" "be_bytes 3 (length body) = [b, c, d]"
  shows "unat (from_be_bytes [0, b, c, d] :: 32 word) = length body"
proof -
  have "be_val [0, b, c, d] = length body"
    using assms be_val_be_bytes [of 3 "length body"] by (simp add: be_val_def)
  then show ?thesis by (subst unat_from_be_bytes) simp_all
qed

lemma ph_feed_ticket:
  assumes "ph_idle ph" "length body < 2 ^ 24"
  shows "\<exists>ph'. ph_idle ph' \<and> ph_feed (hs_frame HS_NEW_SESSION_TICKET body @ c) ph = ph_feed c ph'"
proof -
  obtain x y z where l: "be_bytes 3 (length body) = [x, y, z]" using be_bytes_3_list by blast
  let ?ph = "ph\<lparr>ph_stage := [HS_NEW_SESSION_TICKET, x, y, z, ph_stage ph ! 4], ph_stage_len := 0\<rparr>"
  have "ph_message ph (hs_frame HS_NEW_SESSION_TICKET body @ c) = (?ph, c, None)"
    using header_length [OF assms(2) l] ph_fill_header [OF assms(1)] by (simp add: ph_message_def hs_frame_def l Let_def)
  then have "ph_feed (hs_frame HS_NEW_SESSION_TICKET body @ c) ph = ph_feed c ?ph"
    using assms(1) by (simp add: ph_feed_idle ph_idle_def in_progress_def)
  moreover have "ph_idle ?ph" using assms(1) by (simp add: ph_idle_def ph_ok_def in_progress_def PH_STAGE_MAX_def)
  ultimately show ?thesis by blast
qed

lemma ph_feed_update:
  assumes "ph_idle ph"
  shows "\<exists>ph'. ph_idle ph' \<and> ph_feed (hs_frame HS_KEY_UPDATE [of_bool u]) ph = (ph', Inr (Some u))"
proof -
  have l: "be_bytes 3 (length [of_bool u :: byte]) = [0, 0, 1]" by (simp add: be_bytes_numeral)
  let ?ph = "ph\<lparr>ph_stage := [HS_KEY_UPDATE, 0, 0, 1, of_bool u], ph_stage_len := 0\<rparr>"
  have "ph_message ph (hs_frame HS_KEY_UPDATE [of_bool u]) = (?ph, [], Some (Inr (Some u)))"
    using header_length [of "[of_bool u]" 0 0 1] l ph_fill_header [OF assms(1)]
    by (auto simp: ph_message_def hs_frame_def l Let_def tls_consts ph_fill_def PH_STAGE_MAX_def put_at_def)
  then have "ph_feed (hs_frame HS_KEY_UPDATE [of_bool u]) ph = (?ph, Inr (Some u))"
    using assms(1) by (simp add: ph_feed_idle ph_idle_def in_progress_def)
  moreover have "ph_idle ?ph" using assms(1) by (simp add: ph_idle_def ph_ok_def in_progress_def PH_STAGE_MAX_def)
  ultimately show ?thesis by blast
qed

lemma ph_feed_ok: "ph_ok ph \<Longrightarrow> ph_ok (fst (ph_feed c ph))"
proof (induction c ph rule: ph_feed.induct)
  case (1 c ph)
  show ?case
  proof (cases "ph_skip_remaining ph \<le> length c")
    case False
    then show ?thesis using "1.prems" by (simp add: ph_feed_skipping ph_ok_def)
  next
    case True
    obtain ph2 r opt where m: "ph_message (ph\<lparr>ph_skip_remaining := 0\<rparr>) (drop (ph_skip_remaining ph) c) = (ph2, r, opt)"
      by (metis surj_pair)
    have "ph_ok ph2" using ph_message_ok [OF _ m] "1.prems" by (simp add: ph_ok_def)
    then show ?thesis using "1.IH" True m by (cases opt) (simp_all add: ph_feed_message m)
  qed
qed

text \<open>The records of the data phase, fed in order until one gives a result.\<close>

fun ph_feeds :: "bytes list \<Rightarrow> PostHandshakeReasm \<Rightarrow> PostHandshakeReasm \<times> (HandshakeError + bool option)" where
  "ph_feeds [] ph = (ph, Inr None)"
| "ph_feeds (r # rs) ph =
     (case ph_feed r ph of (ph', Inr None) \<Rightarrow> ph_feeds rs ph' | (ph', res) \<Rightarrow> (ph', res))"

lemma ph_feeds_split:
  assumes "ph_ok ph" "ph_feed (concat rs @ r) ph = (ph2, Inr (Some u))" "r \<noteq> []"
  shows "\<exists>ph1. ph_feeds rs ph = (ph1, Inr None) \<and> ph_feed r ph1 = (ph2, Inr (Some u))"
  using assms
proof (induction rs arbitrary: ph)
  case (Cons d rs)
  obtain ph' res where f: "ph_feed d ph = (ph', res)" by (metis surj_pair)
  note app = ph_feed_append [OF Cons.prems(1) f, of "concat rs @ r"]
  have none: "res = Inr None"
    using app Cons.prems(2,3) by (cases res; cases "projr res") auto
  then have "ph_feed (concat rs @ r) ph' = (ph2, Inr (Some u))" using app Cons.prems(2) by simp
  moreover have "ph_ok ph'" using ph_feed_ok [OF Cons.prems(1), of d] f by simp
  ultimately show ?case using Cons.IH Cons.prems(3) f none by simp
qed simp

lemma ph_feed_tickets:
  "ph_idle ph \<Longrightarrow> list_all (\<lambda>body. length body < 2 ^ 24) tickets \<Longrightarrow>
     \<exists>ph'. ph_idle ph' \<and> ph_feed (concat (map (hs_frame HS_NEW_SESSION_TICKET) tickets) @ c) ph = ph_feed c ph'"
proof (induction tickets arbitrary: ph)
  case (Cons body tickets)
  obtain ph1 where "ph_idle ph1" "ph_feed (hs_frame HS_NEW_SESSION_TICKET body @
      concat (map (hs_frame HS_NEW_SESSION_TICKET) tickets) @ c) ph =
      ph_feed (concat (map (hs_frame HS_NEW_SESSION_TICKET) tickets) @ c) ph1"
    using ph_feed_ticket [OF Cons.prems(1)] Cons.prems(2) by fastforce
  then show ?case using Cons.IH [of ph1] Cons.prems(2) by simp
qed auto

text \<open>
  C27: post-handshake messages are reassembled however the server splits them.  When a run of
  session tickets followed by a KeyUpdate is cut at arbitrary places into decrypted records, every
  record before the last is taken silently, the last yields exactly the server's
  \<^verbatim>\<open>update_requested\<close>, and the reassembler is idle again.
\<close>

theorem post_handshake_reassembled:
  assumes "ph_idle ph" "list_all (\<lambda>body. length body < 2 ^ 24) tickets"
    and "concat records @ last_record =
      concat (map (hs_frame HS_NEW_SESSION_TICKET) tickets) @ hs_frame HS_KEY_UPDATE [of_bool update_requested]"
    and "last_record \<noteq> []"
  shows "\<exists>ph1 ph2. ph_feeds records ph = (ph1, Inr None) \<and>
    ph_feed last_record ph1 = (ph2, Inr (Some update_requested)) \<and> ph_idle ph2"
proof -
  obtain ph1 where "ph_idle ph1" "ph_feed (concat records @ last_record) ph =
      ph_feed (hs_frame HS_KEY_UPDATE [of_bool update_requested]) ph1"
    using ph_feed_tickets [OF assms(1,2)] assms(3) by metis
  moreover obtain ph2 where "ph_idle ph2"
      "ph_feed (hs_frame HS_KEY_UPDATE [of_bool update_requested]) ph1 = (ph2, Inr (Some update_requested))"
    using ph_feed_update [OF calculation(1)] by blast
  ultimately show ?thesis
    using ph_feeds_split [OF _ _ assms(4), of ph records ph2 update_requested] assms(1) by (auto simp: ph_idle_def)
qed

theorem post_handshake_reassembled_witness:
  "\<exists>ph1 ph2. ph_feeds [[4, 0, 0], [], [1, 9, 24, 0]] ph_default = (ph1, Inr None) \<and>
     ph_feed [0, 1, 1] ph1 = (ph2, Inr (Some True)) \<and> ph_idle ph2"
  by (rule post_handshake_reassembled [of ph_default "[[9]]"])
    (simp_all add: ph_idle_def in_progress_def ph_default_def ph_ok_def hs_frame_def be_bytes_numeral tls_consts)

end
