(* ===== verification/Engine.thy ===== *)
theory Engine
  imports Post_Handshake
begin

text \<open>
  The client engine of \<^verbatim>\<open>client/engine.rs\<close>: the state machine that frames received bytes into records,
  drives the typestate connection, queues what has to be sent and parks decrypted application
  data.  The fixed arrays of the scratch are lists; \<^verbatim>\<open>RECV\<close> and \<^verbatim>\<open>SEND\<close> are their lengths.  A method
  returns the engine as it leaves it, also with an error.  When an encryption fails the source may
  have written part of the send buffer, of which nothing is pending, and a failed client-auth
  flight part of the receive buffer of a connection that is lost; the model leaves both as they were.
  Each suite of the source has its own state; the two are handled alike.
\<close>

section \<open>State\<close>

record RecvState =
  rs_filled :: nat
  rs_plain_start :: nat
  rs_plain_end :: nat
  rs_next_record :: nat

definition RecvState_new :: RecvState where
  "RecvState_new = \<lparr>rs_filled = 0, rs_plain_start = 0, rs_plain_end = 0, rs_next_record = 0\<rparr>"

definition plaintext_parked :: "RecvState \<Rightarrow> bool" where
  "plaintext_parked r \<longleftrightarrow> rs_plain_start r < rs_plain_end r"

datatype 'k EngineState =
    ES_WaitServerHello "'k WaitServerHello"
  | ES_WaitFlightAes WaitServerFlight
  | ES_WaitFlightChaCha WaitServerFlight
  | ES_AppAes AppData
  | ES_AppChaCha AppData
  | ES_Closed

fun in_data_phase :: "'k EngineState \<Rightarrow> bool" where
  "in_data_phase (ES_AppAes _) = True"
| "in_data_phase (ES_AppChaCha _) = True"
| "in_data_phase _ = False"

datatype EngineEvent = Ev_Send nat | Ev_Recv | Ev_AppData | Ev_HandshakeDone | Ev_Closed

datatype Framed = Framed_Record nat nat "8 word" nat | Framed_Need

record 'k TlsEngine =
  te_reassembler :: ServerFlightReassembler
  te_recv_record :: bytes
  te_send_record :: bytes
  te_state :: "'k EngineState"
  te_recv :: RecvState
  te_send_pending_len :: nat
  te_send_acked :: nat
  te_pending_handshake_done :: bool
  te_handshake_finished_pending_ack :: bool
  te_closed :: bool
  te_our_recv_limit :: RecordSizeLimit
  te_peer_recv_limit :: RecordSizeLimit
  te_ph :: PostHandshakeReasm

text \<open>What the configuration fixes at compile time, and what a connection is opened with.\<close>

record ('k, 'v) ClientConfig =
  cc_features :: Features
  cc_hkdf :: HkdfBackend
  cc_kx :: "'k KxBackend"
  cc_aead :: TlsSuites
  cc_verifiers :: "'v VerifierBackend"
  cc_parser :: CertParser
  cc_flight_cap :: nat
  cc_max_chain :: nat

record ('v, 'e, 'r) ClientParams =
  pa_verify :: "bytes list \<Rightarrow> 'e + 'v PreparedVerifier"
  pa_hostname :: bytes
  pa_client_auth :: "'r ClientAuthPolicy"

definition TlsEngine_new ::
  "bytes \<Rightarrow> bytes \<Rightarrow> ServerFlightReassembler \<Rightarrow> 'k EngineState \<Rightarrow> RecordSizeLimit \<Rightarrow> RecordSizeLimit \<Rightarrow> 'k TlsEngine" where
  "TlsEngine_new recv_record send_record reassembler init_state our_recv_limit peer_recv_limit =
     \<lparr>te_reassembler = clear reassembler, te_recv_record = recv_record, te_send_record = send_record,
      te_state = init_state, te_recv = RecvState_new, te_send_pending_len = 0, te_send_acked = 0,
      te_pending_handshake_done = False, te_handshake_finished_pending_ack = False, te_closed = False,
      te_our_recv_limit = our_recv_limit, te_peer_recv_limit = peer_recv_limit, te_ph = ph_default\<rparr>"

definition default_our_recv_limit :: "nat \<Rightarrow> RecordSizeLimit" where
  "default_our_recv_limit RECV =
     (let from_buf = RECV - RECORD_OVERHEAD;
          value = (if from_buf > unat PROTO_MAX_INNER_PLAINTEXT then PROTO_MAX_INNER_PLAINTEXT
                   else if from_buf < unat MIN_RECORD_SIZE_LIMIT then MIN_RECORD_SIZE_LIMIT
                   else word_of_nat from_buf)
      in RecordSizeLimit value)"

definition is_send_pending :: "'k TlsEngine \<Rightarrow> bool" where
  "is_send_pending e \<longleftrightarrow> te_send_pending_len e > te_send_acked e"

definition is_closed :: "'k TlsEngine \<Rightarrow> bool" where
  "is_closed e \<longleftrightarrow> te_closed e \<or> te_state e = ES_Closed"

definition send_bytes :: "'k TlsEngine \<Rightarrow> bytes" where
  "send_bytes e =
     (if te_send_pending_len e = 0 then []
      else sub_range (te_send_acked e) (te_send_pending_len e) (te_send_record e))"

section \<open>Framing\<close>

definition compact_recv :: "'k TlsEngine \<Rightarrow> 'k TlsEngine" where
  "compact_recv e =
     (let src_start = rs_next_record (te_recv e) in
      if src_start = 0 then e
      else
        let count = rs_filled (te_recv e) - src_start;
            buf = (if count > 0
                   then put_at 0 (sub_range src_start (rs_filled (te_recv e)) (te_recv_record e)) (te_recv_record e)
                   else te_recv_record e)
        in e\<lparr>te_recv_record := buf,
             te_recv := \<lparr>rs_filled = count, rs_plain_start = 0, rs_plain_end = 0, rs_next_record = 0\<rparr>\<rparr>)"

definition frame_one_record :: "'k TlsEngine \<Rightarrow> 'k TlsEngine \<times> (HandshakeError + Framed)" where
  "frame_one_record e =
     (if plaintext_parked (te_recv e) then (e, Inl (HE_Internal FrameWithParkedPlaintext))
      else
        let start = rs_next_record (te_recv e);
            buffered = rs_filled (te_recv e) - start;
            need = (if rs_next_record (te_recv e) > 0 then compact_recv e else e, Inr Framed_Need)
        in
        if buffered < TLS_HEADER then need
        else
          let outer_type = te_recv_record e ! start;
              length_field = unat (from_be_bytes [te_recv_record e ! (start + 3), te_recv_record e ! (start + 4)] :: 16 word);
              record_body_capacity = length (te_recv_record e) - TLS_HEADER
          in
          if length_field > record_body_capacity
          then (e, Inl (HE_RecordTooLarge (rsl_get (te_our_recv_limit e)) (word_of_nat length_field)))
          else
            let end_pos = start + TLS_HEADER + length_field in
            if rs_filled (te_recv e) < end_pos then need
            else (e, Inr (Framed_Record start end_pos outer_type length_field)))"

section \<open>Handshake phase\<close>

definition handle_server_hello ::
  "('k, 'v) ClientConfig \<Rightarrow> nat \<Rightarrow> nat \<Rightarrow> 8 word \<Rightarrow> 'k TlsEngine \<Rightarrow> 'k TlsEngine \<times> (HandshakeError + unit)" where
  "handle_server_hello C start end_pos outer_type e =
     (if outer_type \<noteq> CT_HANDSHAKE
      then (e, Inl (HE_Connection (CE_Decrypt (DecUnexpectedContentType outer_type))))
      else
        case te_state e of
          ES_WaitServerHello conn \<Rightarrow>
            (case read_server_hello (cc_features C) (cc_hkdf C) (cc_kx C) (cc_aead C) conn
                    (sub_range start end_pos (te_recv_record e)) of
               Inl err \<Rightarrow> (e\<lparr>te_state := ES_Closed, te_closed := True\<rparr>, Inl (HE_Connection err))
             | Inr (NegAes128Gcm conn) \<Rightarrow> (e\<lparr>te_state := ES_WaitFlightAes conn\<rparr>, Inr ())
             | Inr (NegChaCha20Poly1305 conn) \<Rightarrow> (e\<lparr>te_state := ES_WaitFlightChaCha conn\<rparr>, Inr ()))
        | _ \<Rightarrow> (e, Inl (HE_Internal ServerHelloWrongState)))"

text \<open>Feed one record of the server flight under the suite and state it belongs to.\<close>

definition feed_flight ::
  "('k, 'v) ClientConfig \<Rightarrow> TlsSuite \<Rightarrow> (WaitServerFlight \<Rightarrow> 'k EngineState) \<Rightarrow> WaitServerFlight \<Rightarrow> nat \<Rightarrow> nat \<Rightarrow>
   'k TlsEngine \<Rightarrow> 'k TlsEngine \<times> (HandshakeError + FlightStep)" where
  "feed_flight C S st conn start end_pos e =
     (case feed_server_record_inplace (cc_flight_cap C) S conn (sub_range start end_pos (te_recv_record e))
             (te_reassembler e) of
        (record, res) \<Rightarrow>
          let e = e\<lparr>te_recv_record := put_at start record (te_recv_record e)\<rparr> in
          (case res of
             Inl err \<Rightarrow> (e, Inl (HE_Connection err))
           | Inr (step, conn, reassembler) \<Rightarrow>
               (e\<lparr>te_state := st conn, te_reassembler := reassembler\<rparr>, Inr step)))"

text \<open>The checks between the complete flight and the key derivation: the certificate request of the
  server, the chain, the strategy's verifier and the host name.\<close>

definition check_flight ::
  "('k, 'v) ClientConfig \<Rightarrow> ('v, 'e, 'r) ClientParams \<Rightarrow> ServerFlightReassembler \<Rightarrow>
   HandshakeError + (bytes \<times> bytes) option \<times> 'v PreparedVerifier \<times> CertView" where
  "check_flight C params reassembler =
     rbind (ok_or (HE_Connection CE_IncompleteFlight) (flight_bytes reassembler)) (\<lambda>bytes.
     rbind (map_err (HE_Connection \<circ> CE_Flight) (parse_server_flight bytes)) (\<lambda>view.
     rbind (if ACCEPT_CERT_REQUEST (pa_client_auth params) then
              (case sf_cert_request_full view of
                 Some creq \<Rightarrow>
                   rbind (map_err (HE_Connection \<circ> CE_Flight) (certificate_request_context creq)) (\<lambda>ctx.
                   rbind (map_err (HE_Connection \<circ> CE_Flight) (certificate_request_sig_algs creq)) (\<lambda>sig_algs.
                     Inr (Some (ctx, sig_algs))))
               | None \<Rightarrow> Inr None)
            else if sf_cert_request_full view \<noteq> None
            then Inl (HE_Connection (CE_ClientAuth CA_CertificateRequested))
            else Inr None) (\<lambda>cert_request.
     rbind (map_err (HE_Connection \<circ> CE_Flight) (extract_chain (cc_max_chain C) (sf_cert_body view))) (\<lambda>chain.
     rbind (map_err (\<lambda>_. HE_StrategyRejected) (pa_verify params chain)) (\<lambda>prepared.
     rbind (ok_or (HE_Connection (CE_Flight FL_Truncated)) (get_at 0 chain)) (\<lambda>leaf_der.
     rbind (map_err (HE_Connection \<circ> CE_Flight \<circ> FL_BadCert) (cp_parse (cc_parser C) leaf_der)) (\<lambda>leaf_view.
     if \<not> matches_cert (cc_verifiers C) prepared leaf_view then Inl HE_StrategyPubkeyMismatch
     else
       rbind (map_err HE_Identity (verify_hostname leaf_view (pa_hostname params))) (\<lambda>_.
         Inr (cert_request, prepared, leaf_view)))))))))"

definition queue_send :: "bytes \<Rightarrow> 'k TlsEngine \<Rightarrow> 'k TlsEngine" where
  "queue_send record e =
     e\<lparr>te_send_record := put_at 0 record (te_send_record e), te_send_pending_len := length record, te_send_acked := 0\<rparr>"

text \<open>The transition to the data phase under one suite: the record to send, the application state, the
  receive buffer - where the client-auth flight is built - and the random number generator.\<close>

definition flight_outcome ::
  "('k, 'v) ClientConfig \<Rightarrow> ('v, 'e, 'r) ClientParams \<Rightarrow> TlsSuite \<Rightarrow> WaitServerFlight \<Rightarrow> (bytes \<times> bytes) option \<Rightarrow>
   'v PreparedVerifier \<Rightarrow> CertView \<Rightarrow> 'r \<Rightarrow> 'k TlsEngine \<Rightarrow> ConnectionError + bytes \<times> AppData \<times> bytes \<times> 'r" where
  "flight_outcome C params S conn cert_request prepared leaf_view rng e =
     rbind (finalize_server_flight (cc_hkdf C) (cc_verifiers C) conn (te_reassembler e) prepared leaf_view) (\<lambda>sfd.
       case cert_request of
         Some (ctx, sig_algs) \<Rightarrow>
           finish_handshake_with_policy (cc_hkdf C) S (pa_client_auth params) sfd ctx sig_algs rng
             (rsl_get (te_peer_recv_limit e)) (te_recv_record e) (te_send_record e)
       | None \<Rightarrow>
           rbind (finish_handshake (cc_hkdf C) S sfd (te_send_record e)) (\<lambda>(record, app).
             Inr (record, app, te_recv_record e, rng)))"

definition finish_flight ::
  "('k, 'v) ClientConfig \<Rightarrow> ('v, 'e, 'r) ClientParams \<Rightarrow> TlsSuite \<Rightarrow> (AppData \<Rightarrow> 'k EngineState) \<Rightarrow> WaitServerFlight \<Rightarrow>
   (bytes \<times> bytes) option \<Rightarrow> 'v PreparedVerifier \<Rightarrow> CertView \<Rightarrow> 'r \<Rightarrow> 'k TlsEngine \<Rightarrow>
   'r \<times> 'k TlsEngine \<times> (HandshakeError + unit)" where
  "finish_flight C params S st conn cert_request prepared leaf_view rng e =
     (case flight_outcome C params S conn cert_request prepared leaf_view rng e of
        Inl err \<Rightarrow> (rng, e\<lparr>te_state := ES_Closed\<rparr>, Inl (HE_Connection err))
      | Inr (record, app, recv_record, rng) \<Rightarrow>
          (rng, (queue_send record e)\<lparr>te_recv_record := recv_record, te_state := st app,
             te_pending_handshake_done := True, te_handshake_finished_pending_ack := True\<rparr>, Inr ()))"

definition finalize_and_finish ::
  "('k, 'v) ClientConfig \<Rightarrow> ('v, 'e, 'r) ClientParams \<Rightarrow> 'r \<Rightarrow> 'k TlsEngine \<Rightarrow> 'r \<times> 'k TlsEngine \<times> (HandshakeError + unit)" where
  "finalize_and_finish C params rng e =
     (case rbind (map_err (HE_Connection \<circ> CE_Flight) (peek_ee_record_size_limit (te_reassembler e))) (\<lambda>limit.
             case limit of
               None \<Rightarrow> Inr (te_peer_recv_limit e)
             | Some l \<Rightarrow> ok_or (HE_InvalidRecordSizeLimit l) (rsl_try_from l)) of
        Inl err \<Rightarrow> (rng, e, Inl err)
      | Inr limit \<Rightarrow>
          let e = e\<lparr>te_peer_recv_limit := limit\<rparr> in
          (case check_flight C params (te_reassembler e) of
             Inl err \<Rightarrow> (rng, e, Inl err)
           | Inr (cert_request, prepared, leaf_view) \<Rightarrow>
               (case te_state e of
                  ES_WaitFlightAes conn \<Rightarrow>
                    finish_flight C params (aes_suite (cc_aead C)) ES_AppAes conn cert_request prepared leaf_view rng e
                | ES_WaitFlightChaCha conn \<Rightarrow>
                    finish_flight C params (chacha_suite (cc_aead C)) ES_AppChaCha conn cert_request prepared leaf_view rng e
                | _ \<Rightarrow> (rng, e, Inl (HE_Internal FinalizeWrongState)))))"

definition handle_flight_record ::
  "('k, 'v) ClientConfig \<Rightarrow> ('v, 'e, 'r) ClientParams \<Rightarrow> nat \<Rightarrow> nat \<Rightarrow> 'r \<Rightarrow> 'k TlsEngine \<Rightarrow>
   'r \<times> 'k TlsEngine \<times> (HandshakeError + unit)" where
  "handle_flight_record C params start end_pos rng e =
     (let outer_type = te_recv_record e ! start;
          length_field = end_pos - start - TLS_HEADER
      in
      if outer_type = CT_APPLICATION_DATA \<and> length_field > unat (rsl_get (te_our_recv_limit e)) + AEAD_TAG
      then (rng, e, Inl (HE_RecordTooLarge (rsl_get (te_our_recv_limit e)) (word_of_nat length_field)))
      else
        case (case te_state e of
                ES_WaitFlightAes conn \<Rightarrow> feed_flight C (aes_suite (cc_aead C)) ES_WaitFlightAes conn start end_pos e
              | ES_WaitFlightChaCha conn \<Rightarrow>
                  feed_flight C (chacha_suite (cc_aead C)) ES_WaitFlightChaCha conn start end_pos e
              | _ \<Rightarrow> (e, Inl (HE_Internal FlightWrongState))) of
          (e, Inl err) \<Rightarrow> (rng, e, Inl err)
        | (e, Inr FlightReady) \<Rightarrow> finalize_and_finish C params rng e
        | (e, Inr FlightPending) \<Rightarrow> (rng, e, Inr ()))"

definition set_next_record :: "nat \<Rightarrow> 'k TlsEngine \<Rightarrow> 'k TlsEngine" where
  "set_next_record n e = e\<lparr>te_recv := (te_recv e)\<lparr>rs_next_record := n\<rparr>\<rparr>"

definition dispatch_handshake_record ::
  "('k, 'v) ClientConfig \<Rightarrow> ('v, 'e, 'r) ClientParams \<Rightarrow> nat \<Rightarrow> nat \<Rightarrow> 8 word \<Rightarrow> 'r \<Rightarrow> 'k TlsEngine \<Rightarrow>
   'r \<times> 'k TlsEngine \<times> (HandshakeError + unit)" where
  "dispatch_handshake_record C params start end_pos outer_type rng e =
     (case (case te_state e of
              ES_WaitServerHello _ \<Rightarrow> (rng, handle_server_hello C start end_pos outer_type e)
            | ES_WaitFlightAes _ \<Rightarrow> handle_flight_record C params start end_pos rng e
            | ES_WaitFlightChaCha _ \<Rightarrow> handle_flight_record C params start end_pos rng e
            | ES_AppAes _ \<Rightarrow> (rng, e, Inl (HE_Internal HandshakeStepInDataPhase))
            | ES_AppChaCha _ \<Rightarrow> (rng, e, Inl (HE_Internal HandshakeStepInDataPhase))
            | ES_Closed \<Rightarrow> (rng, e, Inl (HE_Internal HandshakeStepWrongState))) of
        (rng, e, Inl err) \<Rightarrow> (rng, e, Inl err)
      | (rng, e, Inr _) \<Rightarrow> (rng, set_next_record end_pos e, Inr ()))"

lemma frame_one_record_Record:
  assumes "frame_one_record e = (e', Inr (Framed_Record start end_pos outer_type len))"
  shows "e' = e" "start = rs_next_record (te_recv e)" "end_pos = start + 5 + len" "end_pos \<le> rs_filled (te_recv e)"
    "outer_type = te_recv_record e ! start" "\<not> plaintext_parked (te_recv e)"
  using assms by (auto simp: frame_one_record_def Let_def TLS_HEADER_def split: if_splits)

text \<open>No handler of the handshake phase moves the receive cursors; the dispatcher then consumes the
  record.\<close>

lemma feed_flight_recv [simp]: "te_recv (fst (feed_flight C S st conn start end_pos e)) = te_recv e"
  by (auto simp: feed_flight_def Let_def split: prod.splits sum.splits)

lemma handle_server_hello_recv [simp]: "te_recv (fst (handle_server_hello C start end_pos ty e)) = te_recv e"
  by (auto simp: handle_server_hello_def split: EngineState.splits sum.splits NegotiatedSuite.splits)

lemma queue_send_recv [simp]: "te_recv (queue_send r e) = te_recv e"
  by (simp add: queue_send_def)

lemma finish_flight_recv [simp]:
  "te_recv (fst (snd (finish_flight C params S st conn creq prepared leaf rng e))) = te_recv e"
  by (simp add: finish_flight_def Let_def split: prod.split sum.split)

lemma finalize_and_finish_recv [simp]: "te_recv (fst (snd (finalize_and_finish C params rng e))) = te_recv e"
  by (simp add: finalize_and_finish_def Let_def split: prod.split sum.split EngineState.split)

lemma handle_flight_record_recv [simp]:
  "te_recv (fst (snd (handle_flight_record C params start end_pos rng e))) = te_recv e"
proof -
  let ?feed = "case te_state e of
      ES_WaitFlightAes conn \<Rightarrow> feed_flight C (aes_suite (cc_aead C)) ES_WaitFlightAes conn start end_pos e
    | ES_WaitFlightChaCha conn \<Rightarrow> feed_flight C (chacha_suite (cc_aead C)) ES_WaitFlightChaCha conn start end_pos e
    | _ \<Rightarrow> (e, Inl (HE_Internal FlightWrongState))"
  obtain e1 r where f: "?feed = (e1, r)" by (metis surj_pair)
  have "te_recv (fst ?feed) = te_recv e" by (simp split: EngineState.split)
  then have "te_recv e1 = te_recv e" unfolding f by simp
  then show ?thesis unfolding handle_flight_record_def f by (simp add: Let_def split: sum.split FlightStep.split)
qed

lemma dispatch_handshake_record_recv:
  assumes "dispatch_handshake_record C params start end_pos ty rng e = (rng', e', Inr ())"
  shows "te_recv e' = (te_recv e)\<lparr>rs_next_record := end_pos\<rparr>"
proof -
  let ?handle = "case te_state e of
      ES_WaitServerHello _ \<Rightarrow> (rng, handle_server_hello C start end_pos ty e)
    | ES_WaitFlightAes _ \<Rightarrow> handle_flight_record C params start end_pos rng e
    | ES_WaitFlightChaCha _ \<Rightarrow> handle_flight_record C params start end_pos rng e
    | ES_AppAes _ \<Rightarrow> (rng, e, Inl (HE_Internal HandshakeStepInDataPhase))
    | ES_AppChaCha _ \<Rightarrow> (rng, e, Inl (HE_Internal HandshakeStepInDataPhase))
    | ES_Closed \<Rightarrow> (rng, e, Inl (HE_Internal HandshakeStepWrongState))"
  obtain rng1 e1 r where h: "?handle = (rng1, e1, r)" by (metis surj_pair)
  have "te_recv (fst (snd ?handle)) = te_recv e" by (simp split: EngineState.split)
  then have "te_recv e1 = te_recv e" unfolding h by simp
  moreover have "e' = set_next_record end_pos e1"
    using assms unfolding dispatch_handshake_record_def h by (cases r) simp_all
  ultimately show ?thesis by (simp add: set_next_record_def)
qed

function step_handshake ::
  "('k, 'v) ClientConfig \<Rightarrow> ('v, 'e, 'r) ClientParams \<Rightarrow> 'r \<Rightarrow> 'k TlsEngine \<Rightarrow> 'r \<times> 'k TlsEngine \<times> (HandshakeError + EngineEvent)" where
  "step_handshake C params rng e =
     (if is_send_pending e then (rng, e, Inr (Ev_Send (te_send_pending_len e - te_send_acked e)))
      else if te_pending_handshake_done e \<and> \<not> te_handshake_finished_pending_ack e
      then (rng, e\<lparr>te_pending_handshake_done := False\<rparr>, Inr Ev_HandshakeDone)
      else if plaintext_parked (te_recv e) then (rng, e, Inr Ev_AppData)
      else if te_closed e then (rng, e, Inr Ev_Closed)
      else
        case frame_one_record e of
          (e1, Inl err) \<Rightarrow> (rng, e1, Inl err)
        | (e1, Inr Framed_Need) \<Rightarrow> (rng, e1, Inr Ev_Recv)
        | (e1, Inr (Framed_Record start end_pos outer_type len)) \<Rightarrow>
            (case dispatch_handshake_record C params start end_pos outer_type rng e1 of
               (rng1, e2, Inl err) \<Rightarrow> (rng1, e2, Inl err)
             | (rng1, e2, Inr u) \<Rightarrow> step_handshake C params rng1 e2))"
  by pat_completeness auto
termination
proof (relation "measure (\<lambda>(C, params, rng, e). rs_filled (te_recv e) - rs_next_record (te_recv e))", goal_cases)
  case (2 C params rng e e1 r f start end_pos ty len rng1 p e2 s u)
  then show ?case
    using frame_one_record_Record [of e e1 start end_pos ty len]
      dispatch_handshake_record_recv [of C params start end_pos ty rng e1 rng1 e2] by simp
qed simp

declare step_handshake.simps [simp del]

section \<open>Data phase\<close>

definition decrypt_app ::
  "TlsSuite \<Rightarrow> (AppData \<Rightarrow> 'k EngineState) \<Rightarrow> AppData \<Rightarrow> nat \<Rightarrow> nat \<Rightarrow> 'k TlsEngine \<Rightarrow>
   'k TlsEngine \<times> (HandshakeError + nat \<times> 8 word)" where
  "decrypt_app S st conn start end_pos e =
     (case ad_decrypt_record_inplace S conn (sub_range start end_pos (te_recv_record e)) of
        (record, res) \<Rightarrow>
          let e = e\<lparr>te_recv_record := put_at start record (te_recv_record e)\<rparr> in
          (case res of
             Inl err \<Rightarrow> (e, Inl (HE_Connection err))
           | Inr (content, conn) \<Rightarrow> (e\<lparr>te_state := st conn\<rparr>, Inr content)))"

definition decrypt_current_data_record ::
  "('k, 'v) ClientConfig \<Rightarrow> nat \<Rightarrow> nat \<Rightarrow> 'k TlsEngine \<Rightarrow> 'k TlsEngine \<times> (HandshakeError + nat \<times> 8 word)" where
  "decrypt_current_data_record C start end_pos e =
     (case te_state e of
        ES_AppAes conn \<Rightarrow> decrypt_app (aes_suite (cc_aead C)) ES_AppAes conn start end_pos e
      | ES_AppChaCha conn \<Rightarrow> decrypt_app (chacha_suite (cc_aead C)) ES_AppChaCha conn start end_pos e
      | _ \<Rightarrow> (e, Inl (HE_Internal HandshakeStepWrongState)))"

text \<open>Rotate the receive keys and, on request, answer under the old send keys and rotate those.\<close>

definition rotate_keys ::
  "('k, 'v) ClientConfig \<Rightarrow> TlsSuite \<Rightarrow> (AppData \<Rightarrow> 'k EngineState) \<Rightarrow> bool \<Rightarrow> AppData \<Rightarrow> 'k TlsEngine \<Rightarrow>
   'k TlsEngine \<times> (HandshakeError + unit)" where
  "rotate_keys C S st update_requested conn e =
     (case ad_apply_recv_key_update (cc_hkdf C) S conn of
        Inl err \<Rightarrow> (e, Inl (HE_Connection err))
      | Inr conn \<Rightarrow>
          let e = e\<lparr>te_state := st conn\<rparr> in
          if \<not> update_requested then (e, Inr ())
          else
            (case ad_encrypt_key_update S conn False (te_send_record e) of
               Inl err \<Rightarrow> (e, Inl (HE_Connection err))
             | Inr (record, conn) \<Rightarrow>
                 (case ad_apply_send_key_update (cc_hkdf C) S conn of
                    Inl err \<Rightarrow> (e\<lparr>te_state := st conn\<rparr>, Inl (HE_Connection err))
                  | Inr conn \<Rightarrow> ((queue_send record e)\<lparr>te_state := st conn\<rparr>, Inr ()))))"

definition process_key_update ::
  "('k, 'v) ClientConfig \<Rightarrow> bool \<Rightarrow> 'k TlsEngine \<Rightarrow> 'k TlsEngine \<times> (HandshakeError + unit)" where
  "process_key_update C update_requested e =
     (case te_state e of
        ES_AppAes conn \<Rightarrow> rotate_keys C (aes_suite (cc_aead C)) ES_AppAes update_requested conn e
      | ES_AppChaCha conn \<Rightarrow> rotate_keys C (chacha_suite (cc_aead C)) ES_AppChaCha update_requested conn e
      | _ \<Rightarrow> (e, Inl (HE_Internal HandshakeStepWrongState)))"

definition feed_post_handshake ::
  "('k, 'v) ClientConfig \<Rightarrow> nat \<Rightarrow> nat \<Rightarrow> 'k TlsEngine \<Rightarrow> 'k TlsEngine \<times> (HandshakeError + unit)" where
  "feed_post_handshake C start len e =
     (case ph_feed (sub_range start (start + len) (te_recv_record e)) (te_ph e) of
        (ph, Inl err) \<Rightarrow> (e\<lparr>te_ph := ph\<rparr>, Inl err)
      | (ph, Inr None) \<Rightarrow> (e\<lparr>te_ph := ph\<rparr>, Inr ())
      | (ph, Inr (Some update_requested)) \<Rightarrow> process_key_update C update_requested (e\<lparr>te_ph := ph\<rparr>))"

definition handle_inner_content ::
  "('k, 'v) ClientConfig \<Rightarrow> nat \<Rightarrow> nat \<Rightarrow> 8 word \<Rightarrow> 'k TlsEngine \<Rightarrow> 'k TlsEngine \<times> (HandshakeError + unit)" where
  "handle_inner_content C body_offset content_len inner_ct e =
     (if inner_ct \<noteq> CT_HANDSHAKE \<and> in_progress (te_ph e) then (e, Inl HE_InterleavedPostHandshake)
      else if inner_ct = CT_APPLICATION_DATA then
        (if content_len > 0
         then (e\<lparr>te_recv := (te_recv e)\<lparr>rs_plain_start := body_offset, rs_plain_end := body_offset + content_len\<rparr>\<rparr>, Inr ())
         else (e, Inr ()))
      else if inner_ct = CT_ALERT then
        (if content_len < 2 then (e, Inl (HE_Connection (CE_Decrypt DecTruncated)))
         else
           let level = te_recv_record e ! body_offset;
               description = te_recv_record e ! (body_offset + 1)
           in if level = 1 \<and> description = 0 then (e\<lparr>te_closed := True\<rparr>, Inr ())
              else (e, Inl (HE_Connection (CE_Alert level description))))
      else if inner_ct = CT_HANDSHAKE then feed_post_handshake C body_offset content_len e
      else (e, Inl (HE_Connection (CE_UnknownContentType inner_ct))))"

definition dispatch_data_record_inner ::
  "('k, 'v) ClientConfig \<Rightarrow> nat \<Rightarrow> nat \<Rightarrow> 8 word \<Rightarrow> 'k TlsEngine \<Rightarrow> 'k TlsEngine \<times> (HandshakeError + unit)" where
  "dispatch_data_record_inner C start end_pos outer_type e =
     (if outer_type \<noteq> CT_APPLICATION_DATA then (e, Inl (HE_Connection (CE_UnknownContentType outer_type)))
      else
        let length_field = end_pos - start - TLS_HEADER in
        if length_field > unat (rsl_get (te_our_recv_limit e)) + AEAD_TAG
        then (e, Inl (HE_RecordTooLarge (rsl_get (te_our_recv_limit e)) (word_of_nat length_field)))
        else
          case decrypt_current_data_record C start end_pos e of
            (e, Inl err) \<Rightarrow> (e, Inl err)
          | (e, Inr (content_len, inner_ct)) \<Rightarrow>
              handle_inner_content C (start + TLS_HEADER) content_len inner_ct (set_next_record end_pos e))"

definition dispatch_data_record ::
  "('k, 'v) ClientConfig \<Rightarrow> nat \<Rightarrow> nat \<Rightarrow> 8 word \<Rightarrow> 'k TlsEngine \<Rightarrow> 'k TlsEngine \<times> (HandshakeError + unit)" where
  "dispatch_data_record C start end_pos outer_type e =
     (case dispatch_data_record_inner C start end_pos outer_type e of
        (e, Inr u) \<Rightarrow> (e, Inr ())
      | (e, Inl err) \<Rightarrow> (e\<lparr>te_closed := True\<rparr>, Inl err))"

text \<open>A record of the data phase is consumed before its content is looked at.\<close>

lemma rotate_keys_recv [simp]: "te_recv (fst (rotate_keys C S st u conn e)) = te_recv e"
  by (simp add: rotate_keys_def Let_def split: sum.split prod.split)

lemma process_key_update_recv [simp]: "te_recv (fst (process_key_update C u e)) = te_recv e"
  by (simp add: process_key_update_def split: EngineState.split)

lemma feed_post_handshake_recv [simp]: "te_recv (fst (feed_post_handshake C start len e)) = te_recv e"
  by (simp add: feed_post_handshake_def split: sum.split prod.split option.split)

lemma decrypt_app_recv [simp]: "te_recv (fst (decrypt_app S st conn start end_pos e)) = te_recv e"
  by (simp add: decrypt_app_def Let_def split: sum.split prod.split)

lemma decrypt_current_recv [simp]: "te_recv (fst (decrypt_current_data_record C start end_pos e)) = te_recv e"
  by (simp add: decrypt_current_data_record_def split: EngineState.split)

lemma handle_inner_content_recv [simp]:
  "rs_filled (te_recv (fst (handle_inner_content C off len ct e))) = rs_filled (te_recv e)"
  "rs_next_record (te_recv (fst (handle_inner_content C off len ct e))) = rs_next_record (te_recv e)"
  by (simp_all add: handle_inner_content_def Let_def)

lemma dispatch_data_record_inner_recv:
  "rs_filled (te_recv (fst (dispatch_data_record_inner C start end_pos ty e))) = rs_filled (te_recv e) \<and>
   (is_ok (snd (dispatch_data_record_inner C start end_pos ty e)) \<longrightarrow>
      rs_next_record (te_recv (fst (dispatch_data_record_inner C start end_pos ty e))) = end_pos)"
proof -
  obtain e1 r where d: "decrypt_current_data_record C start end_pos e = (e1, r)" by (metis surj_pair)
  have "te_recv e1 = te_recv e" using decrypt_current_recv [of C start end_pos e] d by simp
  then show ?thesis
    by (simp add: dispatch_data_record_inner_def Let_def d set_next_record_def split: sum.split prod.split)
qed

lemma dispatch_data_record_recv:
  assumes "dispatch_data_record C start end_pos ty e = (e', Inr u)"
  shows "rs_filled (te_recv e') = rs_filled (te_recv e)" "rs_next_record (te_recv e') = end_pos"
proof -
  have "snd (dispatch_data_record_inner C start end_pos ty e) = Inr () \<and> fst (dispatch_data_record_inner C start end_pos ty e) = e'"
    using assms by (auto simp: dispatch_data_record_def split: prod.splits sum.splits)
  then show "rs_filled (te_recv e') = rs_filled (te_recv e)" "rs_next_record (te_recv e') = end_pos"
    using dispatch_data_record_inner_recv [of C start end_pos ty e] by simp_all
qed

function step :: "('k, 'v) ClientConfig \<Rightarrow> 'k TlsEngine \<Rightarrow> 'k TlsEngine \<times> (HandshakeError + EngineEvent)" where
  "step C e =
     (if is_send_pending e then (e, Inr (Ev_Send (te_send_pending_len e - te_send_acked e)))
      else if plaintext_parked (te_recv e) then (e, Inr Ev_AppData)
      else if te_closed e then (e, Inr Ev_Closed)
      else
        case frame_one_record e of
          (e1, Inl err) \<Rightarrow> (e1, Inl err)
        | (e1, Inr Framed_Need) \<Rightarrow> (e1, Inr Ev_Recv)
        | (e1, Inr (Framed_Record start end_pos outer_type len)) \<Rightarrow>
            (case dispatch_data_record C start end_pos outer_type e1 of
               (e2, Inl err) \<Rightarrow> (e2, Inl err)
             | (e2, Inr u) \<Rightarrow> step C e2))"
  by pat_completeness auto
termination
proof (relation "measure (\<lambda>(C, e). rs_filled (te_recv e) - rs_next_record (te_recv e))", goal_cases)
  case (2 C e e1 r f start end_pos ty len e2 s u)
  then show ?case
    using frame_one_record_Record [of e e1 start end_pos ty len] dispatch_data_record_recv [of C start end_pos ty e1 e2 u]
    by simp
qed simp

declare step.simps [simp del]

section \<open>Lifecycle\<close>

definition recv_buffer_len :: "'k TlsEngine \<Rightarrow> nat" where
  "recv_buffer_len e =
     (if plaintext_parked (te_recv e) then 0 else length (te_recv_record e) - rs_filled (te_recv e))"

text \<open>The wrapper writes into the free tail of the receive buffer before it calls \<^verbatim>\<open>advance\<close>.\<close>

definition fill_recv_buffer :: "bytes \<Rightarrow> 'k TlsEngine \<Rightarrow> 'k TlsEngine" where
  "fill_recv_buffer bs e =
     e\<lparr>te_recv_record := put_at (rs_filled (te_recv e)) (take (recv_buffer_len e) bs) (te_recv_record e)\<rparr>"

definition advance :: "nat \<Rightarrow> 'k TlsEngine \<Rightarrow> 'k TlsEngine \<times> (HandshakeError + unit)" where
  "advance n e =
     (if n = 0 then (e, Inr ())
      else if plaintext_parked (te_recv e) then (e, Inl (HE_Internal AdvanceWhileParked))
      else
        let new_filled = rs_filled (te_recv e) + n in
        if new_filled > length (te_recv_record e) then (e, Inl HE_AdvanceTooLarge)
        else (e\<lparr>te_recv := (te_recv e)\<lparr>rs_filled := new_filled\<rparr>\<rparr>, Inr ()))"

text \<open>What is copied to the caller's buffer of \<^verbatim>\<open>out_len\<close> bytes.\<close>

definition read_app :: "nat \<Rightarrow> 'k TlsEngine \<Rightarrow> 'k TlsEngine \<times> bytes" where
  "read_app out_len e =
     (let parked = rs_plain_end (te_recv e) - rs_plain_start (te_recv e);
          n = min parked out_len
      in
      if n = 0 then (e, [])
      else
        let src_start = rs_plain_start (te_recv e)
        in (e\<lparr>te_recv := (te_recv e)\<lparr>rs_plain_start := src_start + n\<rparr>\<rparr>,
            sub_range src_start (src_start + n) (te_recv_record e)))"

definition send_chunk_limit :: "'k TlsEngine \<Rightarrow> nat" where
  "send_chunk_limit e =
     (let peer = unat (rsl_get (te_peer_recv_limit e)) - 1;
          local = length (te_send_record e) - (RECORD_OVERHEAD + 1);
          proto = unat PROTO_MAX_INNER_PLAINTEXT - 1
      in min (min peer local) proto)"

definition encrypt_app ::
  "TlsSuite \<Rightarrow> (AppData \<Rightarrow> 'k EngineState) \<Rightarrow> AppData \<Rightarrow> bytes \<Rightarrow> 8 word \<Rightarrow> 'k TlsEngine \<Rightarrow>
   'k TlsEngine \<times> (HandshakeError + unit)" where
  "encrypt_app S st conn content ct e =
     (case ad_encrypt_record S conn content ct (te_send_record e) of
        Inl err \<Rightarrow> (e, Inl (HE_Connection err))
      | Inr (record, conn) \<Rightarrow> ((queue_send record e)\<lparr>te_state := st conn\<rparr>, Inr ()))"

definition write_app ::
  "('k, 'v) ClientConfig \<Rightarrow> bytes \<Rightarrow> 'k TlsEngine \<Rightarrow> 'k TlsEngine \<times> (WriteAppError + nat)" where
  "write_app C plaintext e =
     (if te_closed e then (e, Inl WA_Closed)
      else if is_send_pending e then (e, Inl WA_Busy)
      else if \<not> in_data_phase (te_state e) then (e, Inl WA_NotReady)
      else
        let max_chunk = send_chunk_limit e;
            chunk_len = min (length plaintext) max_chunk
        in
        if chunk_len = 0 then (e, Inr 0)
        else
          case (case te_state e of
                  ES_AppAes conn \<Rightarrow>
                    encrypt_app (aes_suite (cc_aead C)) ES_AppAes conn (take chunk_len plaintext) CT_APPLICATION_DATA e
                | ES_AppChaCha conn \<Rightarrow>
                    encrypt_app (chacha_suite (cc_aead C)) ES_AppChaCha conn (take chunk_len plaintext) CT_APPLICATION_DATA e
                | _ \<Rightarrow> (e, Inl HE_NotReady)) of
            (e, Inl err) \<Rightarrow> (e, Inl (WA_Other err))
          | (e, Inr u) \<Rightarrow> (e, Inr chunk_len))"

definition mark_sent :: "nat \<Rightarrow> 'k TlsEngine \<Rightarrow> 'k TlsEngine \<times> (HandshakeError + unit)" where
  "mark_sent n e =
     (let new_acked = te_send_acked e + n in
      if new_acked > te_send_pending_len e then (e, Inl (HE_Internal MarkSentTooLarge))
      else if new_acked = te_send_pending_len e
      then (e\<lparr>te_send_pending_len := 0, te_send_acked := 0, te_handshake_finished_pending_ack := False\<rparr>, Inr ())
      else (e\<lparr>te_send_acked := new_acked\<rparr>, Inr ()))"

definition mark_terminal :: "'k TlsEngine \<Rightarrow> 'k TlsEngine" where
  "mark_terminal e =
     e\<lparr>te_state := ES_Closed, te_closed := True, te_send_pending_len := 0, te_send_acked := 0,
       te_handshake_finished_pending_ack := False, te_pending_handshake_done := False\<rparr>"

definition close :: "('k, 'v) ClientConfig \<Rightarrow> 'k TlsEngine \<Rightarrow> 'k TlsEngine \<times> (HandshakeError + unit)" where
  "close C e =
     (if te_closed e then (e, Inr ())
      else if is_send_pending e then (e, Inl HE_Busy)
      else if \<not> in_data_phase (te_state e) then (e\<lparr>te_closed := True\<rparr>, Inr ())
      else
        case (case te_state e of
                ES_AppAes conn \<Rightarrow> encrypt_app (aes_suite (cc_aead C)) ES_AppAes conn CLOSE_NOTIFY_ALERT CT_ALERT e
              | ES_AppChaCha conn \<Rightarrow>
                  encrypt_app (chacha_suite (cc_aead C)) ES_AppChaCha conn CLOSE_NOTIFY_ALERT CT_ALERT e
              | _ \<Rightarrow> (e, Inl (HE_Internal HandshakeStepWrongState))) of
          (e, Inl err) \<Rightarrow> (e, Inl err)
        | (e, Inr u) \<Rightarrow> (e\<lparr>te_closed := True\<rparr>, Inr ()))"

end
