(* ===== verification/Engine_Safety.thy ===== *)
theory Engine_Safety
  imports Engine
begin

text \<open>
  Invariants of the engine.  \<^verbatim>\<open>engine_ok\<close> is the documented invariant of the receive cursors together
  with what the send side keeps; every method preserves it, with and without an error.  The runs
  of an engine are the sequences of its methods in any order, with a log of the bytes handed to
  the transport.
\<close>

section \<open>What the operations do to lengths\<close>

text \<open>An AEAD engine works in place: the buffer keeps its length and the tag has 16 bytes.\<close>

definition aead_in_place :: "AeadCipher \<Rightarrow> bool" where
  "aead_in_place c \<longleftrightarrow>
     (\<forall>key nonce aad p ct tag. encrypt_inout_detached c key nonce aad p = Some (ct, tag) \<longrightarrow>
        length ct = length p \<and> length tag = 16) \<and>
     (\<forall>key nonce aad ct tag p. decrypt_inout_detached c key nonce aad ct tag = Some p \<longrightarrow> length p = length ct)"

lemma decrypt_in_place_length:
  assumes "aead_in_place c"
  shows "length (fst (decrypt_record_inplace c keys record seq)) = length record"
  using assms
  by (simp add: decrypt_record_inplace_def decrypt_record_inplace_with_def run_decrypt_def aead_in_place_def Let_def
      sub_range_def split: option.split)

lemma decrypt_in_place_inner:
  "decrypt_record_inplace c keys record seq = (rec', Inr n) \<Longrightarrow> length record = n + 21"
  by (auto simp: decrypt_record_inplace_def decrypt_record_inplace_with_def Let_def split: option.splits if_splits)

lemma split_inner_length: "split_inner_plaintext inner = Inr (content, ct) \<Longrightarrow> length content \<le> length inner"
  by (auto simp: split_inner_plaintext_def Let_def split: if_splits prod.splits)

lemma feed_in_place:
  assumes "aead_in_place (ts_aead S)"
  shows "length (fst (feed_server_record_inplace N S conn record reasm)) = length record"
  using decrypt_in_place_length [OF assms, of "wf_s_hs_keys conn" "record" "wf_seq_in conn"]
  by (auto simp: feed_server_record_inplace_def split: prod.splits sum.splits)

lemma ad_decrypt_in_place:
  assumes "aead_in_place (ts_aead S)"
  shows "length (fst (ad_decrypt_record_inplace S ad record)) = length record"
    and "snd (ad_decrypt_record_inplace S ad record) = Inr ((n, ct), ad') \<Longrightarrow> n + 21 \<le> length record"
proof -
  obtain rec' r where d: "decrypt_record_inplace (ts_aead S) (ad_s_ap_keys ad) record (ad_seq_in ad) = (rec', r)"
    by (metis surj_pair)
  have len: "length rec' = length record"
    using decrypt_in_place_length [OF assms, of "ad_s_ap_keys ad" "record" "ad_seq_in ad"] d by simp
  show "length (fst (ad_decrypt_record_inplace S ad record)) = length record"
    using len by (simp add: ad_decrypt_record_inplace_def d split: sum.split)
  assume "snd (ad_decrypt_record_inplace S ad record) = Inr ((n, ct), ad')"
  then obtain m content where "r = Inr m" "split_inner_plaintext (sub_range 5 (5 + m) rec') = Inr (content, ct)" "n = length content"
    by (auto simp: ad_decrypt_record_inplace_def d Let_def result_simps split: sum.splits)
  then show "n + 21 \<le> length record"
    using len decrypt_in_place_inner d split_inner_length [of "sub_range 5 (5 + m) rec'" content ct] by simp
qed

lemma encrypt_in_place:
  assumes "aead_in_place c" "encrypt_record c keys content ct seq out = Inr r"
  shows "length r \<le> length out"
  using assms
  by (auto simp: encrypt_record_def encrypt_record_with_def run_encrypt_def aead_in_place_def AEAD_TAG_LEN_def Let_def
      split: if_splits option.splits)

lemma ad_encrypt_in_place:
  "aead_in_place (ts_aead S) \<Longrightarrow> ad_encrypt_record S ad content ct out = Inr (r, ad') \<Longrightarrow> length r \<le> length out"
  by (auto simp: ad_encrypt_record_def result_simps dest: encrypt_in_place)

lemma encrypt_chunks_in_place:
  assumes "aead_in_place (ts_aead S)"
  shows "written \<le> length out \<Longrightarrow> encrypt_chunks S keys i written out cs = Inr r \<Longrightarrow> written + length r \<le> length out"
proof (induction cs arbitrary: i written r)
  case (Cons c cs)
  obtain r1 r2 where 1: "encrypt_record (ts_aead S) keys c CT_HANDSHAKE (word_of_nat i) (drop written out) = Inr r1"
    and 2: "encrypt_chunks S keys (i + 1) (written + length r1) out cs = Inr r2" and r: "r = r1 @ r2"
    using Cons.prems(2) by (auto simp: result_simps)
  have "written + length r1 \<le> length out" using encrypt_in_place [OF assms 1] Cons.prems(1) by simp
  then show ?case using Cons.IH [OF _ 2] r by simp
qed simp

lemma finish_handshake_in_place:
  "aead_in_place (ts_aead S) \<Longrightarrow> finish_handshake H S conn out = Inr (r, ad) \<Longrightarrow> length r \<le> length out"
  by (auto simp: finish_handshake_def build_client_finished_def result_simps dest: encrypt_in_place)

lemma finish_with_policy_in_place:
  assumes "aead_in_place (ts_aead S)" "backend_total H" "client_auth_policy pol"
    and "finish_handshake_with_policy H S pol conn ctx algs rng rsl scratch out = Inr (r, ad, scratch', rng')"
  shows "length r \<le> length out \<and> length scratch' = length scratch"
proof -
  obtain pt t keys where b: "build_flight pol H ctx algs rng (fd_c_hs_ts conn) (fd_transcript conn) (length scratch) = Inr (pt, t, rng')"
    and e: "encrypt_handshake_flight S keys pt rsl out = Inr r" and s: "scratch' = put_at 0 pt scratch"
    using assms(4) by (auto simp: finish_handshake_with_policy_def result_simps)
  have "length pt \<le> length scratch" by (rule client_auth_policy.flight_room [OF assms(3,2) b])
  moreover have "length r \<le> length out"
    using encrypt_chunks_in_place [OF assms(1), of 0 out keys 0] e by (auto simp: encrypt_handshake_flight_def Let_def result_simps)
  ultimately show ?thesis using s by (simp add: put_at_def)
qed

lemma encrypt_record_ne: "encrypt_record c keys content ct seq out = Inr r \<Longrightarrow> r \<noteq> []"
  by (drule encrypt_record_ok) auto

lemma encrypt_flight_ne:
  assumes "encrypt_handshake_flight S keys pt rsl out = Inr r" "pt \<noteq> []"
  shows "r \<noteq> []"
  using assms by (auto simp: encrypt_handshake_flight_def Let_def result_simps chunks_step dest: encrypt_record_ne)

lemma finish_handshake_ne: "finish_handshake H S conn out = Inr (r, ad) \<Longrightarrow> r \<noteq> []"
  by (auto simp: finish_handshake_def build_client_finished_def result_simps dest: encrypt_record_ne)

lemma finish_with_policy_ne:
  assumes "backend_total H" "client_auth_policy pol"
    and "finish_handshake_with_policy H S pol conn ctx algs rng rsl scratch out = Inr (r, ad, scratch', rng')"
  shows "r \<noteq> []"
proof -
  obtain pt t keys where b: "build_flight pol H ctx algs rng (fd_c_hs_ts conn) (fd_transcript conn) (length scratch) = Inr (pt, t, rng')"
    and e: "encrypt_handshake_flight S keys pt rsl out = Inr r"
    using assms(3) by (auto simp: finish_handshake_with_policy_def result_simps)
  have "pt \<noteq> []" using client_auth_policy.flight_finished [OF assms(2,1) b] by (auto simp: hs_frame_def)
  then show ?thesis using encrypt_flight_ne [OF e] by simp
qed

section \<open>The invariant\<close>

definition recv_ok :: "nat \<Rightarrow> RecvState \<Rightarrow> bool" where
  "recv_ok RECV r \<longleftrightarrow> rs_plain_start r \<le> rs_plain_end r \<and> rs_plain_end r \<le> rs_next_record r \<and>
     rs_next_record r \<le> rs_filled r \<and> rs_filled r \<le> RECV"

definition send_ok :: "'k TlsEngine \<Rightarrow> bool" where
  "send_ok e \<longleftrightarrow> te_send_pending_len e \<le> length (te_send_record e) \<and>
     (te_send_pending_len e = 0 \<longrightarrow> te_send_acked e = 0) \<and>
     (te_send_pending_len e \<noteq> 0 \<longrightarrow> te_send_acked e < te_send_pending_len e)"

definition engine_ok :: "nat \<Rightarrow> nat \<Rightarrow> 'k TlsEngine \<Rightarrow> bool" where
  "engine_ok RECV SEND e \<longleftrightarrow> length (te_recv_record e) = RECV \<and> length (te_send_record e) = SEND \<and>
     recv_ok RECV (te_recv e) \<and> send_ok e \<and>
     (te_handshake_finished_pending_ack e \<longrightarrow> is_send_pending e) \<and>
     (te_pending_handshake_done e \<longrightarrow> in_data_phase (te_state e)) \<and>
     rsl_ok (te_our_recv_limit e) \<and> rsl_ok (te_peer_recv_limit e) \<and> ph_ok (te_ph e)"

definition config_ok :: "('k, 'v) ClientConfig \<Rightarrow> bool" where
  "config_ok C \<longleftrightarrow> backend_total (cc_hkdf C) \<and> aead_in_place (ts_aead (aes_suite (cc_aead C))) \<and>
     aead_in_place (ts_aead (chacha_suite (cc_aead C)))"

lemmas engine_simps = engine_ok_def send_ok_def recv_ok_def is_send_pending_def

lemma TlsEngine_new_ok:
  "rsl_ok our \<Longrightarrow> rsl_ok peer \<Longrightarrow> engine_ok (length rec) (length snd_buf) (TlsEngine_new rec snd_buf reasm st our peer)"
  by (simp add: engine_simps TlsEngine_new_def RecvState_new_def)

lemma default_our_recv_limit_ok: "rsl_ok (default_our_recv_limit RECV)"
proof -
  have "unat (word_of_nat n :: 16 word) = n" if "n \<le> 16385" for n using that by (simp add: unat_of_nat)
  then show ?thesis
    by (auto simp: default_our_recv_limit_def rsl_ok_def Let_def PROTO_MAX_INNER_PLAINTEXT_def MIN_RECORD_SIZE_LIMIT_def
        simp del: of_nat_diff)
qed

text \<open>Writing a record back where it was read keeps the buffer.\<close>

lemma length_put_back:
  "end_pos \<le> length buf \<Longrightarrow> length rec = length (sub_range start end_pos buf) \<Longrightarrow> start \<le> end_pos \<Longrightarrow>
     length (put_at start rec buf) = length buf"
  by simp

lemma compact_recv_ok: "engine_ok R S e \<Longrightarrow> engine_ok R S (compact_recv e)"
  by (auto simp: compact_recv_def engine_simps Let_def)

lemma frame_ok: "engine_ok R S e \<Longrightarrow> engine_ok R S (fst (frame_one_record e))"
  by (auto simp: frame_one_record_def Let_def intro: compact_recv_ok)

lemma set_next_record_ok:
  "engine_ok R S e \<Longrightarrow> rs_plain_end (te_recv e) \<le> n \<Longrightarrow> n \<le> rs_filled (te_recv e) \<Longrightarrow> engine_ok R S (set_next_record n e)"
  by (auto simp: set_next_record_def engine_simps)

lemma queue_send_ok:
  "engine_ok R S e \<Longrightarrow> r \<noteq> [] \<Longrightarrow> length r \<le> S \<Longrightarrow> engine_ok R S (queue_send r e)"
  by (auto simp: queue_send_def engine_simps)

section \<open>Every handler keeps it\<close>

lemma handle_server_hello_ok: "engine_ok R S e \<Longrightarrow> \<not> te_pending_handshake_done e \<Longrightarrow>
    engine_ok R S (fst (handle_server_hello C start end_pos ty e))"
  by (simp add: handle_server_hello_def engine_simps split: EngineState.split sum.split NegotiatedSuite.split)

lemma feed_flight_ok:
  assumes "engine_ok R S e" "\<not> te_pending_handshake_done e" "aead_in_place (ts_aead Su)" "start \<le> end_pos" "end_pos \<le> R"
  shows "engine_ok R S (fst (feed_flight C Su st conn start end_pos e))"
    and "\<not> te_pending_handshake_done (fst (feed_flight C Su st conn start end_pos e))"
proof -
  obtain rec res where f: "feed_server_record_inplace (cc_flight_cap C) Su conn (sub_range start end_pos (te_recv_record e))
      (te_reassembler e) = (rec, res)" by (metis surj_pair)
  have "length rec = length (sub_range start end_pos (te_recv_record e))" using feed_in_place [OF assms(3)] f by (metis fst_conv)
  then have "length (put_at start rec (te_recv_record e)) = R"
    using assms(1,4,5) by (simp add: engine_ok_def)
  then show "engine_ok R S (fst (feed_flight C Su st conn start end_pos e))"
    "\<not> te_pending_handshake_done (fst (feed_flight C Su st conn start end_pos e))"
    using assms(1,2) by (simp_all add: feed_flight_def f Let_def engine_simps split: sum.split prod.split)
qed

lemma flight_outcome_ok:
  assumes "engine_ok R S e" and C: "backend_total (cc_hkdf C)" "aead_in_place (ts_aead Su)"
    and pol: "client_auth_policy (pa_client_auth params)"
    and "flight_outcome C params Su conn creq prepared leaf rng e = Inr (r, app, rec, rng')"
  shows "r \<noteq> [] \<and> length r \<le> S \<and> length rec = R"
proof (cases creq)
  case None
  then obtain sfd where "rec = te_recv_record e" "finish_handshake (cc_hkdf C) Su sfd (te_send_record e) = Inr (r, app)"
    using assms(5) by (auto simp: flight_outcome_def result_simps)
  then show ?thesis using assms(1) finish_handshake_in_place [OF C(2)] finish_handshake_ne by (auto simp: engine_ok_def)
next
  case (Some x)
  obtain ctx algs where "x = (ctx, algs)" by (metis surj_pair)
  then obtain sfd where "finish_handshake_with_policy (cc_hkdf C) Su (pa_client_auth params) sfd ctx algs rng
      (rsl_get (te_peer_recv_limit e)) (te_recv_record e) (te_send_record e) = Inr (r, app, rec, rng')"
    using assms(5) Some by (auto simp: flight_outcome_def result_simps)
  from finish_with_policy_in_place [OF C(2,1) pol this] finish_with_policy_ne [OF C(1) pol this] assms(1)
  show ?thesis by (simp add: engine_ok_def)
qed

lemma finish_flight_ok:
  assumes e: "engine_ok R S e" "\<not> te_pending_handshake_done e" and C: "backend_total (cc_hkdf C)" "aead_in_place (ts_aead Su)"
    and pol: "client_auth_policy (pa_client_auth params)" and st: "\<And>app. in_data_phase (st app)"
  shows "engine_ok R S (fst (snd (finish_flight C params Su st conn creq prepared leaf rng e)))"
proof (cases "flight_outcome C params Su conn creq prepared leaf rng e")
  case (Inl err)
  then show ?thesis using e by (simp add: finish_flight_def engine_simps)
next
  case (Inr x)
  obtain r app rec rng' where x: "x = (r, app, rec, rng')" by (metis surj_pair)
  note ok = flight_outcome_ok [OF e(1) C pol Inr [unfolded x]]
  have "engine_ok R S (queue_send r e)" using queue_send_ok [OF e(1)] ok by simp
  then show ?thesis using Inr ok st
    by (simp add: finish_flight_def x engine_simps queue_send_def)
qed

lemma finalize_and_finish_ok:
  assumes e: "engine_ok R S e" "\<not> te_pending_handshake_done e" and C: "config_ok C"
    and pol: "client_auth_policy (pa_client_auth params)"
  shows "engine_ok R S (fst (snd (finalize_and_finish C params rng e)))"
proof -
  define lim where "lim = rbind (map_err (HE_Connection \<circ> CE_Flight) (peek_ee_record_size_limit (te_reassembler e))) (\<lambda>limit.
      case limit of None \<Rightarrow> Inr (te_peer_recv_limit e) | Some l \<Rightarrow> ok_or (HE_InvalidRecordSizeLimit l) (rsl_try_from l))"
  have C': "backend_total (cc_hkdf C)" "aead_in_place (ts_aead (aes_suite (cc_aead C)))"
    "aead_in_place (ts_aead (chacha_suite (cc_aead C)))" using C by (simp_all add: config_ok_def)
  show ?thesis
  proof (cases lim)
    case (Inl err)
    then show ?thesis using e by (simp add: finalize_and_finish_def lim_def)
  next
    case (Inr limit)
    have "rsl_ok limit"
      using Inr e(1) rsl_ok_range(2) by (auto simp: lim_def result_simps engine_ok_def split: option.splits)
    then have e': "engine_ok R S (e\<lparr>te_peer_recv_limit := limit\<rparr>)" "\<not> te_pending_handshake_done (e\<lparr>te_peer_recv_limit := limit\<rparr>)"
      using e by (simp_all add: engine_simps)
    show ?thesis using e' finish_flight_ok [OF e' C'(1,2) pol] finish_flight_ok [OF e' C'(1,3) pol]
      unfolding finalize_and_finish_def lim_def [symmetric] Inr
      by (simp add: Let_def split: sum.split prod.split EngineState.split)
  qed
qed

lemma handle_flight_record_ok:
  assumes e: "engine_ok R S e" "\<not> te_pending_handshake_done e" and C: "config_ok C"
    and pol: "client_auth_policy (pa_client_auth params)" and pos: "start \<le> end_pos" "end_pos \<le> R"
  shows "engine_ok R S (fst (snd (handle_flight_record C params start end_pos rng e)))"
proof -
  let ?feed = "case te_state e of
      ES_WaitFlightAes conn \<Rightarrow> feed_flight C (aes_suite (cc_aead C)) ES_WaitFlightAes conn start end_pos e
    | ES_WaitFlightChaCha conn \<Rightarrow> feed_flight C (chacha_suite (cc_aead C)) ES_WaitFlightChaCha conn start end_pos e
    | _ \<Rightarrow> (e, Inl (HE_Internal FlightWrongState))"
  obtain e1 r where f: "?feed = (e1, r)" by (metis surj_pair)
  have C': "aead_in_place (ts_aead (aes_suite (cc_aead C)))" "aead_in_place (ts_aead (chacha_suite (cc_aead C)))"
    using C by (simp_all add: config_ok_def)
  have "engine_ok R S (fst ?feed) \<and> \<not> te_pending_handshake_done (fst ?feed)"
    by (simp add: e feed_flight_ok [OF e C'(1) pos] feed_flight_ok [OF e C'(2) pos] split: EngineState.split)
  then have e1: "engine_ok R S e1" "\<not> te_pending_handshake_done e1" unfolding f by simp_all
  show ?thesis using e e1 finalize_and_finish_ok [OF e1 C pol] unfolding handle_flight_record_def f
    by (simp add: Let_def split: sum.split FlightStep.split)
qed

lemma dispatch_handshake_record_ok:
  assumes e: "engine_ok R S e" "\<not> te_pending_handshake_done e" and C: "config_ok C"
    and pol: "client_auth_policy (pa_client_auth params)"
    and pos: "rs_next_record (te_recv e) = start" "start \<le> end_pos" "end_pos \<le> rs_filled (te_recv e)"
  shows "engine_ok R S (fst (snd (dispatch_handshake_record C params start end_pos ty rng e)))"
proof -
  let ?handle = "case te_state e of
      ES_WaitServerHello _ \<Rightarrow> (rng, handle_server_hello C start end_pos ty e)
    | ES_WaitFlightAes _ \<Rightarrow> handle_flight_record C params start end_pos rng e
    | ES_WaitFlightChaCha _ \<Rightarrow> handle_flight_record C params start end_pos rng e
    | ES_AppAes _ \<Rightarrow> (rng, e, Inl (HE_Internal HandshakeStepInDataPhase))
    | ES_AppChaCha _ \<Rightarrow> (rng, e, Inl (HE_Internal HandshakeStepInDataPhase))
    | ES_Closed \<Rightarrow> (rng, e, Inl (HE_Internal HandshakeStepWrongState))"
  obtain rng1 e1 r where h: "?handle = (rng1, e1, r)" by (metis surj_pair)
  have bound: "end_pos \<le> R" using e(1) pos(3) by (simp add: engine_simps)
  have "te_recv (fst (snd ?handle)) = te_recv e \<and> engine_ok R S (fst (snd ?handle))"
    by (simp add: e handle_server_hello_ok [OF e] handle_flight_record_ok [OF e C pol pos(2) bound] split: EngineState.split)
  then have e1: "te_recv e1 = te_recv e" "engine_ok R S e1" unfolding h by simp_all
  have "rs_plain_end (te_recv e1) \<le> end_pos" using e(1) pos e1(1) by (simp add: engine_simps)
  then have "engine_ok R S (set_next_record end_pos e1)" using set_next_record_ok [OF e1(2)] pos(3) e1(1) by simp
  then show ?thesis using e1 unfolding dispatch_handshake_record_def h by (simp split: sum.split)
qed

lemma no_done_pending:
  "engine_ok R S e \<Longrightarrow> \<not> is_send_pending e \<Longrightarrow> \<not> (te_pending_handshake_done e \<and> \<not> te_handshake_finished_pending_ack e) \<Longrightarrow>
     \<not> te_pending_handshake_done e"
  by (auto simp: engine_ok_def)

lemma handshake_done_ok: "engine_ok R S e \<Longrightarrow> engine_ok R S (e\<lparr>te_pending_handshake_done := False\<rparr>)"
  by (simp add: engine_simps)

text \<open>The loops keep what framing and dispatching keep.\<close>

definition idle :: "'k TlsEngine \<Rightarrow> bool" where
  "idle e \<longleftrightarrow> \<not> is_send_pending e \<and> \<not> plaintext_parked (te_recv e) \<and> \<not> te_closed e"

lemma step_handshake_rule:
  assumes frame: "\<And>e. I e \<Longrightarrow> idle e \<Longrightarrow> I (fst (frame_one_record e))"
    and dispatch: "\<And>rng e start end_pos ty len. \<lbrakk>I e; idle e;
        \<not> (te_pending_handshake_done e \<and> \<not> te_handshake_finished_pending_ack e);
        frame_one_record e = (e, Inr (Framed_Record start end_pos ty len))\<rbrakk> \<Longrightarrow>
        I (fst (snd (dispatch_handshake_record C params start end_pos ty rng e)))"
    and finished: "\<And>e. \<lbrakk>I e; \<not> is_send_pending e; te_pending_handshake_done e; \<not> te_handshake_finished_pending_ack e\<rbrakk> \<Longrightarrow>
        I (e\<lparr>te_pending_handshake_done := False\<rparr>)"
  shows "I e \<Longrightarrow> I (fst (snd (step_handshake C params rng e)))"
proof (induction C \<equiv> C params \<equiv> params rng e rule: step_handshake.induct)
  case (1 rng e)
  note unf = step_handshake.simps [of C params rng e]
  show ?case
  proof (cases "is_send_pending e \<or> te_pending_handshake_done e \<and> \<not> te_handshake_finished_pending_ack e \<or>
      plaintext_parked (te_recv e) \<or> te_closed e")
    case True
    then show ?thesis using "1.prems" finished [of e] unfolding unf by auto
  next
    case False
    then have idle: "idle e" "\<not> (te_pending_handshake_done e \<and> \<not> te_handshake_finished_pending_ack e)" by (auto simp: idle_def)
    obtain e1 r where f: "frame_one_record e = (e1, r)" by (metis surj_pair)
    show ?thesis
    proof (cases "\<exists>start end_pos ty len. r = Inr (Framed_Record start end_pos ty len)")
      case none: False
      then show ?thesis using frame [OF "1.prems" idle(1)] False f unfolding unf
        by (auto split: sum.split Framed.split)
    next
      case True
      then obtain start end_pos ty len where r: "r = Inr (Framed_Record start end_pos ty len)" by blast
      then have e1: "e1 = e" using frame_one_record_Record [of e e1] f by simp
      obtain rng1 e2 res where d: "dispatch_handshake_record C params start end_pos ty rng e1 = (rng1, e2, res)" by (metis surj_pair)
      have "I e2" using dispatch [OF "1.prems" idle] f r e1 d by (metis fst_conv snd_conv)
      then show ?thesis using "1.hyps" False f r d unfolding unf by (cases res) auto
    qed
  qed
qed

lemma step_rule:
  assumes frame: "\<And>e. I e \<Longrightarrow> idle e \<Longrightarrow> I (fst (frame_one_record e))"
    and dispatch: "\<And>e start end_pos ty len. \<lbrakk>I e; idle e; frame_one_record e = (e, Inr (Framed_Record start end_pos ty len))\<rbrakk> \<Longrightarrow>
        I (fst (dispatch_data_record C start end_pos ty e))"
  shows "I e \<Longrightarrow> I (fst (step C e))"
proof (induction C \<equiv> C e rule: step.induct)
  case (1 e)
  note unf = step.simps [of C e]
  show ?case
  proof (cases "idle e")
    case False
    then show ?thesis using "1.prems" unfolding unf by (auto simp: idle_def)
  next
    case idle: True
    then have g: "\<not> is_send_pending e" "\<not> plaintext_parked (te_recv e)" "\<not> te_closed e" by (simp_all add: idle_def)
    obtain e1 r where f: "frame_one_record e = (e1, r)" by (metis surj_pair)
    show ?thesis
    proof (cases "\<exists>start end_pos ty len. r = Inr (Framed_Record start end_pos ty len)")
      case False
      then show ?thesis using frame [OF "1.prems" idle] g f unfolding unf by (auto split: sum.split Framed.split)
    next
      case True
      then obtain start end_pos ty len where r: "r = Inr (Framed_Record start end_pos ty len)" by blast
      then have e1: "e1 = e" using frame_one_record_Record [of e e1] f by simp
      obtain e2 res where d: "dispatch_data_record C start end_pos ty e1 = (e2, res)" by (metis surj_pair)
      have "I e2" using dispatch [OF "1.prems" idle] f r e1 d by (metis fst_conv)
      then show ?thesis using "1.hyps" g f r d unfolding unf by (cases res) auto
    qed
  qed
qed

lemma dispatch_handshake_keeps:
  assumes "config_ok C" "client_auth_policy (pa_client_auth params)" and e: "engine_ok R S e" "idle e"
    "\<not> (te_pending_handshake_done e \<and> \<not> te_handshake_finished_pending_ack e)"
    and f: "frame_one_record e = (e, Inr (Framed_Record start end_pos ty len))"
  shows "engine_ok R S (fst (snd (dispatch_handshake_record C params start end_pos ty rng e)))"
  using e(2) frame_one_record_Record [OF f]
  by - (rule dispatch_handshake_record_ok [OF e(1) no_done_pending [OF e(1) _ e(3)] assms(1,2)], simp_all add: idle_def)

lemma step_handshake_ok:
  assumes "config_ok C" "client_auth_policy (pa_client_auth params)" "engine_ok R S e"
  shows "engine_ok R S (fst (snd (step_handshake C params rng e)))"
  by (rule step_handshake_rule [where I = "engine_ok R S", OF _ _ _ assms(3)])
    (simp_all add: frame_ok handshake_done_ok dispatch_handshake_keeps [OF assms(1,2)])

text \<open>The data phase.\<close>

lemma set_app_ok: "engine_ok R S e \<Longrightarrow> in_data_phase st \<Longrightarrow> engine_ok R S (e\<lparr>te_state := st\<rparr>)"
  by (simp add: engine_simps)

lemma queue_app_ok:
  assumes "engine_ok R S e" "aead_in_place (ts_aead Su)" "in_data_phase st"
    and "ad_encrypt_record Su ad content ct (te_send_record e) = Inr (r, ad')"
  shows "engine_ok R S ((queue_send r e)\<lparr>te_state := st\<rparr>)"
proof -
  have "r \<noteq> []" using assms(4) by (auto simp: ad_encrypt_record_def result_simps dest: encrypt_record_ne)
  moreover have "length r \<le> S" using ad_encrypt_in_place [OF assms(2,4)] assms(1) by (simp add: engine_ok_def)
  ultimately show ?thesis using queue_send_ok [OF assms(1)] set_app_ok assms(3) by blast
qed

lemma rotate_keys_ok:
  assumes e: "engine_ok R S e" and Su: "aead_in_place (ts_aead Su)" and st: "\<And>app. in_data_phase (st app)"
  shows "engine_ok R S (fst (rotate_keys C Su st u conn e))"
proof (cases "ad_apply_recv_key_update (cc_hkdf C) Su conn")
  case (Inl err)
  then show ?thesis using e by (simp add: rotate_keys_def Let_def)
next
  case recv: (Inr conn1)
  let ?e = "e\<lparr>te_state := st conn1\<rparr>"
  have e1: "engine_ok R S ?e" by (rule set_app_ok [OF e st])
  show ?thesis
  proof (cases "ad_encrypt_key_update Su conn1 False (te_send_record ?e)")
    case (Inl err)
    then show ?thesis using e1 recv by (simp add: rotate_keys_def Let_def)
  next
    case (Inr x)
    obtain r conn2 where x: "x = (r, conn2)" by (metis surj_pair)
    note q = queue_app_ok [OF e1 Su st Inr [unfolded ad_encrypt_key_update_def x]]
    have "engine_ok R S (e\<lparr>te_state := st conn2\<rparr>)" by (rule set_app_ok [OF e st])
    then show ?thesis using e1 q recv Inr x by (simp add: rotate_keys_def Let_def split: sum.split)
  qed
qed

lemma process_key_update_ok: "engine_ok R S e \<Longrightarrow> config_ok C \<Longrightarrow> engine_ok R S (fst (process_key_update C u e))"
  by (simp add: process_key_update_def config_ok_def rotate_keys_ok split: EngineState.split)

lemma feed_post_handshake_ok:
  assumes "engine_ok R S e" "config_ok C"
  shows "engine_ok R S (fst (feed_post_handshake C start len e))"
proof -
  obtain ph r where f: "ph_feed (sub_range start (start + len) (te_recv_record e)) (te_ph e) = (ph, r)" by (metis surj_pair)
  have "ph_ok ph" using ph_feed_ok [of "te_ph e"] f assms(1) by (metis engine_ok_def fst_conv)
  then have "engine_ok R S (e\<lparr>te_ph := ph\<rparr>)" using assms(1) by (simp add: engine_simps)
  then show ?thesis
    by (simp add: feed_post_handshake_def f process_key_update_ok assms(2) split: sum.split option.split)
qed

lemma decrypt_app_ok:
  assumes "engine_ok R S e" "aead_in_place (ts_aead Su)" "\<And>app. in_data_phase (st app)" "start \<le> end_pos" "end_pos \<le> R"
  shows "engine_ok R S (fst (decrypt_app Su st conn start end_pos e))"
    and "snd (decrypt_app Su st conn start end_pos e) = Inr (n, ct) \<Longrightarrow> start + 5 + n \<le> end_pos"
proof -
  obtain rec res where d: "ad_decrypt_record_inplace Su conn (sub_range start end_pos (te_recv_record e)) = (rec, res)"
    by (metis surj_pair)
  have R: "length (te_recv_record e) = R" using assms(1) by (simp add: engine_ok_def)
  note len = ad_decrypt_in_place [OF assms(2), of conn "sub_range start end_pos (te_recv_record e)"]
  have "length (put_at start rec (te_recv_record e)) = R" using len(1) d assms(4,5) R by simp
  then have e1: "engine_ok R S (e\<lparr>te_recv_record := put_at start rec (te_recv_record e)\<rparr>)"
    using assms(1) by (simp add: engine_simps)
  show "engine_ok R S (fst (decrypt_app Su st conn start end_pos e))"
    using e1 set_app_ok [OF e1 assms(3)] by (simp add: decrypt_app_def d Let_def split: sum.split prod.split)
  assume "snd (decrypt_app Su st conn start end_pos e) = Inr (n, ct)"
  then obtain ad' where "res = Inr ((n, ct), ad')" by (auto simp: decrypt_app_def d Let_def split: sum.splits prod.splits)
  then have "n + 21 \<le> min (end_pos - start) (R - start)" using len(2) [of n ct ad'] d R by simp
  then show "start + 5 + n \<le> end_pos" using assms(4) by linarith
qed

lemma decrypt_current_ok:
  assumes e: "engine_ok R S e" and C: "config_ok C" and pos: "start \<le> end_pos" "end_pos \<le> R"
  shows "engine_ok R S (fst (decrypt_current_data_record C start end_pos e))"
    and "snd (decrypt_current_data_record C start end_pos e) = Inr (n, ct) \<Longrightarrow> start + 5 + n \<le> end_pos"
proof -
  have C': "aead_in_place (ts_aead (aes_suite (cc_aead C)))" "aead_in_place (ts_aead (chacha_suite (cc_aead C)))"
    using C by (simp_all add: config_ok_def)
  note a = decrypt_app_ok [OF e C'(1) _ pos, of ES_AppAes, simplified]
    and c = decrypt_app_ok [OF e C'(2) _ pos, of ES_AppChaCha, simplified]
  show "engine_ok R S (fst (decrypt_current_data_record C start end_pos e))"
    by (simp add: decrypt_current_data_record_def e a c split: EngineState.split)
  show "snd (decrypt_current_data_record C start end_pos e) = Inr (n, ct) \<Longrightarrow> start + 5 + n \<le> end_pos"
    using a(2) c(2) by (simp add: decrypt_current_data_record_def split: EngineState.splits)
qed

lemma handle_inner_content_ok:
  assumes e: "engine_ok R S e" and C: "config_ok C" and "off + len \<le> rs_next_record (te_recv e)"
  shows "engine_ok R S (fst (handle_inner_content C off len ct e))"
proof -
  have "engine_ok R S (e\<lparr>te_recv := (te_recv e)\<lparr>rs_plain_start := off, rs_plain_end := off + len\<rparr>\<rparr>)"
    "engine_ok R S (e\<lparr>te_closed := True\<rparr>)"
    using e assms(3) by (simp_all add: engine_simps)
  then show ?thesis by (simp add: handle_inner_content_def e feed_post_handshake_ok [OF e C] Let_def)
qed

lemma dispatch_data_record_ok:
  assumes e: "engine_ok R S e" and C: "config_ok C"
    and pos: "rs_next_record (te_recv e) = start" "start \<le> end_pos" "end_pos \<le> rs_filled (te_recv e)"
  shows "engine_ok R S (fst (dispatch_data_record C start end_pos ty e))"
proof -
  have bound: "end_pos \<le> R" using e pos(3) by (simp add: engine_simps)
  obtain e1 r where d: "decrypt_current_data_record C start end_pos e = (e1, r)" by (metis surj_pair)
  have e1: "engine_ok R S e1" "te_recv e1 = te_recv e"
    using decrypt_current_ok(1) [OF e C pos(2) bound] decrypt_current_recv [of C start end_pos e] d by simp_all
  have n: "start + 5 + n \<le> end_pos" if "r = Inr (n, ct)" for n ct
    using decrypt_current_ok(2) [OF e C pos(2) bound] d that by simp
  have "rs_plain_end (te_recv e1) \<le> end_pos" using e pos e1(2) by (simp add: engine_simps)
  then have next_ok: "engine_ok R S (set_next_record end_pos e1)" using set_next_record_ok [OF e1(1)] pos(3) e1(2) by simp
  have "engine_ok R S (fst (handle_inner_content C (start + 5) n ct (set_next_record end_pos e1)))"
    if "r = Inr (n, ct)" for n ct
    using handle_inner_content_ok [OF next_ok C] n [OF that] by (simp add: set_next_record_def)
  then have "engine_ok R S (fst (dispatch_data_record_inner C start end_pos ty e))"
    by (simp add: dispatch_data_record_inner_def Let_def d e e1 TLS_HEADER_def split: sum.split prod.split)
  moreover have "engine_ok R S e' \<Longrightarrow> engine_ok R S (e'\<lparr>te_closed := True\<rparr>)" for e' :: "'a TlsEngine"
    by (simp add: engine_simps)
  ultimately show ?thesis
    by (cases "dispatch_data_record_inner C start end_pos ty e") (simp add: dispatch_data_record_def split: sum.split)
qed

lemma dispatch_data_keeps:
  assumes "config_ok C" "engine_ok R S e" and f: "frame_one_record e = (e, Inr (Framed_Record start end_pos ty len))"
  shows "engine_ok R S (fst (dispatch_data_record C start end_pos ty e))"
  using frame_one_record_Record [OF f] by - (rule dispatch_data_record_ok [OF assms(2,1)], simp_all)

lemma step_ok: "config_ok C \<Longrightarrow> engine_ok R S e \<Longrightarrow> engine_ok R S (fst (step C e))"
  by (rule step_rule [where I = "engine_ok R S"]) (simp_all add: frame_ok dispatch_data_keeps)

text \<open>The lifecycle.\<close>

lemma encrypt_app_ok:
  assumes "engine_ok R S e" "aead_in_place (ts_aead Su)" "\<And>app. in_data_phase (st app)"
  shows "engine_ok R S (fst (encrypt_app Su st conn content ct e))"
  using assms queue_app_ok [OF assms(1,2)] by (auto simp: encrypt_app_def split: sum.split)

lemma encrypt_state_ok:
  assumes "engine_ok R S e" "config_ok C"
  shows "engine_ok R S (fst (case te_state e of
      ES_AppAes conn \<Rightarrow> encrypt_app (aes_suite (cc_aead C)) ES_AppAes conn content ct e
    | ES_AppChaCha conn \<Rightarrow> encrypt_app (chacha_suite (cc_aead C)) ES_AppChaCha conn content ct e
    | _ \<Rightarrow> (e, Inl err)))"
proof -
  have C': "aead_in_place (ts_aead (aes_suite (cc_aead C)))" "aead_in_place (ts_aead (chacha_suite (cc_aead C)))"
    using assms(2) by (simp_all add: config_ok_def)
  show ?thesis
    by (simp add: assms(1) encrypt_app_ok [OF assms(1) C'(1)] encrypt_app_ok [OF assms(1) C'(2)] split: EngineState.split)
qed

lemma write_app_ok:
  assumes "engine_ok R S e" "config_ok C"
  shows "engine_ok R S (fst (write_app C plaintext e))"
proof -
  let ?chunk = "min (length plaintext) (send_chunk_limit e)"
  let ?enc = "case te_state e of
      ES_AppAes conn \<Rightarrow> encrypt_app (aes_suite (cc_aead C)) ES_AppAes conn (take ?chunk plaintext) CT_APPLICATION_DATA e
    | ES_AppChaCha conn \<Rightarrow> encrypt_app (chacha_suite (cc_aead C)) ES_AppChaCha conn (take ?chunk plaintext) CT_APPLICATION_DATA e
    | _ \<Rightarrow> (e, Inl HE_NotReady)"
  obtain e1 r where x: "?enc = (e1, r)" by (metis surj_pair)
  have "engine_ok R S e1" using encrypt_state_ok [OF assms, where err = HE_NotReady and ct = CT_APPLICATION_DATA and content = "take ?chunk plaintext"] unfolding x by simp
  then show ?thesis using assms(1) unfolding write_app_def Let_def x by (simp split: sum.split)
qed

lemma close_ok:
  assumes "engine_ok R S e" "config_ok C"
  shows "engine_ok R S (fst (close C e))"
proof -
  let ?enc = "case te_state e of
      ES_AppAes conn \<Rightarrow> encrypt_app (aes_suite (cc_aead C)) ES_AppAes conn CLOSE_NOTIFY_ALERT CT_ALERT e
    | ES_AppChaCha conn \<Rightarrow> encrypt_app (chacha_suite (cc_aead C)) ES_AppChaCha conn CLOSE_NOTIFY_ALERT CT_ALERT e
    | _ \<Rightarrow> (e, Inl (HE_Internal HandshakeStepWrongState))"
  obtain e1 r where x: "?enc = (e1, r)" by (metis surj_pair)
  have "engine_ok R S e1"
    using encrypt_state_ok [OF assms, where err = "HE_Internal HandshakeStepWrongState" and ct = CT_ALERT and
        content = CLOSE_NOTIFY_ALERT] unfolding x by simp
  then have "engine_ok R S e1" "engine_ok R S (e1\<lparr>te_closed := True\<rparr>)" "engine_ok R S (e\<lparr>te_closed := True\<rparr>)"
    using assms(1) by (simp_all add: engine_simps)
  then show ?thesis using assms(1) unfolding close_def x by (simp split: sum.split)
qed

lemma fill_recv_buffer_ok: "engine_ok R S e \<Longrightarrow> engine_ok R S (fill_recv_buffer bs e)"
  by (auto simp: fill_recv_buffer_def recv_buffer_len_def engine_simps)

lemma advance_ok: "engine_ok R S e \<Longrightarrow> engine_ok R S (fst (advance n e))"
  by (auto simp: advance_def engine_simps Let_def)

lemma read_app_ok: "engine_ok R S e \<Longrightarrow> engine_ok R S (fst (read_app n e))"
  by (auto simp: read_app_def engine_simps Let_def)

lemma mark_sent_ok: "engine_ok R S e \<Longrightarrow> engine_ok R S (fst (mark_sent n e))"
  by (auto simp: mark_sent_def engine_simps Let_def)

lemma mark_terminal_ok: "engine_ok R S e \<Longrightarrow> engine_ok R S (mark_terminal e)"
  by (simp add: mark_terminal_def engine_simps)

end
