(* ===== verification/Engine_Demo.thy ===== *)
theory Engine_Demo
  imports Engine_Safety
begin

text \<open>
  A handshake of the toy backends through the engine: the server's hello and its flight arrive in one
  read, the client's Finished is queued, and the engine is in the data phase.  The theorems on runs
  are applied to it.
\<close>

definition demo_config :: "(bytes, bytes) ClientConfig" where
  "demo_config = \<lparr>cc_features = demo_features, cc_hkdf = flight_hkdf, cc_kx = demo_kx, cc_aead = demo_suites,
     cc_verifiers = flight_verifier,
     cc_parser = \<lparr>cp_parse = (\<lambda>_. Inr demo_leaf), cp_parse_ca_constraints = (\<lambda>_. Inl CP_Malformed),
       cp_spki_der = (\<lambda>_. Inl CP_Malformed)\<rparr>,
     cc_flight_cap = 1000, cc_max_chain = 4\<rparr>"

definition demo_params :: "(bytes, unit, unit) ClientParams" where
  "demo_params = \<lparr>pa_verify = (\<lambda>_. Inr (PV_Ed25519 [5])), pa_hostname = [0x61], pa_client_auth = NoClientAuth\<rparr>"

definition demo_input :: bytes where
  "demo_input = demo_server_hello @ demo_flight_record"

definition demo_engine :: "bytes TlsEngine" where
  "demo_engine = TlsEngine_new (replicate 300 0) (replicate 80 0) ServerFlightReassembler_new (ES_WaitServerHello demo_conn)
     (default_our_recv_limit 300) (RecordSizeLimit 16385)"

definition demo_received :: "bytes TlsEngine" where
  "demo_received = fst (advance (length demo_input) (fill_recv_buffer demo_input demo_engine))"

lemma demo_aead_in_place: "aead_in_place (ts_aead flight_suite)"
  by (simp add: aead_in_place_def flight_suite_def demo_cipher_def)

lemma demo_config_ok: "config_ok demo_config"
  by (simp add: config_ok_def demo_config_def demo_suites_def demo_aead_in_place flight_hkdf_total)

lemma demo_policy: "client_auth_policy (pa_client_auth demo_params)"
  by (simp add: demo_params_def no_auth.client_auth_policy_axioms)

lemma demo_limits: "rsl_ok (default_our_recv_limit 300)" "rsl_ok (RecordSizeLimit 16385)"
  by (simp_all add: default_our_recv_limit_ok) (code_simp)

lemma demo_records:
  "length demo_server_hello = 95" "take 5 demo_server_hello = [22, 3, 3, 0, 90]"
  "length demo_flight_record = 150" "take 5 demo_flight_record = [23, 3, 3, 0, 145]"
  by code_simp+

lemma demo_received_eq:
  "demo_received = demo_engine\<lparr>te_recv_record := demo_input @ replicate 55 0, te_recv := RecvState_new\<lparr>rs_filled := 245\<rparr>\<rparr>"
  using demo_records(1,3)
  by (simp add: demo_received_def demo_input_def demo_engine_def TlsEngine_new_def advance_def fill_recv_buffer_def
      recv_buffer_len_def RecvState_new_def plaintext_parked_def put_at_def Let_def)

text \<open>A complete record is framed where it stands.\<close>

lemma frame_complete:
  assumes "\<not> plaintext_parked (te_recv e)" "rs_next_record (te_recv e) = length pre"
    and "te_recv_record e = pre @ rec @ post" "take 5 rec = [ty, v, v', hi, lo]"
    and "length rec = 5 + unat (from_be_bytes [hi, lo] :: 16 word)"
    and "length pre + length rec \<le> rs_filled (te_recv e)"
  shows "frame_one_record e = (e, Inr (Framed_Record (length pre) (length pre + length rec) ty (length rec - 5)))"
proof -
  have "rec ! i = [ty, v, v', hi, lo] ! i" if "i < 5" for i using assms(4) that by (metis nth_take)
  from this [of 0] this [of 3] this [of 4] have "rec ! 0 = ty" "rec ! 3 = hi" "rec ! 4 = lo" by (simp_all add: nth_Cons)
  then show ?thesis using assms
    by (simp add: frame_one_record_def Let_def TLS_HEADER_def nth_append)
qed

lemma demo_received_fields:
  "te_state demo_received = ES_WaitServerHello demo_conn" "te_recv_record demo_received = demo_input @ replicate 55 0"
  "te_recv demo_received = RecvState_new\<lparr>rs_filled := 245\<rparr>" "te_send_record demo_received = replicate 80 0"
  "te_send_pending_len demo_received = 0" "te_send_acked demo_received = 0" "\<not> te_pending_handshake_done demo_received"
  "\<not> te_closed demo_received" "te_reassembler demo_received = ServerFlightReassembler_new"
  "te_our_recv_limit demo_received = default_our_recv_limit 300" "te_peer_recv_limit demo_received = RecordSizeLimit 16385"
  by (simp_all add: demo_received_eq demo_engine_def TlsEngine_new_def clear_def ServerFlightReassembler_new_def)

lemma demo_config_fields:
  "cc_features demo_config = demo_features" "cc_hkdf demo_config = flight_hkdf" "cc_kx demo_config = demo_kx"
  "cc_aead demo_config = demo_suites" "cc_verifiers demo_config = flight_verifier" "cc_flight_cap demo_config = 1000"
  "aes_suite demo_suites = flight_suite"
  by (simp_all add: demo_config_def demo_suites_def)

lemmas demo_simps = demo_received_fields demo_config_fields is_send_pending_def plaintext_parked_def RecvState_new_def

definition demo_hello_done :: "bytes TlsEngine" where
  "demo_hello_done = demo_received\<lparr>te_state := ES_WaitFlightAes demo_wait,
     te_recv := (te_recv demo_received)\<lparr>rs_next_record := 95\<rparr>\<rparr>"

lemma demo_hello_step:
  "step_handshake demo_config demo_params () demo_received = step_handshake demo_config demo_params () demo_hello_done"
proof -
  have "frame_one_record demo_received = (demo_received, Inr (Framed_Record 0 95 22 90))"
    using frame_complete [of demo_received "[]" demo_server_hello "demo_flight_record @ replicate 55 0" 22 3 3 0 90] demo_records
    by (simp add: demo_simps demo_input_def from_be_bytes_def)
  moreover have "sub_range 0 95 (te_recv_record demo_received) = demo_server_hello"
    using demo_records by (simp add: demo_simps demo_input_def)
  then have "dispatch_handshake_record demo_config demo_params 0 95 22 () demo_received = ((), demo_hello_done, Inr ())"
    using demo_hello_read
    by (simp add: demo_simps dispatch_handshake_record_def handle_server_hello_def CT_HANDSHAKE_def set_next_record_def
        demo_hello_done_def)
  ultimately show ?thesis
    by (simp add: step_handshake.simps [of demo_config demo_params "()" demo_received] demo_simps)
qed

lemma demo_feed:
  "snd (feed_server_record_inplace 1000 flight_suite demo_wait demo_flight_record ServerFlightReassembler_new) =
     Inr (FlightReady, demo_wait\<lparr>wf_seq_in := 1\<rparr>, demo_flight)"
  by code_simp

lemma demo_checks:
  "peek_ee_record_size_limit demo_flight = Inr None"
  "check_flight demo_config demo_params demo_flight = Inr (None, PV_Ed25519 [5], demo_leaf)"
  by code_simp+

lemma demo_dispatch:
  "\<exists>rec ad buf. length rec = 58 \<and> dispatch_handshake_record demo_config demo_params 95 245 23 () demo_hello_done =
     ((), (queue_send rec demo_hello_done)\<lparr>te_recv_record := buf, te_state := ES_AppAes ad, te_reassembler := demo_flight,
        te_pending_handshake_done := True, te_handshake_finished_pending_ack := True,
        te_recv := (te_recv demo_hello_done)\<lparr>rs_next_record := 245\<rparr>\<rparr>, Inr ())"
proof -
  obtain buf where feed: "feed_server_record_inplace 1000 flight_suite demo_wait demo_flight_record ServerFlightReassembler_new =
      (buf, Inr (FlightReady, demo_wait\<lparr>wf_seq_in := 1\<rparr>, demo_flight))"
    using demo_feed by (metis surjective_pairing)
  obtain rec ad where fin: "finish_handshake flight_hkdf flight_suite demo_done (replicate 80 0) = Inr (rec, ad)" "length rec = 58"
    using finish_handshake_total [OF flight_hkdf_total, of flight_suite "replicate 80 0" demo_done]
    by (auto simp: flight_suite_def demo_cipher_total CLIENT_FINISHED_LEN_def)
  have lim: "145 \<le> unat (rsl_get (default_our_recv_limit 300)) + AEAD_TAG" by code_simp
  have "demo_input = demo_server_hello @ demo_flight_record" "sub_range 95 245 (demo_input @ replicate 55 0) = demo_flight_record"
    using demo_records by (simp_all add: demo_input_def)
  then show ?thesis using feed demo_checks demo_flight_finalized fin lim
    by - (rule exI [of _ rec], rule exI [of _ ad], rule exI [of _ "put_at 95 buf (te_recv_record demo_hello_done)"],
      simp add: demo_hello_done_def demo_simps dispatch_handshake_record_def handle_flight_record_def feed_flight_def Let_def
        TLS_HEADER_def finalize_and_finish_def finish_flight_def flight_outcome_def set_next_record_def queue_send_def)
qed

text \<open>The Finished is queued; once it is sent the handshake is reported as done.\<close>

lemma demo_flight_queued:
  "\<exists>e1. step_handshake demo_config demo_params () demo_received = ((), e1, Inr (Ev_Send 58)) \<and>
     te_send_pending_len e1 = 58 \<and> te_send_acked e1 = 0 \<and> length (send_bytes e1) = 58 \<and> te_pending_handshake_done e1"
proof -
  have "frame_one_record demo_hello_done = (demo_hello_done, Inr (Framed_Record 95 245 23 145))"
    using frame_complete [of demo_hello_done demo_server_hello demo_flight_record "replicate 55 0" 23 3 3 0 145] demo_records
    by (simp add: demo_hello_done_def demo_simps demo_input_def from_be_bytes_def)
  moreover have "\<not> is_send_pending demo_hello_done" "\<not> te_pending_handshake_done demo_hello_done" "\<not> te_closed demo_hello_done"
    "\<not> plaintext_parked (te_recv demo_hello_done)" "length (te_send_record demo_hello_done) = 80"
    by (simp_all add: demo_hello_done_def demo_simps)
  moreover obtain rec ad buf where "length rec = 58" and
    "dispatch_handshake_record demo_config demo_params 95 245 23 () demo_hello_done =
     ((), (queue_send rec demo_hello_done)\<lparr>te_recv_record := buf, te_state := ES_AppAes ad, te_reassembler := demo_flight,
        te_pending_handshake_done := True, te_handshake_finished_pending_ack := True,
        te_recv := (te_recv demo_hello_done)\<lparr>rs_next_record := 245\<rparr>\<rparr>, Inr ())"
    using demo_dispatch by blast
  ultimately show ?thesis unfolding demo_hello_step
    by (simp add: step_handshake.simps [of demo_config demo_params "()" demo_hello_done])
       (simp add: step_handshake.simps is_send_pending_def queue_send_def send_bytes_def put_at_def)
qed

end
