(* ===== verification/Engine_Runs.thy ===== *)
theory Engine_Runs
  imports Engine_Demo
begin

text \<open>
  Runs of the engine: its methods called in any order, with logs of the bytes handed to the
  transport, of the bytes ever queued, and of the number of times the handshake was reported done.
\<close>

section \<open>The handshake flag\<close>

text \<open>Outside the handshake loop the flag that the handshake is to be reported never changes, and the
  data phase is left only by closing.\<close>

definition same_phase :: "'k TlsEngine \<Rightarrow> 'k TlsEngine \<Rightarrow> bool" where
  "same_phase e e' \<longleftrightarrow> te_pending_handshake_done e' = te_pending_handshake_done e \<and>
     (in_data_phase (te_state e) \<longrightarrow> in_data_phase (te_state e')) \<and> (\<not> in_data_phase (te_state e) \<longrightarrow> te_state e' = te_state e)"

lemma same_phase_refl [simp]: "same_phase e e"
  by (simp add: same_phase_def)

lemma same_phase_trans: "same_phase e1 e2 \<Longrightarrow> same_phase e2 e3 \<Longrightarrow> same_phase e1 e3"
  by (auto simp: same_phase_def)

lemma same_phase_app:
  "in_data_phase (te_state e) \<Longrightarrow> in_data_phase (te_state e') \<Longrightarrow>
     te_pending_handshake_done e' = te_pending_handshake_done e \<Longrightarrow> same_phase e e'"
  by (simp add: same_phase_def)

lemma frame_phase: "same_phase e (fst (frame_one_record e))"
  by (simp add: frame_one_record_def compact_recv_def same_phase_def Let_def)

lemma set_next_record_phase [simp]: "same_phase e (set_next_record n e)"
  by (simp add: set_next_record_def same_phase_def)

lemma queue_send_fields [simp]:
  "te_state (queue_send r e) = te_state e" "te_pending_handshake_done (queue_send r e) = te_pending_handshake_done e"
  by (simp_all add: queue_send_def)

lemma rotate_keys_phase:
  assumes "in_data_phase (te_state e)" "\<And>app. in_data_phase (st app)"
  shows "same_phase e (fst (rotate_keys C Su st u conn e))"
  by (rule same_phase_app [OF assms(1)])
    (simp_all add: rotate_keys_def Let_def assms split: sum.split prod.split)

lemma process_key_update_phase: "same_phase e (fst (process_key_update C u e))"
  by (cases "te_state e") (simp_all add: process_key_update_def rotate_keys_phase)

lemma feed_post_handshake_phase: "same_phase e (fst (feed_post_handshake C start len e))"
proof -
  have "same_phase e (e\<lparr>te_ph := ph\<rparr>)" for ph by (simp add: same_phase_def)
  moreover from this have "same_phase e (fst (process_key_update C u (e\<lparr>te_ph := ph\<rparr>)))" for u ph
    by (rule same_phase_trans [OF _ process_key_update_phase])
  ultimately show ?thesis by (simp add: feed_post_handshake_def split: prod.split sum.split option.split)
qed

lemma decrypt_current_phase: "same_phase e (fst (decrypt_current_data_record C start end_pos e))"
  by (simp add: decrypt_current_data_record_def decrypt_app_def Let_def same_phase_def
      split: EngineState.split prod.split sum.split)

lemma handle_inner_content_phase: "same_phase e (fst (handle_inner_content C off len ct e))"
  by (simp add: handle_inner_content_def Let_def feed_post_handshake_phase) (simp add: same_phase_def)

lemma dispatch_data_record_phase: "same_phase e (fst (dispatch_data_record C start end_pos ty e))"
proof -
  obtain e1 r where d: "decrypt_current_data_record C start end_pos e = (e1, r)" by (metis surj_pair)
  have e1: "same_phase e e1" using decrypt_current_phase [of e C start end_pos] d by simp
  have "same_phase e (fst (handle_inner_content C off len ct (set_next_record n e1)))" for off len ct n
    by (rule same_phase_trans [OF same_phase_trans [OF e1 set_next_record_phase] handle_inner_content_phase])
  then have inner: "same_phase e (fst (dispatch_data_record_inner C start end_pos ty e))"
    by (simp add: dispatch_data_record_inner_def Let_def d e1 split: sum.split prod.split)
  obtain e2 r2 where i: "dispatch_data_record_inner C start end_pos ty e = (e2, r2)" by (metis surj_pair)
  show ?thesis using inner unfolding dispatch_data_record_def i by (auto simp: same_phase_def split: sum.split)
qed

lemma step_phase:
  fixes e :: "'k TlsEngine"
  shows "same_phase e (fst (step C e))"
proof (rule step_rule [where I = "same_phase e"])
  fix e1 :: "'k TlsEngine" and start end_pos ty
  assume "same_phase e e1"
  then show "same_phase e (fst (frame_one_record e1))" "same_phase e (fst (dispatch_data_record C start end_pos ty e1))"
    by (rule same_phase_trans [OF _ frame_phase], rule same_phase_trans [OF _ dispatch_data_record_phase])
qed simp

lemma encrypt_state_phase:
  "same_phase e (fst (case te_state e of
      ES_AppAes conn \<Rightarrow> encrypt_app (aes_suite (cc_aead C)) ES_AppAes conn content ct e
    | ES_AppChaCha conn \<Rightarrow> encrypt_app (chacha_suite (cc_aead C)) ES_AppChaCha conn content ct e
    | _ \<Rightarrow> (e, Inl err)))"
  by (simp add: encrypt_app_def same_phase_def split: EngineState.split sum.split prod.split)

lemma write_app_phase: "same_phase e (fst (write_app C plaintext e))"
proof -
  let ?chunk = "min (length plaintext) (send_chunk_limit e)"
  let ?enc = "case te_state e of
      ES_AppAes conn \<Rightarrow> encrypt_app (aes_suite (cc_aead C)) ES_AppAes conn (take ?chunk plaintext) CT_APPLICATION_DATA e
    | ES_AppChaCha conn \<Rightarrow> encrypt_app (chacha_suite (cc_aead C)) ES_AppChaCha conn (take ?chunk plaintext) CT_APPLICATION_DATA e
    | _ \<Rightarrow> (e, Inl HE_NotReady)"
  obtain e1 r where x: "?enc = (e1, r)" by (metis surj_pair)
  have "same_phase e (fst ?enc)" by (rule encrypt_state_phase)
  then have "same_phase e e1" unfolding x by simp
  then show ?thesis unfolding write_app_def Let_def x by (simp split: sum.split)
qed

lemma close_phase: "same_phase e (fst (close C e))"
proof -
  let ?enc = "case te_state e of
      ES_AppAes conn \<Rightarrow> encrypt_app (aes_suite (cc_aead C)) ES_AppAes conn CLOSE_NOTIFY_ALERT CT_ALERT e
    | ES_AppChaCha conn \<Rightarrow> encrypt_app (chacha_suite (cc_aead C)) ES_AppChaCha conn CLOSE_NOTIFY_ALERT CT_ALERT e
    | _ \<Rightarrow> (e, Inl (HE_Internal HandshakeStepWrongState))"
  obtain e1 r where x: "?enc = (e1, r)" by (metis surj_pair)
  have "same_phase e (fst ?enc)" by (rule encrypt_state_phase)
  then have "same_phase e e1" unfolding x by simp
  then have "same_phase e e1" "same_phase e (e1\<lparr>te_closed := True\<rparr>)" "same_phase e (e\<lparr>te_closed := True\<rparr>)"
    by (simp_all add: same_phase_def)
  then show ?thesis unfolding close_def x by (simp split: sum.split)
qed

lemma lifecycle_phase:
  "same_phase e (fst (advance n (fill_recv_buffer bs e)))" "same_phase e (fst (read_app n e))" "same_phase e (fst (mark_sent n e))"
  by (simp_all add: advance_def fill_recv_buffer_def read_app_def mark_sent_def same_phase_def Let_def)

text \<open>In the handshake loop the flag is raised only together with the pending client Finished, and never
  after the data phase was reached and reported.\<close>

definition reported :: "'k TlsEngine \<Rightarrow> bool" where
  "reported e \<longleftrightarrow> \<not> te_pending_handshake_done e \<and> (in_data_phase (te_state e) \<or> te_state e = ES_Closed)"

lemma reported_same: "reported e \<Longrightarrow> same_phase e e' \<Longrightarrow> reported e'"
  by (auto simp: reported_def same_phase_def)

lemma dispatch_reported:
  "reported e \<Longrightarrow> fst (snd (dispatch_handshake_record C params start end_pos ty rng e)) = e"
  by (cases "te_state e") (simp_all add: dispatch_handshake_record_def reported_def)

lemma step_handshake_reported:
  fixes e :: "'k TlsEngine" and rng :: 'r
  assumes "reported e"
  shows "reported (fst (snd (step_handshake C params rng e)))"
proof (rule step_handshake_rule [where I = reported, OF _ _ _ assms])
  fix e :: "'k TlsEngine"
  show "reported e \<Longrightarrow> reported (fst (frame_one_record e))" by (rule reported_same [OF _ frame_phase])
qed (simp_all add: dispatch_reported, simp add: reported_def)

definition raised :: "bool \<Rightarrow> 'k TlsEngine \<Rightarrow> bool" where
  "raised p e \<longleftrightarrow> (te_pending_handshake_done e \<longrightarrow> p \<or> te_handshake_finished_pending_ack e)"

lemma finalize_and_finish_raised: "raised p e \<Longrightarrow> raised p (fst (snd (finalize_and_finish C params rng e)))"
  by (simp add: finalize_and_finish_def finish_flight_def raised_def Let_def split: sum.split prod.split EngineState.split)

lemma handle_flight_record_raised:
  assumes "raised p e"
  shows "raised p (fst (snd (handle_flight_record C params start end_pos rng e)))"
proof -
  let ?feed = "case te_state e of
      ES_WaitFlightAes conn \<Rightarrow> feed_flight C (aes_suite (cc_aead C)) ES_WaitFlightAes conn start end_pos e
    | ES_WaitFlightChaCha conn \<Rightarrow> feed_flight C (chacha_suite (cc_aead C)) ES_WaitFlightChaCha conn start end_pos e
    | _ \<Rightarrow> (e, Inl (HE_Internal FlightWrongState))"
  obtain e1 r where f: "?feed = (e1, r)" by (metis surj_pair)
  have "raised p (fst (feed_flight C Su st conn start end_pos e))" for Su st conn
    using assms by (simp add: feed_flight_def raised_def Let_def split: sum.split prod.split)
  then have "raised p (fst ?feed)" using assms by (simp split: EngineState.split)
  then have "raised p e1" unfolding f by simp
  then show ?thesis using assms unfolding handle_flight_record_def f
    by (simp add: Let_def finalize_and_finish_raised split: sum.split FlightStep.split)
qed

lemma dispatch_raised:
  assumes "raised p e"
  shows "raised p (fst (snd (dispatch_handshake_record C params start end_pos ty rng e)))"
proof -
  let ?handle = "case te_state e of
      ES_WaitServerHello _ \<Rightarrow> (rng, handle_server_hello C start end_pos ty e)
    | ES_WaitFlightAes _ \<Rightarrow> handle_flight_record C params start end_pos rng e
    | ES_WaitFlightChaCha _ \<Rightarrow> handle_flight_record C params start end_pos rng e
    | ES_AppAes _ \<Rightarrow> (rng, e, Inl (HE_Internal HandshakeStepInDataPhase))
    | ES_AppChaCha _ \<Rightarrow> (rng, e, Inl (HE_Internal HandshakeStepInDataPhase))
    | ES_Closed \<Rightarrow> (rng, e, Inl (HE_Internal HandshakeStepWrongState))"
  obtain rng1 e1 r where h: "?handle = (rng1, e1, r)" by (metis surj_pair)
  have "raised p (fst (handle_server_hello C start end_pos ty e))"
    using assms by (simp add: handle_server_hello_def raised_def split: EngineState.split sum.split NegotiatedSuite.split)
  then have "raised p (fst (snd ?handle))" using assms by (simp add: handle_flight_record_raised split: EngineState.split)
  then have "raised p e1" unfolding h by simp
  then show ?thesis unfolding dispatch_handshake_record_def h by (simp add: set_next_record_def raised_def split: sum.split)
qed

lemma step_handshake_raised:
  fixes e :: "'k TlsEngine" and rng :: 'r
  shows "raised (te_pending_handshake_done e) (fst (snd (step_handshake C params rng e)))"
proof (rule step_handshake_rule [where I = "raised (te_pending_handshake_done e)"])
  fix e1 :: "'k TlsEngine"
  show "raised (te_pending_handshake_done e) e1 \<Longrightarrow> raised (te_pending_handshake_done e) (fst (frame_one_record e1))"
    by (simp add: frame_one_record_def compact_recv_def raised_def Let_def)
qed (simp_all add: dispatch_raised, simp_all add: raised_def)

section \<open>Runs\<close>

definition newly_queued :: "'k TlsEngine \<Rightarrow> 'k TlsEngine \<Rightarrow> bytes" where
  "newly_queued e e' = (if is_send_pending e then [] else send_bytes e')"

inductive engine_run ::
  "('k, 'v) ClientConfig \<Rightarrow> ('v, 'e, 'r) ClientParams \<Rightarrow> 'k TlsEngine \<Rightarrow> 'k TlsEngine \<Rightarrow> bytes \<Rightarrow> bytes \<Rightarrow> nat \<Rightarrow> bool"
  for C :: "('k, 'v) ClientConfig" and params :: "('v, 'e, 'r) ClientParams" and e0 :: "'k TlsEngine" where
  start: "engine_run C params e0 e0 [] [] 0"
| handshake: "\<lbrakk>engine_run C params e0 e sent queued dones; step_handshake C params rng e = (rng', e', res)\<rbrakk> \<Longrightarrow>
    engine_run C params e0 e' sent (queued @ newly_queued e e') (if res = Inr Ev_HandshakeDone then dones + 1 else dones)"
| data: "\<lbrakk>engine_run C params e0 e sent queued dones; step C e = (e', res)\<rbrakk> \<Longrightarrow>
    engine_run C params e0 e' sent (queued @ newly_queued e e') dones"
| receive: "\<lbrakk>engine_run C params e0 e sent queued dones; advance n (fill_recv_buffer bs e) = (e', res)\<rbrakk> \<Longrightarrow>
    engine_run C params e0 e' sent queued dones"
| read: "\<lbrakk>engine_run C params e0 e sent queued dones; read_app n e = (e', bs)\<rbrakk> \<Longrightarrow>
    engine_run C params e0 e' sent queued dones"
| write_data: "\<lbrakk>engine_run C params e0 e sent queued dones; write_app C plaintext e = (e', wres)\<rbrakk> \<Longrightarrow>
    engine_run C params e0 e' sent (queued @ newly_queued e e') dones"
| shut: "\<lbrakk>engine_run C params e0 e sent queued dones; close C e = (e', res)\<rbrakk> \<Longrightarrow>
    engine_run C params e0 e' sent (queued @ newly_queued e e') dones"
| ack: "\<lbrakk>engine_run C params e0 e sent queued dones; mark_sent n e = (e', Inr u)\<rbrakk> \<Longrightarrow>
    engine_run C params e0 e' (sent @ take n (send_bytes e)) queued dones"
| terminal: "engine_run C params e0 e sent queued dones \<Longrightarrow> engine_run C params e0 (mark_terminal e) sent sent dones"

text \<open>What is pending is never overwritten.\<close>

lemma pending_kept:
  "is_send_pending e \<Longrightarrow> fst (snd (step_handshake C params rng e)) = e"
  "is_send_pending e \<Longrightarrow> fst (step C e) = e"
  "is_send_pending e \<Longrightarrow> fst (write_app C plaintext e) = e"
  "is_send_pending e \<Longrightarrow> fst (close C e) = e"
  by (simp_all add: step_handshake.simps [of C params rng e] step.simps [of C e] write_app_def close_def)

lemma lifecycle_send:
  "send_bytes (fst (advance n (fill_recv_buffer bs e))) = send_bytes e" "send_bytes (fst (read_app n e)) = send_bytes e"
  by (simp_all add: advance_def fill_recv_buffer_def read_app_def send_bytes_def Let_def)

lemma newly_queued_stream:
  assumes "engine_ok R S e" "queued = sent @ send_bytes e" "is_send_pending e \<Longrightarrow> e' = e"
  shows "queued @ newly_queued e e' = sent @ send_bytes e'"
  using assms by (auto simp: newly_queued_def send_bytes_def engine_simps)

lemma sub_range_take: "a + n \<le> b \<Longrightarrow> sub_range a b xs = take n (sub_range a b xs) @ sub_range (a + n) b xs"
  using sub_range_split [of a "a + n" b xs] by (simp add: sub_range_def min_def)

lemma mark_sent_stream:
  assumes "engine_ok R S e" "mark_sent n e = (e', Inr u)"
  shows "send_bytes e = take n (send_bytes e) @ send_bytes e'"
proof (cases "te_send_pending_len e = 0 \<or> te_send_acked e + n = te_send_pending_len e")
  case True
  then show ?thesis using assms by (auto simp: mark_sent_def send_bytes_def engine_simps Let_def split: if_splits)
next
  case False
  then have "te_send_acked e + n \<le> te_send_pending_len e" "e' = e\<lparr>te_send_acked := te_send_acked e + n\<rparr>"
    using assms(2) by (auto simp: mark_sent_def Let_def split: if_splits)
  then show ?thesis using sub_range_take [of "te_send_acked e" n "te_send_pending_len e" "te_send_record e"] False
    by (simp add: send_bytes_def)
qed

lemma send_bytes_ne: "engine_ok R S e \<Longrightarrow> is_send_pending e \<Longrightarrow> send_bytes e \<noteq> []"
  by (auto simp: send_bytes_def engine_simps sub_range_def)

text \<open>Where the handshake loop stops with an event.\<close>

lemma step_handshake_event:
  assumes dispatch: "\<And>rng e rng' e' start end_pos ty len. \<lbrakk>I e; idle e;
        \<not> (te_pending_handshake_done e \<and> \<not> te_handshake_finished_pending_ack e);
        frame_one_record e = (e, Inr (Framed_Record start end_pos ty len))\<rbrakk> \<Longrightarrow>
        I (fst (snd (dispatch_handshake_record C params start end_pos ty rng e)))"
  shows "I e \<Longrightarrow> step_handshake C params rng e = (rng', e', res) \<Longrightarrow>
    (res = Inr Ev_HandshakeDone \<longrightarrow> (\<exists>e1. I e1 \<and> te_pending_handshake_done e1 \<and> \<not> te_handshake_finished_pending_ack e1)) \<and>
    (res = Inr Ev_Recv \<longrightarrow> (\<exists>e1. I e1 \<and> idle e1 \<and> frame_one_record e1 = (e', Inr Framed_Need)))"
proof (induction C \<equiv> C params \<equiv> params rng e rule: step_handshake.induct)
  case (1 rng e)
  note unf = step_handshake.simps [of C params rng e]
  show ?case
  proof (cases "is_send_pending e \<or> te_pending_handshake_done e \<and> \<not> te_handshake_finished_pending_ack e \<or>
      plaintext_parked (te_recv e) \<or> te_closed e")
    case True
    then show ?thesis using "1.prems" by (auto simp: unf split: if_splits)
  next
    case False
    then have idle: "idle e" "\<not> (te_pending_handshake_done e \<and> \<not> te_handshake_finished_pending_ack e)" by (auto simp: idle_def)
    obtain e1 r where f: "frame_one_record e = (e1, r)" by (metis surj_pair)
    show ?thesis
    proof (cases "\<exists>start end_pos ty len. r = Inr (Framed_Record start end_pos ty len)")
      case none: False
      then show ?thesis using "1.prems" False f idle(1) by (auto simp: unf split: sum.splits Framed.splits)
    next
      case True
      then obtain start end_pos ty len where r: "r = Inr (Framed_Record start end_pos ty len)" by blast
      then have e1: "e1 = e" using frame_one_record_Record [of e e1] f by simp
      obtain rng1 e2 res' where d: "dispatch_handshake_record C params start end_pos ty rng e1 = (rng1, e2, res')" by (metis surj_pair)
      have "I e2" using dispatch [OF "1.prems"(1) idle] f r e1 d by (metis fst_conv snd_conv)
      then show ?thesis using "1.hyps" "1.prems" False f r d by (cases res') (auto simp: unf)
    qed
  qed
qed

lemma step_event:
  assumes dispatch: "\<And>e start end_pos ty len. \<lbrakk>I e; idle e; frame_one_record e = (e, Inr (Framed_Record start end_pos ty len))\<rbrakk> \<Longrightarrow>
        I (fst (dispatch_data_record C start end_pos ty e))"
  shows "I e \<Longrightarrow> step C e = (e', Inr Ev_Recv) \<Longrightarrow> \<exists>e1. I e1 \<and> frame_one_record e1 = (e', Inr Framed_Need)"
proof (induction C \<equiv> C e rule: step.induct)
  case (1 e)
  note unf = step.simps [of C e]
  have g: "\<not> is_send_pending e" "\<not> plaintext_parked (te_recv e)" "\<not> te_closed e"
    using "1.prems"(2) by (auto simp: unf split: if_splits)
  obtain e1 r where f: "frame_one_record e = (e1, r)" by (metis surj_pair)
  show ?case
  proof (cases "\<exists>start end_pos ty len. r = Inr (Framed_Record start end_pos ty len)")
    case False
    then show ?thesis using "1.prems" g f by (auto simp: unf split: sum.splits Framed.splits)
  next
    case True
    then obtain start end_pos ty len where r: "r = Inr (Framed_Record start end_pos ty len)" by blast
    then have e1: "e1 = e" using frame_one_record_Record [of e e1] f by simp
    obtain e2 res where d: "dispatch_data_record C start end_pos ty e1 = (e2, res)" by (metis surj_pair)
    have "I e2" using dispatch [OF "1.prems"(1)] g f r e1 d by (metis fst_conv idle_def)
    then show ?thesis using "1.hyps" "1.prems" g f r d by (cases res) (auto simp: unf)
  qed
qed

lemma step_handshake_done:
  fixes e :: "'k TlsEngine" and rng :: 'r
  assumes e: "engine_ok R S e" and run: "step_handshake C params rng e = (rng', e', Inr Ev_HandshakeDone)"
  shows "te_pending_handshake_done e \<and> \<not> is_send_pending e \<and> e' = e\<lparr>te_pending_handshake_done := False\<rparr>"
proof -
  have "raised (te_pending_handshake_done e) (fst (snd (dispatch_handshake_record C params start end_pos ty rng1 e1)))"
    if "raised (te_pending_handshake_done e) e1" for start end_pos ty and rng1 :: 'r and e1 :: "'k TlsEngine"
    by (rule dispatch_raised [OF that])
  then have flag: "te_pending_handshake_done e"
    using step_handshake_event [where I = "raised (te_pending_handshake_done e)", OF _ _ run]
    by (auto simp: raised_def)
  have "\<not> is_send_pending e" using run by (auto simp: step_handshake.simps [of C params rng e])
  then have "\<not> te_handshake_finished_pending_ack e" using e by (auto simp: engine_ok_def)
  then show ?thesis using flag \<open>\<not> is_send_pending e\<close> run by (simp add: step_handshake.simps [of C params rng e])
qed

section \<open>The invariant of runs\<close>

definition run_ok :: "nat \<Rightarrow> nat \<Rightarrow> 'k TlsEngine \<Rightarrow> bytes \<Rightarrow> bytes \<Rightarrow> nat \<Rightarrow> bool" where
  "run_ok R S e sent queued dones \<longleftrightarrow> engine_ok R S e \<and> queued = sent @ send_bytes e \<and>
     (te_pending_handshake_done e \<longrightarrow> queued \<noteq> []) \<and> (dones = 0 \<or> dones = 1 \<and> reported e)"

lemma run_ok_phase:
  assumes "run_ok R S e sent queued dones" "engine_ok R S e'" "same_phase e e'" "is_send_pending e \<Longrightarrow> e' = e"
  shows "run_ok R S e' sent (queued @ newly_queued e e') dones"
  using assms newly_queued_stream [of R S e queued sent e'] reported_same [of e e']
  by (auto simp: run_ok_def same_phase_def)

lemma run_ok_handshake:
  fixes e :: "'k TlsEngine" and rng :: 'r
  assumes C: "config_ok C" "client_auth_policy (pa_client_auth params)" and e: "run_ok R S e sent queued dones"
    and run: "step_handshake C params rng e = (rng', e', res)"
  shows "run_ok R S e' sent (queued @ newly_queued e e') (if res = Inr Ev_HandshakeDone then dones + 1 else dones)"
proof -
  have ok: "engine_ok R S e" using e by (simp add: run_ok_def)
  have ok': "engine_ok R S e'" using step_handshake_ok [OF C ok, of rng] run by simp
  have stream: "queued @ newly_queued e e' = sent @ send_bytes e'"
    using newly_queued_stream [OF ok] e pending_kept(1) [of e C params rng] run by (simp add: run_ok_def)
  show ?thesis
  proof (cases "res = Inr Ev_HandshakeDone")
    case True
    have "step_handshake C params rng e = (rng', e', Inr Ev_HandshakeDone)" using run True by simp
    from step_handshake_done [OF ok this]
    have "te_pending_handshake_done e" "e' = e\<lparr>te_pending_handshake_done := False\<rparr>" by blast+
    then show ?thesis using True ok ok' stream e by (auto simp: run_ok_def reported_def engine_ok_def)
  next
    case False
    have "queued @ newly_queued e e' \<noteq> []" if "te_pending_handshake_done e'"
    proof (cases "te_pending_handshake_done e")
      case True
      then have "queued \<noteq> []" using e unfolding run_ok_def by blast
      then show ?thesis by simp
    next
      case flag: False
      then have "is_send_pending e'"
        using step_handshake_raised [of e C params rng] run that ok' by (simp add: raised_def engine_ok_def)
      then show ?thesis using send_bytes_ne [OF ok'] stream by simp
    qed
    moreover have "reported e'" if "reported e" using step_handshake_reported [OF that, of C params rng] run by simp
    ultimately show ?thesis using False ok' stream e by (auto simp: run_ok_def)
  qed
qed

lemma engine_run_ok:
  assumes C: "config_ok C" "client_auth_policy (pa_client_auth params)"
    and init: "engine_ok R S e0" "te_send_pending_len e0 = 0" "\<not> te_pending_handshake_done e0"
  shows "engine_run C params e0 e sent queued dones \<Longrightarrow> run_ok R S e sent queued dones"
proof (induction rule: engine_run.induct)
  case start
  show ?case using init by (simp add: run_ok_def send_bytes_def)
next
  case (handshake e sent queued dones rng rng' e' res)
  then show ?case by - (rule run_ok_handshake [OF C])
next
  case (data e sent queued dones e' res)
  then have "engine_ok R S e" by (simp add: run_ok_def)
  then show ?case using run_ok_phase [OF data.IH, of e'] step_ok [OF C(1)] step_phase [of e C] pending_kept(2) [of e C] data.hyps(2)
    by (metis fst_conv)
next
  case (write_data e sent queued dones plaintext e' wres)
  then have "engine_ok R S e" by (simp add: run_ok_def)
  then show ?case using run_ok_phase [OF write_data.IH, of e'] write_app_ok [OF _ C(1)] write_app_phase [of e C plaintext]
      pending_kept(3) [of e C plaintext] write_data.hyps(2) by (metis fst_conv)
next
  case (shut e sent queued dones e' res)
  then have "engine_ok R S e" by (simp add: run_ok_def)
  then show ?case using run_ok_phase [OF shut.IH, of e'] close_ok [OF _ C(1)] close_phase [of e C] pending_kept(4) [of e C] shut.hyps(2)
    by (metis fst_conv)
next
  case (receive e sent queued dones n bs e' res)
  then have "engine_ok R S e'" "send_bytes e' = send_bytes e" "same_phase e e'"
    using advance_ok [OF fill_recv_buffer_ok, of R S e n bs] lifecycle_send(1) [of n bs e] lifecycle_phase(1) [of e n bs]
    by (simp_all add: run_ok_def)
  then show ?case using receive.IH reported_same by (auto simp: run_ok_def same_phase_def)
next
  case (read e sent queued dones n e' bs)
  then have "engine_ok R S e'" "send_bytes e' = send_bytes e" "same_phase e e'"
    using read_app_ok [of R S e n] lifecycle_send(2) [of n e] lifecycle_phase(2) [of e n] by (simp_all add: run_ok_def)
  then show ?case using read.IH reported_same by (auto simp: run_ok_def same_phase_def)
next
  case (ack e sent queued dones n e' u)
  then have "engine_ok R S e'" "same_phase e e'" "send_bytes e = take n (send_bytes e) @ send_bytes e'"
    using mark_sent_ok [of R S e n] lifecycle_phase(3) [of e n] mark_sent_stream [of R S e n e' u] by (simp_all add: run_ok_def)
  then show ?case using ack.IH reported_same by (auto simp: run_ok_def same_phase_def)
next
  case (terminal e sent queued dones)
  then show ?case
    using mark_terminal_ok [of R S e] by (auto simp: run_ok_def mark_terminal_def send_bytes_def reported_def)
qed

section \<open>Properties of runs\<close>

lemma demo_run_received: "engine_run demo_config demo_params demo_engine demo_received [] [] 0"
proof -
  obtain res where "advance (length demo_input) (fill_recv_buffer demo_input demo_engine) = (demo_received, res)"
    unfolding demo_received_def by (metis prod.collapse)
  from engine_run.receive [OF engine_run.start this] show ?thesis .
qed

text \<open>C7: Every engine reached from a new one by its methods, in any order and with any arguments, keeps
  its invariant: the parked plaintext lies before the next record, that before the end of the
  received bytes, and these within the buffer; the unsent bytes lie within the send buffer; an
  unacknowledged Finished is still pending; a handshake not yet reported is complete; the record
  size limits and the post-handshake buffer are in range.\<close>

theorem engine_invariant:
  assumes "config_ok C" "client_auth_policy (pa_client_auth params)" "rsl_ok our" "rsl_ok peer"
    and "engine_run C params (TlsEngine_new recv_buf send_buf reasm st our peer) e sent queued dones"
  shows "engine_ok (length recv_buf) (length send_buf) e"
  using engine_run_ok [OF assms(1,2) TlsEngine_new_ok [OF assms(3,4)] _ _ assms(5)]
  by (simp add: run_ok_def TlsEngine_new_def)

theorem engine_invariant_witness:
  "engine_ok 300 80 demo_received"
proof -
  from engine_invariant [OF demo_config_ok demo_policy demo_limits demo_run_received [unfolded demo_engine_def]]
  show ?thesis by simp
qed

text \<open>C4: The handshake is reported as done only after the client's last flight has left: when
  \<^verbatim>\<open>step_handshake\<close> returns \<^verbatim>\<open>HandshakeDone\<close>, everything the engine ever queued has been handed to the
  transport, in order and without a gap, something was queued, the engine is in the data phase,
  and the event has not been returned before on this connection.\<close>

theorem handshake_done_after_finished_sent:
  assumes "config_ok C" "client_auth_policy (pa_client_auth params)" "rsl_ok our" "rsl_ok peer"
    and "engine_run C params (TlsEngine_new recv_buf send_buf reasm st our peer) e sent queued dones"
    and "step_handshake C params rng e = (rng', e', Inr Ev_HandshakeDone)"
  shows "sent = queued \<and> queued \<noteq> [] \<and> in_data_phase (te_state e') \<and> dones = 0"
proof -
  have run: "run_ok (length recv_buf) (length send_buf) e sent queued dones"
    using engine_run_ok [OF assms(1,2) TlsEngine_new_ok [OF assms(3,4)] _ _ assms(5)] by (simp add: TlsEngine_new_def)
  then have ok: "engine_ok (length recv_buf) (length send_buf) e" by (simp add: run_ok_def)
  note d = step_handshake_done [OF ok assms(6)]
  then have "send_bytes e = []" using ok by (auto simp: send_bytes_def engine_simps)
  then show ?thesis using d run ok by (auto simp: run_ok_def reported_def engine_ok_def)
qed

theorem handshake_done_after_finished_sent_witness:
  "\<exists>e sent e'. length sent = 58 \<and> engine_run demo_config demo_params demo_engine e sent sent 0 \<and>
     step_handshake demo_config demo_params () e = ((), e', Inr Ev_HandshakeDone) \<and> in_data_phase (te_state e')"
proof -
  obtain e1 where e1: "step_handshake demo_config demo_params () demo_received = ((), e1, Inr (Ev_Send 58))"
    "te_send_pending_len e1 = 58" "te_send_acked e1 = 0" "length (send_bytes e1) = 58" "te_pending_handshake_done e1"
    using demo_flight_queued by blast
  let ?e2 = "e1\<lparr>te_send_pending_len := 0, te_send_acked := 0, te_handshake_finished_pending_ack := False\<rparr>"
  from engine_run.handshake [OF demo_run_received e1(1)]
  have "engine_run demo_config demo_params demo_engine e1 [] (send_bytes e1) 0"
    by (simp add: newly_queued_def is_send_pending_def demo_received_fields)
  from engine_run.ack [OF this, of 58 ?e2]
  have run: "engine_run demo_config demo_params demo_engine ?e2 (send_bytes e1) (send_bytes e1) 0"
    using e1 by (simp add: mark_sent_def)
  have done2: "step_handshake demo_config demo_params () ?e2 = ((), ?e2\<lparr>te_pending_handshake_done := False\<rparr>, Inr Ev_HandshakeDone)"
    using e1 by (simp add: step_handshake.simps [of demo_config demo_params "()" ?e2] is_send_pending_def)
  from handshake_done_after_finished_sent [OF demo_config_ok demo_policy demo_limits run [unfolded demo_engine_def] done2]
  show ?thesis using run done2 e1(4) by blast
qed

text \<open>The received bytes not yet framed.\<close>

definition unframed :: "'k TlsEngine \<Rightarrow> bytes" where
  "unframed e = sub_range (rs_next_record (te_recv e)) (rs_filled (te_recv e)) (te_recv_record e)"

definition complete_record :: "bytes \<Rightarrow> bool" where
  "complete_record bs \<longleftrightarrow> 5 \<le> length bs \<and> 5 + unat (from_be_bytes [bs ! 3, bs ! 4] :: 16 word) \<le> length bs"

lemma frame_need:
  assumes "engine_ok R S e" "frame_one_record e = (e', Inr Framed_Need)" "5 \<le> R"
  shows "rs_next_record (te_recv e') = 0 \<and> \<not> plaintext_parked (te_recv e') \<and> rs_filled (te_recv e') < R \<and>
    unframed e' = unframed e \<and> \<not> complete_record (unframed e')"
proof -
  have e': "e' = (if rs_next_record (te_recv e) > 0 then compact_recv e else e)" and np: "\<not> plaintext_parked (te_recv e)"
    using assms(2) by (auto simp: frame_one_record_def Let_def split: if_splits)
  have len: "length (unframed e) = rs_filled (te_recv e) - rs_next_record (te_recv e)"
    using assms(1) by (auto simp: unframed_def engine_simps)
  have same: "unframed e' = unframed e" "rs_next_record (te_recv e') = 0" "\<not> plaintext_parked (te_recv e')"
    "rs_filled (te_recv e') = length (unframed e)"
    using assms(1) np len
    by (auto simp: e' compact_recv_def unframed_def Let_def put_at_def plaintext_parked_def engine_simps sub_range_def)
  have at: "te_recv_record e ! (rs_next_record (te_recv e) + i) = unframed e ! i" if "i < length (unframed e)" for i
    using that assms(1) by (auto simp: unframed_def engine_simps)
  have "\<not> complete_record (unframed e) \<and> length (unframed e) < R"
    using assms len at [of 3] at [of 4] np
    by (auto simp: frame_one_record_def complete_record_def Let_def TLS_HEADER_def engine_simps split: if_splits)
  then show ?thesis using same by simp
qed

lemma step_recv:
  assumes "config_ok C" "engine_ok R S e" "step C e = (e', Inr Ev_Recv)"
  shows "\<exists>e1. engine_ok R S e1 \<and> frame_one_record e1 = (e', Inr Framed_Need)"
  by (rule step_event [where I = "engine_ok R S", OF _ assms(2,3)]) (simp add: dispatch_data_keeps [OF assms(1)])

lemma step_handshake_recv:
  assumes "config_ok C" "client_auth_policy (pa_client_auth params)" "engine_ok R S e"
    and run: "step_handshake C params rng e = (rng', e', Inr Ev_Recv)"
  shows "\<exists>e1. engine_ok R S e1 \<and> frame_one_record e1 = (e', Inr Framed_Need)"
proof -
  have "(Inr Ev_Recv :: HandshakeError + EngineEvent) = Inr Ev_Recv \<longrightarrow>
      (\<exists>e1. engine_ok R S e1 \<and> idle e1 \<and> frame_one_record e1 = (e', Inr Framed_Need))"
    by (rule step_handshake_event [where I = "engine_ok R S", OF _ assms(3) run, THEN conjunct2])
      (simp add: dispatch_handshake_keeps [OF assms(1,2)])
  then show ?thesis by blast
qed

text \<open>C18: The engine never waits for bytes it could not take.  When a step, of the handshake or of the
  data phase, asks for input, the bytes received and not yet framed are no complete record, the
  receive buffer has room, and any non-empty input that fits the room is accepted and appended to
  the unframed bytes, of which none is lost.\<close>

theorem recv_event_has_room:
  assumes "config_ok C" "client_auth_policy (pa_client_auth params)" "rsl_ok our" "rsl_ok peer" "5 \<le> length recv_buf"
    and "engine_run C params (TlsEngine_new recv_buf send_buf reasm st our peer) e sent queued dones"
    and "step_handshake C params rng e = (rng', e', Inr Ev_Recv) \<or> step C e = (e', Inr Ev_Recv)"
  shows "\<not> complete_record (unframed e') \<and> 0 < recv_buffer_len e' \<and>
    (\<forall>bs. bs \<noteq> [] \<and> length bs \<le> recv_buffer_len e' \<longrightarrow>
       (\<exists>e2. advance (length bs) (fill_recv_buffer bs e') = (e2, Inr ()) \<and> unframed e2 = unframed e' @ bs))"
proof -
  let ?I = "engine_ok (length recv_buf) (length send_buf)"
  have ok: "?I e" using engine_run_ok [OF assms(1,2) TlsEngine_new_ok [OF assms(3,4)] _ _ assms(6)]
    by (simp add: run_ok_def TlsEngine_new_def)
  obtain e1 where e1: "?I e1" "frame_one_record e1 = (e', Inr Framed_Need)"
    using assms(7) step_recv [OF assms(1) ok, of e'] step_handshake_recv [OF assms(1,2) ok, of rng rng' e'] by blast
  note n = frame_need [OF e1 assms(5)]
  have e': "?I e'" using frame_ok [OF e1(1)] e1(2) by simp
  have "\<exists>e2. advance (length bs) (fill_recv_buffer bs e') = (e2, Inr ()) \<and> unframed e2 = unframed e' @ bs"
    if "bs \<noteq> []" "length bs \<le> recv_buffer_len e'" for bs
    using that n e' by (auto simp: advance_def fill_recv_buffer_def recv_buffer_len_def unframed_def put_at_def engine_simps Let_def)
  then show ?thesis using n e' by (auto simp: recv_buffer_len_def engine_simps)
qed

theorem recv_event_has_room_witness:
  "0 < recv_buffer_len demo_engine"
proof -
  have "step_handshake demo_config demo_params () demo_engine = ((), demo_engine, Inr Ev_Recv)"
    by (simp add: step_handshake.simps demo_engine_def TlsEngine_new_def is_send_pending_def plaintext_parked_def
        RecvState_new_def frame_one_record_def TLS_HEADER_def Let_def)
  then show ?thesis
    using recv_event_has_room [OF demo_config_ok demo_policy demo_limits _ engine_run.start,
        where recv_buf = "replicate 300 0" and send_buf = "replicate 80 0" and reasm = ServerFlightReassembler_new
        and st = "ES_WaitServerHello demo_conn" and e' = demo_engine]
    by (simp add: demo_engine_def [symmetric])
qed

text \<open>The receive buffer is not idle when a certificate was requested: the client's flight is built over
  its first bytes, whatever of them has been received after the server's Finished and not been
  framed.\<close>

lemma client_flight_overwrites_received:
  assumes "backend_total (cc_hkdf C)" "client_auth_policy (pa_client_auth params)"
    and out: "flight_outcome C params S conn (Some (ctx, sig_algs)) prepared leaf rng e = Inr (rec, app, buf, rng')"
  shows "\<exists>pt. 4 \<le> length pt \<and> length pt \<le> length (te_recv_record e) \<and>
    buf = put_at 0 pt (te_recv_record e) \<and> (\<forall>i < length pt. buf ! i = pt ! i)"
proof -
  obtain sfd where *: "finish_handshake_with_policy (cc_hkdf C) S (pa_client_auth params) sfd ctx sig_algs rng
      (rsl_get (te_peer_recv_limit e)) (te_recv_record e) (te_send_record e) = Inr (rec, app, buf, rng')"
    using out by (auto simp: flight_outcome_def result_simps)
  then obtain pt t where b: "build_flight (pa_client_auth params) (cc_hkdf C) ctx sig_algs rng (fd_c_hs_ts sfd)
      (fd_transcript sfd) (length (te_recv_record e)) = Inr (pt, t, rng')" and buf: "buf = put_at 0 pt (te_recv_record e)"
    by (auto simp: finish_handshake_with_policy_def result_simps)
  have "length pt \<le> length (te_recv_record e)" by (rule client_auth_policy.flight_room [OF assms(2,1) b])
  moreover have "4 \<le> length pt" using client_auth_policy.flight_finished [OF assms(2,1) b] by auto
  ultimately show ?thesis using buf by (auto simp: put_at_def nth_append)
qed

end
