(* ===== verification/Engine_Delivery.thy ===== *)
theory Engine_Delivery
  imports Engine_Demo
begin

text \<open>
  Application data end to end: what one engine seals with \<^verbatim>\<open>write_app\<close>, an engine with the matching
  receive keys and sequence number parks and hands out.  The two suites are handled alike; \<^verbatim>\<open>suite_of\<close>
  names the pairs of an application state and its suite.
\<close>

definition suite_of :: "('k, 'v) ClientConfig \<Rightarrow> (AppData \<Rightarrow> 'k EngineState) \<Rightarrow> TlsSuite \<Rightarrow> bool" where
  "suite_of C st S \<longleftrightarrow> st = ES_AppAes \<and> S = aes_suite (cc_aead C) \<or> st = ES_AppChaCha \<and> S = chacha_suite (cc_aead C)"

text \<open>A sealed record as its receiver frames it.\<close>

lemma sealed_record_frame:
  assumes "aead_in_place c" "encrypt_record c keys content ct seq out = Inr rec"
  shows "length rec = length content + 22" "rec ! 0 = CT_APPLICATION_DATA"
    "unat (from_be_bytes [rec ! 3, rec ! 4] :: 16 word) = length content + 17"
proof -
  define ver where "ver = to_be_bytes LEGACY_VERSION"
  define ln where "ln = to_be_bytes (word_of_nat (length content + 17) :: 16 word)"
  obtain body tag where small: "length content \<le> 2 ^ 14"
    and seal: "seal_in_place c keys ([CT_APPLICATION_DATA] @ ver @ ln) seq (content @ [ct]) = Some (body, tag)"
    and rec: "rec = [CT_APPLICATION_DATA] @ ver @ ln @ body @ tag"
    using encrypt_record_ok [OF assms(2)] by (auto simp: ver_def ln_def)
  have len: "length ver = 2" "length ln = 2" by (simp_all add: ver_def ln_def)
  have blen: "length body = length content + 1" "length tag = 16"
    using seal assms(1) by (auto simp: seal_in_place_def run_encrypt_def aead_in_place_def split: if_splits)
  then show "length rec = length content + 22" by (simp add: rec len)
  note hdr = record_header_fields [OF len, where t = CT_APPLICATION_DATA]
  show "rec ! 0 = CT_APPLICATION_DATA" unfolding rec by (rule hdr)
  have "unat (from_be_bytes ln :: 16 word) = length content + 17"
    using small by (simp add: ln_def from_to_be_bytes unat_of_nat del: of_nat_add)
  then show "unat (from_be_bytes [rec ! 3, rec ! 4] :: 16 word) = length content + 17"
    unfolding rec by (simp only: hdr)
qed

lemma write_app_sealed:
  assumes S: "suite_of C st S" and "te_state w = st conn" and run: "write_app C data w = (w', Inr n)" and "0 < n"
    and "aead_in_place (ts_aead S)"
  shows "n = min (length data) (send_chunk_limit w) \<and>
    encrypt_record (ts_aead S) (ad_c_ap_keys conn) (take n data) CT_APPLICATION_DATA (ad_seq_out conn) (te_send_record w) =
      Inr (send_bytes w')"
proof -
  have n: "n = min (length data) (send_chunk_limit w)"
    and enc: "encrypt_app S st conn (take n data) CT_APPLICATION_DATA w = (w', Inr ())"
    using assms(1-4) by (auto simp: write_app_def suite_of_def Let_def split: if_splits prod.splits sum.splits)
  then obtain r conn' where r: "ad_encrypt_record S conn (take n data) CT_APPLICATION_DATA (te_send_record w) = Inr (r, conn')"
    and w': "w' = (queue_send r w)\<lparr>te_state := st conn'\<rparr>"
    by (auto simp: encrypt_app_def split: sum.splits prod.splits)
  then have seal: "encrypt_record (ts_aead S) (ad_c_ap_keys conn) (take n data) CT_APPLICATION_DATA (ad_seq_out conn) (te_send_record w) = Inr r"
    by (auto simp: ad_encrypt_record_def result_simps)
  have "length r \<le> length (te_send_record w)" by (rule encrypt_in_place [OF assms(5) seal])
  then have "send_bytes w' = r" by (auto simp: w' queue_send_def send_bytes_def put_at_def)
  then show ?thesis using n seal by simp
qed

text \<open>A received record whose content is application data is parked.\<close>

lemma step_parks:
  assumes S: "suite_of C st S" and r: "te_state r = st conn" "idle r" "\<not> in_progress (te_ph r)"
    and f: "frame_one_record r = (r, Inr (Framed_Record start end_pos CT_APPLICATION_DATA len))"
    and lim: "len \<le> unat (rsl_get (te_our_recv_limit r)) + 16"
    and d: "ad_decrypt_record_inplace S conn (sub_range start end_pos (te_recv_record r)) =
        (rec', Inr ((n, CT_APPLICATION_DATA), conn'))"
    and n: "0 < n"
  shows "step C r = (r\<lparr>te_recv_record := put_at start rec' (te_recv_record r), te_state := st conn',
      te_recv := (te_recv r)\<lparr>rs_next_record := end_pos, rs_plain_start := start + 5, rs_plain_end := start + 5 + n\<rparr>\<rparr>,
      Inr Ev_AppData)"
proof -
  let ?r = "r\<lparr>te_recv_record := put_at start rec' (te_recv_record r), te_state := st conn',
      te_recv := (te_recv r)\<lparr>rs_next_record := end_pos, rs_plain_start := start + 5, rs_plain_end := start + 5 + n\<rparr>\<rparr>"
  have pos: "end_pos = start + 5 + len" using frame_one_record_Record [OF f] by simp
  have g: "\<not> is_send_pending r" "\<not> plaintext_parked (te_recv r)" "\<not> te_closed r" using r(2) by (simp_all add: idle_def)
  have "decrypt_current_data_record C start end_pos r =
      (r\<lparr>te_recv_record := put_at start rec' (te_recv_record r), te_state := st conn'\<rparr>, Inr (n, CT_APPLICATION_DATA))"
    using S r(1) d by (auto simp: suite_of_def decrypt_current_data_record_def decrypt_app_def Let_def)
  then have "dispatch_data_record C start end_pos CT_APPLICATION_DATA r = (?r, Inr ())"
    using lim r(3) n pos
    by (simp add: dispatch_data_record_def dispatch_data_record_inner_def TLS_HEADER_def AEAD_TAG_def Let_def
        handle_inner_content_def set_next_record_def)
  moreover have "step C ?r = (?r, Inr Ev_AppData)"
    using g n by (simp add: step.simps [of C ?r] is_send_pending_def plaintext_parked_def)
  ultimately show ?thesis using g f by (simp add: step.simps [of C r])
qed

lemma split_inner_prefix: "split_inner_plaintext inner = Inr (content, ct) \<Longrightarrow> content = take (length content) inner"
  by (auto simp: split_inner_plaintext_def Let_def min_def split: if_splits prod.splits)

text \<open>C9: What is written on one side is read on the other.  When a writer accepts \<^verbatim>\<open>n\<close> bytes of \<^verbatim>\<open>data\<close>,
  these are its first \<^verbatim>\<open>n\<close> bytes, \<^verbatim>\<open>n\<close> being the least of the data's length and the chunk limit.  The
  bytes it queues, given to an idle reader with an empty receive buffer that has the matching keys
  and sequence number, room for the record and a limit that admits it, make the next step report
  application data, and \<^verbatim>\<open>read_app\<close> then returns exactly those \<^verbatim>\<open>n\<close> bytes.\<close>

theorem written_data_is_read:
  assumes S: "suite_of C st S" and aead: "aead_correct (ts_aead S)" "aead_in_place (ts_aead S)"
    and w: "te_state w = st cw" "write_app C data w = (w', Inr n)" "0 < n"
    and r: "te_state r = st cr" "ad_s_ap_keys cr = ad_c_ap_keys cw" "ad_seq_in cr = ad_seq_out cw" "idle r"
      "\<not> in_progress (te_ph r)" "te_recv r = RecvState_new" "n + 22 \<le> length (te_recv_record r)"
      "n < unat (rsl_get (te_our_recv_limit r))"
  shows "n = min (length data) (send_chunk_limit w) \<and>
    (\<exists>r1 r2. advance (length (send_bytes w')) (fill_recv_buffer (send_bytes w') r) = (r1, Inr ()) \<and>
       step C r1 = (r2, Inr Ev_AppData) \<and> snd (read_app n r2) = take n data)"
proof -
  let ?rec = "send_bytes w'"
  note seal = write_app_sealed [OF S w aead(2), THEN conjunct2]
  have n: "n = min (length data) (send_chunk_limit w)" using write_app_sealed [OF S w aead(2)] by simp
  then have len: "length ?rec = n + 22" "?rec ! 0 = CT_APPLICATION_DATA"
    "unat (from_be_bytes [?rec ! 3, ?rec ! 4] :: 16 word) = n + 17"
    using sealed_record_frame [OF aead(2) seal] by simp_all
  have np: "\<not> plaintext_parked RecvState_new" by (simp add: plaintext_parked_def RecvState_new_def)
  let ?r1 = "r\<lparr>te_recv_record := ?rec @ drop (n + 22) (te_recv_record r), te_recv := RecvState_new\<lparr>rs_filled := n + 22\<rparr>\<rparr>"
  have adv: "advance (length ?rec) (fill_recv_buffer ?rec r) = (?r1, Inr ())"
    using r(6,7) len(1) np by (simp add: advance_def fill_recv_buffer_def recv_buffer_len_def put_at_def RecvState_new_def Let_def)
  have f: "frame_one_record ?r1 = (?r1, Inr (Framed_Record 0 (n + 22) CT_APPLICATION_DATA (n + 17)))"
    using len r(7)
    by (simp add: frame_one_record_def plaintext_parked_def RecvState_new_def Let_def TLS_HEADER_def nth_append)
  obtain rec' m where dec: "decrypt_record_inplace (ts_aead S) (ad_c_ap_keys cw) ?rec (ad_seq_out cw) = (rec', Inr m)"
    and sp: "split_inner_plaintext (sub_range 5 (5 + m) rec') = Inr (take n data, CT_APPLICATION_DATA)"
    using record_round_trip [OF aead(1) _ seal] by (auto simp: CT_APPLICATION_DATA_def)
  have "ad_decrypt_record_inplace S cr (sub_range 0 (n + 22) (te_recv_record ?r1)) =
      (rec', Inr ((n, CT_APPLICATION_DATA), cr\<lparr>ad_seq_in := ad_seq_in cr + 1\<rparr>))"
    using len(1) dec sp r(2,3) n by (simp add: ad_decrypt_record_inplace_def)
  from step_parks [OF S _ _ _ f _ this w(3)] r
  obtain r2 where st: "step C ?r1 = (r2, Inr Ev_AppData)"
    and r2: "te_recv_record r2 = put_at 0 rec' (te_recv_record ?r1)" "rs_plain_start (te_recv r2) = 5" "rs_plain_end (te_recv r2) = 5 + n"
    by (simp add: idle_def is_send_pending_def plaintext_parked_def RecvState_new_def)
  have "length rec' = n + 22" using decrypt_in_place_length [OF aead(2), of "ad_c_ap_keys cw" ?rec "ad_seq_out cw"] dec len(1) by simp
  moreover have "take n data = take n (sub_range 5 (5 + m) rec')" using split_inner_prefix [OF sp] n by simp
  moreover have "m = n + 1" using decrypt_in_place_inner [OF dec] len(1) by simp
  ultimately have "snd (read_app n r2) = take n data"
    using r2 w(3) by (simp add: read_app_def Let_def put_at_def sub_range_def)
  then show ?thesis using n adv st by blast
qed

definition demo_app :: AppData where
  "demo_app = \<lparr>ad_transcript = [], ad_c_ap_keys = \<lparr>rk_key = replicate 16 7, rk_iv = replicate 12 7\<rparr>,
     ad_s_ap_keys = \<lparr>rk_key = replicate 16 7, rk_iv = replicate 12 7\<rparr>,
     ad_c_ap_ts = replicate 32 7, ad_s_ap_ts = replicate 32 7, ad_seq_out = 0, ad_seq_in = 0\<rparr>"

definition demo_peer :: "bytes TlsEngine" where
  "demo_peer = TlsEngine_new (replicate 100 0) (replicate 80 0) [] (ES_AppAes demo_app) (RecordSizeLimit 64) (RecordSizeLimit 64)"

lemma demo_cipher_correct: "aead_correct demo_cipher"
  by (simp add: aead_correct_def demo_cipher_def comp_def)

lemma demo_peer_writes:
  "snd (write_app demo_config [1, 2, 3] demo_peer) = Inr 3"
  by code_simp

theorem written_data_is_read_witness:
  "\<exists>w' r1 r2. write_app demo_config [1, 2, 3] demo_peer = (w', Inr 3) \<and>
     advance (length (send_bytes w')) (fill_recv_buffer (send_bytes w') demo_peer) = (r1, Inr ()) \<and>
     step demo_config r1 = (r2, Inr Ev_AppData) \<and> snd (read_app 3 r2) = [1, 2, 3]"
proof -
  obtain w' where w: "write_app demo_config [1, 2, 3] demo_peer = (w', Inr 3)"
    using demo_peer_writes by (metis prod.collapse)
  have "suite_of demo_config ES_AppAes flight_suite" by (simp add: suite_of_def demo_config_fields)
  from written_data_is_read [OF this _ demo_aead_in_place _ w, of demo_app demo_peer demo_app]
  show ?thesis using w
    by (simp add: demo_peer_def TlsEngine_new_def demo_app_def idle_def is_send_pending_def plaintext_parked_def
        RecvState_new_def in_progress_def ph_default_def flight_suite_def demo_cipher_correct)
qed

end
