(* ===== verification/Dtls_Handshake.thy ===== *)
theory Dtls_Handshake
  imports Client_Hello Framing Dtls_Record
begin

text \<open>
  The handshake-message bodies of \<^verbatim>\<open>dtls/handshake.rs\<close>: the DTLS 1.3 ClientHello written through a
  fallible cursor, the ServerHello and HelloRetryRequest parser, and the record size limit of
  EncryptedExtensions.  The extension code points the file shares with the TLS constants are those
  of \<^verbatim>\<open>Tls_Consts\<close>.  The writer is shown to produce the reference encoding, the parser to read
  back every hello of that shape.
\<close>

section \<open>Model\<close>

definition EXT_COOKIE :: "16 word" where
  "EXT_COOKIE = 44"

definition EXT_CONNECTION_ID :: "16 word" where
  "EXT_CONNECTION_ID = 54"

definition MAX_CID_LEN :: nat where
  "MAX_CID_LEN = 20"

definition MAX_DATAGRAM :: nat where
  "MAX_DATAGRAM = 2048"

definition MAX_INBOUND_HEADER :: nat where
  "MAX_INBOUND_HEADER = 1 + MAX_CID_LEN + 2 + 2"

definition RECORD_SIZE_LIMIT :: "16 word" where
  "RECORD_SIZE_LIMIT = word_of_nat (MAX_DATAGRAM - MAX_INBOUND_HEADER - TAG_LEN)"

datatype DtlsClientHelloError = DCH_BufferTooSmall | DCH_CidTooLong

record Cursor =
  cu_buf :: bytes
  cu_pos :: nat
  cu_overflow :: bool

definition cu_new :: "bytes \<Rightarrow> Cursor" where
  "cu_new buf = \<lparr>cu_buf = buf, cu_pos = 0, cu_overflow = False\<rparr>"

definition cu_put :: "bytes \<Rightarrow> Cursor \<Rightarrow> Cursor" where
  "cu_put bs c =
     (case get_range (cu_pos c) (cu_pos c + length bs) (cu_buf c) of
        Some slot \<Rightarrow> c\<lparr>cu_buf := put_at (cu_pos c) bs (cu_buf c), cu_pos := cu_pos c + length bs\<rparr>
      | None \<Rightarrow> c\<lparr>cu_overflow := True\<rparr>)"

definition cu_u8 :: "8 word \<Rightarrow> Cursor \<Rightarrow> Cursor" where
  "cu_u8 v = cu_put [v]"

definition cu_u16 :: "16 word \<Rightarrow> Cursor \<Rightarrow> Cursor" where
  "cu_u16 v = cu_put (to_be_bytes v)"

definition cu_reserve_u16 :: "Cursor \<Rightarrow> nat \<times> Cursor" where
  "cu_reserve_u16 c = (cu_pos c, cu_u16 0 c)"

definition cu_patch_u16 :: "nat \<Rightarrow> 16 word \<Rightarrow> Cursor \<Rightarrow> Cursor" where
  "cu_patch_u16 at v c =
     (case get_range at (at + 2) (cu_buf c) of
        Some slot \<Rightarrow> c\<lparr>cu_buf := put_at at (to_be_bytes v) (cu_buf c)\<rparr>
      | None \<Rightarrow> c)"

text \<open>The ClientHello in the order it is written: up to the extensions, the extensions every hello
  has, the connection id, the cookie.\<close>

definition dch_fixed :: "bytes \<Rightarrow> 16 word \<Rightarrow> bytes option \<Rightarrow> Cursor \<Rightarrow> Cursor" where
  "dch_fixed random cipher_suite session_id c =
     (let c = cu_u16 DTLS_1_2_LEGACY_VERSION c;
          c = cu_put random c;
          c = (case session_id of
                 Some sid \<Rightarrow> cu_put sid (cu_u8 (word_of_nat LEGACY_SESSION_ID_LEN) c)
               | None \<Rightarrow> cu_u8 0 c);
          c = cu_u8 0 c;
          c = cu_u16 2 c;
          c = cu_u16 cipher_suite c;
          c = cu_u8 1 c
      in cu_u8 0 c)"

definition dch_sig_algs :: "Features \<Rightarrow> Cursor \<Rightarrow> Cursor" where
  "dch_sig_algs F c =
     (let c = cu_u16 EXT_SIGNATURE_ALGORITHMS c;
          (sa_ext_len_at, c) = cu_reserve_u16 c;
          (sa_list_len_at, c) = cu_reserve_u16 c;
          sa_start = cu_pos c;
          c = cu_u16 SIG_SCHEME_ED25519 c;
          c = (if f_ecdsa F then cu_u16 SIG_SCHEME_ECDSA_P384 (cu_u16 SIG_SCHEME_ECDSA_P256 c) else c);
          c = (if f_rsa F then cu_u16 SIG_SCHEME_RSA_PSS_RSAE_SHA256 c else c);
          sa_list_len = word_of_nat (cu_pos c - sa_start);
          c = cu_patch_u16 sa_list_len_at sa_list_len c
      in cu_patch_u16 sa_ext_len_at (sa_list_len + 2) c)"

definition dch_common :: "Features \<Rightarrow> bytes \<Rightarrow> Cursor \<Rightarrow> Cursor" where
  "dch_common F x25519_pub c =
     (let c = cu_u16 EXT_SUPPORTED_VERSIONS c;
          c = cu_u16 3 c;
          c = cu_u8 2 c;
          c = cu_u16 DTLS_1_3_VERSION c;
          c = cu_u16 EXT_SUPPORTED_GROUPS c;
          c = cu_u16 4 c;
          c = cu_u16 2 c;
          c = cu_u16 NAMED_GROUP_X25519 c;
          c = cu_u16 EXT_RECORD_SIZE_LIMIT c;
          c = cu_u16 2 c;
          c = cu_u16 RECORD_SIZE_LIMIT c;
          c = dch_sig_algs F c;
          c = cu_u16 EXT_KEY_SHARE c;
          c = cu_u16 (2 + 2 + 2 + 32) c;
          c = cu_u16 (2 + 2 + 32) c;
          c = cu_u16 NAMED_GROUP_X25519 c;
          c = cu_u16 32 c
      in cu_put x25519_pub c)"

definition dch_cid :: "bytes option \<Rightarrow> Cursor \<Rightarrow> DtlsClientHelloError + Cursor" where
  "dch_cid client_cid c =
     (case client_cid of
        Some cid \<Rightarrow>
          if length cid > MAX_CID_LEN then Inl DCH_CidTooLong
          else
            let c = cu_u16 EXT_CONNECTION_ID c;
                c = cu_u16 (word_of_nat (1 + length cid)) c;
                c = cu_u8 (word_of_nat (length cid)) c
            in Inr (cu_put cid c)
      | None \<Rightarrow> Inr c)"

definition dch_cookie :: "bytes option \<Rightarrow> Cursor \<Rightarrow> Cursor" where
  "dch_cookie cookie c =
     (case cookie of
        Some cookie \<Rightarrow>
          let c = cu_u16 EXT_COOKIE c;
              c = cu_u16 (word_of_nat (2 + length cookie)) c;
              c = cu_u16 (word_of_nat (length cookie)) c
          in cu_put cookie c
      | None \<Rightarrow> c)"

text \<open>The result is what stands in front of the cursor; the source returns its length.\<close>

definition dtls_write_client_hello ::
  "Features \<Rightarrow> bytes \<Rightarrow> bytes \<Rightarrow> 16 word \<Rightarrow> bytes option \<Rightarrow> bytes option \<Rightarrow> bytes option \<Rightarrow> bytes \<Rightarrow>
   DtlsClientHelloError + bytes" where
  "dtls_write_client_hello F random x25519_pub cipher_suite session_id cookie client_cid out =
     (let c = dch_fixed random cipher_suite session_id (cu_new out);
          (ext_len_at, c) = cu_reserve_u16 c;
          ext_start = cu_pos c;
          c = dch_common F x25519_pub c
      in rbind (dch_cid client_cid c) (\<lambda>c.
           let c = dch_cookie cookie c;
               ext_len = cu_pos c - ext_start;
               c = cu_patch_u16 ext_len_at (word_of_nat ext_len) c
           in if cu_overflow c then Inl DCH_BufferTooSmall else Inr (take (cu_pos c) (cu_buf c))))"

definition CLIENT_HELLO_MSG_TYPE :: "8 word" where
  "CLIENT_HELLO_MSG_TYPE = HS_CLIENT_HELLO"

definition HRR_RANDOM :: bytes where
  "HRR_RANDOM =
     [0xCF, 0x21, 0xAD, 0x74, 0xE5, 0x9A, 0x61, 0x11, 0xBE, 0x1D, 0x8C, 0x02, 0x1E, 0x65, 0xB8, 0x91,
      0xC2, 0xA2, 0x11, 0x16, 0x7A, 0xBB, 0x8C, 0x5E, 0x07, 0x9E, 0x09, 0xE2, 0xC8, 0xA8, 0x33, 0x9C]"

datatype DtlsParseError = DP_Malformed | DP_UnexpectedGroup | DP_MissingCookie | DP_MissingKeyShare

datatype ServerHelloKind = SHK_Retry "16 word" bytes | SHK_Hello "16 word" bytes "bytes option"

definition dtls_read_u16 :: "bytes \<Rightarrow> nat \<Rightarrow> DtlsParseError + 16 word" where
  "dtls_read_u16 b at =
     rbind (ok_or DP_Malformed (get_range at (at + 2) b)) (\<lambda>bytes. Inr (from_be_bytes [bytes ! 0, bytes ! 1]))"

text \<open>What the extension walk collects.\<close>

record DshFields =
  df_cookie :: "bytes option"
  df_key_share :: "bytes option"
  df_server_cid :: "bytes option"

definition dsh_extension :: "16 word \<Rightarrow> bytes \<Rightarrow> DshFields \<Rightarrow> DtlsParseError + DshFields" where
  "dsh_extension et data st =
     (if et = EXT_COOKIE then
        rbind (dtls_read_u16 data 0) (\<lambda>clen.
        rbind (ok_or DP_Malformed (get_range 2 (2 + unat clen) data)) (\<lambda>cookie.
          Inr (st\<lparr>df_cookie := Some cookie\<rparr>)))
      else if et = EXT_CONNECTION_ID then
        rbind (ok_or DP_Malformed (get_at 0 data)) (\<lambda>clen.
        rbind (ok_or DP_Malformed (get_range 1 (1 + unat clen) data)) (\<lambda>cid.
          Inr (st\<lparr>df_server_cid := Some cid\<rparr>)))
      else if et = EXT_KEY_SHARE then
        rbind (dtls_read_u16 data 0) (\<lambda>group.
        if group \<noteq> NAMED_GROUP_X25519 then Inl DP_UnexpectedGroup
        else
          rbind (dtls_read_u16 data 2) (\<lambda>klen.
          rbind (ok_or DP_Malformed (get_range 4 (4 + unat klen) data)) (\<lambda>key.
            if length key \<noteq> 32 then Inl DP_UnexpectedGroup else Inr (st\<lparr>df_key_share := Some key\<rparr>))))
      else Inr st)"

function dsh_extensions :: "bytes \<Rightarrow> nat \<Rightarrow> nat \<Rightarrow> DshFields \<Rightarrow> DtlsParseError + DshFields" where
  "dsh_extensions body i ext_end st =
     (if i + 4 \<le> ext_end then
        rbind (dtls_read_u16 body i) (\<lambda>et.
        rbind (dtls_read_u16 body (i + 2)) (\<lambda>el.
        rbind (ok_or DP_Malformed (get_range (i + 4) (i + 4 + unat el) body)) (\<lambda>data.
        rbind (dsh_extension et data st) (\<lambda>st.
          dsh_extensions body (i + 4 + unat el) ext_end st))))
      else Inr st)"
  by pat_completeness auto
termination
  by (relation "measure (\<lambda>(body, i, ext_end, st). ext_end - i)") auto

declare dsh_extensions.simps [simp del]

definition dsh_finish :: "bool \<Rightarrow> 16 word \<Rightarrow> DshFields \<Rightarrow> DtlsParseError + ServerHelloKind" where
  "dsh_finish is_retry selected_suite st =
     (if is_retry
      then rbind (ok_or DP_MissingCookie (df_cookie st)) (\<lambda>cookie. Inr (SHK_Retry selected_suite cookie))
      else rbind (ok_or DP_MissingKeyShare (df_key_share st)) (\<lambda>key.
        Inr (SHK_Hello selected_suite key (df_server_cid st))))"

definition dtls_parse_server_hello :: "bytes \<Rightarrow> DtlsParseError + ServerHelloKind" where
  "dtls_parse_server_hello body =
     rbind (ok_or DP_Malformed (get_range 2 34 body)) (\<lambda>random.
     let is_retry = (random = HRR_RANDOM) in
     rbind (ok_or DP_Malformed (get_at 34 body)) (\<lambda>sid_len.
     let i = 34 + (1 + unat sid_len) in
     rbind (dtls_read_u16 body i) (\<lambda>selected_suite.
     let i = i + (2 + 1) in
     rbind (dtls_read_u16 body i) (\<lambda>ext_len.
     let i = i + 2;
         ext_end = i + unat ext_len
     in if length body < ext_end then Inl DP_Malformed
        else rbind (dsh_extensions body i ext_end \<lparr>df_cookie = None, df_key_share = None, df_server_cid = None\<rparr>)
               (dsh_finish is_retry selected_suite)))))"

function ee_limit_loop :: "bytes \<Rightarrow> nat \<Rightarrow> DtlsParseError + 16 word option" where
  "ee_limit_loop exts i =
     (if i + 4 \<le> length exts then
        let et = from_be_bytes [exts ! i, exts ! (i + 1)];
            el = unat (from_be_bytes [exts ! (i + 2), exts ! (i + 3)] :: 16 word)
        in rbind (ok_or DP_Malformed (get_range (i + 4) (i + 4 + el) exts)) (\<lambda>data.
             if et = EXT_RECORD_SIZE_LIMIT then
               (if length data \<noteq> 2 then Inl DP_Malformed
                else
                  let limit = from_be_bytes [data ! 0, data ! 1]
                  in if limit < 64 then Inl DP_Malformed else Inr (Some limit))
             else ee_limit_loop exts (i + 4 + el))
      else Inr None)"
  by pat_completeness auto
termination
  by (relation "measure (\<lambda>(exts, i). length exts - i)") auto

declare ee_limit_loop.simps [simp del]

definition parse_ee_record_size_limit :: "bytes \<Rightarrow> DtlsParseError + 16 word option" where
  "parse_ee_record_size_limit ee_body =
     rbind (ok_or DP_Malformed (get_at 0 ee_body)) (\<lambda>hi.
     rbind (ok_or DP_Malformed (get_at 1 ee_body)) (\<lambda>lo.
     let ext_len = unat (from_be_bytes [hi, lo] :: 16 word) in
     rbind (ok_or DP_Malformed (get_range 2 (2 + ext_len) ee_body)) (\<lambda>exts. ee_limit_loop exts 0)))"

section \<open>The cursor\<close>

text \<open>The cursor has written \<^verbatim>\<open>bs\<close>: it stands behind them, or they do not fit and it has overflowed.\<close>

definition cu_rel :: "bytes \<Rightarrow> bytes \<Rightarrow> Cursor \<Rightarrow> bool" where
  "cu_rel out bs c \<longleftrightarrow> length (cu_buf c) = length out \<and>
     (if length bs \<le> length out then take (length bs) (cu_buf c) = bs \<and> cu_pos c = length bs \<and> \<not> cu_overflow c
      else cu_overflow c)"

lemma cu_rel_new: "cu_rel out [] (cu_new out)"
  by (simp add: cu_rel_def cu_new_def)

lemma cu_rel_put:
  assumes "cu_rel out bs c"
  shows "cu_rel out (bs @ x) (cu_put x c)"
proof (cases "length (bs @ x) \<le> length out")
  case True
  then show ?thesis using assms by (auto simp: cu_rel_def cu_put_def get_range_def put_at_def)
next
  case False
  then show ?thesis using assms by (auto simp: cu_rel_def cu_put_def get_range_def split: if_splits)
qed

lemma cu_rel_u8: "cu_rel out bs c \<Longrightarrow> cu_rel out (bs @ [v]) (cu_u8 v c)"
  by (simp add: cu_u8_def cu_rel_put)

lemma cu_rel_u16: "cu_rel out bs c \<Longrightarrow> cu_rel out (bs @ to_be_bytes v) (cu_u16 v c)"
  by (simp add: cu_u16_def cu_rel_put)

lemma cu_rel_pos: "cu_rel out bs c \<Longrightarrow> length bs \<le> length out \<Longrightarrow> cu_pos c = length bs"
  by (simp add: cu_rel_def)

text \<open>Patching a reserved field.  Where it stands matters only while the cursor has not overflowed.\<close>

lemma cu_rel_patch:
  assumes "cu_rel out (pre @ old @ post) c" "length old = 2" "length (pre @ old @ post) \<le> length out \<Longrightarrow> at = length pre"
  shows "cu_rel out (pre @ to_be_bytes v @ post) (cu_patch_u16 at v c)"
proof (cases "length (pre @ old @ post) \<le> length out")
  case True
  define rest where "rest = drop (length (pre @ old @ post)) (cu_buf c)"
  have "cu_buf c = pre @ old @ post @ rest"
    using assms(1) True append_take_drop_id [of "length (pre @ old @ post)" "cu_buf c"]
    by (simp add: cu_rel_def rest_def del: append_take_drop_id)
  then show ?thesis using assms True by (simp add: cu_rel_def cu_patch_u16_def get_range_def put_at_def)
next
  case False
  then show ?thesis using assms by (auto simp: cu_rel_def cu_patch_u16_def get_range_def put_at_def)
qed

lemmas cu_rel_intros = cu_rel_put cu_rel_u8 cu_rel_u16

lemma cu_rel_eq: "cu_rel out a c \<Longrightarrow> a = b \<Longrightarrow> cu_rel out b c"
  by simp

section \<open>The ClientHello\<close>

definition dch_schemes :: "Features \<Rightarrow> bytes" where
  "dch_schemes F = to_be_bytes SIG_SCHEME_ED25519 @
     (if f_ecdsa F then to_be_bytes SIG_SCHEME_ECDSA_P256 @ to_be_bytes SIG_SCHEME_ECDSA_P384 else []) @
     (if f_rsa F then to_be_bytes SIG_SCHEME_RSA_PSS_RSAE_SHA256 else [])"

definition dch_common_exts :: "Features \<Rightarrow> bytes \<Rightarrow> (16 word \<times> bytes) list" where
  "dch_common_exts F x25519_pub =
     [(EXT_SUPPORTED_VERSIONS, vec8 (to_be_bytes DTLS_1_3_VERSION)),
      (EXT_SUPPORTED_GROUPS, vec16 (to_be_bytes NAMED_GROUP_X25519)),
      (EXT_RECORD_SIZE_LIMIT, to_be_bytes RECORD_SIZE_LIMIT),
      (EXT_SIGNATURE_ALGORITHMS, vec16 (dch_schemes F)),
      (EXT_KEY_SHARE, vec16 (extension (NAMED_GROUP_X25519, x25519_pub)))]"

definition dch_exts :: "Features \<Rightarrow> bytes \<Rightarrow> bytes option \<Rightarrow> bytes option \<Rightarrow> (16 word \<times> bytes) list" where
  "dch_exts F x25519_pub cid cookie = dch_common_exts F x25519_pub @
     (case cid of None \<Rightarrow> [] | Some c \<Rightarrow> [(EXT_CONNECTION_ID, vec8 c)]) @
     (case cookie of None \<Rightarrow> [] | Some c \<Rightarrow> [(EXT_COOKIE, vec16 c)])"

definition dch_prefix :: "bytes \<Rightarrow> 16 word \<Rightarrow> bytes option \<Rightarrow> bytes" where
  "dch_prefix random suite sid =
     to_be_bytes DTLS_1_2_LEGACY_VERSION @ random @ vec8 (case sid of None \<Rightarrow> [] | Some s \<Rightarrow> s) @ vec8 [] @
     vec16 (to_be_bytes suite) @ vec8 [0]"

definition dtls_client_hello_body ::
  "Features \<Rightarrow> bytes \<Rightarrow> bytes \<Rightarrow> 16 word \<Rightarrow> bytes option \<Rightarrow> bytes option \<Rightarrow> bytes option \<Rightarrow> bytes" where
  "dtls_client_hello_body F random x25519_pub suite sid cookie cid =
     dch_prefix random suite sid @ vec16 (concat (map extension (dch_exts F x25519_pub cid cookie)))"

lemma dch_fixed_rel:
  assumes "cu_rel out bs c" "pred_option (\<lambda>s. length s = 32) sid"
  shows "cu_rel out (bs @ dch_prefix random suite sid) (dch_fixed random suite sid c)"
proof (cases sid)
  case None
  then show ?thesis unfolding dch_fixed_def Let_def
    by - (rule cu_rel_eq, simp, (rule cu_rel_intros)+, rule assms(1),
      simp add: dch_prefix_def vec8_def vec16_def to_be_bytes_def be_bytes_numeral)
next
  case (Some s)
  then show ?thesis using assms(2) unfolding dch_fixed_def Let_def
    by - (rule cu_rel_eq, simp, (rule cu_rel_intros)+, rule assms(1),
      simp add: dch_prefix_def vec8_def vec16_def to_be_bytes_def be_bytes_numeral LEGACY_SESSION_ID_LEN_def)
qed

lemma dch_cid_rel:
  assumes "cu_rel out bs c"
  shows "if pred_option (\<lambda>c. length c \<le> MAX_CID_LEN) cid
    then \<exists>c'. dch_cid cid c = Inr c' \<and>
      cu_rel out (bs @ concat (map extension (case cid of None \<Rightarrow> [] | Some c \<Rightarrow> [(EXT_CONNECTION_ID, vec8 c)]))) c'
    else dch_cid cid c = Inl DCH_CidTooLong"
proof (cases cid)
  case (Some i)
  have "cu_rel out (bs @ extension (EXT_CONNECTION_ID, vec8 i))
     (cu_put i (cu_u8 (word_of_nat (length i)) (cu_u16 (word_of_nat (1 + length i)) (cu_u16 EXT_CONNECTION_ID c))))"
    by (rule cu_rel_eq, (rule cu_rel_intros)+, rule assms(1))
      (simp add: extension_def vec16_def vec8_def to_be_bytes_of_nat_16 del: of_nat_Suc of_nat_add)
  then show ?thesis by (simp add: Some dch_cid_def Let_def)
qed (simp add: dch_cid_def assms)

lemma dch_cookie_rel:
  assumes "cu_rel out bs c"
  shows "cu_rel out (bs @ concat (map extension (case cookie of None \<Rightarrow> [] | Some c \<Rightarrow> [(EXT_COOKIE, vec16 c)])))
    (dch_cookie cookie c)"
proof (cases cookie)
  case (Some k)
  show ?thesis unfolding dch_cookie_def Let_def Some option.case
    by (rule cu_rel_eq, (rule cu_rel_intros)+, rule assms(1))
      (simp add: extension_def vec16_def to_be_bytes_of_nat_16 del: of_nat_Suc of_nat_add)
qed (simp add: dch_cookie_def assms)

lemma dch_schemes_rel:
  assumes "cu_rel out bs c"
  shows "cu_rel out (bs @ dch_schemes F)
    (let c = cu_u16 SIG_SCHEME_ED25519 c;
         c = (if f_ecdsa F then cu_u16 SIG_SCHEME_ECDSA_P384 (cu_u16 SIG_SCHEME_ECDSA_P256 c) else c)
     in if f_rsa F then cu_u16 SIG_SCHEME_RSA_PSS_RSAE_SHA256 c else c)"
  by (cases "f_ecdsa F"; cases "f_rsa F"; simp add: Let_def dch_schemes_def;
      rule cu_rel_eq, (rule cu_rel_intros)+, rule assms(1), simp)

lemma length_dch_schemes: "length (dch_schemes F) \<le> 8"
  by (simp add: dch_schemes_def)

lemma dch_sig_algs_rel:
  assumes "cu_rel out bs c"
  shows "cu_rel out (bs @ extension (EXT_SIGNATURE_ALGORITHMS, vec16 (dch_schemes F))) (dch_sig_algs F c)"
proof -
  let ?t = "to_be_bytes EXT_SIGNATURE_ALGORITHMS" and ?z = "to_be_bytes (0 :: 16 word)" and ?n = "length (dch_schemes F)"
  define c1 where "c1 = cu_u16 EXT_SIGNATURE_ALGORITHMS c"
  define c2 where "c2 = cu_u16 0 c1"
  define c3 where "c3 = cu_u16 0 c2"
  define c4 where "c4 = (let c = cu_u16 SIG_SCHEME_ED25519 c3;
         c = (if f_ecdsa F then cu_u16 SIG_SCHEME_ECDSA_P384 (cu_u16 SIG_SCHEME_ECDSA_P256 c) else c)
     in if f_rsa F then cu_u16 SIG_SCHEME_RSA_PSS_RSAE_SHA256 c else c)"
  have 1: "cu_rel out (bs @ ?t) c1" unfolding c1_def by (rule cu_rel_u16 [OF assms])
  have 2: "cu_rel out ((bs @ ?t) @ ?z) c2" unfolding c2_def by (rule cu_rel_u16 [OF 1])
  have 3: "cu_rel out (((bs @ ?t) @ ?z) @ ?z) c3" unfolding c3_def by (rule cu_rel_u16 [OF 2])
  have 4: "cu_rel out ((((bs @ ?t) @ ?z) @ ?z) @ dch_schemes F) c4" unfolding c4_def by (rule dch_schemes_rel [OF 3])
  let ?l = "word_of_nat (cu_pos c4 - cu_pos c3) :: 16 word"
  have "cu_rel out (((bs @ ?t) @ ?z) @ to_be_bytes ?l @ dch_schemes F) (cu_patch_u16 (cu_pos c2) ?l c4)"
    using 4 cu_rel_pos [OF 2] by (intro cu_rel_patch [where old = ?z]) simp_all
  then have "cu_rel out ((bs @ ?t) @ to_be_bytes (?l + 2) @ to_be_bytes ?l @ dch_schemes F)
      (cu_patch_u16 (cu_pos c1) (?l + 2) (cu_patch_u16 (cu_pos c2) ?l c4))"
    using cu_rel_pos [OF 1] by (intro cu_rel_patch [where old = ?z]) simp_all
  moreover have "dch_sig_algs F c = cu_patch_u16 (cu_pos c1) (?l + 2) (cu_patch_u16 (cu_pos c2) ?l c4)"
    by (simp add: dch_sig_algs_def cu_reserve_u16_def c1_def c2_def c3_def c4_def Let_def)
  moreover have "cu_pos c4 - cu_pos c3 = ?n" if "length ((((bs @ ?t) @ ?z) @ ?z) @ dch_schemes F) \<le> length out"
    using cu_rel_pos [OF 3] cu_rel_pos [OF 4] that by simp
  moreover have "to_be_bytes (word_of_nat ?n + 2 :: 16 word) = be_bytes 2 (?n + 2)"
    using to_be_bytes_of_nat_16 [of "?n + 2"] by (simp add: add.commute)
  ultimately show ?thesis
    by (auto simp: cu_rel_def extension_def vec16_def to_be_bytes_of_nat_16 split: if_splits)
qed

lemma dch_common_rel:
  assumes "cu_rel out bs c" "length x25519_pub = 32"
  shows "cu_rel out (bs @ concat (map extension (dch_common_exts F x25519_pub))) (dch_common F x25519_pub c)"
  unfolding dch_common_def Let_def
  by (rule cu_rel_eq, (rule cu_rel_intros dch_sig_algs_rel)+, rule assms(1))
    (simp add: dch_common_exts_def extension_def vec16_def vec8_def to_be_bytes_def be_bytes_numeral assms(2))

lemma dtls_client_hello_eq:
  assumes "length x25519_pub = 32" "pred_option (\<lambda>s. length s = 32) sid"
  shows "dtls_write_client_hello F random x25519_pub suite sid cookie cid out =
    (if \<not> pred_option (\<lambda>c. length c \<le> MAX_CID_LEN) cid then Inl DCH_CidTooLong
     else if length out < length (dtls_client_hello_body F random x25519_pub suite sid cookie cid)
     then Inl DCH_BufferTooSmall
     else Inr (dtls_client_hello_body F random x25519_pub suite sid cookie cid))"
proof -
  let ?p = "dch_prefix random suite sid" and ?z = "to_be_bytes (0 :: 16 word)"
    and ?e = "concat (map extension (dch_exts F x25519_pub cid cookie))"
  define c1 where "c1 = dch_fixed random suite sid (cu_new out)"
  define c2 where "c2 = cu_u16 0 c1"
  define c3 where "c3 = dch_common F x25519_pub c2"
  have 1: "cu_rel out ?p c1" using dch_fixed_rel [OF cu_rel_new assms(2)] by (simp add: c1_def)
  have 2: "cu_rel out (?p @ ?z) c2" unfolding c2_def by (rule cu_rel_u16 [OF 1])
  have 3: "cu_rel out ((?p @ ?z) @ concat (map extension (dch_common_exts F x25519_pub))) c3"
    unfolding c3_def by (rule dch_common_rel [OF 2 assms(1)])
  have unf: "dtls_write_client_hello F random x25519_pub suite sid cookie cid out = rbind (dch_cid cid c3) (\<lambda>c.
      let c = dch_cookie cookie c; c = cu_patch_u16 (cu_pos c1) (word_of_nat (cu_pos c - cu_pos c2)) c
      in if cu_overflow c then Inl DCH_BufferTooSmall else Inr (take (cu_pos c) (cu_buf c)))"
    by (simp add: dtls_write_client_hello_def cu_reserve_u16_def c1_def c2_def c3_def Let_def)
  show ?thesis
  proof (cases "pred_option (\<lambda>c. length c \<le> MAX_CID_LEN) cid")
    case True
    then obtain c4 where c4: "dch_cid cid c3 = Inr c4" and 4: "cu_rel out (((?p @ ?z) @
        concat (map extension (dch_common_exts F x25519_pub))) @
        concat (map extension (case cid of None \<Rightarrow> [] | Some c \<Rightarrow> [(EXT_CONNECTION_ID, vec8 c)]))) c4"
      using dch_cid_rel [OF 3, of cid] by auto
    define c5 where "c5 = dch_cookie cookie c4"
    let ?l = "word_of_nat (cu_pos c5 - cu_pos c2) :: 16 word"
    have 5: "cu_rel out (?p @ ?z @ ?e) c5"
      using dch_cookie_rel [OF 4, of cookie] by (simp add: c5_def dch_exts_def)
    then have 6: "cu_rel out (?p @ to_be_bytes ?l @ ?e) (cu_patch_u16 (cu_pos c1) ?l c5)"
      using cu_rel_pos [OF 1] by (intro cu_rel_patch [where old = ?z]) simp_all
    have "cu_pos c5 - cu_pos c2 = length ?e" if "length (?p @ ?z @ ?e) \<le> length out"
      using cu_rel_pos [OF 2] cu_rel_pos [OF 5] that by simp
    then show ?thesis using 6 True c4
      by (auto simp: unf c5_def [symmetric] Let_def cu_rel_def dtls_client_hello_body_def vec16_def to_be_bytes_of_nat_16
          split: if_splits)
  next
    case False
    then show ?thesis using dch_cid_rel [OF 3, of cid] by (simp add: unf)
  qed
qed

text \<open>C29: In every build the DTLS ClientHello writer produces exactly the reference body of RFC 9147,
  with the cookie of a HelloRetryRequest and the connection id where they are given; it refuses a
  connection id of more than 20 bytes, and otherwise fails exactly when the body does not fit.\<close>

theorem dtls_client_hello_exact:
  assumes "length x25519_pub = 32" "pred_option (\<lambda>s. length s = 32) sid"
  shows "dtls_write_client_hello F random x25519_pub suite sid cookie cid out =
    (if \<not> pred_option (\<lambda>c. length c \<le> MAX_CID_LEN) cid then Inl DCH_CidTooLong
     else if length out < length (dtls_client_hello_body F random x25519_pub suite sid cookie cid)
     then Inl DCH_BufferTooSmall
     else Inr (dtls_client_hello_body F random x25519_pub suite sid cookie cid))"
  by (rule dtls_client_hello_eq [OF assms])

theorem dtls_client_hello_exact_witness:
  "length (replicate 32 (9 :: byte)) = 32 \<and>
   is_ok (dtls_write_client_hello demo_features (replicate 32 7) (replicate 32 9) CIPHER_AES_128_GCM_SHA256 None (Some [1, 2]) (Some [3])
     (replicate 200 0))"
  using dtls_client_hello_exact [of "replicate 32 9" None demo_features "replicate 32 7" CIPHER_AES_128_GCM_SHA256 "Some [1, 2]"
      "Some [3]" "replicate 200 0"]
  by (simp add: MAX_CID_LEN_def dtls_client_hello_body_def dch_prefix_def dch_exts_def dch_common_exts_def extension_def
      vec16_def vec8_def dch_schemes_def)

section \<open>The ServerHello\<close>

text \<open>The body as the server writes it.\<close>

definition dtls_server_hello_body :: "bytes \<Rightarrow> bytes \<Rightarrow> bytes \<Rightarrow> 16 word \<Rightarrow> 8 word \<Rightarrow> (16 word \<times> bytes) list \<Rightarrow> bytes" where
  "dtls_server_hello_body ver random sid suite compression exts =
     ver @ random @ vec8 sid @ to_be_bytes suite @ [compression] @ vec16 (concat (map extension exts))"

fun dsh_walk :: "(16 word \<times> bytes) list \<Rightarrow> DshFields \<Rightarrow> DtlsParseError + DshFields" where
  "dsh_walk [] st = Inr st"
| "dsh_walk ((t, d) # es) st = rbind (dsh_extension t d st) (dsh_walk es)"

lemma dtls_read_u16_at: "length u = 2 \<Longrightarrow> i = length pre \<Longrightarrow> dtls_read_u16 (pre @ u @ post) i = Inr (from_be_bytes u)"
  using list_of_length_2 [of u] by (simp add: dtls_read_u16_def get_range_def nth_append)

lemma dsh_extensions_walk:
  assumes "list_all (\<lambda>(t, d). length d < 2 ^ 16) es"
  shows "dsh_extensions (pre @ concat (map extension es) @ post) (length pre)
     (length pre + length (concat (map extension es))) st = dsh_walk es st"
  using assms
proof (induction es arbitrary: pre st)
  case Nil
  then show ?case by (simp add: dsh_extensions.simps)
next
  case (Cons e es)
  obtain t d where e: "e = (t, d)" by fastforce
  let ?es = "concat (map extension es)" and ?ln = "be_bytes 2 (length d)"
  define body where "body = pre @ extension (t, d) @ ?es @ post"
  have d: "length d < 2 ^ 16" using Cons.prems by (simp add: e)
  note x = length_extension [of t d]
  have t: "dtls_read_u16 body (length pre) = Inr t"
    using dtls_read_u16_at [of "to_be_bytes t" "length pre" pre "vec16 d @ ?es @ post"]
    by (simp add: body_def extension_def from_to_be_bytes)
  have l: "dtls_read_u16 body (length pre + 2) = Inr (word_of_nat (length d))"
    using dtls_read_u16_at [of ?ln "length pre + 2" "pre @ to_be_bytes t" "d @ ?es @ post"] d
    by (simp add: body_def extension_def vec16_def from_be_bytes_be_bytes)
  have n: "unat (word_of_nat (length d) :: 16 word) = length d" using d by (simp add: unat_of_nat)
  have g: "get_range (length pre + 4) (length pre + 4 + length d) body = Some d"
    by (simp add: body_def extension_def vec16_def get_range_def)
  have IH: "dsh_extensions body (length pre + 4 + length d) (length pre + length (extension (t, d)) + length ?es) = dsh_walk es"
    using Cons.IH [of "pre @ extension (t, d)"] Cons.prems by (intro ext) (simp add: body_def add.assoc)
  have "dsh_extensions body (length pre) (length pre + length (extension (t, d)) + length ?es) st = rbind (dsh_extension t d st) (dsh_walk es)"
    using IH unfolding x by (simp add: dsh_extensions.simps [of body "length pre"] t l n g del: add_2_eq_Suc')
  then show ?case by (simp add: e body_def add.assoc)
qed

lemma dtls_parse_server_hello_walk:
  assumes "length ver = 2" "length random = 32" "length sid < 256" "list_all (\<lambda>(t, d). length d < 2 ^ 16) exts"
    and small: "length (concat (map extension exts)) < 2 ^ 16"
  shows "dtls_parse_server_hello (dtls_server_hello_body ver random sid suite compression exts @ post) =
    rbind (dsh_walk exts \<lparr>df_cookie = None, df_key_share = None, df_server_cid = None\<rparr>) (dsh_finish (random = HRR_RANDOM) suite)"
proof -
  let ?es = "concat (map extension exts)" and ?l = "word_of_nat (length sid) :: 8 word"
  define body where "body = dtls_server_hello_body ver random sid suite compression exts @ post"
  define pre where "pre = ver @ random @ [?l] @ sid"
  define pre' where "pre' = pre @ to_be_bytes suite @ [compression] @ be_bytes 2 (length ?es)"
  have body: "body = pre' @ ?es @ post" "body = pre @ to_be_bytes suite @ [compression] @ be_bytes 2 (length ?es) @ ?es @ post"
    by (simp_all add: body_def pre_def pre'_def dtls_server_hello_body_def vec8_def vec16_def)
  have len: "length pre = 35 + length sid" "length pre' = 40 + length sid" using assms by (simp_all add: pre_def pre'_def)
  have sid: "unat ?l = length sid" using assms(3) by (simp add: unat_of_nat)
  have r: "get_range 2 34 body = Some random" "get_at 34 body = Some ?l"
    using assms by (simp_all add: body(2) pre_def get_range_def get_at_def nth_append)
  have s: "dtls_read_u16 body (35 + length sid) = Inr suite"
    using dtls_read_u16_at [of "to_be_bytes suite" "35 + length sid" pre] len by (simp add: body(2) from_to_be_bytes)
  have l: "dtls_read_u16 body (38 + length sid) = Inr (word_of_nat (length ?es))"
    using dtls_read_u16_at [of "be_bytes 2 (length ?es)" "38 + length sid" "pre @ to_be_bytes suite @ [compression]" "?es @ post"]
      len small by (simp add: body(2) from_be_bytes_be_bytes)
  have n: "unat (word_of_nat (length ?es) :: 16 word) = length ?es" using small by (simp add: unat_of_nat)
  have w: "dsh_extensions body (40 + length sid) (40 + length sid + length ?es) st = dsh_walk exts st" for st
    using dsh_extensions_walk [OF assms(4), of pre' post st] len by (simp add: body(1))
  have "length body = 40 + length sid + length ?es + length post" using len by (simp add: body(1))
  moreover have "34 + (1 + length sid) = 35 + length sid" "35 + length sid + (2 + 1) = 38 + length sid"
    "38 + length sid + 2 = 40 + length sid" by simp_all
  ultimately show ?thesis unfolding body_def [symmetric] dtls_parse_server_hello_def
    by (simp only: r s l n w sid Let_def ok_or_simps rbind_simps) simp
qed

text \<open>The extensions as RFC 8446 and RFC 9147 lay them out: the key share of a ServerHello is an entry of a group
  and its key, that of a HelloRetryRequest the selected group alone.\<close>

definition dsh_ok :: "bool \<Rightarrow> (16 word \<times> bytes) list \<Rightarrow> bool" where
  "dsh_ok retry exts \<longleftrightarrow> distinct (map fst exts) \<and> list_all (\<lambda>(t, d). length d < 2 ^ 16 \<and>
     (t = EXT_COOKIE \<longrightarrow> (\<exists>c. d = vec16 c)) \<and> (t = EXT_CONNECTION_ID \<longrightarrow> (\<exists>c. length c < 256 \<and> d = vec8 c)) \<and>
     (t = EXT_KEY_SHARE \<longrightarrow> (if retry then \<exists>grp :: 16 word. d = to_be_bytes grp else \<exists>grp k. d = extension (grp, k)))) exts"

definition dsh_fields :: "(16 word \<times> bytes) list \<Rightarrow> DshFields \<Rightarrow> DshFields" where
  "dsh_fields exts st =
     \<lparr>df_cookie = (case map_of exts EXT_COOKIE of None \<Rightarrow> df_cookie st | Some d \<Rightarrow> Some (drop 2 d)),
      df_key_share = (case map_of exts EXT_KEY_SHARE of None \<Rightarrow> df_key_share st | Some d \<Rightarrow> Some (drop 4 d)),
      df_server_cid = (case map_of exts EXT_CONNECTION_ID of None \<Rightarrow> df_server_cid st | Some d \<Rightarrow> Some (drop 1 d))\<rparr>"

text \<open>A key share the client can use, and what it answers to another one.\<close>

definition x25519_share :: "bytes \<Rightarrow> bool" where
  "x25519_share d \<longleftrightarrow> (\<exists>k. length k = 32 \<and> d = extension (NAMED_GROUP_X25519, k))"

definition share_error :: "bytes \<Rightarrow> DtlsParseError" where
  "share_error d = (if d = to_be_bytes NAMED_GROUP_X25519 then DP_Malformed else DP_UnexpectedGroup)"

lemma ext_types_differ:
  "EXT_COOKIE \<noteq> EXT_CONNECTION_ID" "EXT_COOKIE \<noteq> EXT_KEY_SHARE" "EXT_CONNECTION_ID \<noteq> EXT_KEY_SHARE"
  by (simp_all add: EXT_COOKIE_def EXT_CONNECTION_ID_def EXT_KEY_SHARE_def)

lemma dsh_other_extension:
  assumes "dsh_ok retry [(t, d)]" "t \<noteq> EXT_KEY_SHARE"
  shows "dsh_extension t d st = Inr (dsh_fields [(t, d)] st)"
proof -
  have c: "unat (word_of_nat (length k) :: 16 word) = length k" if "length k < 2 ^ 16" for k :: bytes
    using that by (simp add: unat_of_nat)
  have b: "unat (word_of_nat (length k) :: 8 word) = length k" if "length k < 256" for k :: bytes
    using that by (simp add: unat_of_nat)
  consider "t = EXT_COOKIE" | "t = EXT_CONNECTION_ID" | "t \<noteq> EXT_COOKIE" "t \<noteq> EXT_CONNECTION_ID" by blast
  then show ?thesis
  proof cases
    case 1
    then obtain k where d: "d = vec16 k" "length k < 2 ^ 16"
      using assms ext_types_differ by (auto simp: dsh_ok_def vec16_def)
    have "dtls_read_u16 d 0 = Inr (word_of_nat (length k))"
      using dtls_read_u16_at [of "be_bytes 2 (length k)" 0 "[]" k] d by (simp add: vec16_def from_be_bytes_be_bytes)
    then show ?thesis using 1 d c ext_types_differ
      by (simp add: dsh_extension_def dsh_fields_def get_range_def vec16_def)
  next
    case 2
    then obtain k where d: "d = vec8 k" "length k < 256" using assms by (auto simp: dsh_ok_def)
    then show ?thesis using 2 b ext_types_differ
      by (simp add: dsh_extension_def dsh_fields_def get_range_def get_at_def vec8_def)
  next
    case 3
    then show ?thesis using assms(2) by (simp add: dsh_extension_def dsh_fields_def)
  qed
qed

lemma share_group: "dtls_read_u16 (to_be_bytes grp @ r) 0 = Inr grp"
  using dtls_read_u16_at [of "to_be_bytes grp" 0 "[]" r] by (simp add: from_to_be_bytes)

lemma dsh_retry_share:
  "dsh_extension EXT_KEY_SHARE (to_be_bytes (grp :: 16 word)) st = Inl (share_error (to_be_bytes grp))"
proof -
  have "dtls_read_u16 (to_be_bytes grp) 2 = Inl DP_Malformed" by (simp add: dtls_read_u16_def get_range_def)
  then show ?thesis using share_group [of grp "[]"] ext_types_differ [symmetric]
    by (cases "grp = NAMED_GROUP_X25519") (simp_all add: dsh_extension_def share_error_def to_be_bytes_inject)
qed

lemma dsh_hello_share:
  assumes "length (extension (grp, k)) < 2 ^ 16"
  shows "dsh_extension EXT_KEY_SHARE (extension (grp, k)) st =
    (if x25519_share (extension (grp, k)) then Inr (dsh_fields [(EXT_KEY_SHARE, extension (grp, k))] st)
     else Inl DP_UnexpectedGroup)"
proof -
  let ?d = "extension (grp, k)"
  have d: "?d = to_be_bytes grp @ be_bytes 2 (length k) @ k" by (simp add: extension_def vec16_def)
  have k: "length k < 2 ^ 16" using assms by simp
  then have "unat (word_of_nat (length k) :: 16 word) = length k" by (simp add: unat_of_nat)
  moreover have "dtls_read_u16 ?d 2 = Inr (word_of_nat (length k))"
    unfolding d using k by (subst dtls_read_u16_at) (simp_all add: from_be_bytes_be_bytes)
  moreover have "get_range 4 (4 + length k) ?d = Some k" "drop 4 ?d = k" by (simp_all add: d get_range_def)
  moreover have "x25519_share ?d \<longleftrightarrow> grp = NAMED_GROUP_X25519 \<and> length k = 32"
    by (auto simp: x25519_share_def extension_def vec16_def to_be_bytes_inject)
  ultimately show ?thesis using share_group [of grp "be_bytes 2 (length k) @ k", folded d] ext_types_differ ext_types_differ [symmetric]
    by (cases "grp = NAMED_GROUP_X25519") (simp_all add: dsh_extension_def dsh_fields_def)
qed

lemma dsh_walk_result:
  "dsh_ok retry exts \<Longrightarrow> dsh_walk exts st =
     (case map_of exts EXT_KEY_SHARE of
        Some d \<Rightarrow> if x25519_share d then Inr (dsh_fields exts st) else Inl (share_error d)
      | None \<Rightarrow> Inr (dsh_fields exts st))"
proof (induction exts arbitrary: st)
  case Nil
  then show ?case by (simp add: dsh_fields_def)
next
  case (Cons e es)
  obtain t d where e: "e = (t, d)" by fastforce
  have ok: "dsh_ok retry [(t, d)]" "dsh_ok retry es" and fresh: "map_of es t = None"
    using Cons.prems by (auto simp: dsh_ok_def e map_of_eq_None_iff)
  have fields: "dsh_fields es (dsh_fields [(t, d)] st) = dsh_fields ((t, d) # es) st"
    using fresh by (auto simp: dsh_fields_def split: option.split)
  show ?case
  proof (cases "t = EXT_KEY_SHARE")
    case False
    then show ?thesis using Cons.IH [OF ok(2)] dsh_other_extension [OF ok(1)] fields
      by (simp add: e split: option.split)
  next
    case True
    have "dsh_extension t d st = (if x25519_share d then Inr (dsh_fields [(t, d)] st) else Inl (share_error d))"
    proof (cases retry)
      case retry: True
      then obtain grp :: "16 word" where d: "d = to_be_bytes grp" using ok(1) True by (auto simp: dsh_ok_def)
      moreover have "\<not> x25519_share d" by (auto simp: d x25519_share_def dest: arg_cong [where f = length])
      ultimately show ?thesis using True dsh_retry_share by simp
    next
      case hello: False
      then obtain grp k where d: "d = extension (grp, k)" "length d < 2 ^ 16" using ok(1) True ext_types_differ by (auto simp: dsh_ok_def)
      then have "d \<noteq> to_be_bytes NAMED_GROUP_X25519" by (auto dest: arg_cong [where f = length])
      then show ?thesis using True d dsh_hello_share [of grp k] by (simp add: share_error_def)
    qed
    then show ?thesis using Cons.IH [OF ok(2)] fresh fields True by (simp add: e)
  qed
qed

text \<open>C30: A ServerHello or HelloRetryRequest laid out as RFC 8446 and RFC 9147 say - distinct extensions in any
  order, unknown ones among them, anything after the message - is read to exactly what it carries.  The fixed
  random makes it a retry: it is read to its cookie, refused when that is missing, and refused when it
  selects a group, since the only group the client offers is the one it has already sent a share for.
  Otherwise it is a hello: it is read to the X25519 share and the optional connection id, and refused
  exactly when the share is missing, of another group, or not of 32 bytes.\<close>

theorem dtls_server_hello_read:
  assumes "length ver = 2" "length random = 32" "length sid < 256" "dsh_ok (random = HRR_RANDOM) exts"
    and "length (concat (map extension exts)) < 2 ^ 16"
  shows "dtls_parse_server_hello (dtls_server_hello_body ver random sid suite compression exts @ post) =
    (if random = HRR_RANDOM then
       (case (map_of exts EXT_KEY_SHARE, map_of exts EXT_COOKIE) of
          (Some d, _) \<Rightarrow> Inl (if d = to_be_bytes NAMED_GROUP_X25519 then DP_Malformed else DP_UnexpectedGroup)
        | (None, None) \<Rightarrow> Inl DP_MissingCookie
        | (None, Some d) \<Rightarrow> Inr (SHK_Retry suite (drop 2 d)))
     else
       (case map_of exts EXT_KEY_SHARE of
          None \<Rightarrow> Inl DP_MissingKeyShare
        | Some d \<Rightarrow>
            if \<exists>k. length k = 32 \<and> d = extension (NAMED_GROUP_X25519, k)
            then Inr (SHK_Hello suite (drop 4 d) (map_option (drop 1) (map_of exts EXT_CONNECTION_ID)))
            else Inl DP_UnexpectedGroup))"
proof -
  have l: "list_all (\<lambda>(t, d). length d < 2 ^ 16) exts" using assms(4) by (auto simp: dsh_ok_def list_all_iff)
  note walk = dtls_parse_server_hello_walk [OF assms(1-3) l assms(5)] dsh_walk_result [OF assms(4)]
  show ?thesis
  proof (cases "map_of exts EXT_KEY_SHARE")
    case None
    then show ?thesis using walk by (auto simp: dsh_finish_def dsh_fields_def split: option.split)
  next
    case (Some d)
    then have "(EXT_KEY_SHARE, d) \<in> set exts" by (rule map_of_SomeD)
    then have "if random = HRR_RANDOM then \<exists>grp :: 16 word. d = to_be_bytes grp else \<exists>grp k. d = extension (grp, k)"
      using assms(4) by (auto simp: dsh_ok_def list_all_iff)
    then have "if random = HRR_RANDOM then length d = 2 else 4 \<le> length d" by (auto split: if_splits)
    then have "random = HRR_RANDOM \<Longrightarrow> \<not> x25519_share d" "random \<noteq> HRR_RANDOM \<Longrightarrow> share_error d = DP_UnexpectedGroup"
      by (auto simp: x25519_share_def share_error_def)
    then show ?thesis using walk Some
      by (auto simp: dsh_finish_def dsh_fields_def share_error_def x25519_share_def [symmetric] split: option.split)
  qed
qed

theorem dtls_server_hello_read_witness:
  "dsh_ok True [(EXT_COOKIE, vec16 [4, 5])] \<and>
   dtls_parse_server_hello (dtls_server_hello_body [0xFE, 0xFD] HRR_RANDOM [] 0x1301 0 [(EXT_COOKIE, vec16 [4, 5])]) =
     Inr (SHK_Retry 0x1301 [4, 5])"
proof
  show ok: "dsh_ok True [(EXT_COOKIE, vec16 [4, 5])]"
    using ext_types_differ by (auto simp: dsh_ok_def vec16_def)
  then have "dsh_ok (HRR_RANDOM = HRR_RANDOM) [(EXT_COOKIE, vec16 [4, 5])]" by simp
  from dtls_server_hello_read [OF _ _ _ this, of "[0xFE, 0xFD]" "[]" "0x1301" 0 "[]"]
  show "dtls_parse_server_hello (dtls_server_hello_body [0xFE, 0xFD] HRR_RANDOM [] 0x1301 0 [(EXT_COOKIE, vec16 [4, 5])]) =
     Inr (SHK_Retry 0x1301 [4, 5])"
    using ext_types_differ by (simp add: HRR_RANDOM_def vec16_def)
qed

end
