(* ===== verification/Dtls_Client.thy ===== *)
theory Dtls_Client
  imports Dtls_Handshake Replay
begin

text \<open>
  The data phase of \<^verbatim>\<open>dtls/client.rs\<close> over the \<^verbatim>\<open>DatagramTransport\<close> of \<^verbatim>\<open>dtls/transport.rs\<close>: sealing
  and sending application data, and the receive loop with its anti-replay window, its stash of
  coalesced records and the resent Finished.

  A transport is a record of its two methods over a state; \<^verbatim>\<open>dt_recv\<close> is given the length of the buffer
  and returns the bytes it wrote.  An array with its length (\<^verbatim>\<open>fin_flight\<close>, \<^verbatim>\<open>send_cid\<close>,
  \<^verbatim>\<open>recv_stash\<close>) is the list of its used bytes.  Opening a record in place changes only the record, which
  is not looked at again.  The receive loop ends only when the transport stops delivering useless
  datagrams, so it is a partial function: \<^verbatim>\<open>None\<close> is a call that does not return.
\<close>

section \<open>Model\<close>

record ('t, 'e) DatagramTransport =
  dt_send :: "bytes \<Rightarrow> 't \<Rightarrow> 't \<times> ('e + unit)"
  dt_recv :: "nat \<Rightarrow> 't \<Rightarrow> 't \<times> ('e + bytes option)"

datatype 'e DtlsClientError =
    DC_Transport 'e
  | DC_Timeout
  | DC_Protocol
  | DC_Handshake
  | DC_KeySchedule
  | DC_Rng
  | DC_BufferTooSmall
  | DC_StrategyRejected
  | DC_PubkeyMismatch
  | DC_HostnameMismatch
  | DC_CertVerify
  | DC_RecordSizeLimit

record DtlsClient =
  dc_client_app :: EpochKeys
  dc_server_app :: EpochKeys
  dc_send_seq :: "64 word"
  dc_recv_hint :: "64 word"
  dc_server_replay :: ReplayWindow
  dc_fin_flight :: bytes
  dc_fin_resends_left :: "8 word"
  dc_recv_cid_len :: nat
  dc_send_cid :: bytes
  dc_recv_stash :: bytes
  dc_peer_record_limit :: "16 word option"

definition is_ciphertext_record :: "8 word \<Rightarrow> bool" where
  "is_ciphertext_record first \<longleftrightarrow> first AND 0xE0 = 0x20"

definition app_header :: "DtlsClient \<Rightarrow> SealHeader" where
  "app_header c = \<lparr>sh_epoch = 3, sh_seq = dc_send_seq c, sh_seq_len = SeqTwo,
     sh_cid = (if length (dc_send_cid c) > 0 then Some (dc_send_cid c) else None)\<rparr>"

definition dtls_send ::
  "DtlsSuite \<Rightarrow> ('t, 'e) DatagramTransport \<Rightarrow> bytes \<Rightarrow> bytes \<Rightarrow> DtlsClient \<Rightarrow> 't \<Rightarrow>
   't \<times> DtlsClient \<times> ('e DtlsClientError + unit)" where
  "dtls_send S T payload out c t =
     (if (case dc_peer_record_limit c of Some limit \<Rightarrow> length payload + 1 > unat limit | None \<Rightarrow> False)
      then (t, c, Inl DC_RecordSizeLimit)
      else
        case seal S (dc_client_app c) (app_header c) payload CT_APPLICATION_DATA out of
          Inl e \<Rightarrow> (t, c, Inl DC_BufferTooSmall)
        | Inr sealed \<Rightarrow>
            (case dt_send T sealed t of
               (t, Inl e) \<Rightarrow> (t, c, Inl (DC_Transport e))
             | (t, Inr u) \<Rightarrow> (t, c\<lparr>dc_send_seq := dc_send_seq c + 1\<rparr>, Inr ())))"

text \<open>The records of one datagram from \<^verbatim>\<open>pos\<close> on.  \<^verbatim>\<open>Inr None\<close> leaves the walk for the next datagram,
  \<^verbatim>\<open>Inr (Some content)\<close> is a delivered payload.\<close>

function recv_walk ::
  "DtlsSuite \<Rightarrow> ('t, 'e) DatagramTransport \<Rightarrow> nat \<Rightarrow> bytes \<Rightarrow> nat \<Rightarrow> DtlsClient \<Rightarrow> 't \<Rightarrow>
   't \<times> DtlsClient \<times> ('e DtlsClientError + bytes option)" where
  "recv_walk S T buf_len dg pos c t =
     (if pos < length dg then
        let first = dg ! pos in
        if \<not> is_ciphertext_record first then (t, c, Inr None)
        else if pos = 0 \<and> first AND 0b11 = 0b10 then
          (if dc_fin_resends_left c > 0 then
             let c = c\<lparr>dc_fin_resends_left := dc_fin_resends_left c - 1\<rparr> in
             (case dt_send T (dc_fin_flight c) t of
                (t, Inl e) \<Rightarrow> (t, c, Inl (DC_Transport e))
              | (t, Inr u) \<Rightarrow> (t, c, Inr None))
           else (t, c, Inr None))
        else
          case open_record S (dc_server_app c) (dc_recv_cid_len c) (dc_recv_hint c) (drop pos dg) of
            Inl e \<Rightarrow> (t, c, Inr None)
          | Inr opened \<Rightarrow>
              if op_record_len opened = 0 then (t, c, Inr None)
              else if \<not> accepts (dc_server_replay c) (op_seq opened)
              then recv_walk S T buf_len dg (pos + op_record_len opened) c t
              else
                let c = c\<lparr>dc_server_replay := mark (dc_server_replay c) (op_seq opened),
                          dc_recv_hint := max (dc_recv_hint c) (op_seq opened + 1),
                          dc_fin_resends_left := 0\<rparr>
                in
                if op_content_type opened = CT_APPLICATION_DATA then
                  (if length (op_content opened) > buf_len then (t, c, Inl DC_BufferTooSmall)
                   else
                     let rest = pos + op_record_len opened;
                         c = (if rest < length dg then c\<lparr>dc_recv_stash := drop rest dg\<rparr> else c)
                     in (t, c, Inr (Some (op_content opened))))
                else recv_walk S T buf_len dg (pos + op_record_len opened) c t
      else (t, c, Inr None))"
  by pat_completeness auto
termination
  by (relation "measure (\<lambda>(S, T, buf_len, dg, pos, c, t). length dg - pos)") auto

declare recv_walk.simps [simp del]

text \<open>The next datagram to walk: the stash, or what the transport delivers.\<close>

definition next_datagram ::
  "('t, 'e) DatagramTransport \<Rightarrow> DtlsClient \<Rightarrow> 't \<Rightarrow> 't \<times> DtlsClient \<times> ('e DtlsClientError + bytes option)" where
  "next_datagram T c t =
     (if length (dc_recv_stash c) > 0 then (t, c\<lparr>dc_recv_stash := []\<rparr>, Inr (Some (dc_recv_stash c)))
      else
        case dt_recv T MAX_DATAGRAM t of
          (t, Inl e) \<Rightarrow> (t, c, Inl (DC_Transport e))
        | (t, Inr dg) \<Rightarrow> (t, c, Inr dg))"

partial_function (option) dtls_recv ::
  "DtlsSuite \<Rightarrow> ('t, 'e) DatagramTransport \<Rightarrow> nat \<Rightarrow> DtlsClient \<Rightarrow> 't \<Rightarrow>
   ('t \<times> DtlsClient \<times> ('e DtlsClientError + bytes option)) option" where
  "dtls_recv S T buf_len c t =
     (case next_datagram T c t of
        (t, c, Inl e) \<Rightarrow> Some (t, c, Inl e)
      | (t, c, Inr None) \<Rightarrow> Some (t, c, Inr None)
      | (t, c, Inr (Some dg)) \<Rightarrow>
          (case recv_walk S T buf_len dg 0 c t of
             (t, c, Inl e) \<Rightarrow> Some (t, c, Inl e)
           | (t, c, Inr (Some content)) \<Rightarrow> Some (t, c, Inr (Some content))
           | (t, c, Inr None) \<Rightarrow> dtls_recv S T buf_len c t))"

declare dtls_recv.simps [code]

section \<open>What a walk changes\<close>

text \<open>The fields no method of the data phase changes.\<close>

definition same_session :: "DtlsClient \<Rightarrow> DtlsClient \<Rightarrow> bool" where
  "same_session c c' \<longleftrightarrow> dc_client_app c' = dc_client_app c \<and> dc_server_app c' = dc_server_app c \<and>
     dc_send_seq c' = dc_send_seq c \<and> dc_recv_cid_len c' = dc_recv_cid_len c \<and> dc_send_cid c' = dc_send_cid c \<and>
     dc_peer_record_limit c' = dc_peer_record_limit c \<and> dc_fin_flight c' = dc_fin_flight c"

text \<open>The window only ever rejects more.\<close>

definition window_grows :: "DtlsClient \<Rightarrow> DtlsClient \<Rightarrow> bool" where
  "window_grows c c' \<longleftrightarrow> (\<forall>q. \<not> accepts (dc_server_replay c) q \<longrightarrow> \<not> accepts (dc_server_replay c') q)"

text \<open>A payload is the content of an application record with this number that opens under the keys.\<close>

definition opens_as :: "DtlsSuite \<Rightarrow> DtlsClient \<Rightarrow> 64 word \<Rightarrow> bytes \<Rightarrow> bool" where
  "opens_as S c q content \<longleftrightarrow> (\<exists>hint rec opened.
     open_record S (dc_server_app c) (dc_recv_cid_len c) hint rec = Inr opened \<and> op_seq opened = q \<and>
     op_content_type opened = CT_APPLICATION_DATA \<and> op_content opened = content)"

definition recv_keeps :: "DtlsSuite \<Rightarrow> DtlsClient \<Rightarrow> DtlsClient \<Rightarrow> 'e DtlsClientError + bytes option \<Rightarrow> bool" where
  "recv_keeps S c c' res \<longleftrightarrow> same_session c c' \<and> window_grows c c' \<and>
     (case res of Inr (Some content) \<Rightarrow>
        \<exists>q. accepts (dc_server_replay c) q \<and> \<not> accepts (dc_server_replay c') q \<and> opens_as S c q content
      | _ \<Rightarrow> True)"

lemma recv_keeps_refl: "recv_keeps S c c (Inl e)" "recv_keeps S c c (Inr None)"
  by (simp_all add: recv_keeps_def same_session_def window_grows_def)

lemma recv_keeps_trans:
  assumes "same_session c c1" "window_grows c c1" "recv_keeps S c1 c2 res"
  shows "recv_keeps S c c2 res"
proof -
  have "opens_as S c q content = opens_as S c1 q content" for q content using assms(1) by (simp add: opens_as_def same_session_def)
  then show ?thesis using assms
    by (fastforce simp: recv_keeps_def same_session_def window_grows_def split: sum.split option.split)
qed

lemma recv_walk_keeps: "recv_walk S T buf_len dg pos c t = (t', c', res) \<Longrightarrow> recv_keeps S c c' res"
proof (induction S T buf_len dg pos c t arbitrary: t' c' res rule: recv_walk.induct)
  case (1 S T buf_len dg pos c t)
  note unf = recv_walk.simps [of S T buf_len dg pos c t]
  let ?open = "open_record S (dc_server_app c) (dc_recv_cid_len c) (dc_recv_hint c) (drop pos dg)"
  show ?case
  proof (cases "pos < length dg \<and> is_ciphertext_record (dg ! pos) \<and> \<not> (pos = 0 \<and> dg ! pos AND 0b11 = 0b10)")
    case False
    then show ?thesis using "1.prems"
      by (auto simp: unf Let_def recv_keeps_def same_session_def window_grows_def split: if_splits prod.splits sum.splits)
  next
    case True
    show ?thesis
    proof (cases ?open)
      case (Inl e)
      then show ?thesis using "1.prems" True by (auto simp: unf Let_def recv_keeps_refl)
    next
      case (Inr opened)
      consider "op_record_len opened = 0" | "op_record_len opened \<noteq> 0" "\<not> accepts (dc_server_replay c) (op_seq opened)"
        | "op_record_len opened \<noteq> 0" "accepts (dc_server_replay c) (op_seq opened)" by blast
      then show ?thesis
      proof cases
        case 1
        then show ?thesis using "1.prems" True Inr by (auto simp: unf Let_def recv_keeps_refl)
      next
        case 2
        then show ?thesis using "1.prems" "1.IH"(1) [OF _ refl _ _ Inr] True Inr by (auto simp: unf Let_def)
      next
        case 3
        let ?c = "c\<lparr>dc_server_replay := mark (dc_server_replay c) (op_seq opened),
          dc_recv_hint := max (dc_recv_hint c) (op_seq opened + 1), dc_fin_resends_left := 0\<rparr>"
        have m: "same_session c ?c" "window_grows c ?c"
          by (simp_all add: same_session_def window_grows_def mark_keeps_rejected)
        show ?thesis
        proof (cases "op_content_type opened = CT_APPLICATION_DATA")
          case False
          then have "recv_walk S T buf_len dg (pos + op_record_len opened) ?c t = (t', c', res)"
            using "1.prems" True Inr 3 by (simp add: unf Let_def)
          then have "recv_keeps S ?c c' res" using "1.IH"(2) [OF _ refl _ _ Inr] True 3 False by auto
          then show ?thesis by (rule recv_keeps_trans [OF m])
        next
          case app: True
          have "opens_as S c (op_seq opened) (op_content opened)" using Inr app by (auto simp: opens_as_def)
          then have "\<exists>q. accepts (dc_server_replay c) q \<and> \<not> accepts (mark (dc_server_replay c) (op_seq opened)) q \<and>
              opens_as S c q (op_content opened)" using 3(2) mark_rejects by blast
          then show ?thesis using "1.prems" True Inr 3 app m
            by (auto simp: unf Let_def recv_keeps_def same_session_def window_grows_def mark_rejects mark_keeps_rejected
                split: if_splits)
        qed
      qed
    qed
  qed
qed

lemma next_datagram_keeps:
  "next_datagram T c t = (t', c', res) \<Longrightarrow> same_session c c' \<and> window_grows c c'"
  by (auto simp: next_datagram_def same_session_def window_grows_def split: if_splits prod.splits sum.splits)

lemma dtls_recv_keeps:
  fixes T :: "('t, 'e) DatagramTransport"
  assumes "dtls_recv S T buf_len c t = Some r"
  shows "recv_keeps S c (fst (snd r)) (snd (snd r))"
proof (rule dtls_recv.raw_induct
    [where P = "\<lambda>S (T :: ('t, 'e) DatagramTransport) buf_len c t r. recv_keeps S c (fst (snd r)) (snd (snd r))", OF _ assms], goal_cases)
  case loop: (1 loop S T buf_len c t r)
  obtain t1 c1 dg where n: "next_datagram T c t = (t1, c1, dg)" by (metis surj_pair)
  note k = next_datagram_keeps [OF n]
  show ?case
  proof (cases "\<exists>d. dg = Inr (Some d)")
    case False
    then have "r = (t1, c1, dg)" "\<forall>d. dg \<noteq> Inr (Some d)" using loop(2) n by (auto split: sum.splits option.splits)
    then show ?thesis using k by (auto simp: recv_keeps_def split: sum.split option.split)
  next
    case True
    then obtain d where d: "dg = Inr (Some d)" by blast
    obtain t2 c2 res where w: "recv_walk S T buf_len d 0 c1 t1 = (t2, c2, res)" by (metis surj_pair)
    note kw = recv_walk_keeps [OF w]
    show ?thesis
    proof (cases "res = Inr None")
      case True
      then have "loop S T buf_len c2 t2 = Some r" using loop(2) n d w by simp
      then have "recv_keeps S c2 (fst (snd r)) (snd (snd r))" by (rule loop(1))
      moreover have "same_session c1 c2" "window_grows c1 c2" using kw by (simp_all add: recv_keeps_def)
      ultimately show ?thesis using recv_keeps_trans k by blast
    next
      case False
      then have "r = (t2, c2, res)" using loop(2) n d w by (cases res) (auto split: option.splits)
      then show ?thesis using recv_keeps_trans k kw by auto
    qed
  qed
qed

section \<open>Runs of the data phase\<close>

text \<open>A transport with a log of the datagrams it has accepted.\<close>

definition logs_datagrams :: "('t, 'e) DatagramTransport \<Rightarrow> ('t \<Rightarrow> bytes list) \<Rightarrow> bool" where
  "logs_datagrams T lg \<longleftrightarrow> (\<forall>dg t t'. dt_send T dg t = (t', Inr ()) \<longrightarrow> lg t' = lg t @ [dg])"

text \<open>The calls on a client in any order, with the payloads delivered, and for each payload sent the datagrams
  the call has added to the log of the transport.\<close>

inductive dtls_run ::
  "DtlsSuite \<Rightarrow> ('t, 'e) DatagramTransport \<Rightarrow> ('t \<Rightarrow> bytes list) \<Rightarrow> DtlsClient \<Rightarrow> DtlsClient \<Rightarrow> bytes list \<Rightarrow> (bytes \<times> bytes) list \<Rightarrow> bool"
  for S :: DtlsSuite and T :: "('t, 'e) DatagramTransport" and lg :: "'t \<Rightarrow> bytes list" and c0 :: DtlsClient where
  start: "dtls_run S T lg c0 c0 [] []"
| send: "\<lbrakk>dtls_run S T lg c0 c delivered sent; dtls_send S T payload out c t = (t', c', Inr ())\<rbrakk> \<Longrightarrow>
    dtls_run S T lg c0 c' delivered (sent @ map (Pair payload) (drop (length (lg t)) (lg t')))"
| send_fails: "\<lbrakk>dtls_run S T lg c0 c delivered sent; dtls_send S T payload out c t = (t', c', Inl err)\<rbrakk> \<Longrightarrow>
    dtls_run S T lg c0 c' delivered sent"
| recv: "\<lbrakk>dtls_run S T lg c0 c delivered sent; dtls_recv S T buf_len c t = Some (t', c', res)\<rbrakk> \<Longrightarrow>
    dtls_run S T lg c0 c' (case res of Inr (Some content) \<Rightarrow> delivered @ [content] | _ \<Rightarrow> delivered) sent"

lemma dtls_send_session:
  assumes "dtls_send S T payload out c t = (t', c', res)"
  shows "c' = (if is_ok res then c\<lparr>dc_send_seq := dc_send_seq c + 1\<rparr> else c)"
  using assms by (auto simp: dtls_send_def split: if_splits option.splits sum.splits prod.splits)

definition delivery_inv :: "DtlsSuite \<Rightarrow> DtlsClient \<Rightarrow> DtlsClient \<Rightarrow> bytes list \<Rightarrow> bool" where
  "delivery_inv S c0 c delivered \<longleftrightarrow> dc_server_app c = dc_server_app c0 \<and> dc_recv_cid_len c = dc_recv_cid_len c0 \<and>
     (\<exists>qs. distinct qs \<and> list_all2 (opens_as S c0) qs delivered \<and> (\<forall>q \<in> set qs. \<not> accepts (dc_server_replay c) q))"

lemma delivery_inv_recv:
  assumes "delivery_inv S c0 c delivered" "recv_keeps S c c' res"
  shows "delivery_inv S c0 c' (case res of Inr (Some content) \<Rightarrow> delivered @ [content] | _ \<Rightarrow> delivered)"
proof -
  obtain qs where qs: "distinct qs" "list_all2 (opens_as S c0) qs delivered" "\<forall>q \<in> set qs. \<not> accepts (dc_server_replay c) q"
    and keys: "dc_server_app c = dc_server_app c0" "dc_recv_cid_len c = dc_recv_cid_len c0"
    using assms(1) by (auto simp: delivery_inv_def)
  have same: "dc_server_app c' = dc_server_app c0" "dc_recv_cid_len c' = dc_recv_cid_len c0"
    "\<forall>q \<in> set qs. \<not> accepts (dc_server_replay c') q"
    using assms(2) keys qs(3) by (auto simp: recv_keeps_def same_session_def window_grows_def)
  show ?thesis
  proof (cases "\<exists>content. res = Inr (Some content)")
    case True
    then obtain content q where res: "res = Inr (Some content)" and q: "accepts (dc_server_replay c) q"
      "\<not> accepts (dc_server_replay c') q" "opens_as S c q content"
      using assms(2) by (auto simp: recv_keeps_def)
    have "opens_as S c0 q content" using q(3) keys by (simp add: opens_as_def)
    then have "distinct (qs @ [q])" "list_all2 (opens_as S c0) (qs @ [q]) (delivered @ [content])"
      "\<forall>q' \<in> set (qs @ [q]). \<not> accepts (dc_server_replay c') q'"
      using qs q same(3) by (auto simp: list_all2_appendI)
    then show ?thesis using same(1,2) unfolding delivery_inv_def res sum.case option.case by blast
  next
    case False
    then show ?thesis using qs same by (auto simp: delivery_inv_def split: sum.split option.split)
  qed
qed

lemma dtls_run_delivery: "dtls_run S T lg c0 c delivered sent \<Longrightarrow> delivery_inv S c0 c delivered"
proof (induction rule: dtls_run.induct)
  case start
  show ?case by (auto simp: delivery_inv_def)
next
  case (send c delivered sent payload out t t' c')
  then show ?case using dtls_send_session [OF send.hyps(2)] by (simp add: delivery_inv_def)
next
  case (send_fails c delivered sent payload out t t' c' err)
  then show ?case using dtls_send_session [OF send_fails.hyps(2)] by (simp add: delivery_inv_def)
next
  case (recv c delivered sent buf_len t t' c' res)
  then show ?case using delivery_inv_recv dtls_recv_keeps [OF recv.hyps(2)] by simp
qed

text \<open>An instance: a transport that delivers the datagrams of a queue, one that also keeps what is sent, and a
  client under toy keys.\<close>

definition queue_transport :: "(bytes list, unit) DatagramTransport" where
  "queue_transport = \<lparr>dt_send = (\<lambda>d q. (q, Inr ())),
     dt_recv = (\<lambda>n q. case q of [] \<Rightarrow> ([], Inr None) | d # ds \<Rightarrow> (ds, Inr (Some (take n d))))\<rparr>"

definition logged :: "('t, 'e) DatagramTransport \<Rightarrow> ('t \<times> bytes list, 'e) DatagramTransport" where
  "logged T = \<lparr>dt_send = (\<lambda>d (t, l). case dt_send T d t of (t, r) \<Rightarrow> ((t, if is_ok r then l @ [d] else l), r)),
     dt_recv = (\<lambda>n (t, l). case dt_recv T n t of (t, r) \<Rightarrow> ((t, l), r))\<rparr>"

lemma logged_logs: "logs_datagrams (logged T) snd"
  by (auto simp: logs_datagrams_def logged_def split: prod.splits)

definition demo_client :: DtlsClient where
  "demo_client = \<lparr>dc_client_app = demo_keys, dc_server_app = demo_keys, dc_send_seq = 0, dc_recv_hint = 0,
     dc_server_replay = ReplayWindow_new, dc_fin_flight = [], dc_fin_resends_left = 5, dc_recv_cid_len = 0,
     dc_send_cid = [], dc_recv_stash = [], dc_peer_record_limit = None\<rparr>"

definition demo_dtls_record :: bytes where
  "demo_dtls_record = [0x2F, 0xFF - 2, 0xFF - 23, 0, 18, 0xFF - 2, 0xFF - 23] @ replicate 16 7"

lemma demo_sealed: "seal demo_suite demo_keys (app_header demo_client) [2] CT_APPLICATION_DATA (replicate 40 0) = Inr demo_dtls_record"
  by code_simp

lemma demo_sent: "dtls_send demo_suite (logged queue_transport) [2] (replicate 40 0) demo_client (q, l) =
    ((q, l @ [demo_dtls_record]), demo_client\<lparr>dc_send_seq := 1\<rparr>, Inr ())"
  using demo_sealed by (simp add: dtls_send_def demo_client_def queue_transport_def logged_def)

text \<open>C8: No datagram, however often it is replayed, and in whatever order records arrive, makes a client
  deliver a record twice: the payloads delivered in a run are the contents of application records with
  pairwise different numbers, each authenticated under the server's epoch-3 keys.\<close>

theorem dtls_delivers_once:
  assumes "dtls_run S T lg c0 c delivered sent"
  shows "\<exists>qs. distinct qs \<and> list_all2 (opens_as S c0) qs delivered"
  using dtls_run_delivery [OF assms] by (auto simp: delivery_inv_def)

lemma demo_run_sent:
  "dtls_run demo_suite (logged queue_transport) snd demo_client (demo_client\<lparr>dc_send_seq := 1\<rparr>) [] [([2], demo_dtls_record)]"
  using dtls_run.send [OF dtls_run.start demo_sent, of snd "[]" "[]"] by simp

text \<open>The record arrives twice; the second call times out.\<close>

definition demo_client_after :: DtlsClient where
  "demo_client_after = demo_client\<lparr>dc_send_seq := 1, dc_recv_hint := 1, dc_server_replay := mark ReplayWindow_new 0,
     dc_fin_resends_left := 0\<rparr>"

lemma demo_received_once:
  "dtls_recv demo_suite (logged queue_transport) 10 (demo_client\<lparr>dc_send_seq := 1\<rparr>) ([demo_dtls_record, demo_dtls_record], []) =
     Some (([demo_dtls_record], []), demo_client_after, Inr (Some [2]))"
  "dtls_recv demo_suite (logged queue_transport) 10 demo_client_after ([demo_dtls_record], []) = Some (([], []), demo_client_after, Inr None)"
  by code_simp+

theorem dtls_delivers_once_witness:
  "dtls_run demo_suite (logged queue_transport) snd demo_client demo_client_after [[2]] [([2], demo_dtls_record)] \<and>
   (\<exists>qs. distinct qs \<and> list_all2 (opens_as demo_suite demo_client) qs [[2]])"
proof -
  from dtls_run.recv [OF demo_run_sent demo_received_once(1)]
  have "dtls_run demo_suite (logged queue_transport) snd demo_client demo_client_after [[2]] [([2], demo_dtls_record)]" by simp
  from dtls_run.recv [OF this demo_received_once(2)]
  have "dtls_run demo_suite (logged queue_transport) snd demo_client demo_client_after [[2]] [([2], demo_dtls_record)]" by simp
  then show ?thesis using dtls_delivers_once by blast
qed

text \<open>A datagram is the output of the cipher on an application payload, under this key and nonce, behind a
  header.\<close>

definition datagram_sealed :: "DtlsSuite \<Rightarrow> bytes \<Rightarrow> bytes \<Rightarrow> bytes \<times> bytes \<Rightarrow> bool" where
  "datagram_sealed S key nonce = (\<lambda>(payload, dg). \<exists>aad hdr body tag.
     encrypt_inout_detached (ds_cipher S) key nonce aad (payload @ [CT_APPLICATION_DATA]) = Some (body, tag) \<and> dg = hdr @ body @ tag)"

lemma seal_sealed:
  assumes "seal S keys hdr payload CT_APPLICATION_DATA out = Inr rec"
  shows "datagram_sealed S (rk_key (ek_keys keys)) (aead_nonce (rk_iv (ek_keys keys)) (sh_seq hdr)) (payload, rec)"
proof -
  obtain aad body tag hdr' where "seal_in_place (ds_cipher S) (ek_keys keys) aad (sh_seq hdr) (payload @ [CT_APPLICATION_DATA]) = Some (body, tag)"
    "rec = hdr' @ body @ tag"
    using assms by (fastforce simp: seal_def Let_def split: if_splits option.splits)
  then show ?thesis by (auto simp: datagram_sealed_def seal_in_place_def run_encrypt_def)
qed

text \<open>A successful send hands exactly one sealed record to the transport.\<close>

lemma dtls_send_hands_over:
  assumes "logs_datagrams T lg" "dtls_send S T payload out c t = (t', c', Inr ())"
  obtains rec where "lg t' = lg t @ [rec]" "seal S (dc_client_app c) (app_header c) payload CT_APPLICATION_DATA out = Inr rec"
    "c' = c\<lparr>dc_send_seq := dc_send_seq c + 1\<rparr>"
  using assms by (auto simp: dtls_send_def logs_datagrams_def split: if_splits option.splits sum.splits prod.splits)

lemma dtls_run_sent:
  fixes c0 :: DtlsClient
  defines "nonce \<equiv> \<lambda>i. aead_nonce (rk_iv (ek_keys (dc_client_app c0))) (dc_send_seq c0 + word_of_nat i)"
  assumes T: "logs_datagrams T lg"
  shows "dtls_run S T lg c0 c delivered sent \<Longrightarrow>
     dc_client_app c = dc_client_app c0 \<and> dc_send_seq c = dc_send_seq c0 + word_of_nat (length sent) \<and>
     list_all2 (datagram_sealed S (rk_key (ek_keys (dc_client_app c0)))) (map nonce [0..<length sent]) sent"
proof (induction rule: dtls_run.induct)
  case (send c delivered sent payload out t t' c')
  obtain rec where rec: "lg t' = lg t @ [rec]" "seal S (dc_client_app c) (app_header c) payload CT_APPLICATION_DATA out = Inr rec"
    "c' = c\<lparr>dc_send_seq := dc_send_seq c + 1\<rparr>" by (rule dtls_send_hands_over [OF T send.hyps(2)])
  have "sh_seq (app_header c) = dc_send_seq c0 + word_of_nat (length sent)" using send.IH by (simp add: app_header_def)
  then have "datagram_sealed S (rk_key (ek_keys (dc_client_app c0))) (nonce (length sent)) (payload, rec)"
    using seal_sealed [OF rec(2)] send.IH by (simp add: nonce_def)
  then show ?case using send.IH rec
    by (auto intro: list_all2_appendI simp: add.assoc add.commute [of 1])
next
  case (send_fails c delivered sent payload out t t' c' err)
  then show ?case using dtls_send_session [OF send_fails.hyps(2)] by simp
next
  case (recv c delivered sent buf_len t t' c' res)
  then show ?case using dtls_recv_keeps [OF recv.hyps(2)] by (simp add: recv_keeps_def same_session_def)
qed simp

text \<open>C12: The AEAD nonce of a datagram handed to the transport is never used for another one.  A run keeps, for
  every payload sent, what the call has added to the transport's log.  As long as there are at most \<^verbatim>\<open>2^64\<close>
  of them, there are pairwise different nonces such that each datagram is the output of the cipher on its
  payload, under the client's application key and its nonce.\<close>

theorem dtls_nonces_never_repeat:
  assumes "logs_datagrams T lg" "dtls_run S T lg c0 c delivered sent" "length sent \<le> 2 ^ 64"
    and iv: "length (rk_iv (ek_keys (dc_client_app c0))) = 12"
  shows "\<exists>nonces. list_all2 (datagram_sealed S (rk_key (ek_keys (dc_client_app c0)))) nonces sent \<and> distinct nonces"
proof -
  let ?nonce = "\<lambda>i. aead_nonce (rk_iv (ek_keys (dc_client_app c0))) (dc_send_seq c0 + word_of_nat i)"
  have "inj_on ?nonce {..<length sent}"
  proof (rule inj_onI)
    fix i j
    assume ij: "i \<in> {..<length sent}" "j \<in> {..<length sent}" and "?nonce i = ?nonce j"
    then have "unat (word_of_nat i :: 64 word) = unat (word_of_nat j :: 64 word)" by (simp add: aead_nonce_injective [OF iv])
    then show "i = j" using ij assms(3) by (simp add: unat_of_nat)
  qed
  then have "distinct (map ?nonce [0..<length sent])" by (simp add: distinct_map lessThan_atLeast0)
  then show ?thesis using dtls_run_sent [OF assms(1,2)] by blast
qed

theorem dtls_nonces_never_repeat_witness:
  "\<exists>nonces. list_all2 (datagram_sealed demo_suite (rk_key (ek_keys (dc_client_app demo_client)))) nonces [([2], demo_dtls_record)] \<and>
     distinct nonces"
  by (rule dtls_nonces_never_repeat [OF logged_logs demo_run_sent]) (simp_all add: demo_client_def demo_keys_def)

text \<open>A send the transport refuses leaves the number where it was, so that the next payload is sealed under
  the nonce of the refused one.\<close>

lemma refused_send_keeps_number:
  assumes "dtls_send S T payload out c t = (t', c', Inl (DC_Transport e))"
  shows "app_header c' = app_header c \<and> dc_client_app c' = dc_client_app c"
  using dtls_send_session [OF assms] by simp

section \<open>From sender to receiver\<close>

lemma app_first_byte:
  assumes "seal S keys (app_header c) payload ct out = Inr rec"
  shows "rec \<noteq> [] \<and> is_ciphertext_record (rec ! 0) \<and> rec ! 0 AND 0b11 \<noteq> 0b10"
proof -
  have "rec \<noteq> [] \<and> rec ! 0 = unified_first (sh_epoch (app_header c)) (sh_cid (app_header c)) (sh_seq_len (app_header c))"
    using assms by (auto simp: seal_def Let_def split: if_splits option.splits)
  then show ?thesis
    using unified_first_bits(1,5) [of "sh_epoch (app_header c)" "sh_cid (app_header c)" "sh_seq_len (app_header c)"]
    by (simp add: is_ciphertext_record_def UNIFIED_HDR_FIXED_MASK_def UNIFIED_HDR_FIXED_def HDR_EPOCH_LOW2_def app_header_def)
qed

lemma sealed_is_received:
  assumes S: "suite_ok S" and small: "length payload \<le> TLS_PLAINTEXT_MAX" "length payload \<le> buf_len"
    and w: "seal S (dc_client_app w) (app_header w) payload CT_APPLICATION_DATA out = Inr rec"
    and r: "dc_server_app r = dc_client_app w" "dc_recv_cid_len r = length (dc_send_cid w)" "dc_recv_stash r = []"
      "2 * dist (unat (dc_send_seq w)) (unat (dc_recv_hint r)) < 2 ^ 16" "accepts (dc_server_replay r) (dc_send_seq w)"
    and t: "dt_recv T MAX_DATAGRAM t = (t', Inr (Some (rec @ rest)))"
  shows "\<exists>r'. dtls_recv S T buf_len r t = Some (t', r', Inr (Some payload)) \<and> dc_recv_stash r' = rest \<and>
    \<not> accepts (dc_server_replay r') (dc_send_seq w)"
proof -
  let ?q = "dc_send_seq w"
  note first = app_first_byte [OF w]
  have op: "open_record S (dc_server_app r) (dc_recv_cid_len r) (dc_recv_hint r) (rec @ rest) =
      Inr \<lparr>op_epoch_low2 = ucast (sh_epoch (app_header w)) AND HDR_EPOCH_LOW2, op_seq = sh_seq (app_header w),
        op_content_type = CT_APPLICATION_DATA, op_content = payload, op_record_len = length rec\<rparr>"
    unfolding r(1) using r by (intro dtls_record_round_trip [OF S _ small(1) _ _ _ w])
      (auto simp: app_header_def CT_APPLICATION_DATA_def seq_bits_def)
  let ?r = "r\<lparr>dc_server_replay := mark (dc_server_replay r) ?q, dc_recv_hint := max (dc_recv_hint r) (?q + 1),
    dc_fin_resends_left := 0\<rparr>"
  have "recv_walk S T buf_len (rec @ rest) 0 r t' =
      (t', if rest = [] then ?r else ?r\<lparr>dc_recv_stash := rest\<rparr>, Inr (Some payload))"
    using first r(5) small(2) op
    by (simp add: recv_walk.simps [of S T buf_len "rec @ rest"] Let_def nth_append) (simp add: app_header_def)
  moreover have "next_datagram T r t = (t', r, Inr (Some (rec @ rest)))" using t r(3) by (simp add: next_datagram_def)
  ultimately show ?thesis using r(3)
    by (simp add: dtls_recv.simps [of S T buf_len r t] mark_rejects)
qed

text \<open>C21: What one side sends the other receives.  A send that succeeds hands exactly one datagram to the
  transport.  When it arrives, with any records after it, at a receiver that has the sender's keys and
  connection id as the peer's, whose next expected number is less than half a window away and whose replay
  window has not seen the number, the receive call returns exactly the payload, keeps the rest of
  the datagram for the next call and will not accept the number again.\<close>

theorem dtls_sent_is_received:
  assumes "suite_ok S" "length payload \<le> TLS_PLAINTEXT_MAX" "length payload \<le> buf_len" "logs_datagrams T lg"
    and send: "dtls_send S T payload out w t = (t', w', Inr ())"
    and "dc_server_app r = dc_client_app w" "dc_recv_cid_len r = length (dc_send_cid w)" "dc_recv_stash r = []"
      "2 * dist (unat (dc_send_seq w)) (unat (dc_recv_hint r)) < 2 ^ 16" "accepts (dc_server_replay r) (dc_send_seq w)"
  shows "\<exists>dg. lg t' = lg t @ [dg] \<and>
    (\<forall>rest u u'. dt_recv T' MAX_DATAGRAM u = (u', Inr (Some (dg @ rest))) \<longrightarrow>
       (\<exists>r'. dtls_recv S T' buf_len r u = Some (u', r', Inr (Some payload)) \<and> dc_recv_stash r' = rest \<and>
          \<not> accepts (dc_server_replay r') (dc_send_seq w)))"
proof -
  obtain rec where rec: "lg t' = lg t @ [rec]" "seal S (dc_client_app w) (app_header w) payload CT_APPLICATION_DATA out = Inr rec"
    using dtls_send_hands_over [OF assms(4) send] by metis
  show ?thesis
    by (intro exI [of _ rec] conjI allI impI rec(1)) (rule sealed_is_received [OF assms(1-3) rec(2) assms(6-10)])
qed

theorem dtls_sent_is_received_witness:
  "\<exists>r'. dtls_recv demo_suite queue_transport 10 demo_client [demo_dtls_record @ [1]] = Some ([], r', Inr (Some [2])) \<and>
     dc_recv_stash r' = [1] \<and> \<not> accepts (dc_server_replay r') (dc_send_seq demo_client)"
proof -
  have "length demo_dtls_record = 23" by code_simp
  then have t: "dt_recv queue_transport MAX_DATAGRAM [demo_dtls_record @ [1]] = ([], Inr (Some (demo_dtls_record @ [1])))"
    by (simp add: queue_transport_def MAX_DATAGRAM_def)
  have "\<exists>dg. [demo_dtls_record] = [dg] \<and> (\<forall>rest u u'. dt_recv queue_transport MAX_DATAGRAM u = (u', Inr (Some (dg @ rest))) \<longrightarrow>
      (\<exists>r'. dtls_recv demo_suite queue_transport 10 demo_client u = Some (u', r', Inr (Some [2])) \<and> dc_recv_stash r' = rest \<and>
         \<not> accepts (dc_server_replay r') (dc_send_seq demo_client)))"
    using dtls_sent_is_received [OF demo_suite_ok _ _ logged_logs demo_sent [of "[]" "[]"], of 10 demo_client queue_transport]
    by (simp add: TLS_PLAINTEXT_MAX_def demo_client_def dist_def new_accepts)
  then show ?thesis using t by blast
qed

section \<open>The receive loop ends\<close>

lemma recv_walk_quiet:
  assumes send: "\<And>d t t' r. dt_send T d t = (t', r) \<Longrightarrow> left t' \<le> (left t :: nat)"
  shows "recv_walk S T buf_len dg pos c t = (t', c', Inr None) \<Longrightarrow> dc_recv_stash c' = dc_recv_stash c \<and> left t' \<le> left t"
proof (induction S T \<equiv> T buf_len dg pos c t arbitrary: t' c' rule: recv_walk.induct)
  case (1 S buf_len dg pos c t)
  note unf = recv_walk.simps [of S T buf_len dg pos c t]
  let ?open = "open_record S (dc_server_app c) (dc_recv_cid_len c) (dc_recv_hint c) (drop pos dg)"
  show ?case
  proof (cases "pos < length dg \<and> is_ciphertext_record (dg ! pos) \<and> \<not> (pos = 0 \<and> dg ! pos AND 0b11 = 0b10) \<and> is_ok ?open")
    case False
    then show ?thesis using "1.prems" send
      by (auto simp: unf Let_def is_ok_iff split: if_splits prod.splits sum.splits)
  next
    case True
    then obtain opened where o: "?open = Inr opened" by (auto simp: is_ok_iff)
    then show ?thesis using "1.prems" "1.hyps"(1) [OF _ refl _ _ o] "1.hyps"(2) [OF _ refl _ _ o] True
      by (auto simp: unf Let_def split: if_splits)
  qed
qed

text \<open>C20: A receive call returns.  Whatever the datagrams contain, when the transport can deliver only
  finitely many more of them before it times out, the loop ends.\<close>

theorem dtls_recv_returns:
  fixes left :: "'t \<Rightarrow> nat" and T :: "('t, 'e) DatagramTransport"
  assumes send: "\<And>d t t' r. dt_send T d t = (t', r) \<Longrightarrow> left t' \<le> left t"
    and recv: "\<And>n t t' d. dt_recv T n t = (t', Inr (Some d)) \<Longrightarrow> left t' < left t"
  shows "\<exists>r. dtls_recv S T buf_len c t = Some r"
proof (induction "2 * left t + (if dc_recv_stash c = [] then 0 else 1)" arbitrary: c t rule: less_induct)
  case less
  obtain t1 c1 dg where n: "next_datagram T c t = (t1, c1, dg)" by (metis surj_pair)
  show ?case
  proof (cases "\<exists>d. dg = Inr (Some d)")
    case False
    then show ?thesis using n by (auto simp: dtls_recv.simps [of S T buf_len c t] split: sum.split option.split)
  next
    case True
    then obtain d where d: "dg = Inr (Some d)" by blast
    have d1: "dc_recv_stash c1 = []" "2 * left t1 < 2 * left t + (if dc_recv_stash c = [] then 0 else 1)"
      using n d recv by (auto simp: next_datagram_def split: if_splits prod.splits sum.splits)
    obtain t2 c2 res where w: "recv_walk S T buf_len d 0 c1 t1 = (t2, c2, res)" by (metis surj_pair)
    show ?thesis
    proof (cases "res = Inr None")
      case True
      have "dc_recv_stash c2 = []" "left t2 \<le> left t1"
        using recv_walk_quiet [of T left, OF send] w True d1(1) by auto
      then have "\<exists>r. dtls_recv S T buf_len c2 t2 = Some r" using d1(2) by (intro less) simp
      then show ?thesis using n d w True by (simp add: dtls_recv.simps [of S T buf_len c t])
    next
      case False
      then show ?thesis using n d w by (cases res) (auto simp: dtls_recv.simps [of S T buf_len c t] split: option.split)
    qed
  qed
qed

theorem dtls_recv_returns_witness:
  "\<exists>r. dtls_recv demo_suite queue_transport 10 demo_client [[1, 2], [], [0x2E, 0]] = Some r"
  by (rule dtls_recv_returns [where left = length]) (auto simp: queue_transport_def split: list.splits)

end
