(* ===== verification/Dtls_Connect.thy ===== *)
theory Dtls_Connect
  imports Dtls_Client Dtls_Reassembly Ack Dtls_Keys Server_Flight Identity
begin

text \<open>
  The handshake driver of \<^verbatim>\<open>dtls/client.rs\<close>: both ClientHello exchanges with retransmission, the
  encrypted server flight, its verification, the client's Finished and the ACK, and the application
  keys.  An operation on the transport is a function of the transport's state that returns the state and a
  result, chained by \<^verbatim>\<open>tbind\<close>.  The configuration holds what
  the source takes as type parameters, the parameters what the caller passes.  Buffers of a fixed size
  enter through their length.
\<close>

section \<open>Model\<close>

definition t_send :: "('t, 'e) DatagramTransport \<Rightarrow> bytes \<Rightarrow> 't \<Rightarrow> 't \<times> ('e DtlsClientError + unit)" where
  "t_send T d t = (case dt_send T d t of (t, r) \<Rightarrow> (t, map_err DC_Transport r))"

definition t_recv :: "('t, 'e) DatagramTransport \<Rightarrow> nat \<Rightarrow> 't \<Rightarrow> 't \<times> ('e DtlsClientError + bytes option)" where
  "t_recv T n t = (case dt_recv T n t of (t, r) \<Rightarrow> (t, map_err DC_Transport r))"

record ('k, 'r) KxGroup =
  kx_generate :: "'r \<Rightarrow> 'r \<times> ('k \<times> bytes) option"
  kx_derive :: "'k \<Rightarrow> bytes \<Rightarrow> bytes option"

record ('k, 'r, 'v) DtlsConfig =
  dcf_features :: Features
  dcf_suite :: DtlsSuite
  dcf_hkdf :: HkdfBackend
  dcf_verifiers :: "'v VerifierBackend"
  dcf_parser :: CertParser
  dcf_kx :: "('k, 'r) KxGroup"
  dcf_max_chain :: nat

record ('v, 's) DtlsParams =
  dp_verify :: "bytes list \<Rightarrow> 's + 'v PreparedVerifier"
  dp_hostname :: "bytes option"
  dp_client_cid :: "bytes option"
  dp_client_random :: bytes
  dp_flight_len :: nat
  dp_reasm_buf :: bytes

definition MAX_FLIGHT_ATTEMPTS :: nat where
  "MAX_FLIGHT_ATTEMPTS = 5"

definition MAX_ACK_SEAL_OVERHEAD :: nat where
  "MAX_ACK_SEAL_OVERHEAD = 1 + MAX_CID_LEN + 2 + 2 + 1 + TAG_LEN"

definition MAX_FLIGHT_MSGS :: nat where
  "MAX_FLIGHT_MSGS = 8"

definition MAX_MSG_FRAGS :: nat where
  "MAX_MSG_FRAGS = 16"

definition MAX_FLIGHT_DATAGRAMS :: nat where
  "MAX_FLIGHT_DATAGRAMS = 256"

definition HRR_MESSAGE_HASH_HEADER :: bytes where
  "HRR_MESSAGE_HASH_HEADER = [0xFE, 0x00, 0x00, 0x20]"

definition write_hs_msg :: "nat \<Rightarrow> 8 word \<Rightarrow> 16 word \<Rightarrow> bytes \<Rightarrow> 'e DtlsClientError + bytes" where
  "write_hs_msg out_len msg_type message_seq body =
     rbind (map_err (\<lambda>_. DC_BufferTooSmall)
       (HandshakeHeader_write
          \<lparr>hh_msg_type = msg_type, hh_length = word_of_nat (length body), hh_message_seq = message_seq,
           hh_fragment_offset = 0, hh_fragment_length = word_of_nat (length body)\<rparr> (replicate out_len 0))) (\<lambda>header.
       if HS_HEADER_LEN + length body > out_len then Inl DC_BufferTooSmall else Inr (header @ body))"

definition transcript_msg_header :: "8 word \<Rightarrow> nat \<Rightarrow> bytes" where
  "transcript_msg_header msg_type len =
     [msg_type, word_of_nat (len div 2 ^ 16), word_of_nat (len div 2 ^ 8), word_of_nat len]"

definition CH_BUF :: nat where
  "CH_BUF = 512"

definition build_client_hello_record :: "bytes \<Rightarrow> 16 word \<Rightarrow> 64 word \<Rightarrow> 'e DtlsClientError + bytes" where
  "build_client_hello_record body message_seq record_seq =
     rbind (write_hs_msg (HS_HEADER_LEN + CH_BUF) CLIENT_HELLO_MSG_TYPE message_seq body) (\<lambda>msg.
       map_err (\<lambda>_. DC_BufferTooSmall)
         (PlaintextRecord_write CT_HANDSHAKE 0 record_seq msg (replicate (HS_HEADER_LEN + CH_BUF + 16) 0)))"

function await_reply ::
  "('t, 'e) DatagramTransport \<Rightarrow> bytes \<Rightarrow> nat \<Rightarrow> nat \<Rightarrow> nat \<Rightarrow> 't \<Rightarrow> 't \<times> ('e DtlsClientError + bytes)" where
  "await_reply T flight reply_len max_attempts attempts t =
     (case t_recv T reply_len t of
        (t, Inl e) \<Rightarrow> (t, Inl e)
      | (t, Inr (Some dg)) \<Rightarrow> (t, Inr dg)
      | (t, Inr None) \<Rightarrow>
          if attempts \<ge> max_attempts then (t, Inl DC_Timeout)
          else
            (case t_send T flight t of
               (t, Inl e) \<Rightarrow> (t, Inl e)
             | (t, Inr u) \<Rightarrow> await_reply T flight reply_len max_attempts (attempts + 1) t))"
  by pat_completeness auto
termination
  by (relation "measure (\<lambda>(T, flight, reply_len, max_attempts, attempts, t). max_attempts - attempts)") auto

declare await_reply.simps [simp del]

definition send_flight_await_reply ::
  "('t, 'e) DatagramTransport \<Rightarrow> bytes \<Rightarrow> nat \<Rightarrow> nat \<Rightarrow> 't \<Rightarrow> 't \<times> ('e DtlsClientError + bytes)" where
  "send_flight_await_reply T flight reply_len max_attempts =
     tbind (t_send T flight) (\<lambda>_. await_reply T flight reply_len max_attempts 1)"

definition parse_hello_body :: "bytes \<Rightarrow> 'e DtlsClientError + bytes \<times> 16 word \<times> nat" where
  "parse_hello_body datagram =
     rbind (map_err (\<lambda>_. DC_Protocol) (PlaintextRecord_parse datagram)) (\<lambda>(rec, consumed).
     if pr_content_type rec \<noteq> CT_HANDSHAKE then Inl DC_Protocol
     else
       rbind (map_err (\<lambda>_. DC_Protocol) (HandshakeHeader_parse (pr_fragment rec))) (\<lambda>hh.
       rbind (ok_or DC_Protocol
         (get_range HS_HEADER_LEN (HS_HEADER_LEN + unat (hh_fragment_length hh)) (pr_fragment rec))) (\<lambda>body.
         Inr (body, hh_message_seq hh, length datagram - consumed))))"

text \<open>What the client hello exchange leaves: the transcript before the ServerHello, the datagram with the
  ServerHello, the last ClientHello record and the number of the Finished.\<close>

record HelloExchange =
  he_transcript :: TranscriptHash
  he_reply :: bytes
  he_retransmit :: bytes
  he_fin_msg_seq :: "16 word"

definition write_hello ::
  "('k, 'r, 'v) DtlsConfig \<Rightarrow> ('v, 's) DtlsParams \<Rightarrow> bytes \<Rightarrow> bytes option \<Rightarrow> 'e DtlsClientError + bytes" where
  "write_hello C P pub_key cookie =
     map_err (\<lambda>_. DC_BufferTooSmall)
       (dtls_write_client_hello (dcf_features C) (dp_client_random P) pub_key (ds_suite_id (dcf_suite C)) None cookie
          (dp_client_cid P) (replicate CH_BUF 0))"

definition retry_exchange ::
  "('k, 'r, 'v) DtlsConfig \<Rightarrow> ('v, 's) DtlsParams \<Rightarrow> ('t, 'e) DatagramTransport \<Rightarrow> bytes \<Rightarrow> bytes \<Rightarrow> bytes \<Rightarrow> 16 word \<Rightarrow> bytes \<Rightarrow>
   't \<Rightarrow> 't \<times> ('e DtlsClientError + HelloExchange)" where
  "retry_exchange C P T pub_key ch1 first_body selected_suite cookie =
     (if selected_suite \<noteq> ds_suite_id (dcf_suite C) then tlift (Inl DC_Handshake)
      else if length cookie > 256 then tlift (Inl DC_BufferTooSmall)
      else
        tbind (tlift (map_err (\<lambda>_. DC_KeySchedule)
          (snapshot (dcf_hkdf C) (update (update TranscriptHash_new
             (transcript_msg_header CLIENT_HELLO_MSG_TYPE (length ch1))) ch1)))) (\<lambda>ch1_hash.
        let transcript = update TranscriptHash_new HRR_MESSAGE_HASH_HEADER;
            transcript = update transcript ch1_hash;
            transcript = update transcript (transcript_msg_header 2 (length first_body));
            transcript = update transcript first_body
        in
        tbind (tlift (write_hello C P pub_key (Some cookie))) (\<lambda>ch2.
        tbind (tlift (build_client_hello_record ch2 1 1)) (\<lambda>ch2_rec.
        tbind (send_flight_await_reply T ch2_rec 2048 MAX_FLIGHT_ATTEMPTS) (\<lambda>reply.
        let transcript = update transcript (transcript_msg_header CLIENT_HELLO_MSG_TYPE (length ch2));
            transcript = update transcript ch2
        in tlift (Inr \<lparr>he_transcript = transcript, he_reply = reply, he_retransmit = ch2_rec, he_fin_msg_seq = 2\<rparr>))))))"

definition on_first_reply ::
  "('k, 'r, 'v) DtlsConfig \<Rightarrow> ('v, 's) DtlsParams \<Rightarrow> ('t, 'e) DatagramTransport \<Rightarrow> bytes \<Rightarrow> bytes \<Rightarrow> bytes \<Rightarrow> bytes \<Rightarrow> bytes \<Rightarrow>
   ServerHelloKind \<Rightarrow> 't \<Rightarrow> 't \<times> ('e DtlsClientError + HelloExchange)" where
  "on_first_reply C P T pub_key ch1 ch1_rec first first_body kind =
     (case kind of
        SHK_Retry selected_suite cookie \<Rightarrow> retry_exchange C P T pub_key ch1 first_body selected_suite cookie
      | SHK_Hello _ _ _ \<Rightarrow>
          let transcript = update TranscriptHash_new (transcript_msg_header CLIENT_HELLO_MSG_TYPE (length ch1));
              transcript = update transcript ch1
          in tlift (Inr \<lparr>he_transcript = transcript, he_reply = first, he_retransmit = ch1_rec, he_fin_msg_seq = 1\<rparr>))"

definition hello_exchange ::
  "('k, 'r, 'v) DtlsConfig \<Rightarrow> ('v, 's) DtlsParams \<Rightarrow> ('t, 'e) DatagramTransport \<Rightarrow> bytes \<Rightarrow> 't \<Rightarrow>
   't \<times> ('e DtlsClientError + HelloExchange)" where
  "hello_exchange C P T pub_key =
     tbind (tlift (write_hello C P pub_key None)) (\<lambda>ch1.
     tbind (tlift (build_client_hello_record ch1 0 0)) (\<lambda>ch1_rec.
     tbind (send_flight_await_reply T ch1_rec 2048 MAX_FLIGHT_ATTEMPTS) (\<lambda>first.
     tbind (tlift (parse_hello_body first)) (\<lambda>(first_body, _, _).
     tbind (tlift (map_err (\<lambda>_. DC_Handshake) (dtls_parse_server_hello first_body))) (\<lambda>kind.
       on_first_reply C P T pub_key ch1 ch1_rec first first_body kind)))))"

text \<open>What is read from the ServerHello.\<close>

record HelloInfo =
  hi_transcript :: TranscriptHash
  hi_share :: bytes
  hi_recv_cid_len :: nat
  hi_send_cid :: bytes
  hi_seq :: "16 word"
  hi_trailing :: nat

definition on_server_hello ::
  "('k, 'r, 'v) DtlsConfig \<Rightarrow> ('v, 's) DtlsParams \<Rightarrow> TranscriptHash \<Rightarrow> 16 word \<Rightarrow> nat \<Rightarrow> ServerHelloKind \<Rightarrow>
   'e DtlsClientError + HelloInfo" where
  "on_server_hello C P transcript hello_seq hello_trailing kind =
     (case kind of
        SHK_Hello selected_suite server_key_share server_cid \<Rightarrow>
          if selected_suite \<noteq> ds_suite_id (dcf_suite C) then Inl DC_Handshake
          else
            rbind (case (dp_client_cid P, server_cid) of
                     (Some our_cid, Some their_cid) \<Rightarrow>
                       if length their_cid > MAX_CID_LEN then Inl DC_Handshake
                       else Inr (length our_cid, their_cid)
                   | _ \<Rightarrow> Inr (0, [])) (\<lambda>(recv_cid_len, send_cid).
              Inr \<lparr>hi_transcript = transcript, hi_share = server_key_share, hi_recv_cid_len = recv_cid_len,
                   hi_send_cid = send_cid, hi_seq = hello_seq, hi_trailing = hello_trailing\<rparr>)
      | SHK_Retry _ _ \<Rightarrow> Inl DC_Handshake)"

definition read_hello ::
  "('k, 'r, 'v) DtlsConfig \<Rightarrow> ('v, 's) DtlsParams \<Rightarrow> HelloExchange \<Rightarrow> 'e DtlsClientError + HelloInfo" where
  "read_hello C P he =
     rbind (parse_hello_body (he_reply he)) (\<lambda>(sh_body, hello_seq, hello_trailing).
     let transcript = update (he_transcript he) (transcript_msg_header 2 (length sh_body));
         transcript = update transcript sh_body
     in rbind (map_err (\<lambda>_. DC_Handshake) (dtls_parse_server_hello sh_body))
          (on_server_hello C P transcript hello_seq hello_trailing))"

text \<open>The state of the flight reassembly.\<close>

record FlightState =
  fs_reasm :: Reassembler
  fs_arena :: bytes
  fs_next_seq :: "64 word"
  fs_acked :: "128 word"

function feed_fragments :: "bytes \<Rightarrow> nat \<Rightarrow> FlightState \<Rightarrow> 'e DtlsClientError + FlightState" where
  "feed_fragments content p st =
     (if p + HS_HEADER_LEN \<le> length content then
        rbind (map_err (\<lambda>_. DC_Protocol) (HandshakeHeader_parse (drop p content))) (\<lambda>hh.
        let frag_len = unat (hh_fragment_length hh) in
        rbind (ok_or DC_Protocol (get_range (p + HS_HEADER_LEN) (p + HS_HEADER_LEN + frag_len) content)) (\<lambda>frag.
          case Reassembler_push MAX_FLIGHT_MSGS MAX_MSG_FRAGS (fs_reasm st) (fs_arena st) (hh_msg_type hh) (hh_message_seq hh)
                 (unat (hh_length hh)) (unat (hh_fragment_offset hh)) frag of
            (reasm, arena, Inl e) \<Rightarrow> Inl DC_Protocol
          | (reasm, arena, Inr u) \<Rightarrow>
              feed_fragments content (p + (HS_HEADER_LEN + frag_len)) (st\<lparr>fs_reasm := reasm, fs_arena := arena\<rparr>)))
      else Inr st)"
  by pat_completeness auto
termination
  by (relation "measure (\<lambda>(content, p, st). length content - p)") (auto simp: HS_HEADER_LEN_def)

declare feed_fragments.simps [simp del]

function epoch2_walk ::
  "DtlsSuite \<Rightarrow> EpochKeys \<Rightarrow> nat \<Rightarrow> bytes \<Rightarrow> nat \<Rightarrow> FlightState \<Rightarrow> 'e DtlsClientError + FlightState" where
  "epoch2_walk S server_keys cid_len records rec_pos st =
     (if rec_pos < length records then
        if \<not> is_ciphertext_record (records ! rec_pos) then Inr st
        else
          case open_record S server_keys cid_len (fs_next_seq st) (drop rec_pos records) of
            Inl e \<Rightarrow> Inr st
          | Inr opened \<Rightarrow>
              if op_record_len opened = 0 then Inr st
              else
                let st = (if unat (op_seq opened) < MAX_ACK_RECORDS
                          then st\<lparr>fs_acked := fs_acked st OR push_bit (unat (op_seq opened)) 1\<rparr> else st)
                in rbind (if op_content_type opened = CT_HANDSHAKE then feed_fragments (op_content opened) 0 st
                          else Inr st) (\<lambda>st.
                     epoch2_walk S server_keys cid_len records (rec_pos + op_record_len opened)
                       (st\<lparr>fs_next_seq := fs_next_seq st + 1\<rparr>))
      else Inr st)"
  by pat_completeness auto
termination
  by (relation "measure (\<lambda>(S, server_keys, cid_len, records, rec_pos, st). length records - rec_pos)") auto

declare epoch2_walk.simps [simp del]

definition feed_epoch2_records ::
  "DtlsSuite \<Rightarrow> EpochKeys \<Rightarrow> nat \<Rightarrow> bytes \<Rightarrow> FlightState \<Rightarrow> 'e DtlsClientError + FlightState" where
  "feed_epoch2_records S server_keys cid_len records st = epoch2_walk S server_keys cid_len records 0 st"

text \<open>Where the encrypted records of a datagram of the flight start: at once, or behind a retransmitted
  ServerHello; \<^verbatim>\<open>None\<close> ignores the datagram.\<close>

definition flight_start :: "bytes \<Rightarrow> nat option" where
  "flight_start dg =
     (if (case get_at 0 dg of Some b \<Rightarrow> is_ciphertext_record b | None \<Rightarrow> False) then Some 0
      else case (parse_hello_body dg :: unit DtlsClientError + _) of
             Inr (_, _, trailing) \<Rightarrow> Some (length dg - trailing)
           | Inl _ \<Rightarrow> None)"

function flight_loop ::
  "DtlsSuite \<Rightarrow> ('t, 'e) DatagramTransport \<Rightarrow> EpochKeys \<Rightarrow> nat \<Rightarrow> 16 word \<Rightarrow> bytes \<Rightarrow> nat \<Rightarrow> nat \<Rightarrow> FlightState \<Rightarrow> 't \<Rightarrow>
   't \<times> ('e DtlsClientError + FlightState)" where
  "flight_loop S T server_keys cid_len base_seq retransmit_rec datagrams resends_left st t =
     (if flight_complete (fs_reasm st) base_seq HS_FINISHED then (t, Inr st)
      else if datagrams \<ge> MAX_FLIGHT_DATAGRAMS then (t, Inl DC_Timeout)
      else
        case t_recv T MAX_DATAGRAM t of
          (t, Inl e) \<Rightarrow> (t, Inl e)
        | (t, Inr None) \<Rightarrow>
            if resends_left = 0 then (t, Inl DC_Timeout)
            else
              (case t_send T retransmit_rec t of
                 (t, Inl e) \<Rightarrow> (t, Inl e)
               | (t, Inr u) \<Rightarrow>
                   flight_loop S T server_keys cid_len base_seq retransmit_rec (datagrams + 1) (resends_left - 1) st t)
        | (t, Inr (Some dg)) \<Rightarrow>
            (case flight_start dg of
               None \<Rightarrow> flight_loop S T server_keys cid_len base_seq retransmit_rec (datagrams + 1) resends_left st t
             | Some start \<Rightarrow>
                 (case feed_epoch2_records S server_keys cid_len (drop start dg) st of
                    Inl e \<Rightarrow> (t, Inl e)
                  | Inr st \<Rightarrow>
                      flight_loop S T server_keys cid_len base_seq retransmit_rec (datagrams + 1) resends_left st t)))"
  by pat_completeness auto
termination
  by (relation "measure (\<lambda>(S, T, server_keys, cid_len, base_seq, retransmit_rec, datagrams, resends_left, st, t).
    MAX_FLIGHT_DATAGRAMS - datagrams)") auto

declare flight_loop.simps [simp del]

text \<open>The verification of the flight: chain, leaf and host name, CertificateVerify, and the server's Finished
  under the DTLS schedule.  The result is the peer's record limit and the hash of the transcript through
  the Finished.\<close>

definition dtls_check_leaf ::
  "('k, 'r, 'v) DtlsConfig \<Rightarrow> ('v, 's) DtlsParams \<Rightarrow> ServerFlightView \<Rightarrow> 'e DtlsClientError + 'v PreparedVerifier" where
  "dtls_check_leaf C P view =
     rbind (map_err (\<lambda>_. DC_Protocol) (extract_chain (dcf_max_chain C) (sf_cert_body view))) (\<lambda>chain.
     rbind (map_err (\<lambda>_. DC_StrategyRejected) (dp_verify P chain)) (\<lambda>prepared.
     rbind (ok_or DC_Protocol (get_at 0 chain)) (\<lambda>leaf_der.
     rbind (map_err (\<lambda>_. DC_Protocol) (cp_parse (dcf_parser C) leaf_der)) (\<lambda>leaf_view.
     if \<not> matches_cert (dcf_verifiers C) prepared leaf_view then Inl DC_PubkeyMismatch
     else
       rbind (case dp_hostname P of
                Some host \<Rightarrow> map_err (\<lambda>_. DC_HostnameMismatch) (verify_hostname leaf_view host)
              | None \<Rightarrow> Inr ()) (\<lambda>_. Inr prepared)))))"

definition dtls_verify_flight ::
  "('k, 'r, 'v) DtlsConfig \<Rightarrow> ('v, 's) DtlsParams \<Rightarrow> TranscriptHash \<Rightarrow> bytes \<Rightarrow> bytes \<Rightarrow>
   'e DtlsClientError + 16 word option \<times> bytes" where
  "dtls_verify_flight C P transcript server_hs_ts flight_plaintext =
     rbind (map_err (\<lambda>_. DC_Protocol) (parse_server_flight flight_plaintext)) (\<lambda>view.
     rbind (map_err (\<lambda>_. DC_Handshake) (parse_ee_record_size_limit (sf_ee_body view))) (\<lambda>peer_record_limit.
     rbind (dtls_check_leaf C P view) (\<lambda>prepared.
     let transcript = update transcript (sf_ee_full view);
         transcript = (case sf_cert_request_full view of Some creq \<Rightarrow> update transcript creq | None \<Rightarrow> transcript);
         transcript = update transcript (sf_cert_full view)
     in rbind (map_err (\<lambda>_. DC_KeySchedule) (snapshot (dcf_hkdf C) transcript)) (\<lambda>th_after_cert.
        rbind (map_err (\<lambda>_. DC_CertVerify)
          (verify_certificate_verify_with_prepared (dcf_verifiers C) prepared th_after_cert (sf_cv_body view))) (\<lambda>_.
        let transcript = update transcript (sf_cv_full view)
        in rbind (map_err (\<lambda>_. DC_KeySchedule) (snapshot (dcf_hkdf C) transcript)) (\<lambda>th_after_cv.
           rbind (map_err (\<lambda>_. DC_KeySchedule) (dtls_finished_mac (dcf_hkdf C) server_hs_ts th_after_cv)) (\<lambda>expected_fin.
           if length (sf_fin_body view) \<noteq> length expected_fin \<or> expected_fin \<noteq> sf_fin_body view then Inl DC_CertVerify
           else
             rbind (map_err (\<lambda>_. DC_KeySchedule) (snapshot (dcf_hkdf C) (update transcript (sf_fin_full view)))) (\<lambda>th_server_fin.
               Inr (peer_record_limit, th_server_fin)))))))))"

definition epoch2_header :: "64 word \<Rightarrow> bytes \<Rightarrow> SealHeader" where
  "epoch2_header seq send_cid = \<lparr>sh_epoch = 2, sh_seq = seq, sh_seq_len = SeqTwo,
     sh_cid = (if length send_cid > 0 then Some send_cid else None)\<rparr>"

text \<open>The client's Finished and the ACK of the server's flight, then the application keys.\<close>

definition finish_connect ::
  "('k, 'r, 'v) DtlsConfig \<Rightarrow> ('t, 'e) DatagramTransport \<Rightarrow> HandshakeKeys \<Rightarrow> bytes \<Rightarrow> nat \<Rightarrow> 16 word \<Rightarrow> 128 word \<Rightarrow>
   16 word option \<Rightarrow> bytes \<Rightarrow> 't \<Rightarrow> 't \<times> ('e DtlsClientError + DtlsClient)" where
  "finish_connect C T hk send_cid recv_cid_len client_fin_msg_seq acked_seqs peer_record_limit th_server_fin =
     tbind (tlift (map_err (\<lambda>_. DC_KeySchedule) (dtls_finished_mac (dcf_hkdf C) (hk_client_hs_ts hk) th_server_fin))) (\<lambda>fin_data.
     tbind (tlift (write_hs_msg (HS_HEADER_LEN + 48) HS_FINISHED client_fin_msg_seq fin_data)) (\<lambda>fin_msg.
     tbind (tlift (map_err (\<lambda>_. DC_Protocol)
       (seal (dcf_suite C) (hk_client hk) (epoch2_header 0 send_cid) fin_msg CT_HANDSHAKE (replicate 128 0)))) (\<lambda>sealed.
     if length sealed > 128 then tlift (Inl DC_BufferTooSmall)
     else
       tbind (t_send T sealed) (\<lambda>_.
       tbind (tlift (map_err (\<lambda>_. DC_BufferTooSmall) (write_ack_bitmap 2 acked_seqs (replicate MAX_ACK_BODY_LEN 0)))) (\<lambda>ack_body.
       tbind (tlift (map_err (\<lambda>_. DC_Protocol)
         (seal (dcf_suite C) (hk_client hk) (epoch2_header 1 send_cid) ack_body CT_ACK
            (replicate (MAX_ACK_BODY_LEN + MAX_ACK_SEAL_OVERHEAD) 0)))) (\<lambda>ack_sealed.
       tbind (t_send T ack_sealed) (\<lambda>_.
       tbind (tlift (map_err (\<lambda>_. DC_KeySchedule) (dtls_master_secret (dcf_hkdf C) (hk_hs_secret hk)))) (\<lambda>master.
       tbind (tlift (map_err (\<lambda>_. DC_KeySchedule) (dtls_application_traffic_secrets (dcf_hkdf C) master th_server_fin)))
         (\<lambda>(c_ap, s_ap).
       tbind (tlift (map_err (\<lambda>_. DC_KeySchedule) (EpochKeys_derive (dcf_hkdf C) (dcf_suite C) c_ap))) (\<lambda>client_app.
       tbind (tlift (map_err (\<lambda>_. DC_KeySchedule) (EpochKeys_derive (dcf_hkdf C) (dcf_suite C) s_ap))) (\<lambda>server_app.
         tlift (Inr \<lparr>dc_client_app = client_app, dc_server_app = server_app, dc_send_seq = 0, dc_recv_hint = 0,
           dc_server_replay = ReplayWindow_new, dc_fin_flight = sealed,
           dc_fin_resends_left = word_of_nat MAX_FLIGHT_ATTEMPTS, dc_recv_cid_len = recv_cid_len, dc_send_cid = send_cid,
           dc_recv_stash = [], dc_peer_record_limit = peer_record_limit\<rparr>))))))))))))"

text \<open>The handshake keys from the ServerHello's share.\<close>

definition hello_keys :: "('k, 'r, 'v) DtlsConfig \<Rightarrow> 'k \<Rightarrow> HelloInfo \<Rightarrow> 'e DtlsClientError + HandshakeKeys" where
  "hello_keys C kx_secret hi =
     rbind (ok_or DC_KeySchedule (kx_derive (dcf_kx C) kx_secret (hi_share hi))) (\<lambda>ikm.
     if length ikm \<noteq> 32 then Inl DC_KeySchedule
     else
       rbind (map_err (\<lambda>_. DC_KeySchedule) (snapshot (dcf_hkdf C) (hi_transcript hi))) (\<lambda>transcript_ch_sh.
         map_err (\<lambda>_. DC_KeySchedule) (derive_handshake_keys (dcf_hkdf C) (dcf_suite C) ikm transcript_ch_sh)))"

definition read_flight ::
  "('k, 'r, 'v) DtlsConfig \<Rightarrow> ('v, 's) DtlsParams \<Rightarrow> ('t, 'e) DatagramTransport \<Rightarrow> HandshakeKeys \<Rightarrow> HelloExchange \<Rightarrow> HelloInfo \<Rightarrow>
   't \<Rightarrow> 't \<times> ('e DtlsClientError + bytes \<times> 128 word)" where
  "read_flight C P T hk he hi =
     tbind (tlift
       (let st = \<lparr>fs_reasm = Reassembler_new, fs_arena = dp_reasm_buf P, fs_next_seq = 0, fs_acked = 0\<rparr>
        in if hi_trailing hi > 0
           then feed_epoch2_records (dcf_suite C) (hk_server hk) (hi_recv_cid_len hi)
                  (drop (length (he_reply he) - hi_trailing hi) (he_reply he)) st
           else Inr st)) (\<lambda>st.
     tbind (flight_loop (dcf_suite C) T (hk_server hk) (hi_recv_cid_len hi) (hi_seq hi + 1) (he_retransmit he) 0
              (MAX_FLIGHT_ATTEMPTS - 1) st) (\<lambda>st.
     tbind (tlift (map_err (\<lambda>_. DC_Protocol) (serialize_flight (fs_reasm st) (fs_arena st) (dp_flight_len P)))) (\<lambda>flight.
       tlift (Inr (flight, fs_acked st)))))"

definition dtls_connect ::
  "('k, 'r, 'v) DtlsConfig \<Rightarrow> ('v, 's) DtlsParams \<Rightarrow> ('t, 'e) DatagramTransport \<Rightarrow> 'r \<Rightarrow> 't \<Rightarrow>
   't \<times> ('e DtlsClientError + DtlsClient)" where
  "dtls_connect C P T rng =
     tbind (tlift (ok_or DC_Rng (snd (kx_generate (dcf_kx C) rng)))) (\<lambda>(kx_secret, pub_key).
     if length pub_key \<noteq> 32 then tlift (Inl DC_Rng)
     else
       tbind (hello_exchange C P T pub_key) (\<lambda>he.
       tbind (tlift (read_hello C P he)) (\<lambda>hi.
       tbind (tlift (hello_keys C kx_secret hi)) (\<lambda>hk.
       tbind (read_flight C P T hk he hi) (\<lambda>(flight, acked_seqs).
       tbind (tlift (dtls_verify_flight C P (hi_transcript hi) (hk_server_hs_ts hk) flight)) (\<lambda>(peer_record_limit, th_server_fin).
         finish_connect C T hk (hi_send_cid hi) (hi_recv_cid_len hi) (he_fin_msg_seq he) acked_seqs
           peer_record_limit th_server_fin))))))"

section \<open>The handshake is bounded\<close>

text \<open>A measure of the transport grows by at most \<^verbatim>\<open>k\<close>.\<close>

definition effort :: "('t \<Rightarrow> nat) \<Rightarrow> nat \<Rightarrow> ('t \<Rightarrow> 't \<times> 'r) \<Rightarrow> bool" where
  "effort cost k m \<longleftrightarrow> (\<forall>t. cost (fst (m t)) \<le> cost t + k)"

text \<open>A send costs at most \<^verbatim>\<open>a\<close>, a receive at most \<^verbatim>\<open>b\<close>.\<close>

definition transport_costs :: "('t, 'e) DatagramTransport \<Rightarrow> ('t \<Rightarrow> nat) \<Rightarrow> nat \<Rightarrow> nat \<Rightarrow> bool" where
  "transport_costs T cost a b \<longleftrightarrow> (\<forall>d t. cost (fst (dt_send T d t)) \<le> cost t + a) \<and> (\<forall>n t. cost (fst (dt_recv T n t)) \<le> cost t + b)"

lemma effort_tlift: "effort cost 0 (tlift r)"
  by (simp add: effort_def tlift_def)

lemma effort_tbind:
  assumes "effort cost k m" "\<And>x. effort cost l (f x)"
  shows "effort cost (k + l) (tbind m f)"
  unfolding effort_def
proof
  fix t
  obtain t1 r where m: "m t = (t1, r)" by (metis surj_pair)
  have "cost t1 \<le> cost t + k" using assms(1) m by (metis effort_def fst_conv)
  moreover have "cost (fst (f x t1)) \<le> cost t1 + l" for x using assms(2) by (simp add: effort_def)
  ultimately have "cost (fst (f x t1)) \<le> cost t + (k + l)" for x by (metis add.assoc add_le_mono1 order_trans)
  then show "cost (fst (tbind m f t)) \<le> cost t + (k + l)"
    using \<open>cost t1 \<le> cost t + k\<close> by (cases r) (simp_all add: tbind_def m)
qed

lemma effort_pure: "(\<And>x. effort cost l (f x)) \<Longrightarrow> effort cost l (tbind (tlift r) f)"
  using effort_tbind [OF effort_tlift] by fastforce

lemma effort_mono: "effort cost k m \<Longrightarrow> k \<le> l \<Longrightarrow> effort cost l m"
  by (auto simp: effort_def intro: order_trans)

lemma effort_any: "effort cost k (tlift r)"
  by (rule effort_mono [OF effort_tlift]) simp

lemma effort_if: "effort cost k m \<Longrightarrow> effort cost k m' \<Longrightarrow> effort cost k (if c then m else m')"
  by simp

lemma effort_send: "transport_costs T cost a b \<Longrightarrow> effort cost a (t_send T d)"
  by (auto simp: effort_def transport_costs_def t_send_def split: prod.split) (metis fst_conv)

lemma effort_recv: "transport_costs T cost a b \<Longrightarrow> effort cost b (t_recv T n)"
  by (auto simp: effort_def transport_costs_def t_recv_def split: prod.split) (metis fst_conv)

lemma effortD: "effort cost k m \<Longrightarrow> m t = (t', r) \<Longrightarrow> cost t' \<le> cost t + k"
  by (metis effort_def fst_conv)

lemma effort_await:
  assumes T: "transport_costs T cost a b"
  shows "cost (fst (await_reply T flight n mx k t)) \<le> cost t + (mx - k) * (a + b) + b"
proof (induction T \<equiv> T flight n mx k t rule: await_reply.induct)
  case (1 flight n mx k t)
  note unf = await_reply.simps [of T flight n mx k t]
  obtain t1 r where r: "t_recv T n t = (t1, r)" by (metis surj_pair)
  have c1: "cost t1 \<le> cost t + b" by (rule effortD [OF effort_recv [OF T] r])
  show ?case
  proof (cases "r = Inr None \<and> k < mx")
    case False
    then show ?thesis using c1 r by (auto simp: unf split: sum.split option.split)
  next
    case True
    obtain t2 s where s: "t_send T flight t1 = (t2, s)" by (metis surj_pair)
    have c2: "cost t2 \<le> cost t1 + a" by (rule effortD [OF effort_send [OF T] s])
    have d: "mx - k = Suc (mx - (k + 1))" using True by linarith
    show ?thesis
    proof (cases s)
      case (Inl e)
      then show ?thesis using c1 c2 r s True by (simp add: unf d)
    next
      case (Inr u)
      then have "cost (fst (await_reply T flight n mx (k + 1) t2)) \<le> cost t2 + (mx - (k + 1)) * (a + b) + b"
        using "1.hyps" [OF r [symmetric] _ refl _ s [symmetric] Inr] True by simp
      then show ?thesis using c1 c2 r s True Inr unfolding unf d by simp
    qed
  qed
qed

lemma effort_flight:
  assumes T: "transport_costs T cost a b"
  shows "effort cost (a + (mx - 1) * (a + b) + b) (send_flight_await_reply T flight n mx)"
proof -
  have "effort cost ((mx - 1) * (a + b) + b) (await_reply T flight n mx 1)"
    using effort_await [OF T, of flight n mx 1] by (simp add: effort_def add.assoc)
  from effort_tbind [OF effort_send [OF T] this] show ?thesis
    by (simp add: send_flight_await_reply_def add.assoc)
qed

lemma effort_flight_loop:
  assumes T: "transport_costs T cost a b"
  shows "cost (fst (flight_loop S T ks cid base rec n k st t)) \<le> cost t + (MAX_FLIGHT_DATAGRAMS - n) * b + k * a"
proof (induction S T \<equiv> T ks cid base "rec" n k st t rule: flight_loop.induct)
  case (1 S ks cid base rec n k st t)
  note unf = flight_loop.simps [of S T ks cid base rec n k st t]
  show ?case
  proof (cases "flight_complete (fs_reasm st) base HS_FINISHED \<or> n \<ge> MAX_FLIGHT_DATAGRAMS")
    case True
    then show ?thesis by (auto simp: unf)
  next
    case False
    then have d: "MAX_FLIGHT_DATAGRAMS - n = Suc (MAX_FLIGHT_DATAGRAMS - (n + 1))" by linarith
    have g: "\<not> flight_complete (fs_reasm st) base HS_FINISHED" "\<not> MAX_FLIGHT_DATAGRAMS \<le> n" using False by auto
    obtain t1 r where r: "t_recv T MAX_DATAGRAM t = (t1, r)" by (metis surj_pair)
    have c1: "cost t1 \<le> cost t + b" by (rule effortD [OF effort_recv [OF T] r])
    consider e where "r = Inl e" | "r = Inr None" | dg where "r = Inr (Some dg)" by (cases r) (auto simp: option.split_sel)
    then show ?thesis
    proof cases
      case 1
      then show ?thesis using c1 r g by (simp add: unf d)
    next
      case 2
      obtain t2 s where s: "t_send T rec t1 = (t2, s)" by (metis surj_pair)
      have c2: "cost t2 \<le> cost t1 + a" by (rule effortD [OF effort_send [OF T] s])
      show ?thesis
      proof (cases "k = 0 \<or> (\<exists>e. s = Inl e)")
        case True
        then have "cost (fst (flight_loop S T ks cid base rec n k st t)) \<le> cost t + b + k * a"
          using c1 c2 r s g 2 unfolding unf by (cases k) auto
        then show ?thesis by (simp add: d)
      next
        case False
        then obtain u where u: "s = Inr u" by (cases s) auto
        have "cost (fst (flight_loop S T ks cid base rec (n + 1) (k - 1) st t2)) \<le>
            cost t2 + (MAX_FLIGHT_DATAGRAMS - (n + 1)) * b + (k - 1) * a"
          using "1.hyps"(1) [OF g r [symmetric] 2 refl _ s [symmetric] u] False by simp
        moreover have "k * a = (k - 1) * a + a" using False by (cases k) simp_all
        ultimately show ?thesis using c1 c2 r s g 2 u False by (simp add: unf d)
      qed
    next
      case (3 dg)
      show ?thesis
      proof (cases "flight_start dg")
        case None
        then have "cost (fst (flight_loop S T ks cid base rec (n + 1) k st t1)) \<le>
            cost t1 + (MAX_FLIGHT_DATAGRAMS - (n + 1)) * b + k * a"
          using "1.hyps"(2) [OF g r [symmetric] 3 refl None] by simp
        then show ?thesis using c1 r g 3 None by (simp add: unf d)
      next
        case (Some start)
        show ?thesis
        proof (cases "feed_epoch2_records S ks cid (drop start dg) st :: 'b DtlsClientError + FlightState")
          case (Inl e)
          then show ?thesis using c1 r g 3 Some by (simp add: unf d)
        next
          case (Inr st')
          then have "cost (fst (flight_loop S T ks cid base rec (n + 1) k st' t1)) \<le>
              cost t1 + (MAX_FLIGHT_DATAGRAMS - (n + 1)) * b + k * a"
            using "1.hyps"(3) [OF g r [symmetric] 3 refl Some Inr] by simp
          then show ?thesis using c1 r g 3 Some Inr by (simp add: unf d)
        qed
      qed
    qed
  qed
qed

lemma effort_hello_flight:
  assumes T: "transport_costs T cost a b"
  shows "effort cost (5 * a + 5 * b) (send_flight_await_reply T flight n MAX_FLIGHT_ATTEMPTS)"
  using effort_flight [OF T, of MAX_FLIGHT_ATTEMPTS flight n] by (simp add: MAX_FLIGHT_ATTEMPTS_def algebra_simps)

lemma effort_retry:
  assumes T: "transport_costs T cost a b"
  shows "effort cost (5 * a + 5 * b) (retry_exchange C P T pub ch1 body suite cookie)"
proof -
  have "effort cost (5 * a + 5 * b + 0) (retry_exchange C P T pub ch1 body suite cookie)"
    unfolding retry_exchange_def Let_def
    by (intro effort_if effort_pure effort_tbind [OF effort_hello_flight [OF T]] effort_any)
  then show ?thesis by simp
qed

lemma effort_hello:
  assumes T: "transport_costs T cost a b"
  shows "effort cost (10 * a + 10 * b) (hello_exchange C P T pub)"
proof -
  have "effort cost (5 * a + 5 * b + (5 * a + 5 * b)) (hello_exchange C P T pub)"
    unfolding hello_exchange_def case_prod_beta
    by (intro effort_pure effort_tbind [OF effort_hello_flight [OF T]])
      (simp add: on_first_reply_def effort_retry [OF T] effort_any Let_def split: ServerHelloKind.split)
  then show ?thesis by (rule effort_mono) simp
qed

lemma effort_finish:
  assumes T: "transport_costs T cost a b"
  shows "effort cost (2 * a) (finish_connect C T hk cid n s acked lim th)"
proof -
  have "effort cost (a + (a + 0)) (finish_connect C T hk cid n s acked lim th)"
    unfolding finish_connect_def case_prod_beta
    by (intro effort_pure effort_if effort_any effort_tbind [OF effort_send [OF T]])
  then show ?thesis by (rule effort_mono) simp
qed

lemma effort_read_flight:
  assumes T: "transport_costs T cost a b"
  shows "effort cost (4 * a + 256 * b) (read_flight C P T hk he hi)"
proof -
  have "effort cost (4 * a + 256 * b) (flight_loop S T ks cid base rec 0 (MAX_FLIGHT_ATTEMPTS - 1) st)" for S ks cid base "rec" st
    using effort_flight_loop [OF T, of S ks cid base "rec" 0 "MAX_FLIGHT_ATTEMPTS - 1" st]
    by (simp add: effort_def MAX_FLIGHT_ATTEMPTS_def MAX_FLIGHT_DATAGRAMS_def algebra_simps)
  then have "effort cost (4 * a + 256 * b + 0) (read_flight C P T hk he hi)"
    unfolding read_flight_def by (intro effort_pure effort_tbind effort_any)
  then show ?thesis by simp
qed

text \<open>C13: The handshake is bounded, whatever the peer or an attacker sends: it ends after at most 16 sends -
  five of each ClientHello, four retransmissions while the flight is awaited, the Finished and the ACK -
  and at most 266 receives.  Stated for every measure of the transport that a send raises by at most
  \<^verbatim>\<open>a\<close> and a receive by at most \<^verbatim>\<open>b\<close>, as the counts of either or a clock.\<close>

theorem dtls_connect_bounded:
  assumes T: "transport_costs T cost a b"
  shows "cost (fst (dtls_connect C P T rng t)) \<le> cost t + 16 * a + 266 * b"
proof -
  have "effort cost (10 * a + 10 * b + (4 * a + 256 * b + 2 * a)) (dtls_connect C P T rng)"
    unfolding dtls_connect_def case_prod_beta
    by (intro effort_pure effort_if effort_any effort_tbind [OF effort_hello [OF T]] effort_tbind [OF effort_read_flight [OF T]]
        effort_finish [OF T])
  then show ?thesis by (simp add: effort_def add.assoc)
qed

text \<open>An instance of the configuration and the parameters.\<close>

definition demo_dtls_config :: "(unit, unit, bytes) DtlsConfig" where
  "demo_dtls_config = \<lparr>dcf_features = demo_features, dcf_suite = demo_suite, dcf_hkdf = flight_hkdf,
     dcf_verifiers = flight_verifier,
     dcf_parser = \<lparr>cp_parse = (\<lambda>_. Inr demo_leaf), cp_parse_ca_constraints = (\<lambda>_. Inl CP_Malformed),
       cp_spki_der = (\<lambda>_. Inl CP_Malformed)\<rparr>,
     dcf_kx = \<lparr>kx_generate = (\<lambda>r. (r, Some ((), replicate 32 9))), kx_derive = (\<lambda>_ share. Some share)\<rparr>,
     dcf_max_chain = 4\<rparr>"

definition demo_dtls_params :: "(bytes, unit) DtlsParams" where
  "demo_dtls_params = \<lparr>dp_verify = (\<lambda>_. Inr (PV_Ed25519 [5])), dp_hostname = Some [0x61], dp_client_cid = None,
     dp_client_random = replicate 32 7, dp_flight_len = 160, dp_reasm_buf = replicate 160 0\<rparr>"

text \<open>A transport that counts its calls and never delivers: the first flight is sent five times.\<close>

definition silent_transport :: "(nat \<times> nat, unit) DatagramTransport" where
  "silent_transport = \<lparr>dt_send = (\<lambda>d (s, r). ((s + 1, r), Inr ())), dt_recv = (\<lambda>n (s, r). ((s, r + 1), Inr None))\<rparr>"

theorem dtls_connect_bounded_witness:
  "transport_costs silent_transport fst 1 0 \<and>
   fst (fst (dtls_connect demo_dtls_config demo_dtls_params silent_transport () (0, 0))) \<le> 16"
proof
  show "transport_costs silent_transport fst 1 0" by (auto simp: transport_costs_def silent_transport_def)
  from dtls_connect_bounded [OF this, of demo_dtls_config demo_dtls_params "()" "(0, 0)"]
  show "fst (fst (dtls_connect demo_dtls_config demo_dtls_params silent_transport () (0, 0))) \<le> 16" by simp
qed

end
