(* ===== verification/Dtls_Authenticated.thy ===== *)
theory Dtls_Authenticated
  imports Dtls_Connect
begin

text \<open>
  What a finished DTLS handshake establishes: the server is authenticated over the transcript of the
  hellos actually exchanged, the last step cannot fail on a working transport, and the client it
  returns has the shape the data phase keeps.  The last section is a complete handshake against a
  queue of datagrams, stage by stage.
\<close>

section \<open>A finished handshake is authenticated\<close>

lemmas tsimps = tbind_Inr tlift_Inr result_simps

lemma transcript_msg: "transcript_msg_header ty (length body) @ body = hs_frame ty body"
  by (simp add: transcript_msg_header_def hs_frame_def be_bytes_numeral numeral_3_eq_3 div_mult2_eq [symmetric])

text \<open>The client's side of the transcript: the ClientHello, or, after a HelloRetryRequest, the hash of the
  first one, the request, and the second ClientHello with its cookie.\<close>

definition hello_body :: "('k, 'r, 'v) DtlsConfig \<Rightarrow> ('v, 's) DtlsParams \<Rightarrow> bytes \<Rightarrow> bytes option \<Rightarrow> bytes" where
  "hello_body C P pub cookie = dtls_client_hello_body (dcf_features C) (dp_client_random P) pub (ds_suite_id (dcf_suite C))
     None cookie (dp_client_cid P)"

definition hello_transcript :: "('k, 'r, 'v) DtlsConfig \<Rightarrow> ('v, 's) DtlsParams \<Rightarrow> bytes \<Rightarrow> bytes \<Rightarrow> bool" where
  "hello_transcript C P pub t \<longleftrightarrow> t = hs_frame HS_CLIENT_HELLO (hello_body C P pub None) \<or>
     (\<exists>h hrr cookie. hk_digest (dcf_hkdf C) (hs_frame HS_CLIENT_HELLO (hello_body C P pub None)) = Inr h \<and>
        dtls_parse_server_hello hrr = Inr (SHK_Retry (ds_suite_id (dcf_suite C)) cookie) \<and>
        t = HRR_MESSAGE_HASH_HEADER @ h @ hs_frame 2 hrr @ hs_frame HS_CLIENT_HELLO (hello_body C P pub (Some cookie)))"

lemma write_hello_body:
  assumes "length pub = 32" "write_hello C P pub cookie = Inr ch"
  shows "ch = hello_body C P pub cookie"
  using assms(2) dtls_client_hello_eq [OF assms(1), of None]
  by (auto simp: write_hello_def result_simps hello_body_def split: if_splits)

lemma hello_exchange_transcript:
  fixes T :: "('t, 'e) DatagramTransport"
  assumes pub: "length pub = 32" and run: "hello_exchange C P T pub t = (t', Inr he)"
  shows "hello_transcript C P pub (he_transcript he)"
proof -
  obtain ch1 ch1_rec first t1 body kind where ch1: "(write_hello C P pub None :: 'e DtlsClientError + bytes) = Inr ch1"
    and kind: "dtls_parse_server_hello body = Inr kind"
    and k: "on_first_reply C P T pub ch1 ch1_rec first body kind t1 = (t', Inr he)"
    using run by (auto simp: hello_exchange_def tsimps)
  note c1 = write_hello_body [OF pub ch1]
  show ?thesis
  proof (cases kind)
    case (SHK_Hello s share cid)
    then show ?thesis using k c1
      by (auto simp: on_first_reply_def tlift_Inr hello_transcript_def CLIENT_HELLO_MSG_TYPE_def update_def
          TranscriptHash_new_def transcript_msg)
  next
    case (SHK_Retry s cookie)
    then obtain h ch2 where s: "s = ds_suite_id (dcf_suite C)"
      and h: "snapshot (dcf_hkdf C) (transcript_msg_header CLIENT_HELLO_MSG_TYPE (length ch1) @ ch1) = Inr h"
      and ch2: "(write_hello C P pub (Some cookie) :: 'e DtlsClientError + bytes) = Inr ch2"
      and t: "he_transcript he = HRR_MESSAGE_HASH_HEADER @ h @ (transcript_msg_header 2 (length body) @ body) @
        transcript_msg_header CLIENT_HELLO_MSG_TYPE (length ch2) @ ch2"
      using k by (auto simp: on_first_reply_def retry_exchange_def tsimps Let_def update_def TranscriptHash_new_def split: if_splits)
    show ?thesis using h t kind SHK_Retry s c1 write_hello_body [OF pub ch2]
      unfolding transcript_msg hello_transcript_def CLIENT_HELLO_MSG_TYPE_def
      by (auto simp: snapshot_def result_simps)
  qed
qed

lemma read_hello_transcript:
  assumes "(read_hello C P he :: 'e DtlsClientError + HelloInfo) = Inr hi"
  shows "\<exists>sh cid. hi_transcript hi = he_transcript he @ hs_frame 2 sh \<and>
    dtls_parse_server_hello sh = Inr (SHK_Hello (ds_suite_id (dcf_suite C)) (hi_share hi) cid)"
proof -
  obtain sh seq trailing kind where kind: "dtls_parse_server_hello sh = Inr kind"
    and k: "(on_server_hello C P (he_transcript he @ hs_frame 2 sh) seq trailing kind :: 'e DtlsClientError + HelloInfo) = Inr hi"
    using assms unfolding transcript_msg [symmetric] by (auto simp: read_hello_def result_simps update_def Let_def)
  obtain suite share cid where "kind = SHK_Hello suite share cid" "suite = ds_suite_id (dcf_suite C)"
    "hi_share hi = share" "hi_transcript hi = he_transcript he @ hs_frame 2 sh"
    using k by (cases kind) (auto simp: on_server_hello_def result_simps split: if_splits)
  then show ?thesis using kind by blast
qed

text \<open>What the checks on the flight establish, over the transcript \<^verbatim>\<open>t\<close> through the ServerHello.\<close>

definition flight_authenticated ::
  "('k, 'r, 'v) DtlsConfig \<Rightarrow> ('v, 's) DtlsParams \<Rightarrow> bytes \<Rightarrow> bytes \<Rightarrow> bytes \<Rightarrow> bool" where
  "flight_authenticated C P t server_hs_ts flight \<longleftrightarrow>
     (\<exists>ee creq cert scheme sig fin chain prepared leaf th th'.
        flight = flight_messages ee creq cert (cv_message scheme sig) fin \<and>
        extract_chain (dcf_max_chain C) cert = Inr chain \<and> dp_verify P chain = Inr prepared \<and>
        chain \<noteq> [] \<and> cp_parse (dcf_parser C) (chain ! 0) = Inr leaf \<and> matches_cert (dcf_verifiers C) prepared leaf \<and>
        pred_option (\<lambda>host. verify_hostname leaf host = Inr ()) (dp_hostname P) \<and>
        hk_digest (dcf_hkdf C) (t @ before_cv ee creq cert) = Inr th \<and>
        scheme_verifies (dcf_verifiers C) prepared scheme (cv_content th) sig \<and>
        hk_digest (dcf_hkdf C) (t @ before_cv ee creq cert @ hs_frame HS_CERTIFICATE_VERIFY (cv_message scheme sig)) = Inr th' \<and>
        dtls_finished_mac (dcf_hkdf C) server_hs_ts th' = Inr fin)"

lemma dtls_check_leaf_sound:
  assumes "(dtls_check_leaf C P view :: 'e DtlsClientError + 'v PreparedVerifier) = Inr prepared"
  shows "\<exists>chain leaf. extract_chain (dcf_max_chain C) (sf_cert_body view) = Inr chain \<and> dp_verify P chain = Inr prepared \<and>
    chain \<noteq> [] \<and> cp_parse (dcf_parser C) (chain ! 0) = Inr leaf \<and> matches_cert (dcf_verifiers C) prepared leaf \<and>
    pred_option (\<lambda>host. verify_hostname leaf host = Inr ()) (dp_hostname P)"
proof -
  obtain chain leaf u where "extract_chain (dcf_max_chain C) (sf_cert_body view) = Inr chain" "dp_verify P chain = Inr prepared"
    "get_at 0 chain = Some leaf" "\<exists>l. cp_parse (dcf_parser C) leaf = Inr l \<and> matches_cert (dcf_verifiers C) prepared l \<and>
      pred_option (\<lambda>host. verify_hostname l host = Inr ()) (dp_hostname P)"
    using assms by (cases "dp_hostname P") (auto simp: dtls_check_leaf_def result_simps)
  then show ?thesis by (auto simp: get_at_eq_Some)
qed

lemma dtls_verify_flight_sound:
  assumes "(dtls_verify_flight C P t sts flight :: 'e DtlsClientError + _) = Inr (lim, th_fin)"
  shows "flight_authenticated C P t sts flight \<and> hk_digest (dcf_hkdf C) (t @ flight) = Inr th_fin"
proof -
  obtain view where view: "parse_server_flight flight = Inr view"
    using assms by (auto simp: dtls_verify_flight_def result_simps)
  obtain ee creq cert cv fin where f: "flight = flight_messages ee creq cert cv fin" "view = flight_view ee creq cert cv fin"
    using parse_server_flight_sound [OF view] by blast
  have "\<exists>prepared th th' u. (dtls_check_leaf C P view :: 'e DtlsClientError + _) = Inr prepared \<and>
      hk_digest (dcf_hkdf C) (t @ before_cv ee creq cert) = Inr th \<and>
      verify_certificate_verify_with_prepared (dcf_verifiers C) prepared th cv = Inr u \<and>
      hk_digest (dcf_hkdf C) (t @ before_cv ee creq cert @ hs_frame HS_CERTIFICATE_VERIFY cv) = Inr th' \<and>
      dtls_finished_mac (dcf_hkdf C) sts th' = Inr fin \<and> hk_digest (dcf_hkdf C) (t @ flight) = Inr th_fin"
    using assms view
    by (cases creq) (auto simp: dtls_verify_flight_def Let_def result_simps f flight_view_def update_def snapshot_def
        before_cv_def flight_messages_def)
  then obtain prepared th th' u where p: "(dtls_check_leaf C P view :: 'e DtlsClientError + _) = Inr prepared"
    and th: "hk_digest (dcf_hkdf C) (t @ before_cv ee creq cert) = Inr th"
    and v: "verify_certificate_verify_with_prepared (dcf_verifiers C) prepared th cv = Inr u"
    and th': "hk_digest (dcf_hkdf C) (t @ before_cv ee creq cert @ hs_frame HS_CERTIFICATE_VERIFY cv) = Inr th'"
    and fin: "dtls_finished_mac (dcf_hkdf C) sts th' = Inr fin" and d: "hk_digest (dcf_hkdf C) (t @ flight) = Inr th_fin"
    by blast
  obtain scheme sig where cv: "cv = cv_message scheme sig" "scheme_verifies (dcf_verifiers C) prepared scheme (cv_content th) sig"
    using cv_verified [OF v] by blast
  have "sf_cert_body view = cert" by (simp add: f flight_view_def)
  then show ?thesis using dtls_check_leaf_sound [OF p] f(1) cv th th' fin d unfolding flight_authenticated_def by blast
qed

lemma finish_connect_sound:
  fixes T :: "('t, 'e) DatagramTransport"
  assumes "finish_connect C T hk cid n s acked lim th t = (t', Inr client)"
  shows "\<exists>ms c_ap s_ap. dtls_master_secret (dcf_hkdf C) (hk_hs_secret hk) = Inr ms \<and>
    dtls_application_traffic_secrets (dcf_hkdf C) ms th = Inr (c_ap, s_ap) \<and>
    EpochKeys_derive (dcf_hkdf C) (dcf_suite C) c_ap = Inr (dc_client_app client) \<and>
    EpochKeys_derive (dcf_hkdf C) (dcf_suite C) s_ap = Inr (dc_server_app client) \<and>
    dc_send_seq client = 0 \<and> dc_server_replay client = ReplayWindow_new \<and> dc_peer_record_limit client = lim"
  using assms unfolding finish_connect_def tbind_Inr tlift_Inr case_prod_beta
  by (auto simp: tsimps split: if_splits)

text \<open>C3: A DTLS handshake that returns a client is authenticated, with and without a HelloRetryRequest.  The
  transcript is that of the hellos actually exchanged, the retry's cookie and the hash of the first hello
  included; the server chose the client's suite; the flight's chain was accepted by the strategy, its
  leaf has the verified key and the requested name; CertificateVerify signs the transcript through
  Certificate and Finished is the MAC of the transcript through CertificateVerify under the DTLS key
  schedule of a shared secret that is not zero; and the application keys of the client are those of the
  transcript through the server's Finished.\<close>

theorem dtls_connect_authenticates:
  fixes T :: "('t, 'e) DatagramTransport"
  assumes "dtls_connect C P T rng t = (t', Inr client)"
  shows "\<exists>secret pub t_ch sh share cid ikm th_sh hk flight th_fin ms c_ap s_ap.
    snd (kx_generate (dcf_kx C) rng) = Some (secret, pub) \<and> hello_transcript C P pub t_ch \<and>
    dtls_parse_server_hello sh = Inr (SHK_Hello (ds_suite_id (dcf_suite C)) share cid) \<and>
    kx_derive (dcf_kx C) secret share = Some ikm \<and> ikm \<noteq> replicate 32 0 \<and>
    hk_digest (dcf_hkdf C) (t_ch @ hs_frame 2 sh) = Inr th_sh \<and>
    derive_handshake_keys (dcf_hkdf C) (dcf_suite C) ikm th_sh = Inr hk \<and>
    flight_authenticated C P (t_ch @ hs_frame 2 sh) (hk_server_hs_ts hk) flight \<and>
    hk_digest (dcf_hkdf C) (t_ch @ hs_frame 2 sh @ flight) = Inr th_fin \<and>
    dtls_master_secret (dcf_hkdf C) (hk_hs_secret hk) = Inr ms \<and>
    dtls_application_traffic_secrets (dcf_hkdf C) ms th_fin = Inr (c_ap, s_ap) \<and>
    EpochKeys_derive (dcf_hkdf C) (dcf_suite C) c_ap = Inr (dc_client_app client) \<and>
    EpochKeys_derive (dcf_hkdf C) (dcf_suite C) s_ap = Inr (dc_server_app client)"
proof -
  obtain secret pub he hi hk flight acked lim th_fin t1 t2 t3 where g: "snd (kx_generate (dcf_kx C) rng) = Some (secret, pub)"
    "length pub = 32" and he: "hello_exchange C P T pub t = (t1, Inr he)"
    and hi: "(read_hello C P he :: 'e DtlsClientError + _) = Inr hi"
    and hk: "(hello_keys C secret hi :: 'e DtlsClientError + _) = Inr hk"
    and v: "(dtls_verify_flight C P (hi_transcript hi) (hk_server_hs_ts hk) flight :: 'e DtlsClientError + _) = Inr (lim, th_fin)"
    and fin: "finish_connect C T hk (hi_send_cid hi) (hi_recv_cid_len hi) (he_fin_msg_seq he) acked lim th_fin t3 = (t', Inr client)"
    using assms by (auto simp: dtls_connect_def tsimps split: if_splits)
  obtain sh cid where sh: "hi_transcript hi = he_transcript he @ hs_frame 2 sh"
    "dtls_parse_server_hello sh = Inr (SHK_Hello (ds_suite_id (dcf_suite C)) (hi_share hi) cid)"
    using read_hello_transcript [OF hi] by blast
  obtain ikm th_sh where k: "kx_derive (dcf_kx C) secret (hi_share hi) = Some ikm"
    "hk_digest (dcf_hkdf C) (hi_transcript hi) = Inr th_sh"
    "derive_handshake_keys (dcf_hkdf C) (dcf_suite C) ikm th_sh = Inr hk"
    using hk by (auto simp: hello_keys_def result_simps snapshot_def)
  then have "ikm \<noteq> replicate 32 0" by (auto simp: derive_handshake_keys_def split: if_splits)
  then show ?thesis
    using g(1) hello_exchange_transcript [OF g(2) he] sh k dtls_verify_flight_sound [OF v] finish_connect_sound [OF fin]
    by (metis append.assoc)
qed

section \<open>The last step cannot fail\<close>

text \<open>Once the server's flight is verified, a working engine and a transport that accepts the two records
  finish the handshake: the Finished, the ACK of any set of records and their connection id always fit
  the buffers.\<close>

lemma finished_message:
  assumes "backend_total H" "length th = 32"
  shows "\<exists>fd. dtls_finished_mac H s th = Inr fd \<and> length fd = 32"
proof -
  obtain k where "dtls_expand_label H s (ascii ''finished'') [] 32 = Inr k"
    using expand_label_total [OF assms(1), of DTLS13_LABEL_PREFIX "ascii ''finished''" "[]" 32 s]
    by (auto simp: dtls_expand_label_def)
  then show ?thesis using extract_total [OF assms(1), of k th] by (simp add: dtls_finished_mac_def)
qed

lemma write_hs_msg_fits:
  assumes "length body = 32"
  shows "\<exists>m. (write_hs_msg (HS_HEADER_LEN + 48) ty seq body :: 'e DtlsClientError + bytes) = Inr m \<and> length m = 44"
proof -
  have u: "write_u24 (word_of_nat 32 :: 32 word) = Inr [0, 0, 32]" "write_u24 (0 :: 32 word) = Inr [0, 0, 0]" by code_simp+
  then show ?thesis using assms
    by (simp add: write_hs_msg_def HandshakeHeader_write_def HS_HEADER_LEN_def del: of_nat_numeral)
qed


lemma finish_connect_total:
  fixes T :: "('t, 'e) DatagramTransport"
  assumes "backend_total (dcf_hkdf C)" "suite_ok (dcf_suite C)" "aead_total (ds_cipher (dcf_suite C))" "ds_key_len (dcf_suite C) \<le> 32"
    and "length th = 32" "length send_cid \<le> MAX_CID_LEN" "\<And>d t. \<exists>t'. dt_send T d t = (t', Inr ())"
  shows "\<exists>t' client. finish_connect C T hk send_cid recv_cid_len seq acked lim th t = (t', Inr client)"
proof -
  let ?cid = "\<lambda>n. case sh_cid (epoch2_header n send_cid) of None \<Rightarrow> [] | Some c \<Rightarrow> c"
  have cid: "length (?cid n) \<le> 20" "seq_bytes (sh_seq_len (epoch2_header n send_cid)) = 2" for n
    using assms(6) by (auto simp: epoch2_header_def MAX_CID_LEN_def seq_bytes_def)
  obtain fd where fd: "dtls_finished_mac (dcf_hkdf C) (hk_client_hs_ts hk) th = Inr fd" "length fd = 32"
    using finished_message [OF assms(1,5)] by blast
  obtain m where m: "(write_hs_msg (HS_HEADER_LEN + 48) HS_FINISHED seq fd :: 'e DtlsClientError + bytes) = Inr m" "length m = 44"
    using write_hs_msg_fits [OF fd(2)] by blast
  obtain s where s: "seal (dcf_suite C) (hk_client hk) (epoch2_header 0 send_cid) m CT_HANDSHAKE (replicate 128 0) = Inr s" "length s \<le> 128"
    using seal_total [OF assms(2,3), of m "epoch2_header 0 send_cid" "replicate 128 0" "hk_client hk" CT_HANDSHAKE] cid [of 0] m(2) by auto
  obtain b where b: "write_ack_bitmap 2 acked (replicate MAX_ACK_BODY_LEN 0) = Inr b" "length b \<le> MAX_ACK_BODY_LEN"
    using ack_fits by blast
  obtain a where a: "seal (dcf_suite C) (hk_client hk) (epoch2_header 1 send_cid) b CT_ACK
      (replicate (MAX_ACK_BODY_LEN + MAX_ACK_SEAL_OVERHEAD) 0) = Inr a"
    using seal_total [OF assms(2,3), of b "epoch2_header 1 send_cid" "replicate (MAX_ACK_BODY_LEN + MAX_ACK_SEAL_OVERHEAD) 0" "hk_client hk" CT_ACK]
      cid [of 1] b(2)
    by (auto simp: MAX_ACK_SEAL_OVERHEAD_def MAX_ACK_BODY_LEN_def MAX_ACK_RECORDS_def RECORD_NUMBER_LEN_def MAX_CID_LEN_def TAG_LEN_def)
  obtain t1 t2 where t: "dt_send T s t = (t1, Inr ())" "dt_send T a t1 = (t2, Inr ())" using assms(7) by meson
  obtain ms where ms: "dtls_master_secret (dcf_hkdf C) (hk_hs_secret hk) = Inr ms"
    using derive_secret_total(2) [OF assms(1), of "ascii ''derived''" EMPTY_TRANSCRIPT_HASH "hk_hs_secret hk"] extract_total [OF assms(1)]
    by (auto simp: dtls_master_secret_def) blast
  obtain c_ap s_ap where ap: "dtls_application_traffic_secrets (dcf_hkdf C) ms th = Inr (c_ap, s_ap)"
    using derive_secret_total(2) [OF assms(1) _ assms(5), of "ascii ''c ap traffic''" ms]
      derive_secret_total(2) [OF assms(1) _ assms(5), of "ascii ''s ap traffic''" ms] by (auto simp: dtls_application_traffic_secrets_def)
  obtain kc ks where "EpochKeys_derive (dcf_hkdf C) (dcf_suite C) c_ap = Inr kc" "EpochKeys_derive (dcf_hkdf C) (dcf_suite C) s_ap = Inr ks"
    using EpochKeys_derive_total [OF assms(1,4)] by meson
  then show ?thesis using fd m s b a t ms ap by (simp add: finish_connect_def tbind_def tlift_def t_send_def)
qed

section \<open>The shape of a client\<close>

text \<open>What the receive method of a transport documents: it returns the number of bytes it wrote into the
  buffer it was given.\<close>

definition transport_fits :: "('t, 'e) DatagramTransport \<Rightarrow> bool" where
  "transport_fits T \<longleftrightarrow> (\<forall>n t t' d. dt_recv T n t = (t', Inr (Some d)) \<longrightarrow> length d \<le> n)"

text \<open>A receive never raises the budget of resent Finished flights and stashes less than a datagram.\<close>

definition recv_bounded :: "DtlsClient \<Rightarrow> DtlsClient \<Rightarrow> bool" where
  "recv_bounded c c' \<longleftrightarrow> dc_fin_resends_left c' \<le> dc_fin_resends_left c \<and>
     (length (dc_recv_stash c) \<le> MAX_DATAGRAM \<longrightarrow> length (dc_recv_stash c') \<le> MAX_DATAGRAM)"

lemma recv_bounded_trans: "recv_bounded c c1 \<Longrightarrow> recv_bounded c1 c2 \<Longrightarrow> recv_bounded c c2"
  by (auto simp: recv_bounded_def)

lemma resend_decreases: "(0 :: 8 word) < n \<Longrightarrow> n - 1 \<le> n"
  by (simp add: word_gt_0 word_le_nat_alt unat_minus_one)

lemma recv_walk_bounded:
  "recv_walk S T buf_len dg pos c t = (t', c', res) \<Longrightarrow> length dg \<le> MAX_DATAGRAM \<Longrightarrow> recv_bounded c c'"
proof (induction S T buf_len dg pos c t arbitrary: t' c' res rule: recv_walk.induct)
  case (1 S T buf_len dg pos c t)
  note unf = recv_walk.simps [of S T buf_len dg pos c t]
  let ?open = "open_record S (dc_server_app c) (dc_recv_cid_len c) (dc_recv_hint c) (drop pos dg)"
  show ?case
  proof (cases "pos < length dg \<and> is_ciphertext_record (dg ! pos) \<and> \<not> (pos = 0 \<and> dg ! pos AND 0b11 = 0b10)")
    case False
    then show ?thesis using "1.prems"(1)
      by (auto simp: unf Let_def recv_bounded_def resend_decreases split: if_splits prod.splits sum.splits)
  next
    case True
    show ?thesis
    proof (cases ?open)
      case (Inl e)
      then show ?thesis using "1.prems" True by (auto simp: unf Let_def recv_bounded_def)
    next
      case (Inr opened)
      let ?c = "c\<lparr>dc_server_replay := mark (dc_server_replay c) (op_seq opened),
          dc_recv_hint := max (dc_recv_hint c) (op_seq opened + 1), dc_fin_resends_left := 0\<rparr>"
      let ?next = "recv_walk S T buf_len dg (pos + op_record_len opened)"
      have m: "recv_bounded c ?c" by (simp add: recv_bounded_def)
      consider "op_record_len opened = 0" | "op_record_len opened \<noteq> 0" "?next c t = (t', c', res)"
        "\<not> accepts (dc_server_replay c) (op_seq opened)"
        | "op_record_len opened \<noteq> 0" "accepts (dc_server_replay c) (op_seq opened)"
          "op_content_type opened \<noteq> CT_APPLICATION_DATA" "?next ?c t = (t', c', res)"
        | "accepts (dc_server_replay c) (op_seq opened)" "op_content_type opened = CT_APPLICATION_DATA"
          "op_record_len opened \<noteq> 0"
        using "1.prems"(1) True Inr by (auto simp: unf Let_def split: if_splits)
      then show ?thesis
      proof cases
        case 1
        then show ?thesis using "1.prems" True Inr by (auto simp: unf Let_def recv_bounded_def)
      next
        case 2
        then show ?thesis using "1.prems"(2) "1.IH"(1) [OF _ refl _ _ Inr] True by blast
      next
        case 3
        then have "recv_bounded ?c c'" using "1.IH"(2) [OF _ refl _ _ Inr] True "1.prems"(2) by auto
        then show ?thesis by (rule recv_bounded_trans [OF m])
      next
        case 4
        then show ?thesis using "1.prems" True Inr by (auto simp: unf Let_def recv_bounded_def split: if_splits)
      qed
    qed
  qed
qed

lemma next_datagram_bounded:
  assumes "transport_fits T" "next_datagram T c t = (t', c', res)" "length (dc_recv_stash c) \<le> MAX_DATAGRAM"
  shows "recv_bounded c c' \<and> (\<forall>d. res = Inr (Some d) \<longrightarrow> length d \<le> MAX_DATAGRAM)"
  using assms by (auto simp: next_datagram_def recv_bounded_def transport_fits_def split: if_splits prod.splits sum.splits)

lemma dtls_recv_bounded:
  fixes T :: "('t, 'e) DatagramTransport"
  assumes "dtls_recv S T buf_len c t = Some r"
  shows "transport_fits T \<longrightarrow> length (dc_recv_stash c) \<le> MAX_DATAGRAM \<longrightarrow> recv_bounded c (fst (snd r))"
proof (rule dtls_recv.raw_induct
    [where P = "\<lambda>S (T :: ('t, 'e) DatagramTransport) buf_len c t r. transport_fits T \<longrightarrow>
       length (dc_recv_stash c) \<le> MAX_DATAGRAM \<longrightarrow> recv_bounded c (fst (snd r))", OF _ assms], goal_cases)
  case loop: (1 loop S T buf_len c t r)
  show ?case
  proof (intro impI)
    assume T: "transport_fits T" and st: "length (dc_recv_stash c) \<le> MAX_DATAGRAM"
    obtain t1 c1 dg where n: "next_datagram T c t = (t1, c1, dg)" by (metis surj_pair)
    note k = next_datagram_bounded [OF T n st]
    show "recv_bounded c (fst (snd r))"
    proof (cases "\<exists>d. dg = Inr (Some d)")
      case False
      then have "r = (t1, c1, dg)" using loop(2) n by (auto split: sum.splits option.splits)
      then show ?thesis using k by simp
    next
      case True
      then obtain d where d: "dg = Inr (Some d)" by blast
      obtain t2 c2 res where w: "recv_walk S T buf_len d 0 c1 t1 = (t2, c2, res)" by (metis surj_pair)
      have k2: "recv_bounded c c2" using recv_walk_bounded [OF w] k d recv_bounded_trans by blast
      show ?thesis
      proof (cases "res = Inr None")
        case True
        then have "loop S T buf_len c2 t2 = Some r" using loop(2) n d w by simp
        then have "recv_bounded c2 (fst (snd r))" using loop(1) T k2 st unfolding recv_bounded_def by blast
        then show ?thesis using recv_bounded_trans k2 by blast
      next
        case False
        then have "r = (t2, c2, res)" using loop(2) n d w by (cases res) (auto split: option.splits)
        then show ?thesis using k2 by simp
      qed
    qed
  qed
qed


text \<open>The fields of a client within the arrays the source gives them, and keys of the suite's lengths.\<close>

definition client_typed :: "DtlsSuite \<Rightarrow> DtlsClient \<Rightarrow> bool" where
  "client_typed S c \<longleftrightarrow> epoch_keys_ok S (dc_client_app c) \<and> epoch_keys_ok S (dc_server_app c) \<and>
     length (dc_send_cid c) \<le> MAX_CID_LEN \<and> dc_recv_cid_len c \<le> MAX_CID_LEN \<and> length (dc_fin_flight c) \<le> 128 \<and>
     dc_fin_resends_left c \<le> word_of_nat MAX_FLIGHT_ATTEMPTS \<and> length (dc_recv_stash c) \<le> MAX_DATAGRAM"

lemma EpochKeys_derive_ok:
  assumes "backend_total H" "ds_key_len S \<le> 32" "EpochKeys_derive H S s = Inr ks"
  shows "epoch_keys_ok S ks"
  using EpochKeys_derive_total [OF assms(1,2), of s] assms(3) by simp

lemma finish_connect_typed:
  assumes "backend_total (dcf_hkdf C)" "ds_key_len (dcf_suite C) \<le> 32"
    and "length send_cid \<le> MAX_CID_LEN" "recv_cid_len \<le> MAX_CID_LEN"
    and "finish_connect C T hk send_cid recv_cid_len seq acked lim th t = (t', Inr client)"
  shows "client_typed (dcf_suite C) client"
  using assms(3-5) EpochKeys_derive_ok [OF assms(1,2)]
  by (auto simp: finish_connect_def tbind_def tlift_def t_send_def client_typed_def result_simps
      split: prod.splits sum.splits if_splits)

lemma client_typed_recv:
  assumes "client_typed S c" "same_session c c'" "recv_bounded c c'"
  shows "client_typed S c'"
  using assms by (auto simp: client_typed_def same_session_def recv_bounded_def)

lemma dtls_run_typed:
  "dtls_run S T lg c0 c delivered sent \<Longrightarrow> transport_fits T \<Longrightarrow> client_typed S c0 \<Longrightarrow> client_typed S c"
proof (induction rule: dtls_run.induct)
  case (recv c delivered sent buf_len t t' c' res)
  then have c: "client_typed S c" by simp
  then have "recv_bounded c c'" using dtls_recv_bounded [OF recv.hyps(2)] recv.prems(1) by (simp add: client_typed_def)
  then show ?case using dtls_recv_keeps [OF recv.hyps(2)] client_typed_recv [OF c] by (simp add: recv_keeps_def)
qed (auto dest!: dtls_send_session simp: client_typed_def)

lemma read_hello_cids:
  assumes "(read_hello C P he :: 'e DtlsClientError + HelloInfo) = Inr hi"
    and "pred_option (\<lambda>c. length c \<le> MAX_CID_LEN) (dp_client_cid P)"
  shows "length (hi_send_cid hi) \<le> MAX_CID_LEN \<and> hi_recv_cid_len hi \<le> MAX_CID_LEN"
proof -
  obtain tr seq trailing kind where k: "(on_server_hello C P tr seq trailing kind :: 'e DtlsClientError + HelloInfo) = Inr hi"
    using assms(1) by (auto simp: read_hello_def result_simps Let_def)
  then obtain suite share cid where kind: "kind = SHK_Hello suite share cid"
    by (cases kind) (auto simp: on_server_hello_def)
  show ?thesis using k assms(2)
    by (cases "dp_client_cid P"; cases cid) (auto simp: on_server_hello_def kind split: if_splits)
qed

text \<open>C19: Every client is well typed for its whole life.  The keys of both directions have the lengths of
  the negotiated suite, both connection ids fit their 20-byte arrays, the stored Finished flight fits its
  128 bytes, the stash of coalesced records never exceeds one datagram and the budget of resent
  Finished flights never exceeds five - from the handshake that returns the client through any sequence
  of sends and receives, failed ones included.\<close>

theorem dtls_client_typed:
  fixes T :: "('t, 'e) DatagramTransport"
  assumes "backend_total (dcf_hkdf C)" "ds_key_len (dcf_suite C) \<le> 32" "transport_fits T"
    and run: "dtls_connect C P T rng t = (t', Inr c0)" "dtls_run (dcf_suite C) T lg c0 c delivered sent"
  shows "client_typed (dcf_suite C) c"
proof -
  obtain pub he hi hk acked lim th t1 t2 where "length pub = 32" and he: "hello_exchange C P T pub t = (t1, Inr he)"
    and hi: "(read_hello C P he :: 'e DtlsClientError + _) = Inr hi"
    and fin: "finish_connect C T hk (hi_send_cid hi) (hi_recv_cid_len hi) (he_fin_msg_seq he) acked lim th t2 = (t', Inr c0)"
    using run(1) by (auto simp: dtls_connect_def tsimps split: if_splits)
  then have "pred_option (\<lambda>c. length c \<le> MAX_CID_LEN) (dp_client_cid P)"
    using dtls_client_hello_eq [of pub None]
    by (auto simp: hello_exchange_def tsimps write_hello_def split: if_splits)
  then have "client_typed (dcf_suite C) c0"
    using read_hello_cids [OF hi] finish_connect_typed [OF assms(1,2) _ _ fin] by blast
  then show ?thesis using dtls_run_typed [OF run(2) assms(3)] by blast
qed

section \<open>An instance\<close>

definition demo_dtls_hello :: bytes where
  "demo_dtls_hello = dtls_server_hello_body [0xFE, 0xFD] (replicate 32 0x55) [] CIPHER_AES_128_GCM_SHA256 0
     [(EXT_KEY_SHARE, extension (NAMED_GROUP_X25519, replicate 32 3))]"

definition hs_message :: "8 word \<Rightarrow> 16 word \<Rightarrow> bytes \<Rightarrow> bytes" where
  "hs_message ty seq body = [ty] @ be_bytes 3 (length body) @ to_be_bytes seq @ [0, 0, 0] @ be_bytes 3 (length body) @ body"

definition demo_dtls_flight :: bytes where
  "demo_dtls_flight = hs_message HS_ENCRYPTED_EXTENSIONS 1 [0, 0] @ hs_message HS_CERTIFICATE 2 [0, 0, 0, 6, 0, 0, 1, 1, 0, 0] @
     hs_message HS_CERTIFICATE_VERIFY 3 (cv_message SIG_SCHEME_ED25519 (replicate 64 232)) @
     hs_message HS_FINISHED 4 (replicate 32 43)"

definition demo_hello_record :: bytes where
  "demo_hello_record = [22, 254, 253, 0, 0, 0, 0, 0, 0, 0, 0, 0, 92] @ hs_message 2 0 demo_dtls_hello"

definition demo_epoch2_record :: bytes where
  "demo_epoch2_record = [46, 247, 255, 0, 177] @ map (\<lambda>b. NOT b) (demo_dtls_flight @ [22]) @ replicate 16 7"

definition demo_dtls_datagram :: bytes where
  "demo_dtls_datagram = demo_hello_record @ demo_epoch2_record"

definition demo_pub :: bytes where
  "demo_pub = replicate 32 9"

definition demo_ch1 :: bytes where
  "demo_ch1 = hello_body demo_dtls_config demo_dtls_params demo_pub None"

definition demo_transcript :: bytes where
  "demo_transcript = hs_frame HS_CLIENT_HELLO demo_ch1 @ hs_frame 2 demo_dtls_hello"

definition demo_epoch_keys :: EpochKeys where
  "demo_epoch_keys = \<lparr>ek_keys = \<lparr>rk_key = replicate 16 7, rk_iv = replicate 12 7\<rparr>, ek_masker = replicate 16 7\<rparr>"

definition demo_hk :: HandshakeKeys where
  "demo_hk = \<lparr>hk_client = demo_epoch_keys, hk_server = demo_epoch_keys, hk_client_hs_ts = replicate 32 7,
     hk_server_hs_ts = replicate 32 7, hk_hs_secret = replicate 32 3\<rparr>"

lemma demo_ch1_written: "write_hello demo_dtls_config demo_dtls_params demo_pub None = Inr demo_ch1"
proof -
  have "length demo_ch1 \<le> 512" by code_simp
  then show ?thesis
    using dtls_client_hello_eq [of demo_pub None demo_features "replicate 32 7" "ds_suite_id demo_suite" None None "replicate 512 0"]
    by (simp add: write_hello_def demo_ch1_def hello_body_def demo_dtls_config_def demo_dtls_params_def CH_BUF_def demo_pub_def)
qed

lemma demo_ch1_record: "is_ok (build_client_hello_record demo_ch1 0 0 :: unit DtlsClientError + bytes)"
  by code_simp

lemma demo_reply_parsed:
  "(parse_hello_body demo_dtls_datagram :: unit DtlsClientError + _) = Inr (demo_dtls_hello, 0, 182)" "dtls_parse_server_hello demo_dtls_hello =
     Inr (SHK_Hello (ds_suite_id demo_suite) (replicate 32 3) None)"
  "drop (length demo_dtls_datagram - 182) demo_dtls_datagram = demo_epoch2_record"
  by code_simp+

definition demo_info :: HelloInfo where
  "demo_info = \<lparr>hi_transcript = demo_transcript, hi_share = replicate 32 3, hi_recv_cid_len = 0, hi_send_cid = [],
     hi_seq = 0, hi_trailing = 182\<rparr>"

lemma demo_keys_derived: "(hello_keys demo_dtls_config () demo_info :: unit DtlsClientError + _) = Inr demo_hk"
  by code_simp

definition demo_flight_state :: FlightState where
  "demo_flight_state = \<lparr>fs_reasm = \<lparr>ra_slots =
       [\<lparr>sl_seq = 1, sl_msg_type = HS_ENCRYPTED_EXTENSIONS, sl_len = 2, sl_off = 0, sl_ranges = [(0, 2)]\<rparr>,
        \<lparr>sl_seq = 2, sl_msg_type = HS_CERTIFICATE, sl_len = 10, sl_off = 2, sl_ranges = [(0, 10)]\<rparr>,
        \<lparr>sl_seq = 3, sl_msg_type = HS_CERTIFICATE_VERIFY, sl_len = 68, sl_off = 12, sl_ranges = [(0, 68)]\<rparr>,
        \<lparr>sl_seq = 4, sl_msg_type = HS_FINISHED, sl_len = 32, sl_off = 80, sl_ranges = [(0, 32)]\<rparr>],
       ra_used = 112\<rparr>,
     fs_arena = [0, 0] @ [0, 0, 0, 6, 0, 0, 1, 1, 0, 0] @ cv_message SIG_SCHEME_ED25519 (replicate 64 232) @ replicate 32 43 @ replicate 48 0,
     fs_next_seq = 1, fs_acked = 1\<rparr>"

lemma demo_opened:
  "open_record demo_suite demo_epoch_keys 0 0 demo_epoch2_record =
     Inr \<lparr>op_epoch_low2 = 2, op_seq = 0, op_content_type = 22, op_content = demo_dtls_flight, op_record_len = 182\<rparr>"
  by code_simp

lemma demo_fragments:
  "(feed_fragments demo_dtls_flight 0 \<lparr>fs_reasm = Reassembler_new, fs_arena = replicate 160 0, fs_next_seq = 0, fs_acked = 1\<rparr>
     :: unit DtlsClientError + _) = Inr (demo_flight_state\<lparr>fs_next_seq := 0\<rparr>)"
  by code_simp

definition demo_plain_flight :: bytes where
  "demo_plain_flight = flight_messages [0, 0] None [0, 0, 0, 6, 0, 0, 1, 1, 0, 0]
     (cv_message SIG_SCHEME_ED25519 (replicate 64 232)) (replicate 32 43)"

lemma demo_fed:
  "(feed_epoch2_records demo_suite demo_epoch_keys 0 demo_epoch2_record
     \<lparr>fs_reasm = Reassembler_new, fs_arena = replicate 160 0, fs_next_seq = 0, fs_acked = 0\<rparr> :: unit DtlsClientError + _) =
     Inr demo_flight_state"
proof -
  have "length demo_epoch2_record = 182" "is_ciphertext_record (demo_epoch2_record ! 0)" by code_simp+
  then show ?thesis using demo_opened demo_fragments
    by (simp add: feed_epoch2_records_def epoch2_walk.simps [of _ _ _ _ 0] MAX_ACK_RECORDS_def CT_HANDSHAKE_def)
      (simp add: epoch2_walk.simps demo_flight_state_def)
qed

lemma demo_assembled:
  "flight_complete (fs_reasm demo_flight_state) 1 HS_FINISHED"
  "serialize_flight (fs_reasm demo_flight_state) (fs_arena demo_flight_state) 160 = Inr demo_plain_flight"
  by code_simp+

lemma demo_flight_read:
  "read_flight demo_dtls_config demo_dtls_params queue_transport demo_hk
     \<lparr>he_transcript = tr, he_reply = demo_dtls_datagram, he_retransmit = rec, he_fin_msg_seq = s\<rparr> demo_info q =
     (q, Inr (demo_plain_flight, 1))"
  using demo_fed demo_assembled demo_reply_parsed(3)
  by (simp add: read_flight_def tbind_def tlift_def demo_dtls_config_def demo_dtls_params_def demo_info_def demo_hk_def
      flight_loop.simps) (simp add: demo_flight_state_def)

lemma demo_flight_verified:
  "(dtls_verify_flight demo_dtls_config demo_dtls_params demo_transcript (replicate 32 7) demo_plain_flight
     :: unit DtlsClientError + _) = Inr (None, replicate 32 79)"
proof -
  let ?cv = "cv_message SIG_SCHEME_ED25519 (replicate 64 232)"
  let ?view = "flight_view [0, 0] None [0, 0, 0, 6, 0, 0, 1, 1, 0, 0] ?cv (replicate 32 43)"
  have p: "parse_server_flight demo_plain_flight = Inr ?view"
    unfolding demo_plain_flight_def by (rule parse_server_flight_complete) (simp add: flight_sizes_def cv_message_def)
  have l: "(dtls_check_leaf demo_dtls_config demo_dtls_params ?view :: unit DtlsClientError + _) = Inr (PV_Ed25519 [5])"
    by code_simp
  have t: "length demo_transcript = 207" by code_simp
  have cv: "verify_certificate_verify_with_prepared flight_verifier (PV_Ed25519 [5]) (replicate 32 227) ?cv = Inr ()"
    by code_simp
  have fin: "dtls_finished_mac flight_hkdf (replicate 32 7) (replicate 32 43) = Inr (replicate 32 43)" by code_simp
  have ee: "parse_ee_record_size_limit [0, 0] = Inr None" by code_simp
  have c: "dcf_hkdf demo_dtls_config = flight_hkdf" "dcf_verifiers demo_dtls_config = flight_verifier"
    by (simp_all add: demo_dtls_config_def)
  have h: "snapshot flight_hkdf m = Inr (replicate 32 (word_of_nat (length m)))" for m
    by (simp add: snapshot_def flight_hkdf_def)
  have n: "(299 :: 8 word) = 43" "(335 :: 8 word) = 79" by code_simp+
  show ?thesis using l cv fin ee t
    by (simp add: dtls_verify_flight_def p c h n flight_view_def update_def Let_def cv_message_def)
qed

lemma demo_exchange:
  "\<exists>rec. hello_exchange demo_dtls_config demo_dtls_params queue_transport demo_pub [demo_dtls_datagram] =
     ([], Inr \<lparr>he_transcript = hs_frame HS_CLIENT_HELLO demo_ch1, he_reply = demo_dtls_datagram, he_retransmit = rec,
       he_fin_msg_seq = 1\<rparr>)"
proof -
  obtain rec where "(build_client_hello_record demo_ch1 0 0 :: unit DtlsClientError + bytes) = Inr rec"
    using demo_ch1_record by (auto simp: is_ok_iff)
  moreover have "take 2048 demo_dtls_datagram = demo_dtls_datagram" by code_simp
  ultimately show ?thesis
    using demo_reply_parsed
    by (simp add: hello_exchange_def tbind_def tlift_def demo_ch1_written send_flight_await_reply_def t_send_def t_recv_def
        await_reply.simps queue_transport_def on_first_reply_def update_def TranscriptHash_new_def transcript_msg
        CLIENT_HELLO_MSG_TYPE_def HS_CLIENT_HELLO_def)
qed

lemma demo_dtls_hello_read:
  "(read_hello demo_dtls_config demo_dtls_params \<lparr>he_transcript = hs_frame HS_CLIENT_HELLO demo_ch1,
     he_reply = demo_dtls_datagram, he_retransmit = rec, he_fin_msg_seq = 1\<rparr> :: unit DtlsClientError + _) = Inr demo_info"
  using demo_reply_parsed(1,2)
  by (simp add: read_hello_def on_server_hello_def update_def transcript_msg demo_info_def demo_transcript_def
      demo_dtls_config_def demo_dtls_params_def)

lemma demo_connected:
  "\<exists>client. dtls_connect demo_dtls_config demo_dtls_params queue_transport () [demo_dtls_datagram] = ([], Inr client)"
proof -
  obtain rec where he: "hello_exchange demo_dtls_config demo_dtls_params queue_transport demo_pub [demo_dtls_datagram] =
     ([], Inr \<lparr>he_transcript = hs_frame HS_CLIENT_HELLO demo_ch1, he_reply = demo_dtls_datagram, he_retransmit = rec,
       he_fin_msg_seq = 1\<rparr>)" using demo_exchange by blast
  have c: "dcf_hkdf demo_dtls_config = flight_hkdf" "dcf_suite demo_dtls_config = demo_suite"
    "snd (kx_generate (dcf_kx demo_dtls_config) ()) = Some ((), demo_pub)" "length demo_pub = 32"
    by (simp_all add: demo_dtls_config_def demo_pub_def)
  have S: "aead_total (ds_cipher demo_suite)" "ds_key_len demo_suite \<le> 32"
    using demo_cipher_total by (simp_all add: demo_suite_def Aes128GcmSha256_def)
  have q: "dt_send queue_transport d ds = (ds, Inr ())" for d ds by (simp add: queue_transport_def)
  obtain t' client where fin: "finish_connect demo_dtls_config queue_transport demo_hk [] 0 1 1 None (replicate 32 79) [] = (t', Inr client)"
    using finish_connect_total [of demo_dtls_config "replicate 32 79" "[]" queue_transport demo_hk 0 1 1 None "[]"]
      flight_hkdf_total demo_suite_ok S q c by auto
  then have "t' = []" by (auto simp: finish_connect_def tsimps t_send_def q split: if_splits)
  then show ?thesis
    using he demo_dtls_hello_read [of rec] demo_keys_derived demo_flight_read [of _ rec 1 "[]"] demo_flight_verified fin c
    by (simp add: dtls_connect_def tbind_def tlift_def demo_info_def demo_hk_def)
qed

theorem dtls_connect_authenticates_witness:
  "\<exists>client secret pub sh ikm th_sh hk flight.
    dtls_connect demo_dtls_config demo_dtls_params queue_transport () [demo_dtls_datagram] = ([], Inr client) \<and>
    snd (kx_generate (dcf_kx demo_dtls_config) ()) = Some (secret, pub) \<and>
    (\<exists>t_ch. hello_transcript demo_dtls_config demo_dtls_params pub t_ch \<and>
      derive_handshake_keys (dcf_hkdf demo_dtls_config) (dcf_suite demo_dtls_config) ikm th_sh = Inr hk \<and>
      flight_authenticated demo_dtls_config demo_dtls_params (t_ch @ hs_frame 2 sh) (hk_server_hs_ts hk) flight)"
proof -
  obtain client where "dtls_connect demo_dtls_config demo_dtls_params queue_transport () [demo_dtls_datagram] = ([], Inr client)"
    using demo_connected by blast
  with dtls_connect_authenticates [OF this] show ?thesis by blast
qed

theorem dtls_client_typed_witness:
  "\<exists>client. dtls_connect demo_dtls_config demo_dtls_params queue_transport () [demo_dtls_datagram] = ([], Inr client) \<and>
     client_typed demo_suite client"
proof -
  have c: "backend_total (dcf_hkdf demo_dtls_config)" "ds_key_len (dcf_suite demo_dtls_config) \<le> 32"
    using flight_hkdf_total by (simp_all add: demo_dtls_config_def demo_suite_def Aes128GcmSha256_def)
  have q: "transport_fits queue_transport" by (auto simp: transport_fits_def queue_transport_def split: list.splits)
  obtain client where k: "dtls_connect demo_dtls_config demo_dtls_params queue_transport () [demo_dtls_datagram] = ([], Inr client)"
    using demo_connected by blast
  have "client_typed (dcf_suite demo_dtls_config) client"
    by (rule dtls_client_typed [OF c q k dtls_run.start])
  then show ?thesis using k by (auto simp: demo_dtls_config_def)
qed

end
