(* ===== verification/Tlv_Cert.thy ===== *)
theory Tlv_Cert
  imports Tlv Verify_Strategy
begin

text \<open>
  The certificate parser of \<^verbatim>\<open>backends/tlv_cert.rs\<close> over the TLV walker: the leaf view, the CA
  constraints and the SubjectPublicKeyInfo of a certificate.  A slice that a function advances is
  returned beside its result.  The build features are the fields of a record, with the key lengths of
  the ML-DSA package the source imports.

  The reference is the grammar: \<^verbatim>\<open>cert_bytes\<close> lays out a certificate, \<^verbatim>\<open>tail_bytes\<close> what follows the
  key, \<^verbatim>\<open>ext_bytes\<close> one extension.
\<close>

section \<open>Model\<close>

record CertBuild =
  cb_rsa :: bool
  cb_rsa_pss_only :: bool
  cb_rsa_1024 :: bool
  cb_rsa_3072 :: bool
  cb_rsa_4096 :: bool
  cb_mldsa :: bool
  cb_ecdsa :: bool
  cb_ml_dsa_44_pk :: nat
  cb_ml_dsa_65_pk :: nat
  cb_ml_dsa_87_pk :: nat

definition TAG_BOOLEAN :: byte where
  "TAG_BOOLEAN = 0x01"

definition TAG_INTEGER :: byte where
  "TAG_INTEGER = 0x02"

definition TAG_BIT_STRING :: byte where
  "TAG_BIT_STRING = 0x03"

definition TAG_OCTET_STRING :: byte where
  "TAG_OCTET_STRING = 0x04"

definition TAG_NULL :: byte where
  "TAG_NULL = 0x05"

definition TAG_OID :: byte where
  "TAG_OID = 0x06"

definition TAG_SEQUENCE :: byte where
  "TAG_SEQUENCE = 0x30"

definition tag_ctx_constructed :: "byte \<Rightarrow> byte" where
  "tag_ctx_constructed n = 0xA0 OR (n AND 0x1F)"

definition peek_tag :: "bytes \<Rightarrow> TlvError + byte" where
  "peek_tag buf = ok_or TlvError (get_at 0 buf)"

definition ED25519_OID :: bytes where
  "ED25519_OID = [0x2B, 0x65, 0x70]"

definition ML_DSA_44_OID :: bytes where
  "ML_DSA_44_OID = [0x60, 0x86, 0x48, 0x01, 0x65, 0x03, 0x04, 0x03, 0x11]"

definition ML_DSA_65_OID :: bytes where
  "ML_DSA_65_OID = [0x60, 0x86, 0x48, 0x01, 0x65, 0x03, 0x04, 0x03, 0x12]"

definition ML_DSA_87_OID :: bytes where
  "ML_DSA_87_OID = [0x60, 0x86, 0x48, 0x01, 0x65, 0x03, 0x04, 0x03, 0x13]"

definition EC_PUBLIC_KEY_OID :: bytes where
  "EC_PUBLIC_KEY_OID = [0x2A, 0x86, 0x48, 0xCE, 0x3D, 0x02, 0x01]"

definition SECP256R1_OID :: bytes where
  "SECP256R1_OID = [0x2A, 0x86, 0x48, 0xCE, 0x3D, 0x03, 0x01, 0x07]"

definition SECP384R1_OID :: bytes where
  "SECP384R1_OID = [0x2B, 0x81, 0x04, 0x00, 0x22]"

definition P256_SEC1_LEN :: nat where
  "P256_SEC1_LEN = 65"

definition P384_SEC1_LEN :: nat where
  "P384_SEC1_LEN = 97"

definition SAN_OID :: bytes where
  "SAN_OID = [0x55, 0x1D, 0x11]"

definition BASIC_CONSTRAINTS_OID :: bytes where
  "BASIC_CONSTRAINTS_OID = [0x55, 0x1D, 0x13]"

definition KEY_USAGE_OID :: bytes where
  "KEY_USAGE_OID = [0x55, 0x1D, 0x0F]"

definition X509_V3 :: byte where
  "X509_V3 = 2"

definition RSA_ENCRYPTION_OID :: bytes where
  "RSA_ENCRYPTION_OID = [0x2A, 0x86, 0x48, 0x86, 0xF7, 0x0D, 0x01, 0x01, 0x01]"

definition SHA256_WITH_RSA_OID :: bytes where
  "SHA256_WITH_RSA_OID = [0x2A, 0x86, 0x48, 0x86, 0xF7, 0x0D, 0x01, 0x01, 0x0B]"

definition RSASSA_PSS_OID :: bytes where
  "RSASSA_PSS_OID = [0x2A, 0x86, 0x48, 0x86, 0xF7, 0x0D, 0x01, 0x01, 0x0A]"

datatype SpkiKind = SK_Ed25519 | SK_Rsa | SK_MlDsa nat | SK_EcdsaP256 | SK_EcdsaP384

definition malformed :: "'e \<Rightarrow> CertParseError" where
  "malformed e = CP_Malformed"

definition read_expected :: "bytes \<Rightarrow> byte \<Rightarrow> CertParseError + Tlv" where
  "read_expected buf expected_tag =
     rbind (map_err malformed (read_tlv buf)) (\<lambda>t.
       if tlv_tag t \<noteq> expected_tag then Inl CP_Malformed else Inr t)"

definition take_tlv :: "bytes \<Rightarrow> CertParseError + Tlv \<times> bytes" where
  "take_tlv cursor = rbind (map_err malformed (read_tlv cursor)) (\<lambda>t. Inr (t, tlv_rest t))"

definition take_expected :: "bytes \<Rightarrow> byte \<Rightarrow> CertParseError + Tlv \<times> bytes" where
  "take_expected cursor expected_tag = rbind (read_expected cursor expected_tag) (\<lambda>t. Inr (t, tlv_rest t))"

definition take_bit_string :: "bytes \<Rightarrow> CertParseError + bytes \<times> bytes" where
  "take_bit_string cursor =
     rbind (take_tlv cursor) (\<lambda>(t, cursor).
       if tlv_tag t \<noteq> TAG_BIT_STRING then Inl CP_Malformed
       else
         case tlv_body t of
           [] \<Rightarrow> Inl CP_Malformed
         | unused # rest \<Rightarrow> if unused \<noteq> 0 then Inl CP_BitStringHasUnusedBits else Inr (rest, cursor))"

definition ec_sec1_point :: "bytes \<Rightarrow> nat \<Rightarrow> CertParseError + unit" where
  "ec_sec1_point pk_bytes expect_len =
     (if length pk_bytes \<noteq> expect_len \<or> get_at 0 pk_bytes \<noteq> Some 0x04 then Inl CP_WrongEcdsaPubkey else Inr ())"

text \<open>The rest of a buffer after \<^verbatim>\<open>n\<close> TLVs of any tag.\<close>

fun take_tlvs :: "nat \<Rightarrow> bytes \<Rightarrow> CertParseError + bytes" where
  "take_tlvs 0 r = Inr r"
| "take_tlvs (Suc n) r = rbind (take_tlv r) (\<lambda>(_, r). take_tlvs n r)"

text \<open>The way to the serial number that \<^verbatim>\<open>spki_der\<close> and \<^verbatim>\<open>extensions_slice\<close> share.\<close>

definition skip_to_serial :: "bytes \<Rightarrow> CertParseError + bytes" where
  "skip_to_serial cert_der =
     rbind (read_expected cert_der TAG_SEQUENCE) (\<lambda>outer.
     rbind (take_tlv (tlv_body outer)) (\<lambda>(tbs, _).
     if tlv_tag tbs \<noteq> TAG_SEQUENCE then Inl CP_Malformed
     else
       let tbs_r = tlv_body tbs in
       rbind (map_err malformed (peek_tag tbs_r)) (\<lambda>tag.
         if tag = tag_ctx_constructed 0 then rbind (take_tlv tbs_r) (\<lambda>(_, tbs_r). Inr tbs_r) else Inr tbs_r)))"

definition spki_der :: "bytes \<Rightarrow> CertParseError + bytes" where
  "spki_der cert_der =
     rbind (skip_to_serial cert_der) (\<lambda>tbs_r.
     rbind (take_tlvs 5 tbs_r) (\<lambda>tbs_r.
     rbind (map_err malformed (read_tlv tbs_r)) (\<lambda>spki.
       Inr (take (tlv_header_len spki + length (tlv_body spki)) tbs_r))))"

definition extensions_slice :: "bytes \<Rightarrow> CertParseError + bytes" where
  "extensions_slice cert_der =
     rbind (skip_to_serial cert_der) (\<lambda>tbs_r. take_tlvs 6 tbs_r)"

definition is_true :: "bytes \<Rightarrow> bool" where
  "is_true body \<longleftrightarrow> (case body of [] \<Rightarrow> False | v # _ \<Rightarrow> v \<noteq> 0)"

definition int_to_u32 :: "bytes \<Rightarrow> CertParseError + 32 word" where
  "int_to_u32 bs =
     (if (case bs of [] \<Rightarrow> False | b # _ \<Rightarrow> b AND 0x80 \<noteq> 0) then Inl CP_Malformed
      else
        let sig = (case bs of b # rest \<Rightarrow> if b = 0 then rest else bs | [] \<Rightarrow> bs) in
        if length sig > 4 then Inl CP_Malformed
        else Inr (foldl (\<lambda>acc b. push_bit 8 acc OR ucast b) 0 sig))"

text \<open>The two optional fields of basicConstraints.\<close>

definition bc_is_ca :: "bytes \<Rightarrow> CaConstraints \<Rightarrow> CertParseError + CaConstraints \<times> bytes" where
  "bc_is_ca r out =
     (if r \<noteq> [] \<and> r ! 0 = TAG_BOOLEAN
      then rbind (take_tlv r) (\<lambda>(b, r). Inr (out\<lparr>cc_is_ca := is_true (tlv_body b)\<rparr>, r))
      else Inr (out, r))"

definition bc_path_len :: "bytes \<Rightarrow> CaConstraints \<Rightarrow> CertParseError + CaConstraints" where
  "bc_path_len r out =
     (if r \<noteq> [] \<and> r ! 0 = TAG_INTEGER
      then rbind (take_tlv r) (\<lambda>(i, r). rbind (int_to_u32 (tlv_body i)) (\<lambda>p. Inr (out\<lparr>cc_path_len := Some p\<rparr>)))
      else Inr out)"

definition parse_basic_constraints :: "bytes \<Rightarrow> CaConstraints \<Rightarrow> CertParseError + CaConstraints" where
  "parse_basic_constraints bs out =
     rbind (read_expected bs TAG_SEQUENCE) (\<lambda>seq.
     if tlv_rest seq \<noteq> [] then Inl CP_Malformed
     else rbind (bc_is_ca (tlv_body seq) out) (\<lambda>(out, r). bc_path_len r out))"

definition key_usage_cert_sign :: "bytes \<Rightarrow> CertParseError + bool" where
  "key_usage_cert_sign bs =
     rbind (read_expected bs TAG_BIT_STRING) (\<lambda>b.
       if tlv_rest b \<noteq> [] then Inl CP_Malformed
       else Inr (case get_at 1 (tlv_body b) of Some v \<Rightarrow> v AND 0x04 \<noteq> 0 | None \<Rightarrow> False))"

text \<open>One extension: its object identifier, the body of its \<^verbatim>\<open>critical\<close> field if present, its value, and
  what follows it.\<close>

definition take_extension :: "bytes \<Rightarrow> CertParseError + (bytes \<times> bytes option \<times> bytes) \<times> bytes" where
  "take_extension exts_r =
     rbind (take_tlv exts_r) (\<lambda>(ext_tlv, exts_r).
     if tlv_tag ext_tlv \<noteq> TAG_SEQUENCE then Inl CP_Malformed
     else
       rbind (take_tlv (tlv_body ext_tlv)) (\<lambda>(oid_tlv, ext_r).
       if tlv_tag oid_tlv \<noteq> TAG_OID then Inl CP_Malformed
       else
         rbind (map_err malformed (peek_tag ext_r)) (\<lambda>next_tag.
         rbind (if next_tag = TAG_BOOLEAN then rbind (take_tlv ext_r) (\<lambda>(b, ext_r). Inr (Some (tlv_body b), ext_r))
                else Inr (None, ext_r)) (\<lambda>(critical, ext_r).
         rbind (take_tlv ext_r) (\<lambda>(extn_value_tlv, ext_r).
         if tlv_tag extn_value_tlv \<noteq> TAG_OCTET_STRING then Inl CP_Malformed
         else Inr ((tlv_body oid_tlv, critical, tlv_body extn_value_tlv), exts_r))))))"

definition CaConstraints_default :: CaConstraints where
  "CaConstraints_default = \<lparr>cc_is_ca = False, cc_path_len = None, cc_key_cert_sign = None\<rparr>"

definition ca_extension :: "bytes \<times> bytes option \<times> bytes \<Rightarrow> CaConstraints \<Rightarrow> CertParseError + CaConstraints" where
  "ca_extension = (\<lambda>(ext_oid, critical, extn_value) out.
     if ext_oid = BASIC_CONSTRAINTS_OID then parse_basic_constraints extn_value out
     else if ext_oid = KEY_USAGE_OID
     then rbind (key_usage_cert_sign extn_value) (\<lambda>k. Inr (out\<lparr>cc_key_cert_sign := Some k\<rparr>))
     else if (case critical of Some b \<Rightarrow> is_true b | None \<Rightarrow> False) then Inl CP_UnhandledCriticalExtension
     else Inr out)"

lemma take_tlv_shorter: "take_tlv r = Inr (t, r') \<Longrightarrow> length r' < length r"
  by (auto simp: take_tlv_def result_simps read_tlv_ok tlv_bytes_def dest!: arg_cong [of r _ length])

lemma take_extension_shorter: "take_extension r = Inr (e, r') \<Longrightarrow> length r' < length r"
  by (auto simp: take_extension_def result_simps dest!: take_tlv_shorter split: if_splits)

function ca_exts_loop :: "bytes \<Rightarrow> CaConstraints \<Rightarrow> CertParseError + CaConstraints" where
  "ca_exts_loop exts_r out =
     (if exts_r = [] then Inr out
      else rbind (take_extension exts_r) (\<lambda>(e, exts_r). rbind (ca_extension e out) (\<lambda>out. ca_exts_loop exts_r out)))"
  by pat_completeness auto
termination
  by (relation "measure (\<lambda>(r, out). length r)") (auto dest: take_extension_shorter)

declare ca_exts_loop.simps [simp del]

function walk_extensions_for_ca :: "bytes \<Rightarrow> CertParseError + CaConstraints" where
  "walk_extensions_for_ca tbs_r =
     (if tbs_r = [] then Inr CaConstraints_default
      else if tbs_r ! 0 = tag_ctx_constructed 3 then
        rbind (take_tlv tbs_r) (\<lambda>(exts_explicit, _).
        rbind (read_expected (tlv_body exts_explicit) TAG_SEQUENCE) (\<lambda>exts_seq.
          ca_exts_loop (tlv_body exts_seq) CaConstraints_default))
      else rbind (take_tlv tbs_r) (\<lambda>(_, tbs_r). walk_extensions_for_ca tbs_r))"
  by pat_completeness auto
termination
  by (relation "measure length") (auto dest: take_tlv_shorter)

declare walk_extensions_for_ca.simps [simp del]

definition parse_ca_constraints :: "bytes \<Rightarrow> CertParseError + CaConstraints" where
  "parse_ca_constraints cert_der = rbind (extensions_slice cert_der) walk_extensions_for_ca"

function san_exts_loop :: "bytes \<Rightarrow> CertParseError + bytes option" where
  "san_exts_loop exts_r =
     (if exts_r = [] then Inr None
      else
        rbind (take_extension exts_r) (\<lambda>(e, exts_r).
          if fst e = SAN_OID
          then rbind (read_expected (snd (snd e)) TAG_SEQUENCE) (\<lambda>san_seq. Inr (Some (tlv_body san_seq)))
          else san_exts_loop exts_r))"
  by pat_completeness auto
termination
  by (relation "measure length") (auto dest: take_extension_shorter)

declare san_exts_loop.simps [simp del]

function walk_extensions_for_san :: "bytes \<Rightarrow> CertParseError + bytes option" where
  "walk_extensions_for_san tbs_r =
     (if tbs_r = [] then Inr None
      else
        let tag = tbs_r ! 0 in
        if tag = tag_ctx_primitive 1 \<or> tag = tag_ctx_constructed 1 \<or> tag = tag_ctx_primitive 2 \<or> tag = tag_ctx_constructed 2
        then rbind (take_tlv tbs_r) (\<lambda>(_, tbs_r). walk_extensions_for_san tbs_r)
        else if tag = tag_ctx_constructed 3 then
          rbind (take_tlv tbs_r) (\<lambda>(exts_explicit, _).
          rbind (read_expected (tlv_body exts_explicit) TAG_SEQUENCE) (\<lambda>exts_seq.
            san_exts_loop (tlv_body exts_seq)))
        else rbind (take_tlv tbs_r) (\<lambda>(_, tbs_r). walk_extensions_for_san tbs_r))"
  by pat_completeness auto
termination
  by (relation "measure length") (auto dest: take_tlv_shorter)

declare walk_extensions_for_san.simps [simp del]

definition require_explicit_null_params :: "bytes \<Rightarrow> CertParseError + unit" where
  "require_explicit_null_params r =
     (if r = [] then Inl CP_AlgorithmHasParameters
      else
        rbind (take_tlv r) (\<lambda>(null_tlv, r).
          if tlv_tag null_tlv \<noteq> TAG_NULL \<or> tlv_body null_tlv \<noteq> [] then Inl CP_AlgorithmHasParameters
          else if r \<noteq> [] then Inl CP_AlgorithmHasParameters
          else Inr ()))"

definition classify_spki_algorithm :: "CertBuild \<Rightarrow> bytes \<Rightarrow> CertParseError + SpkiKind" where
  "classify_spki_algorithm B alg_id_bytes =
     rbind (read_expected alg_id_bytes TAG_SEQUENCE) (\<lambda>outer.
     rbind (take_tlv (tlv_body outer)) (\<lambda>(oid_tlv, r).
     if tlv_tag oid_tlv \<noteq> TAG_OID then Inl CP_Malformed
     else if tlv_body oid_tlv = ED25519_OID then
       (if r \<noteq> [] then Inl CP_AlgorithmHasParameters else Inr SK_Ed25519)
     else if cb_rsa B \<and> tlv_body oid_tlv = RSA_ENCRYPTION_OID then
       rbind (require_explicit_null_params r) (\<lambda>_. Inr SK_Rsa)
     else
       case (if \<not> cb_mldsa B then None
             else if tlv_body oid_tlv = ML_DSA_44_OID then Some (cb_ml_dsa_44_pk B)
             else if tlv_body oid_tlv = ML_DSA_65_OID then Some (cb_ml_dsa_65_pk B)
             else if tlv_body oid_tlv = ML_DSA_87_OID then Some (cb_ml_dsa_87_pk B)
             else None) of
         Some pk_len \<Rightarrow> if r \<noteq> [] then Inl CP_AlgorithmHasParameters else Inr (SK_MlDsa pk_len)
       | None \<Rightarrow>
           if cb_ecdsa B \<and> tlv_body oid_tlv = EC_PUBLIC_KEY_OID then
             rbind (take_tlv r) (\<lambda>(curve_tlv, r).
               if tlv_tag curve_tlv \<noteq> TAG_OID \<or> r \<noteq> [] then Inl CP_AlgorithmHasParameters
               else if tlv_body curve_tlv = SECP256R1_OID then Inr SK_EcdsaP256
               else if tlv_body curve_tlv = SECP384R1_OID then Inr SK_EcdsaP384
               else Inl CP_WrongAlgorithmOid)
           else Inl CP_WrongAlgorithmOid))"

definition classify_rsa_outer_sig_alg :: "CertBuild \<Rightarrow> bytes \<Rightarrow> CertParseError + RsaCertSigAlg option" where
  "classify_rsa_outer_sig_alg B alg_id_bytes =
     rbind (read_expected alg_id_bytes TAG_SEQUENCE) (\<lambda>outer.
     rbind (take_tlv (tlv_body outer)) (\<lambda>(oid_tlv, r).
     if tlv_tag oid_tlv \<noteq> TAG_OID then Inl CP_Malformed
     else if \<not> cb_rsa_pss_only B \<and> tlv_body oid_tlv = SHA256_WITH_RSA_OID then
       rbind (require_explicit_null_params r) (\<lambda>_. Inr (Some Pkcs1v15Sha256))
     else if tlv_body oid_tlv = RSASSA_PSS_OID then
       (if r \<noteq> [] then
          rbind (take_tlv r) (\<lambda>(_, r). if r \<noteq> [] then Inl CP_Malformed else Inr (Some PssSha256))
        else Inr (Some PssSha256))
     else Inr None))"

text \<open>The content of a positive INTEGER without its sign octet.\<close>

definition strip_sign :: "bytes \<Rightarrow> bytes" where
  "strip_sign bs =
     (case bs of
        b # rest \<Rightarrow> if b = 0 \<and> rest \<noteq> [] \<and> (rest ! 0) AND 0x80 \<noteq> 0 then rest else bs
      | [] \<Rightarrow> bs)"

definition parse_rsa_pubkey :: "CertBuild \<Rightarrow> bytes \<Rightarrow> CertParseError + bytes \<times> 32 word" where
  "parse_rsa_pubkey B bit_string =
     rbind (map_err (\<lambda>_. CP_BadRsaPubkey) (read_tlv bit_string)) (\<lambda>outer.
     if tlv_tag outer \<noteq> TAG_SEQUENCE then Inl CP_BadRsaPubkey
     else
       rbind (map_err (\<lambda>_. CP_BadRsaPubkey) (read_tlv (tlv_body outer))) (\<lambda>modulus_tlv.
       let r = tlv_rest modulus_tlv in
       if tlv_tag modulus_tlv \<noteq> TAG_INTEGER then Inl CP_BadRsaPubkey
       else
         let modulus = strip_sign (tlv_body modulus_tlv) in
         if modulus = [] \<or> modulus ! 0 = 0 then Inl CP_BadRsaPubkey
         else if \<not> (cb_rsa_1024 B \<and> length modulus = 128 \<or> length modulus = 256 \<or>
             cb_rsa_3072 B \<and> length modulus = 384 \<or> cb_rsa_4096 B \<and> length modulus = 512)
         then Inl CP_UnsupportedRsaKeySize
         else
           rbind (map_err (\<lambda>_. CP_BadRsaPubkey) (read_tlv r)) (\<lambda>exponent_tlv.
           let r = tlv_rest exponent_tlv in
           if tlv_tag exponent_tlv \<noteq> TAG_INTEGER then Inl CP_BadRsaPubkey
           else
             let exp_bytes = strip_sign (tlv_body exponent_tlv) in
             if exp_bytes = [] \<or> length exp_bytes > 4 \<or> exp_bytes ! 0 = 0 then Inl CP_BadRsaPubkey
             else
               let exponent = foldl (\<lambda>e b. push_bit 8 e OR ucast b) 0 exp_bytes in
               if exponent < 3 \<or> exponent AND 1 = 0 then Inl CP_BadRsaPubkey
               else if r \<noteq> [] then Inl CP_BadRsaPubkey
               else Inr (modulus, exponent))))"

text \<open>The field \<^verbatim>\<open>outer_sig_alg\<close> of an ECDSA view exists in builds with \<^verbatim>\<open>rsa\<close> only.\<close>

definition ecdsa_outer_sig_alg :: "CertBuild \<Rightarrow> bytes \<Rightarrow> CertParseError + RsaCertSigAlg option" where
  "ecdsa_outer_sig_alg B outer_sig_alg_bytes =
     (if cb_rsa B then classify_rsa_outer_sig_alg B outer_sig_alg_bytes else Inr None)"

definition cert_view ::
  "CertBuild \<Rightarrow> bytes \<Rightarrow> bytes \<Rightarrow> bytes \<Rightarrow> bytes \<Rightarrow> bytes option \<Rightarrow> bytes \<Rightarrow> SpkiKind \<Rightarrow> CertParseError + CertView" where
  "cert_view B tbs_full sig_bytes outer_sig_alg_bytes pk_bytes san_bytes validity_der kind =
     (case kind of
        SK_Ed25519 \<Rightarrow>
          if length pk_bytes \<noteq> 32 then Inl CP_WrongPubkeyLength
          else if length sig_bytes \<noteq> 64 then Inl CP_WrongSignatureLength
          else Inr (CV_Ed25519 tbs_full sig_bytes pk_bytes san_bytes validity_der)
      | SK_Rsa \<Rightarrow>
          rbind (parse_rsa_pubkey B pk_bytes) (\<lambda>(modulus, exponent).
          rbind (classify_rsa_outer_sig_alg B outer_sig_alg_bytes) (\<lambda>outer_sig_alg.
            Inr (CV_Rsa tbs_full sig_bytes outer_sig_alg modulus exponent san_bytes validity_der)))
      | SK_MlDsa pk_len \<Rightarrow>
          if length pk_bytes \<noteq> pk_len then Inl CP_WrongMlDsaPubkeyLength
          else Inr (CV_MlDsa tbs_full sig_bytes pk_bytes san_bytes validity_der)
      | SK_EcdsaP256 \<Rightarrow>
          rbind (ec_sec1_point pk_bytes P256_SEC1_LEN) (\<lambda>_.
          rbind (ecdsa_outer_sig_alg B outer_sig_alg_bytes) (\<lambda>outer_sig_alg.
            Inr (CV_EcdsaP256 tbs_full sig_bytes pk_bytes outer_sig_alg san_bytes validity_der)))
      | SK_EcdsaP384 \<Rightarrow>
          rbind (ec_sec1_point pk_bytes P384_SEC1_LEN) (\<lambda>_.
          rbind (ecdsa_outer_sig_alg B outer_sig_alg_bytes) (\<lambda>outer_sig_alg.
            Inr (CV_EcdsaP384 tbs_full sig_bytes pk_bytes outer_sig_alg san_bytes validity_der))))"

text \<open>The bytes of a TLV at the start of a buffer.\<close>

definition full_tlv :: "Tlv \<Rightarrow> bytes \<Rightarrow> bytes" where
  "full_tlv t buf = take (tlv_header_len t + length (tlv_body t)) buf"

text \<open>The to-be-signed part: from the version to the key.\<close>

definition parse_version :: "bytes \<Rightarrow> CertParseError + bytes" where
  "parse_version tbs_r =
     rbind (map_err malformed (peek_tag tbs_r)) (\<lambda>first_tag.
     if first_tag \<noteq> tag_ctx_constructed 0 then Inl CP_UnsupportedCertVersion
     else
       rbind (take_tlv tbs_r) (\<lambda>(version_tlv, tbs_r).
       rbind (read_expected (tlv_body version_tlv) TAG_INTEGER) (\<lambda>int_tlv.
         if length (tlv_body int_tlv) \<noteq> 1 then Inl CP_Malformed
         else if tlv_body int_tlv ! 0 \<noteq> X509_V3 then Inl CP_UnsupportedCertVersion
         else if tlv_rest int_tlv \<noteq> [] then Inl CP_Malformed
         else Inr tbs_r)))"

definition parse_spki :: "bytes \<Rightarrow> CertParseError + (bytes \<times> bytes) \<times> bytes" where
  "parse_spki tbs_r =
     rbind (read_expected tbs_r TAG_SEQUENCE) (\<lambda>spki_tlv.
     let spki_r = tlv_body spki_tlv in
     rbind (map_err malformed (read_tlv spki_r)) (\<lambda>spki_alg_tlv.
     rbind (take_bit_string (tlv_rest spki_alg_tlv)) (\<lambda>(pk_bytes, rest).
       if rest \<noteq> [] then Inl CP_TrailingBytes
       else Inr ((full_tlv spki_alg_tlv spki_r, pk_bytes), tlv_rest spki_tlv))))"

definition parse_tbs :: "CertBuild \<Rightarrow> bytes \<Rightarrow> bytes \<Rightarrow> bytes \<Rightarrow> bytes \<Rightarrow> CertParseError + CertView" where
  "parse_tbs B tbs_full sig_bytes outer_sig_alg_bytes tbs_r =
     rbind (parse_version tbs_r) (\<lambda>tbs_r.
     rbind (take_expected tbs_r TAG_INTEGER) (\<lambda>(_, tbs_r).
     rbind (read_expected tbs_r TAG_SEQUENCE) (\<lambda>tbs_alg_tlv.
     if full_tlv tbs_alg_tlv tbs_r \<noteq> outer_sig_alg_bytes then Inl CP_SignatureAlgorithmMismatch
     else
       rbind (take_expected (tlv_rest tbs_alg_tlv) TAG_SEQUENCE) (\<lambda>(_, tbs_r).
       rbind (read_expected tbs_r TAG_SEQUENCE) (\<lambda>validity_tlv.
       let validity_der = full_tlv validity_tlv tbs_r in
       rbind (take_expected (tlv_rest validity_tlv) TAG_SEQUENCE) (\<lambda>(_, tbs_r).
       rbind (parse_spki tbs_r) (\<lambda>((spki_alg_bytes, pk_bytes), tbs_r).
       rbind (walk_extensions_for_san tbs_r) (\<lambda>san_bytes.
       rbind (classify_spki_algorithm B spki_alg_bytes)
         (cert_view B tbs_full sig_bytes outer_sig_alg_bytes pk_bytes san_bytes validity_der)))))))))"

definition parse_cert :: "CertBuild \<Rightarrow> bytes \<Rightarrow> CertParseError + CertView" where
  "parse_cert B cert_der =
     rbind (read_expected cert_der TAG_SEQUENCE) (\<lambda>outer.
     let body = tlv_body outer in
     rbind (map_err malformed (read_tlv body)) (\<lambda>tbs_tlv.
     if tlv_tag tbs_tlv \<noteq> TAG_SEQUENCE then Inl CP_Malformed
     else
       let tbs_full = full_tlv tbs_tlv body; body = tlv_rest tbs_tlv in
       rbind (map_err malformed (read_tlv body)) (\<lambda>outer_alg_tlv.
       if tlv_tag outer_alg_tlv \<noteq> TAG_SEQUENCE then Inl CP_Malformed
       else
         let outer_sig_alg_bytes = full_tlv outer_alg_tlv body in
         rbind (take_bit_string (tlv_rest outer_alg_tlv)) (\<lambda>(sig_bytes, body).
         if body \<noteq> [] then Inl CP_TrailingBytes
         else parse_tbs B tbs_full sig_bytes outer_sig_alg_bytes (tlv_body tbs_tlv)))))"

definition DerCert :: "CertBuild \<Rightarrow> CertParser" where
  "DerCert B = \<lparr>cp_parse = parse_cert B, cp_parse_ca_constraints = parse_ca_constraints, cp_spki_der = spki_der\<rparr>"

section \<open>The grammar\<close>

definition seq_bytes_of :: "bytes \<Rightarrow> bytes" where
  "seq_bytes_of body = tlv_bytes (TAG_SEQUENCE, body)"

record Certificate =
  ct_serial :: bytes
  ct_sig_alg :: bytes
  ct_issuer :: bytes
  ct_validity :: bytes
  ct_subject :: bytes
  ct_spki_alg :: "byte \<times> bytes"
  ct_pubkey :: bytes
  ct_tail :: bytes
  ct_signature :: bytes

definition spki_bytes :: "Certificate \<Rightarrow> bytes" where
  "spki_bytes c = seq_bytes_of (tlv_bytes (ct_spki_alg c) @ tlv_bytes (TAG_BIT_STRING, 0 # ct_pubkey c))"

definition version_bytes :: bytes where
  "version_bytes = tlv_bytes (tag_ctx_constructed 0, tlv_bytes (TAG_INTEGER, [X509_V3]))"

definition tbs_body :: "Certificate \<Rightarrow> bytes" where
  "tbs_body c = version_bytes @ tlv_bytes (TAG_INTEGER, ct_serial c) @ seq_bytes_of (ct_sig_alg c) @ seq_bytes_of (ct_issuer c) @
     seq_bytes_of (ct_validity c) @ seq_bytes_of (ct_subject c) @ spki_bytes c @ ct_tail c"

definition cert_body :: "Certificate \<Rightarrow> bytes" where
  "cert_body c = seq_bytes_of (tbs_body c) @ seq_bytes_of (ct_sig_alg c) @ tlv_bytes (TAG_BIT_STRING, 0 # ct_signature c)"

definition cert_bytes :: "Certificate \<Rightarrow> bytes" where
  "cert_bytes c = seq_bytes_of (cert_body c)"

definition cert_ok :: "Certificate \<Rightarrow> bool" where
  "cert_ok c \<longleftrightarrow> length (cert_body c) < 2 ^ 32 \<and> low_tag (fst (ct_spki_alg c))"

definition view_of :: "CertBuild \<Rightarrow> Certificate \<Rightarrow> CertParseError + CertView" where
  "view_of B c =
     rbind (walk_extensions_for_san (ct_tail c)) (\<lambda>san.
     rbind (classify_spki_algorithm B (tlv_bytes (ct_spki_alg c)))
       (cert_view B (seq_bytes_of (tbs_body c)) (ct_signature c) (seq_bytes_of (ct_sig_alg c)) (ct_pubkey c) san
          (seq_bytes_of (ct_validity c))))"

section \<open>Reading canonical TLVs\<close>

lemmas tags = TAG_BOOLEAN_def TAG_INTEGER_def TAG_BIT_STRING_def TAG_OCTET_STRING_def TAG_NULL_def TAG_OID_def
  TAG_SEQUENCE_def tag_ctx_constructed_def tag_ctx_primitive_def

text \<open>The result of reading a TLV in front of \<^verbatim>\<open>r\<close>.\<close>

definition mk_tlv :: "byte \<Rightarrow> bytes \<Rightarrow> bytes \<Rightarrow> Tlv" where
  "mk_tlv tag body r = \<lparr>tlv_tag = tag, tlv_header_len = 1 + length (tlv_len (length body)), tlv_body = body, tlv_rest = r\<rparr>"

lemma mk_tlv_simps [simp]:
  "tlv_tag (mk_tlv tag body r) = tag" "tlv_body (mk_tlv tag body r) = body" "tlv_rest (mk_tlv tag body r) = r"
  by (simp_all add: mk_tlv_def)

lemma read_encoded_tlv: "tlv_ok (tag, body) \<Longrightarrow> read_tlv (tlv_bytes (tag, body) @ r) = Inr (mk_tlv tag body r)"
  by (simp add: read_tlv_ok mk_tlv_def)

lemma full_tlv_eq: "read_tlv buf = Inr t \<Longrightarrow> full_tlv t buf = tlv_bytes (tlv_tag t, tlv_body t)"
  by (auto simp: read_tlv_ok full_tlv_def tlv_bytes_def)

lemma read_expected_ok:
  "read_expected buf tag = Inr t \<longleftrightarrow> read_tlv buf = Inr t \<and> tlv_tag t = tag"
  by (auto simp: read_expected_def result_simps)

lemma take_tlv_ok: "take_tlv buf = Inr (t, r) \<longleftrightarrow> read_tlv buf = Inr t \<and> r = tlv_rest t"
  by (auto simp: take_tlv_def result_simps)

lemma take_expected_ok: "take_expected buf tag = Inr (t, r) \<longleftrightarrow> read_tlv buf = Inr t \<and> tlv_tag t = tag \<and> r = tlv_rest t"
  by (auto simp: take_expected_def result_simps read_expected_ok)

lemma peek_tag_ok: "peek_tag buf = Inr tag \<longleftrightarrow> buf \<noteq> [] \<and> tag = buf ! 0"
  by (auto simp: peek_tag_def get_at_def result_simps)

lemma take_bit_string_ok:
  "take_bit_string buf = Inr (bits, r) \<longleftrightarrow> length bits + 1 < 2 ^ 32 \<and> buf = tlv_bytes (TAG_BIT_STRING, 0 # bits) @ r"
proof
  assume *: "take_bit_string buf = Inr (bits, r)"
  then obtain t where t: "read_tlv buf = Inr t"
    by (auto simp: take_bit_string_def result_simps take_tlv_ok)
  then have "tlv_rest t = r" "tlv_tag t = TAG_BIT_STRING" "tlv_body t = 0 # bits"
    using * by (cases "tlv_body t"; auto simp: take_bit_string_def take_tlv_def split: if_splits)+
  then show "length bits + 1 < 2 ^ 32 \<and> buf = tlv_bytes (TAG_BIT_STRING, 0 # bits) @ r"
    using t by (auto simp: read_tlv_ok tlv_ok_def)
next
  assume "length bits + 1 < 2 ^ 32 \<and> buf = tlv_bytes (TAG_BIT_STRING, 0 # bits) @ r"
  then show "take_bit_string buf = Inr (bits, r)"
    by (auto simp: take_bit_string_def take_tlv_def read_encoded_tlv tlv_ok_def low_tag_def tags)
qed

lemma tlv_bytes_nonempty [simp]: "tlv_bytes x @ r \<noteq> []" "(tlv_bytes x @ r) ! 0 = fst x" "tlv_bytes x \<noteq> []"
  by (cases x; simp add: tlv_bytes_def)+

lemma length_tlv_bytes: "length body < length (tlv_bytes (tag, body))"
  by (simp add: tlv_bytes_def)

lemma parse_version_ok: "parse_version r = Inr r' \<longleftrightarrow> r = version_bytes @ r'"
proof
  assume "parse_version r = Inr r'"
  then obtain v i where v: "read_tlv r = Inr v" "tlv_rest v = r'" "r ! 0 = tag_ctx_constructed 0"
    and i: "read_tlv (tlv_body v) = Inr i" "tlv_tag i = TAG_INTEGER" "tlv_rest i = []" "length (tlv_body i) = 1" "tlv_body i ! 0 = X509_V3"
    by (auto simp: parse_version_def result_simps take_tlv_ok read_expected_ok peek_tag_ok split: if_splits)
  have "tlv_body i = [X509_V3]" using i(4,5) by (cases "tlv_body i") auto
  then show "r = version_bytes @ r'" using v i(1-3) by (auto simp: read_tlv_ok version_bytes_def)
next
  assume r: "r = version_bytes @ r'"
  have "tlv_ok (tag_ctx_constructed 0, tlv_bytes (TAG_INTEGER, [X509_V3]))" "tlv_ok (TAG_INTEGER, [X509_V3])"
    by (simp_all add: tlv_ok_def low_tag_def tags tlv_bytes_def)
  then show "parse_version r = Inr r'"
    using read_encoded_tlv [of TAG_INTEGER "[X509_V3]" "[]"]
    by (simp add: r version_bytes_def parse_version_def peek_tag_def get_at_def take_tlv_def read_encoded_tlv read_expected_def)
qed

lemma parse_spki_ok:
  "parse_spki r = Inr ((alg, pk), r') \<longleftrightarrow> (\<exists>x. low_tag (fst x) \<and> alg = tlv_bytes x \<and>
     r = seq_bytes_of (tlv_bytes x @ tlv_bytes (TAG_BIT_STRING, 0 # pk)) @ r' \<and>
     length (tlv_bytes x @ tlv_bytes (TAG_BIT_STRING, 0 # pk)) < 2 ^ 32)" (is "?l \<longleftrightarrow> ?r")
proof
  assume ?l
  then obtain s a where s: "read_tlv r = Inr s" "tlv_tag s = TAG_SEQUENCE" "tlv_rest s = r'" and a: "read_tlv (tlv_body s) = Inr a"
    and b: "tlv_rest a = tlv_bytes (TAG_BIT_STRING, 0 # pk)" and alg: "alg = full_tlv a (tlv_body s)"
    by (auto simp: parse_spki_def result_simps read_expected_ok take_bit_string_ok Let_def split: if_splits)
  have "tlv_body s = tlv_bytes (tlv_tag a, tlv_body a) @ tlv_bytes (TAG_BIT_STRING, 0 # pk)"
    using a b by (simp add: read_tlv_ok)
  then show ?r using s a full_tlv_eq [OF a] alg
    by (intro exI [of _ "(tlv_tag a, tlv_body a)"]) (auto simp: read_tlv_ok seq_bytes_of_def tlv_ok_def)
next
  assume ?r
  then obtain tag body where x: "low_tag tag" "alg = tlv_bytes (tag, body)"
    "r = seq_bytes_of (tlv_bytes (tag, body) @ tlv_bytes (TAG_BIT_STRING, 0 # pk)) @ r'"
    "length (tlv_bytes (tag, body) @ tlv_bytes (TAG_BIT_STRING, 0 # pk)) < 2 ^ 32" by auto
  have ok: "tlv_ok (tag, body)" "tlv_ok (TAG_SEQUENCE, tlv_bytes (tag, body) @ tlv_bytes (TAG_BIT_STRING, 0 # pk))"
    using x(1,4) length_tlv_bytes [of body tag] by (auto simp: tlv_ok_def low_tag_def tags)
  have "take_bit_string (tlv_bytes (TAG_BIT_STRING, 0 # pk)) = Inr (pk, [])"
    using x(4) length_tlv_bytes [of "0 # pk" TAG_BIT_STRING] by (simp add: take_bit_string_ok)
  then show ?l using full_tlv_eq [OF read_encoded_tlv [OF ok(1)]]
    by (simp add: parse_spki_def x(2,3) seq_bytes_of_def read_expected_def read_encoded_tlv ok)
qed

lemma parse_tbs_sound:
  assumes "parse_tbs B tbs_full sig_bytes outer r = Inr v"
  shows "\<exists>c. r = tbs_body c \<and> low_tag (fst (ct_spki_alg c)) \<and> ct_signature c = sig_bytes \<and> outer = seq_bytes_of (ct_sig_alg c)"
proof -
  obtain r1 s a i vl sb alg pk tail where 1: "r = version_bytes @ r1"
    and s: "read_tlv r1 = Inr s" "tlv_tag s = TAG_INTEGER"
    and a: "read_tlv (tlv_rest s) = Inr a" "tlv_tag a = TAG_SEQUENCE" "full_tlv a (tlv_rest s) = outer"
    and i: "read_tlv (tlv_rest a) = Inr i" "tlv_tag i = TAG_SEQUENCE"
    and vl: "read_tlv (tlv_rest i) = Inr vl" "tlv_tag vl = TAG_SEQUENCE"
    and sb: "read_tlv (tlv_rest vl) = Inr sb" "tlv_tag sb = TAG_SEQUENCE"
    and k: "parse_spki (tlv_rest sb) = Inr ((alg, pk), tail)"
    using assms by (auto simp: parse_tbs_def result_simps parse_version_ok take_expected_ok read_expected_ok Let_def split: if_splits)
  obtain x where x: "low_tag (fst x)" "tlv_rest sb = seq_bytes_of (tlv_bytes x @ tlv_bytes (TAG_BIT_STRING, 0 # pk)) @ tail"
    using k parse_spki_ok by blast
  show ?thesis
    by (rule exI [of _ "\<lparr>ct_serial = tlv_body s, ct_sig_alg = tlv_body a, ct_issuer = tlv_body i, ct_validity = tlv_body vl,
        ct_subject = tlv_body sb, ct_spki_alg = x, ct_pubkey = pk, ct_tail = tail, ct_signature = sig_bytes\<rparr>"])
      (use 1 s a i vl sb x full_tlv_eq [OF a(1)] in \<open>auto simp: tbs_body_def spki_bytes_def read_tlv_ok seq_bytes_of_def\<close>)
qed

lemma read_seq: "length body < 2 ^ 32 \<Longrightarrow> read_tlv (seq_bytes_of body @ r) = Inr (mk_tlv TAG_SEQUENCE body r)"
  by (simp add: seq_bytes_of_def read_encoded_tlv tlv_ok_def low_tag_def tags)

lemma full_seq: "length body < 2 ^ 32 \<Longrightarrow> full_tlv (mk_tlv TAG_SEQUENCE body r) (seq_bytes_of body @ r) = seq_bytes_of body"
  using full_tlv_eq [OF read_seq] by (simp add: seq_bytes_of_def)

lemma length_seq_bytes_of: "length body < length (seq_bytes_of body)"
  by (simp add: seq_bytes_of_def length_tlv_bytes)

lemma cert_lengths:
  assumes "cert_ok c"
  shows "length (tbs_body c) < 2 ^ 32" "length (ct_sig_alg c) < 2 ^ 32" "length (ct_signature c) + 1 < 2 ^ 32"
    "length (ct_serial c) < 2 ^ 32" "length (ct_issuer c) < 2 ^ 32" "length (ct_validity c) < 2 ^ 32"
    "length (ct_subject c) < 2 ^ 32"
    "length (tlv_bytes (ct_spki_alg c) @ tlv_bytes (TAG_BIT_STRING, 0 # ct_pubkey c)) < 2 ^ 32"
proof -
  have b: "length (cert_body c) < 2 ^ 32" using assms by (simp add: cert_ok_def)
  then show t: "length (tbs_body c) < 2 ^ 32" "length (ct_sig_alg c) < 2 ^ 32" "length (ct_signature c) + 1 < 2 ^ 32"
    using length_seq_bytes_of [of "tbs_body c"] length_seq_bytes_of [of "ct_sig_alg c"]
      length_tlv_bytes [of "0 # ct_signature c" TAG_BIT_STRING] by (auto simp: cert_body_def)
  let ?k = "tlv_bytes (ct_spki_alg c) @ tlv_bytes (TAG_BIT_STRING, 0 # ct_pubkey c)"
  have "length (tbs_body c) = length version_bytes + length (tlv_bytes (TAG_INTEGER, ct_serial c)) + length (seq_bytes_of (ct_sig_alg c)) +
      length (seq_bytes_of (ct_issuer c)) + length (seq_bytes_of (ct_validity c)) + length (seq_bytes_of (ct_subject c)) +
      length (seq_bytes_of ?k) + length (ct_tail c)"
    unfolding tbs_body_def spki_bytes_def by (simp only: length_append add.assoc)
  then show "length (ct_serial c) < 2 ^ 32" "length (ct_issuer c) < 2 ^ 32" "length (ct_validity c) < 2 ^ 32"
    "length (ct_subject c) < 2 ^ 32" "length ?k < 2 ^ 32"
    using t(1) length_tlv_bytes [of "ct_serial c" TAG_INTEGER] length_seq_bytes_of [of "ct_issuer c"]
      length_seq_bytes_of [of "ct_validity c"] length_seq_bytes_of [of "ct_subject c"] length_seq_bytes_of [of ?k]
    by linarith+
qed

lemma read_integer: "length body < 2 ^ 32 \<Longrightarrow> read_tlv (tlv_bytes (TAG_INTEGER, body) @ r) = Inr (mk_tlv TAG_INTEGER body r)"
  by (simp add: read_encoded_tlv tlv_ok_def low_tag_def tags)

lemmas read_rules = read_seq full_seq read_integer read_expected_def take_expected_def take_tlv_def Let_def

lemma parse_tbs_complete:
  assumes "cert_ok c"
  shows "parse_tbs B (seq_bytes_of (tbs_body c)) (ct_signature c) (seq_bytes_of (ct_sig_alg c)) (tbs_body c) = view_of B c"
proof -
  have v: "parse_version (version_bytes @ r) = Inr r" for r by (simp add: parse_version_ok)
  have k: "parse_spki (spki_bytes c @ ct_tail c) = Inr ((tlv_bytes (ct_spki_alg c), ct_pubkey c), ct_tail c)"
    unfolding parse_spki_ok spki_bytes_def using cert_lengths(8) [OF assms] assms
    by (intro exI [of _ "ct_spki_alg c"]) (simp add: cert_ok_def)
  show ?thesis using cert_lengths [OF assms]
    by (simp add: parse_tbs_def tbs_body_def v k read_rules view_of_def del: length_append)
qed

lemma parse_cert_complete:
  assumes "cert_ok c"
  shows "parse_cert B (cert_bytes c @ rest) = view_of B c"
proof -
  have "take_bit_string (tlv_bytes (TAG_BIT_STRING, 0 # ct_signature c)) = Inr (ct_signature c, [])"
    using cert_lengths(3) [OF assms] by (simp add: take_bit_string_ok)
  moreover have "length (cert_body c) < 2 ^ 32" using assms by (simp add: cert_ok_def)
  ultimately show ?thesis using cert_lengths(1,2) [OF assms] parse_tbs_complete [OF assms]
    by (simp add: parse_cert_def cert_bytes_def read_rules) (simp add: cert_body_def read_rules)
qed

lemma parse_cert_sound:
  assumes "parse_cert B der = Inr v"
  shows "\<exists>c rest. cert_ok c \<and> der = cert_bytes c @ rest"
proof -
  obtain outer tbs alg sig_bytes where o: "read_tlv der = Inr outer" "tlv_tag outer = TAG_SEQUENCE"
    and t: "read_tlv (tlv_body outer) = Inr tbs" "tlv_tag tbs = TAG_SEQUENCE"
    and a: "read_tlv (tlv_rest tbs) = Inr alg" "tlv_tag alg = TAG_SEQUENCE"
    and s: "tlv_rest alg = tlv_bytes (TAG_BIT_STRING, 0 # sig_bytes)"
    and p: "parse_tbs B (full_tlv tbs (tlv_body outer)) sig_bytes (full_tlv alg (tlv_rest tbs)) (tlv_body tbs) = Inr v"
    using assms by (auto simp: parse_cert_def result_simps read_expected_ok take_bit_string_ok Let_def split: if_splits)
  obtain c where c: "tlv_body tbs = tbs_body c" "low_tag (fst (ct_spki_alg c))" "ct_signature c = sig_bytes"
    "full_tlv alg (tlv_rest tbs) = seq_bytes_of (ct_sig_alg c)" using parse_tbs_sound [OF p] by blast
  have "tlv_rest tbs = full_tlv alg (tlv_rest tbs) @ tlv_rest alg"
    using a full_tlv_eq [OF a(1)] by (auto simp: read_tlv_ok)
  moreover have "tlv_body outer = seq_bytes_of (tlv_body tbs) @ tlv_rest tbs" using t by (auto simp: read_tlv_ok seq_bytes_of_def)
  ultimately have "tlv_body outer = cert_body c" using s c by (simp add: cert_body_def)
  then show ?thesis using o c(2) by (intro exI [of _ c] exI [of _ "tlv_rest outer"])
      (auto simp: read_tlv_ok cert_bytes_def seq_bytes_of_def cert_ok_def tlv_ok_def)
qed

lemma take_seq: "length body < 2 ^ 32 \<Longrightarrow> take_tlvs (Suc n) (seq_bytes_of body @ r) = take_tlvs n r"
  "length body < 2 ^ 32 \<Longrightarrow> take_tlvs (Suc n) (tlv_bytes (TAG_INTEGER, body) @ r) = take_tlvs n r"
  by (simp_all add: read_rules)

lemma skip_to_serial_cert:
  assumes "cert_ok c"
  shows "\<exists>r. skip_to_serial (cert_bytes c @ rest) = Inr r \<and> tbs_body c = version_bytes @ r"
proof -
  have "tlv_ok (tag_ctx_constructed 0, tlv_bytes (TAG_INTEGER, [X509_V3]))" by (simp add: tlv_ok_def low_tag_def tags tlv_bytes_def)
  then have v: "take_tlv (version_bytes @ r) = Inr (mk_tlv (tag_ctx_constructed 0) (tlv_bytes (TAG_INTEGER, [X509_V3])) r, r)" for r
    by (simp add: take_tlv_def version_bytes_def read_encoded_tlv)
  have p: "peek_tag (version_bytes @ r) = Inr (tag_ctx_constructed 0)" for r
    by (simp add: peek_tag_def get_at_def version_bytes_def)
  have b: "length (cert_body c) < 2 ^ 32" using assms by (simp add: cert_ok_def)
  obtain r where r: "tbs_body c = version_bytes @ r" by (simp add: tbs_body_def)
  have "take_tlv (cert_body c) = Inr (mk_tlv TAG_SEQUENCE (tbs_body c)
      (seq_bytes_of (ct_sig_alg c) @ tlv_bytes (TAG_BIT_STRING, 0 # ct_signature c)),
      seq_bytes_of (ct_sig_alg c) @ tlv_bytes (TAG_BIT_STRING, 0 # ct_signature c))"
    using cert_lengths(1) [OF assms] by (simp add: cert_body_def take_tlv_def read_seq)
  then have "skip_to_serial (cert_bytes c @ rest) = Inr r"
    using b by (simp add: skip_to_serial_def cert_bytes_def read_expected_def read_seq r p v)
  then show ?thesis using r by blast
qed

lemma other_parsers:
  assumes "cert_ok c"
  shows "spki_der (cert_bytes c @ rest) = Inr (spki_bytes c) \<and> extensions_slice (cert_bytes c @ rest) = Inr (ct_tail c)"
proof -
  obtain r where r: "skip_to_serial (cert_bytes c @ rest) = Inr r" "tbs_body c = version_bytes @ r"
    using skip_to_serial_cert [OF assms] by blast
  then have rr: "r = tlv_bytes (TAG_INTEGER, ct_serial c) @ seq_bytes_of (ct_sig_alg c) @ seq_bytes_of (ct_issuer c) @
     seq_bytes_of (ct_validity c) @ seq_bytes_of (ct_subject c) @ spki_bytes c @ ct_tail c"
    by (simp add: tbs_body_def)
  note l = cert_lengths [OF assms]
  have 5: "take_tlvs (Suc (Suc (Suc (Suc (Suc n))))) r = take_tlvs n (spki_bytes c @ ct_tail c)" for n
    unfolding rr using l by (simp add: take_seq del: take_tlvs.simps(2))
  have k: "read_tlv (spki_bytes c @ ct_tail c) = Inr (mk_tlv TAG_SEQUENCE
      (tlv_bytes (ct_spki_alg c) @ tlv_bytes (TAG_BIT_STRING, 0 # ct_pubkey c)) (ct_tail c))"
    unfolding spki_bytes_def by (rule read_seq [OF l(8)])
  have "take_tlvs 5 r = Inr (spki_bytes c @ ct_tail c)" using 5 [of 0] by (simp add: eval_nat_numeral)
  moreover have "take_tlvs 6 r = Inr (ct_tail c)" using 5 [of 1] k by (simp add: eval_nat_numeral take_tlv_def)
  moreover have "full_tlv (mk_tlv TAG_SEQUENCE (tlv_bytes (ct_spki_alg c) @ tlv_bytes (TAG_BIT_STRING, 0 # ct_pubkey c)) (ct_tail c))
      (spki_bytes c @ ct_tail c) = spki_bytes c"
    unfolding spki_bytes_def by (rule full_seq [OF l(8)])
  ultimately show ?thesis
    by (simp add: spki_der_def extensions_slice_def r k full_tlv_def [symmetric])
qed

text \<open>The bytes after the outer SEQUENCE are not looked at, although \<^verbatim>\<open>CertParseError::TrailingBytes\<close> is documented
  as the error for them.\<close>

lemma trailing_bytes_ignored: "cert_ok c \<Longrightarrow> parse_cert B (cert_bytes c @ rest) = parse_cert B (cert_bytes c)"
  using parse_cert_complete [of c B rest] parse_cert_complete [of c B "[]"] by simp

text \<open>What the view says of the certificate: the signed bytes, the signature and the validity are its fields, and
  the key has the algorithm, with its parameters, and the value that the key field has.\<close>

definition names_algorithm :: "Certificate \<Rightarrow> bytes \<Rightarrow> bytes \<Rightarrow> bool" where
  "names_algorithm c oid params \<longleftrightarrow> ct_spki_alg c = (TAG_SEQUENCE, tlv_bytes (TAG_OID, oid) @ params)"

fun key_read :: "CertBuild \<Rightarrow> Certificate \<Rightarrow> CertView \<Rightarrow> bool" where
  "key_read B c (CV_Ed25519 _ sig pk _ _) \<longleftrightarrow>
     names_algorithm c ED25519_OID [] \<and> pk = ct_pubkey c \<and> length pk = 32 \<and> length sig = 64"
| "key_read B c (CV_Rsa _ _ _ m e _ _) \<longleftrightarrow> names_algorithm c RSA_ENCRYPTION_OID (tlv_bytes (TAG_NULL, [])) \<and>
     (\<exists>mi ei rest. ct_pubkey c = seq_bytes_of (tlv_bytes (TAG_INTEGER, mi) @ tlv_bytes (TAG_INTEGER, ei)) @ rest \<and>
        be_val mi = be_val m \<and> be_val ei = unat e \<and> odd (be_val ei) \<and> 3 \<le> be_val ei)"
| "key_read B c (CV_MlDsa _ _ pk _ _) \<longleftrightarrow> pk = ct_pubkey c \<and> (\<exists>oid. names_algorithm c oid [] \<and>
     (oid, length pk) \<in> {(ML_DSA_44_OID, cb_ml_dsa_44_pk B), (ML_DSA_65_OID, cb_ml_dsa_65_pk B), (ML_DSA_87_OID, cb_ml_dsa_87_pk B)})"
| "key_read B c (CV_EcdsaP256 _ _ pk _ _ _) \<longleftrightarrow>
     names_algorithm c EC_PUBLIC_KEY_OID (tlv_bytes (TAG_OID, SECP256R1_OID)) \<and> pk = ct_pubkey c \<and> length pk = 65 \<and> pk ! 0 = 4"
| "key_read B c (CV_EcdsaP384 _ _ pk _ _ _) \<longleftrightarrow>
     names_algorithm c EC_PUBLIC_KEY_OID (tlv_bytes (TAG_OID, SECP384R1_OID)) \<and> pk = ct_pubkey c \<and> length pk = 97 \<and> pk ! 0 = 4"

definition view_reads :: "CertBuild \<Rightarrow> Certificate \<Rightarrow> CertView \<Rightarrow> bool" where
  "view_reads B c v \<longleftrightarrow> cv_tbs v = seq_bytes_of (tbs_body c) \<and> cv_signature v = ct_signature c \<and>
     cv_validity_der v = seq_bytes_of (ct_validity c) \<and> key_read B c v"

fun kind_algorithm :: "CertBuild \<Rightarrow> Certificate \<Rightarrow> SpkiKind \<Rightarrow> bool" where
  "kind_algorithm B c SK_Ed25519 \<longleftrightarrow> names_algorithm c ED25519_OID []"
| "kind_algorithm B c SK_Rsa \<longleftrightarrow> names_algorithm c RSA_ENCRYPTION_OID (tlv_bytes (TAG_NULL, []))"
| "kind_algorithm B c (SK_MlDsa n) \<longleftrightarrow> (\<exists>oid. names_algorithm c oid [] \<and>
     (oid, n) \<in> {(ML_DSA_44_OID, cb_ml_dsa_44_pk B), (ML_DSA_65_OID, cb_ml_dsa_65_pk B), (ML_DSA_87_OID, cb_ml_dsa_87_pk B)})"
| "kind_algorithm B c SK_EcdsaP256 \<longleftrightarrow> names_algorithm c EC_PUBLIC_KEY_OID (tlv_bytes (TAG_OID, SECP256R1_OID))"
| "kind_algorithm B c SK_EcdsaP384 \<longleftrightarrow> names_algorithm c EC_PUBLIC_KEY_OID (tlv_bytes (TAG_OID, SECP384R1_OID))"

lemma explicit_null: "require_explicit_null_params r = Inr u \<Longrightarrow> r = tlv_bytes (TAG_NULL, [])"
  by (auto simp: require_explicit_null_params_def result_simps take_tlv_ok read_tlv_ok split: if_splits)

lemma last_tlv: "take_tlv r = Inr (t, []) \<Longrightarrow> r = tlv_bytes (tlv_tag t, tlv_body t)"
  by (auto simp: take_tlv_ok read_tlv_ok)

lemma classify_sound:
  assumes "cert_ok c" "classify_spki_algorithm B (tlv_bytes (ct_spki_alg c)) = Inr kind"
  shows "kind_algorithm B c kind"
proof -
  obtain tag body where alg: "ct_spki_alg c = (tag, body)" by fastforce
  have "tlv_ok (tag, body)" using cert_lengths(8) [OF assms(1)] assms(1) length_tlv_bytes [of body tag]
    by (simp add: tlv_ok_def cert_ok_def alg)
  then have rd: "read_tlv (tlv_bytes (tag, body)) = Inr (mk_tlv tag body [])" using read_encoded_tlv [of tag body "[]"] by simp
  obtain t where tag: "tag = TAG_SEQUENCE" and t: "read_tlv body = Inr t" "tlv_tag t = TAG_OID"
    using assms(2) rd by (auto simp: classify_spki_algorithm_def alg read_expected_ok take_tlv_ok mk_tlv_def result_simps split: if_splits)
  have "names_algorithm c (tlv_body t) (tlv_rest t)" using t by (auto simp: names_algorithm_def alg tag read_tlv_ok)
  moreover have "take_tlv body = Inr (t, tlv_rest t)" using t(1) by (simp add: take_tlv_ok)
  moreover have "read_expected (tlv_bytes (ct_spki_alg c)) TAG_SEQUENCE = Inr (mk_tlv tag body [])"
    using rd tag by (simp add: read_expected_ok alg mk_tlv_def)
  ultimately show ?thesis using assms(2) t(2)
    by (auto simp: classify_spki_algorithm_def mk_tlv_def result_simps dest!: explicit_null last_tlv split: if_splits option.splits)
qed

lemma odd_word: "(e :: 32 word) AND 1 \<noteq> 0 \<Longrightarrow> odd (unat e)"
proof
  assume e: "e AND 1 \<noteq> 0" "even (unat e)"
  have "unat (e AND 1) = unat e AND 1" by (simp add: unsigned_and_eq)
  also have "\<dots> = 0" using e(2) by (simp add: and_one_eq)
  finally show False using e(1) by (simp add: unat_eq_zero)
qed

lemma rsa_key_sound:
  assumes "parse_rsa_pubkey B pk = Inr (m, e)"
  shows "\<exists>mi ei rest. pk = seq_bytes_of (tlv_bytes (TAG_INTEGER, mi) @ tlv_bytes (TAG_INTEGER, ei)) @ rest \<and>
    be_val mi = be_val m \<and> be_val ei = unat e \<and> odd (be_val ei) \<and> 3 \<le> be_val ei"
proof -
  have strip: "be_val (strip_sign bs) = be_val bs" for bs by (auto simp: strip_sign_def split: list.split)
  obtain t mt et where t: "read_tlv pk = Inr t" "tlv_tag t = TAG_SEQUENCE" "read_tlv (tlv_body t) = Inr mt" "tlv_tag mt = TAG_INTEGER"
      "read_tlv (tlv_rest mt) = Inr et" "tlv_tag et = TAG_INTEGER" "tlv_rest et = []"
    and m: "m = strip_sign (tlv_body mt)" and e: "e = word_of_nat (be_val (strip_sign (tlv_body et)))" "length (strip_sign (tlv_body et)) \<le> 4"
    and odd: "\<not> e < 3" "e AND 1 \<noteq> 0"
    using assms by (auto simp: parse_rsa_pubkey_def result_simps Let_def foldl_shift_or not_less split: if_splits)
  have "be_val (strip_sign (tlv_body et)) < 256 ^ length (strip_sign (tlv_body et))" by (rule be_val_less)
  also have "\<dots> \<le> 2 ^ 32" using power_increasing [OF e(2), of "256 :: nat"] by simp
  finally have u: "unat e = be_val (tlv_body et)" unfolding e strip by (simp add: unat_of_nat)
  have "odd (unat e)" "3 \<le> unat e" using odd_word [OF odd(2)] odd(1) by (simp_all add: word_less_nat_alt)
  then show ?thesis using t m u strip unfolding seq_bytes_of_def
    by (intro exI [of _ "tlv_body mt"] exI [of _ "tlv_body et"] exI [of _ "tlv_rest t"]) (simp add: read_tlv_ok)
qed

lemma view_of_reads:
  assumes "cert_ok c" "view_of B c = Inr v"
  shows "view_reads B c v"
proof -
  obtain san kind where k: "classify_spki_algorithm B (tlv_bytes (ct_spki_alg c)) = Inr kind"
    and v: "cert_view B (seq_bytes_of (tbs_body c)) (ct_signature c) (seq_bytes_of (ct_sig_alg c)) (ct_pubkey c) san
          (seq_bytes_of (ct_validity c)) kind = Inr v"
    using assms(2) by (auto simp: view_of_def result_simps)
  note alg = classify_sound [OF assms(1) k]
  show ?thesis
  proof (cases kind)
    case SK_Rsa
    then obtain m e outer where rsa: "parse_rsa_pubkey B (ct_pubkey c) = Inr (m, e)"
      "v = CV_Rsa (seq_bytes_of (tbs_body c)) (ct_signature c) outer m e san (seq_bytes_of (ct_validity c))"
      using v by (auto simp: cert_view_def result_simps)
    show ?thesis using rsa_key_sound [OF rsa(1)] alg SK_Rsa by (simp add: view_reads_def rsa(2))
  qed (use alg v in \<open>auto simp: cert_view_def view_reads_def result_simps ec_sec1_point_def P256_SEC1_LEN_def P384_SEC1_LEN_def
      split: if_splits\<close>)
qed

text \<open>C39: What the certificate parser accepts begins with a certificate of the X.509 v3 layout - every field in its
  place with its tag and its minimal length, the two signature algorithms equal, nothing between the fields -
  and every certificate of that layout is read to the view of its fields: the signed bytes, the signature,
  the key, the alternative names and the validity.  For each of them the two other entry points, which walk the
  bytes on their own, read the same key and the same extensions, so a pin and a CA check are about the
  certificate that was verified.  Whether anything may follow the outer SEQUENCE is not part of the claim.\<close>

theorem cert_parsers_exact:
  "(parse_cert B der = Inr v \<longrightarrow> (\<exists>c rest. cert_ok c \<and> der = cert_bytes c @ rest \<and> view_of B c = Inr v \<and> view_reads B c v \<and>
      spki_der der = Inr (spki_bytes c) \<and> parse_ca_constraints der = walk_extensions_for_ca (ct_tail c))) \<and>
   (cert_ok c \<longrightarrow> parse_cert B (cert_bytes c) = view_of B c \<and> spki_der (cert_bytes c) = Inr (spki_bytes c) \<and>
      parse_ca_constraints (cert_bytes c) = walk_extensions_for_ca (ct_tail c))"
proof (intro conjI impI)
  assume v: "parse_cert B der = Inr v"
  then obtain c rest where c: "cert_ok c" "der = cert_bytes c @ rest" using parse_cert_sound by blast
  then show "\<exists>c rest. cert_ok c \<and> der = cert_bytes c @ rest \<and> view_of B c = Inr v \<and> view_reads B c v \<and>
      spki_der der = Inr (spki_bytes c) \<and> parse_ca_constraints der = walk_extensions_for_ca (ct_tail c)"
    using v parse_cert_complete [OF c(1)] other_parsers [OF c(1)] view_of_reads [OF c(1)] by (auto simp: parse_ca_constraints_def)
qed (use parse_cert_complete [of c B "[]"] other_parsers [of c "[]"] in \<open>simp_all add: parse_ca_constraints_def\<close>)

section \<open>CA rights\<close>

record Extension =
  xt_oid :: bytes
  xt_critical :: "bytes option"
  xt_value :: bytes
  xt_more :: bytes

definition ext_bytes :: "Extension \<Rightarrow> bytes" where
  "ext_bytes e = seq_bytes_of (tlv_bytes (TAG_OID, xt_oid e) @
     (case xt_critical e of Some b \<Rightarrow> tlv_bytes (TAG_BOOLEAN, b) | None \<Rightarrow> []) @ tlv_bytes (TAG_OCTET_STRING, xt_value e) @ xt_more e)"

definition xt_triple :: "Extension \<Rightarrow> bytes \<times> bytes option \<times> bytes" where
  "xt_triple e = (xt_oid e, xt_critical e, xt_value e)"

definition is_critical :: "Extension \<Rightarrow> bool" where
  "is_critical e \<longleftrightarrow> (case xt_critical e of Some b \<Rightarrow> is_true b | None \<Rightarrow> False)"

text \<open>A basicConstraints value whose \<^verbatim>\<open>cA\<close> is true.\<close>

definition asserts_ca :: "bytes \<Rightarrow> bool" where
  "asserts_ca value \<longleftrightarrow> (\<exists>b r. value = seq_bytes_of (tlv_bytes (TAG_BOOLEAN, b) @ r) \<and> is_true b)"

fun ca_of :: "Extension list \<Rightarrow> CaConstraints \<Rightarrow> CertParseError + CaConstraints" where
  "ca_of [] out = Inr out"
| "ca_of (e # es) out = rbind (ca_extension (xt_triple e) out) (ca_of es)"

lemma take_extension_sound:
  assumes "take_extension r = Inr (x, r')"
  shows "\<exists>e. r = ext_bytes e @ r' \<and> x = xt_triple e"
proof -
  obtain t oid rest crit v where t: "read_tlv r = Inr t" "tlv_tag t = TAG_SEQUENCE" "tlv_rest t = r'"
    and oid: "read_tlv (tlv_body t) = Inr oid" "tlv_tag oid = TAG_OID"
    and crit: "(if tlv_rest oid ! 0 = TAG_BOOLEAN then rbind (take_tlv (tlv_rest oid)) (\<lambda>(b, ext_r). Inr (Some (tlv_body b), ext_r))
                else Inr (None, tlv_rest oid)) = Inr (crit, rest)"
    and ne: "tlv_rest oid \<noteq> []"
    and v: "read_tlv rest = Inr v" "tlv_tag v = TAG_OCTET_STRING" and x: "x = (tlv_body oid, crit, tlv_body v)"
    using assms by (auto simp: take_extension_def result_simps take_tlv_ok peek_tag_ok split: if_splits)
  have c: "tlv_rest oid = (case crit of Some b \<Rightarrow> tlv_bytes (TAG_BOOLEAN, b) | None \<Rightarrow> []) @ rest"
    using crit by (auto simp: result_simps take_tlv_ok read_tlv_ok split: if_splits)
  show ?thesis
    by (rule exI [of _ "\<lparr>xt_oid = tlv_body oid, xt_critical = crit, xt_value = tlv_body v, xt_more = tlv_rest v\<rparr>"])
      (use t oid v c x in \<open>auto simp: read_tlv_ok ext_bytes_def xt_triple_def seq_bytes_of_def\<close>)
qed

lemma ca_exts_loop_sound:
  "ca_exts_loop r out = Inr ca \<Longrightarrow> \<exists>es. r = concat (map ext_bytes es) \<and> ca_of es out = Inr ca"
proof (induction r out rule: ca_exts_loop.induct)
  case (1 r out)
  show ?case
  proof (cases "r = []")
    case True
    then show ?thesis using "1.prems" by (intro exI [of _ "[]"]) (simp add: ca_exts_loop.simps)
  next
    case False
    then obtain x r' out' where x: "take_extension r = Inr (x, r')" "ca_extension x out = Inr out'" "ca_exts_loop r' out' = Inr ca"
      using "1.prems" by (auto simp: ca_exts_loop.simps [of r] result_simps)
    obtain e where e: "r = ext_bytes e @ r'" "x = xt_triple e" using take_extension_sound [OF x(1)] by blast
    obtain es where "r' = concat (map ext_bytes es)" "ca_of es out' = Inr ca" using "1.IH" [OF False x(1) refl x(2,3)] by blast
    then show ?thesis using e x(2) by (intro exI [of _ "e # es"]) simp
  qed
qed

lemma walk_ca_sound:
  "walk_extensions_for_ca r = Inr ca \<Longrightarrow> ca = CaConstraints_default \<or> (\<exists>pre es more rest.
     r = concat (map tlv_bytes pre) @ tlv_bytes (tag_ctx_constructed 3, seq_bytes_of (concat (map ext_bytes es)) @ more) @ rest \<and>
     ca_of es CaConstraints_default = Inr ca)"
proof (induction r rule: walk_extensions_for_ca.induct)
  case (1 r)
  consider "r = []" | "r \<noteq> []" "r ! 0 = tag_ctx_constructed 3" | "r \<noteq> []" "r ! 0 \<noteq> tag_ctx_constructed 3" by blast
  then show ?case
  proof cases
    case 1
    then show ?thesis using "1.prems" by (simp add: walk_extensions_for_ca.simps)
  next
    case 2
    then obtain t s where t: "read_tlv r = Inr t" and s: "read_tlv (tlv_body t) = Inr s" "tlv_tag s = TAG_SEQUENCE"
      and l: "ca_exts_loop (tlv_body s) CaConstraints_default = Inr ca"
      using "1.prems" by (auto simp: walk_extensions_for_ca.simps [of r] result_simps take_tlv_ok read_expected_ok)
    have "tlv_tag t = tag_ctx_constructed 3" using t 2(2) by (auto simp: read_tlv_ok)
    moreover obtain es where "tlv_body s = concat (map ext_bytes es)" "ca_of es CaConstraints_default = Inr ca"
      using ca_exts_loop_sound [OF l] by blast
    ultimately show ?thesis using t s
      by (intro disjI2 exI [of _ "[]"] exI [of _ es] exI [of _ "tlv_rest s"] exI [of _ "tlv_rest t"])
        (auto simp: read_tlv_ok seq_bytes_of_def)
  next
    case 3
    then obtain t where t: "read_tlv r = Inr t" and w: "walk_extensions_for_ca (tlv_rest t) = Inr ca"
      using "1.prems" by (auto simp: walk_extensions_for_ca.simps [of r] result_simps take_tlv_ok)
    have "take_tlv r = Inr (t, tlv_rest t)" using t by (simp add: take_tlv_ok)
    from "1.IH" [OF 3 this refl w] show ?thesis
    proof (elim disjE exE conjE)
      fix pre es more rest
      assume "tlv_rest t = concat (map tlv_bytes pre) @
          tlv_bytes (tag_ctx_constructed 3, seq_bytes_of (concat (map ext_bytes es)) @ more) @ rest"
        "ca_of es CaConstraints_default = Inr ca"
      then show ?thesis using t
        by (intro disjI2 exI [of _ "(tlv_tag t, tlv_body t) # pre"] exI [of _ es] exI [of _ more] exI [of _ rest])
          (auto simp: read_tlv_ok)
    qed simp
  qed
qed

lemma basic_constraints_ca:
  assumes "parse_basic_constraints value out = Inr ca" "cc_is_ca ca"
  shows "cc_is_ca out \<or> asserts_ca value"
proof -
  obtain s r out' where s: "read_tlv value = Inr s" "tlv_tag s = TAG_SEQUENCE" "tlv_rest s = []"
    and b: "bc_is_ca (tlv_body s) out = Inr (out', r)" and p: "bc_path_len r out' = Inr ca"
    using assms(1) by (auto simp: parse_basic_constraints_def result_simps read_expected_ok split: if_splits)
  have ca: "cc_is_ca out'" using p assms(2) by (auto simp: bc_path_len_def result_simps split: if_splits)
  show ?thesis
  proof (cases "tlv_body s \<noteq> [] \<and> tlv_body s ! 0 = TAG_BOOLEAN")
    case True
    then obtain t where t: "read_tlv (tlv_body s) = Inr t" "out' = out\<lparr>cc_is_ca := is_true (tlv_body t)\<rparr>"
      using b by (auto simp: bc_is_ca_def result_simps take_tlv_ok)
    have "tlv_tag t = TAG_BOOLEAN" using True t(1) by (auto simp: read_tlv_ok)
    then show ?thesis using s t ca by (auto simp: asserts_ca_def read_tlv_ok seq_bytes_of_def)
  next
    case False
    then show ?thesis using b ca by (auto simp: bc_is_ca_def)
  qed
qed

lemma ca_of_sound:
  "ca_of es out = Inr ca \<Longrightarrow> (\<forall>e \<in> set es. is_critical e \<longrightarrow> xt_oid e = BASIC_CONSTRAINTS_OID \<or> xt_oid e = KEY_USAGE_OID) \<and>
     (cc_is_ca ca \<longrightarrow> cc_is_ca out \<or> (\<exists>e \<in> set es. xt_oid e = BASIC_CONSTRAINTS_OID \<and> asserts_ca (xt_value e)))"
proof (induction es arbitrary: out)
  case (Cons e es)
  obtain out' where o: "ca_extension (xt_triple e) out = Inr out'" "ca_of es out' = Inr ca"
    using Cons.prems by (auto simp: result_simps)
  have "is_critical e \<longrightarrow> xt_oid e = BASIC_CONSTRAINTS_OID \<or> xt_oid e = KEY_USAGE_OID"
    using o(1) by (auto simp: ca_extension_def xt_triple_def is_critical_def split: if_splits)
  moreover have "cc_is_ca out' \<longrightarrow> cc_is_ca out \<or> xt_oid e = BASIC_CONSTRAINTS_OID \<and> asserts_ca (xt_value e)"
    using o(1) basic_constraints_ca by (auto simp: ca_extension_def xt_triple_def result_simps split: if_splits)
  ultimately show ?case using Cons.IH [OF o(2)] by auto
qed simp

text \<open>C40: A certificate gets the right to issue only from its own bytes: the extensions that follow its key contain
  a basicConstraints extension with \<^verbatim>\<open>cA\<close> set, and no critical extension that the walk does not understand is
  passed over.\<close>

theorem ca_rights_granted:
  assumes "parse_ca_constraints der = Inr ca" "cc_is_ca ca"
  shows "\<exists>pre es more rest. extensions_slice der = Inr (concat (map tlv_bytes pre) @
      tlv_bytes (tag_ctx_constructed 3, seq_bytes_of (concat (map ext_bytes es)) @ more) @ rest) \<and>
    (\<forall>e \<in> set es. is_critical e \<longrightarrow> xt_oid e = BASIC_CONSTRAINTS_OID \<or> xt_oid e = KEY_USAGE_OID) \<and>
    (\<exists>e \<in> set es. xt_oid e = BASIC_CONSTRAINTS_OID \<and> asserts_ca (xt_value e))"
proof -
  obtain tail where t: "extensions_slice der = Inr tail" "walk_extensions_for_ca tail = Inr ca"
    using assms(1) by (auto simp: parse_ca_constraints_def result_simps)
  have "ca \<noteq> CaConstraints_default" using assms(2) by (auto simp: CaConstraints_default_def)
  then obtain pre es more rest where r: "tail = concat (map tlv_bytes pre) @
      tlv_bytes (tag_ctx_constructed 3, seq_bytes_of (concat (map ext_bytes es)) @ more) @ rest"
    and es: "ca_of es CaConstraints_default = Inr ca"
    using walk_ca_sound [OF t(2)] by blast
  show ?thesis using ca_of_sound [OF es] t(1) assms(2) unfolding r
    by (intro exI [of _ pre] exI [of _ es] exI [of _ more] exI [of _ rest]) (auto simp: CaConstraints_default_def)
qed

definition demo_ca :: Certificate where
  "demo_ca = \<lparr>ct_serial = [1], ct_sig_alg = tlv_bytes (TAG_OID, ED25519_OID), ct_issuer = [], ct_validity = [], ct_subject = [],
     ct_spki_alg = (TAG_SEQUENCE, tlv_bytes (TAG_OID, ED25519_OID)), ct_pubkey = replicate 32 7,
     ct_tail = tlv_bytes (tag_ctx_constructed 3, seq_bytes_of (ext_bytes \<lparr>xt_oid = BASIC_CONSTRAINTS_OID, xt_critical = Some [0xFF],
       xt_value = seq_bytes_of (tlv_bytes (TAG_BOOLEAN, [0xFF])), xt_more = []\<rparr>)),
     ct_signature = replicate 64 9\<rparr>"

definition demo_build :: CertBuild where
  "demo_build = \<lparr>cb_rsa = True, cb_rsa_pss_only = False, cb_rsa_1024 = False, cb_rsa_3072 = False, cb_rsa_4096 = False,
     cb_mldsa = True, cb_ecdsa = True, cb_ml_dsa_44_pk = 1312, cb_ml_dsa_65_pk = 1952, cb_ml_dsa_87_pk = 2592\<rparr>"

lemma demo_ca_parsed:
  "parse_ca_constraints (cert_bytes demo_ca) = Inr \<lparr>cc_is_ca = True, cc_path_len = None, cc_key_cert_sign = None\<rparr>"
  "is_ok (parse_cert demo_build (cert_bytes demo_ca))"
  by code_simp+

theorem ca_rights_granted_witness:
  "\<exists>es. (\<exists>e \<in> set es. xt_oid e = BASIC_CONSTRAINTS_OID \<and> asserts_ca (xt_value e)) \<and>
     (\<exists>pre more rest. extensions_slice (cert_bytes demo_ca) = Inr (concat (map tlv_bytes pre) @
        tlv_bytes (tag_ctx_constructed 3, seq_bytes_of (concat (map ext_bytes es)) @ more) @ rest))"
  using ca_rights_granted [OF demo_ca_parsed(1)] by auto

theorem cert_parsers_exact_witness:
  "is_ok (parse_cert demo_build (cert_bytes demo_ca)) \<and>
   (\<exists>c rest. cert_ok c \<and> cert_bytes demo_ca = cert_bytes c @ rest \<and> spki_der (cert_bytes demo_ca) = Inr (spki_bytes c))"
proof -
  have ok: "is_ok (parse_cert demo_build (cert_bytes demo_ca))" using demo_ca_parsed by simp
  then obtain v where "parse_cert demo_build (cert_bytes demo_ca) = Inr v" by (auto simp: is_ok_iff)
  then show ?thesis using ok cert_parsers_exact [of demo_build "cert_bytes demo_ca" v] by blast
qed

end
