(* ===== verification/Tls_Stream.thy ===== *)
theory Tls_Stream
  imports Engine_Runs Engine_Delivery
begin

text \<open>
  The blocking client of \<^verbatim>\<open>client/stream.rs\<close> over the transport of \<^verbatim>\<open>client/transport.rs\<close>: opening a
  connection, reading, writing and closing.  The transport is a record of functions of its state;
  a read is given the room of the buffer and returns the bytes it has put there, none at the end of the
  input.  A method returns the stream as it leaves it, also with an error.  The loops are \<^verbatim>\<open>run_loop\<close> of
  their body, a round at a time.  The random number generator and the generation of key shares are
  parameters, as is the compile-time suite policy.
\<close>

section \<open>Transport and errors\<close>

record ('t, 'e) Transport =
  tr_read :: "nat \<Rightarrow> 't \<Rightarrow> 't \<times> ('e + bytes)"
  tr_read_nb :: "nat \<Rightarrow> 't \<Rightarrow> 't \<times> ('e + bytes option)"
  tr_write_all :: "bytes \<Rightarrow> 't \<Rightarrow> 't \<times> ('e + unit)"

text \<open>The non-blocking read a transport has by default.\<close>

definition default_read_nb ::
  "(nat \<Rightarrow> 't \<Rightarrow> 't \<times> ('e + bytes)) \<Rightarrow> nat \<Rightarrow> 't \<Rightarrow> 't \<times> ('e + bytes option)" where
  "default_read_nb rd room t = (case rd room t of (t, r) \<Rightarrow> (t, rbind r (\<lambda>bs. Inr (Some bs))))"

datatype ConfigError = HostnameTooLong | BufferTooSmall nat nat

datatype 'e ConnectError =
    Co_Io 'e
  | Co_UnexpectedEof
  | Co_Closed
  | Co_Handshake HandshakeError
  | Co_Config ConfigError

abbreviation Co_Internal :: "InternalError \<Rightarrow> 'e ConnectError" where
  "Co_Internal x \<equiv> Co_Handshake (HE_Internal x)"

datatype ErrorKind = EK_BrokenPipe | EK_ConnectionAborted | EK_Other

fun stream_error_kind :: "('e \<Rightarrow> ErrorKind) \<Rightarrow> 'e ConnectError \<Rightarrow> ErrorKind" where
  "stream_error_kind kind (Co_Io e) = kind e"
| "stream_error_kind kind Co_UnexpectedEof = EK_BrokenPipe"
| "stream_error_kind kind Co_Closed = EK_ConnectionAborted"
| "stream_error_kind kind (Co_Handshake e) = EK_Other"
| "stream_error_kind kind (Co_Config e) = EK_Other"

record ('k, 't) TlsStream =
  st_engine :: "'k TlsEngine"
  st_transport :: 't

datatype RecvProgress = Fed | WouldBlock | Eof

text \<open>A call of the engine, whose error becomes a handshake error of the stream.\<close>

definition on_engine ::
  "('k, 't) TlsStream \<Rightarrow> 'k TlsEngine \<times> (HandshakeError + 'a) \<Rightarrow> ('k, 't) TlsStream \<times> ('e ConnectError + 'a)" where
  "on_engine s r = (s\<lparr>st_engine := fst r\<rparr>, map_err Co_Handshake (snd r))"

section \<open>Driving the engine\<close>

definition drive_one_send_step ::
  "('t, 'e) Transport \<Rightarrow> ('k, 't) TlsStream \<Rightarrow> ('k, 't) TlsStream \<times> ('e ConnectError + unit)" where
  "drive_one_send_step T s =
     (let bytes = send_bytes (st_engine s) in
      if bytes = [] then (s, Inl (Co_Internal DrainStateInconsistent))
      else
        case tr_write_all T bytes (st_transport s) of
          (t, Inl err) \<Rightarrow> (s\<lparr>st_engine := mark_terminal (st_engine s), st_transport := t\<rparr>, Inl (Co_Io err))
        | (t, Inr u) \<Rightarrow> on_engine (s\<lparr>st_transport := t\<rparr>) (mark_sent (length bytes) (st_engine s)))"

definition feed_received ::
  "bytes \<Rightarrow> ('k, 't) TlsStream \<Rightarrow> ('k, 't) TlsStream \<times> ('e ConnectError + unit)" where
  "feed_received bs s = on_engine s (advance (length bs) (fill_recv_buffer bs (st_engine s)))"

definition drive_one_recv_step ::
  "('t, 'e) Transport \<Rightarrow> ('k, 't) TlsStream \<Rightarrow> ('k, 't) TlsStream \<times> ('e ConnectError + unit)" where
  "drive_one_recv_step T s =
     (let room = recv_buffer_len (st_engine s) in
      if room = 0 then (s, Inl (Co_Internal RecvBufferEmptyOnRecvEvent))
      else
        case tr_read T room (st_transport s) of
          (t, Inl err) \<Rightarrow> (s\<lparr>st_transport := t\<rparr>, Inl (Co_Io err))
        | (t, Inr bs) \<Rightarrow>
            if bs = [] then (s\<lparr>st_transport := t\<rparr>, Inl Co_UnexpectedEof)
            else feed_received bs (s\<lparr>st_transport := t\<rparr>))"

definition drive_one_recv_step_nb ::
  "('t, 'e) Transport \<Rightarrow> ('k, 't) TlsStream \<Rightarrow> ('k, 't) TlsStream \<times> ('e ConnectError + RecvProgress)" where
  "drive_one_recv_step_nb T s =
     (let room = recv_buffer_len (st_engine s) in
      if room = 0 then (s, Inl (Co_Internal RecvBufferEmptyOnRecvEvent))
      else
        case tr_read_nb T room (st_transport s) of
          (t, Inl err) \<Rightarrow> (s\<lparr>st_transport := t\<rparr>, Inl (Co_Io err))
        | (t, Inr None) \<Rightarrow> (s\<lparr>st_transport := t\<rparr>, Inr WouldBlock)
        | (t, Inr (Some bs)) \<Rightarrow>
            if bs = [] then (s\<lparr>st_transport := t\<rparr>, Inr Eof)
            else
              (case feed_received bs (s\<lparr>st_transport := t\<rparr>) of
                 (s, Inl err) \<Rightarrow> (s, Inl err)
               | (s, Inr u) \<Rightarrow> (s, Inr Fed)))"

text \<open>A step of the loop that goes round again once it has succeeded.\<close>

definition and_continue :: "'s \<times> ('e + 'b) \<Rightarrow> 's \<times> ('e + 'a option)" where
  "and_continue p = (fst p, rbind (snd p) (\<lambda>_. Inr None))"

definition drain_round ::
  "('k, 'v) ClientConfig \<Rightarrow> ('t, 'e) Transport \<Rightarrow> ('k, 't) TlsStream \<Rightarrow> ('k, 't) TlsStream \<times> ('e ConnectError + unit option)" where
  "drain_round C T s =
     (case step C (st_engine s) of
        (e, Inl err) \<Rightarrow> (s\<lparr>st_engine := e\<rparr>, Inl (Co_Handshake err))
      | (e, Inr (Ev_Send n)) \<Rightarrow>
          (case drive_one_send_step T (s\<lparr>st_engine := e\<rparr>) of
             (s, Inl err) \<Rightarrow> (s, Inl err)
           | (s, Inr u) \<Rightarrow> (s, Inr (if is_send_pending (st_engine s) then None else Some ())))
      | (e, Inr Ev_AppData) \<Rightarrow> (s\<lparr>st_engine := e\<rparr>, Inr (Some ()))
      | (e, Inr Ev_Closed) \<Rightarrow> (s\<lparr>st_engine := e\<rparr>, Inl Co_Closed)
      | (e, Inr Ev_HandshakeDone) \<Rightarrow> (s\<lparr>st_engine := e\<rparr>, Inr None)
      | (e, Inr Ev_Recv) \<Rightarrow> (s\<lparr>st_engine := e\<rparr>, Inl (Co_Internal DrainStateInconsistent)))"

definition drain_pending_send ::
  "('k, 'v) ClientConfig \<Rightarrow> ('t, 'e) Transport \<Rightarrow> ('k, 't) TlsStream \<Rightarrow>
   (('k, 't) TlsStream \<times> ('e ConnectError + unit)) option" where
  "drain_pending_send C T s =
     (if \<not> is_send_pending (st_engine s) then Some (s, Inr ())
      else run_loop (\<lambda>s. Some (drain_round C T s)) s)"

section \<open>Reading, writing and closing\<close>

text \<open>A read is given the length of the caller's buffer and returns what it copies there.\<close>

definition read_round ::
  "('k, 'v) ClientConfig \<Rightarrow> ('t, 'e) Transport \<Rightarrow> nat \<Rightarrow> ('k, 't) TlsStream \<Rightarrow>
   ('k, 't) TlsStream \<times> ('e ConnectError + bytes option)" where
  "read_round C T out_len s =
     (case step C (st_engine s) of
        (e, Inl err) \<Rightarrow> (s\<lparr>st_engine := e\<rparr>, Inl (Co_Handshake err))
      | (e, Inr (Ev_Send n)) \<Rightarrow> and_continue (drive_one_send_step T (s\<lparr>st_engine := e\<rparr>))
      | (e, Inr Ev_Recv) \<Rightarrow> and_continue (drive_one_recv_step T (s\<lparr>st_engine := e\<rparr>))
      | (e, Inr Ev_AppData) \<Rightarrow> (case read_app out_len e of (e, bs) \<Rightarrow> (s\<lparr>st_engine := e\<rparr>, Inr (Some bs)))
      | (e, Inr Ev_HandshakeDone) \<Rightarrow> (s\<lparr>st_engine := e\<rparr>, Inl (Co_Internal HandshakeDoneInDataPhase))
      | (e, Inr Ev_Closed) \<Rightarrow> (s\<lparr>st_engine := e\<rparr>, Inr (Some [])))"

definition tls_read ::
  "('k, 'v) ClientConfig \<Rightarrow> ('t, 'e) Transport \<Rightarrow> nat \<Rightarrow> ('k, 't) TlsStream \<Rightarrow>
   (('k, 't) TlsStream \<times> ('e ConnectError + bytes)) option" where
  "tls_read C T out_len s =
     (if out_len = 0 then Some (s, Inr []) else run_loop (\<lambda>s. Some (read_round C T out_len s)) s)"

definition try_read_round ::
  "('k, 'v) ClientConfig \<Rightarrow> ('t, 'e) Transport \<Rightarrow> nat \<Rightarrow> ('k, 't) TlsStream \<Rightarrow>
   ('k, 't) TlsStream \<times> ('e ConnectError + bytes option option)" where
  "try_read_round C T out_len s =
     (case step C (st_engine s) of
        (e, Inl err) \<Rightarrow> (s\<lparr>st_engine := e\<rparr>, Inl (Co_Handshake err))
      | (e, Inr (Ev_Send n)) \<Rightarrow> and_continue (drive_one_send_step T (s\<lparr>st_engine := e\<rparr>))
      | (e, Inr Ev_Recv) \<Rightarrow>
          (case drive_one_recv_step_nb T (s\<lparr>st_engine := e\<rparr>) of
             (s, Inl err) \<Rightarrow> (s, Inl err)
           | (s, Inr Fed) \<Rightarrow> (s, Inr None)
           | (s, Inr WouldBlock) \<Rightarrow> (s, Inr (Some None))
           | (s, Inr Eof) \<Rightarrow> (s, Inl Co_UnexpectedEof))
      | (e, Inr Ev_AppData) \<Rightarrow> (case read_app out_len e of (e, bs) \<Rightarrow> (s\<lparr>st_engine := e\<rparr>, Inr (Some (Some bs))))
      | (e, Inr Ev_HandshakeDone) \<Rightarrow> (s\<lparr>st_engine := e\<rparr>, Inl (Co_Internal HandshakeDoneInDataPhase))
      | (e, Inr Ev_Closed) \<Rightarrow> (s\<lparr>st_engine := e\<rparr>, Inr (Some (Some []))))"

definition tls_try_read ::
  "('k, 'v) ClientConfig \<Rightarrow> ('t, 'e) Transport \<Rightarrow> nat \<Rightarrow> ('k, 't) TlsStream \<Rightarrow>
   (('k, 't) TlsStream \<times> ('e ConnectError + bytes option)) option" where
  "tls_try_read C T out_len s =
     (if out_len = 0 then Some (s, Inr (Some [])) else run_loop (\<lambda>s. Some (try_read_round C T out_len s)) s)"

text \<open>The state of the loop of \<^verbatim>\<open>write_all\<close> is the rest of the data with the stream; after a drain it goes on
  with the rest \<^verbatim>\<open>buf\<close>.\<close>

definition drained ::
  "('k, 'v) ClientConfig \<Rightarrow> ('t, 'e) Transport \<Rightarrow> bytes \<Rightarrow> ('k, 't) TlsStream \<Rightarrow>
   (('k, 't) TlsStream \<Rightarrow> ((bytes \<times> ('k, 't) TlsStream) \<times> ('e ConnectError + unit option)) option) \<Rightarrow>
   ((bytes \<times> ('k, 't) TlsStream) \<times> ('e ConnectError + unit option)) option" where
  "drained C T buf s k =
     Option.bind (drain_pending_send C T s) (\<lambda>(s, r).
       case r of Inl err \<Rightarrow> Some ((buf, s), Inl err) | Inr u \<Rightarrow> k s)"

definition write_round ::
  "('k, 'v) ClientConfig \<Rightarrow> ('t, 'e) Transport \<Rightarrow> bytes \<times> ('k, 't) TlsStream \<Rightarrow>
   ((bytes \<times> ('k, 't) TlsStream) \<times> ('e ConnectError + unit option)) option" where
  "write_round C T = (\<lambda>(buf, s).
     if buf = [] then Some ((buf, s), Inr (Some ()))
     else drained C T buf s (\<lambda>s.
       case write_app C buf (st_engine s) of
         (e, r) \<Rightarrow>
           let s = s\<lparr>st_engine := e\<rparr> in
           (case r of
              Inr n \<Rightarrow>
                if n = 0 then Some ((buf, s), Inl (Co_Internal WriteAppZeroProgress))
                else drained C T (drop n buf) s (\<lambda>s. Some ((drop n buf, s), Inr None))
            | Inl WA_Closed \<Rightarrow> Some ((buf, s), Inl Co_Closed)
            | Inl WA_Busy \<Rightarrow> drained C T buf s (\<lambda>s. Some ((buf, s), Inr None))
            | Inl WA_NotReady \<Rightarrow> Some ((buf, s), Inl (Co_Internal WriteBeforeHandshake))
            | Inl (WA_Other err) \<Rightarrow> Some ((buf, s), Inl (Co_Handshake err)))))"

definition tls_write_all ::
  "('k, 'v) ClientConfig \<Rightarrow> ('t, 'e) Transport \<Rightarrow> bytes \<Rightarrow> ('k, 't) TlsStream \<Rightarrow>
   (('k, 't) TlsStream \<times> ('e ConnectError + unit)) option" where
  "tls_write_all C T buf s = map_option (\<lambda>((rest, s), r). (s, r)) (run_loop (write_round C T) (buf, s))"

definition tls_close ::
  "('k, 'v) ClientConfig \<Rightarrow> ('t, 'e) Transport \<Rightarrow> ('k, 't) TlsStream \<Rightarrow>
   (('k, 't) TlsStream \<times> ('e ConnectError + unit)) option" where
  "tls_close C T s =
     Option.bind (drain_pending_send C T s) (\<lambda>(s, r).
       case r of
         Inl err \<Rightarrow> Some (s, Inl err)
       | Inr u \<Rightarrow>
           if is_closed (st_engine s) then Some (s, Inr ())
           else
             (case on_engine s (close C (st_engine s)) of
                (s, Inl err) \<Rightarrow> Some (s, Inl err)
              | (s, Inr u) \<Rightarrow> drain_pending_send C T s))"

text \<open>Writing through \<^verbatim>\<open>embedded_io\<close>, and dropping the stream.\<close>

definition io_write ::
  "('k, 'v) ClientConfig \<Rightarrow> ('t, 'e) Transport \<Rightarrow> bytes \<Rightarrow> ('k, 't) TlsStream \<Rightarrow>
   (('k, 't) TlsStream \<times> ('e ConnectError + nat)) option" where
  "io_write C T buf s =
     map_option (\<lambda>(s, r). (s, rbind r (\<lambda>_. Inr (length buf)))) (tls_write_all C T buf s)"

definition stream_drop ::
  "('k, 'v) ClientConfig \<Rightarrow> ('t, 'e) Transport \<Rightarrow> ('k, 't) TlsStream \<Rightarrow> 't option" where
  "stream_drop C T s = map_option (\<lambda>(s, r). st_transport s) (tls_close C T s)"

section \<open>Opening a connection\<close>

datatype ConfigSuitePolicy = Config_AesOnly | Config_AesAndChaCha | Config_ChaChaOnly

datatype RuntimeSuitePolicy = Runtime_Default | Runtime_AesOnly | Runtime_ChaChaOnly

definition DefaultConfig_SUITES :: "Features \<Rightarrow> ConfigSuitePolicy" where
  "DefaultConfig_SUITES F =
     (if f_cipher_aes F \<and> f_chacha20 F then Config_AesAndChaCha
      else if f_cipher_aes F then Config_AesOnly
      else Config_ChaChaOnly)"

fun effective_suite_list :: "ConfigSuitePolicy \<Rightarrow> RuntimeSuitePolicy \<Rightarrow> SuiteList" where
  "effective_suite_list Config_AesOnly _ = AesOnly"
| "effective_suite_list Config_AesAndChaCha Runtime_AesOnly = AesOnly"
| "effective_suite_list Config_AesAndChaCha Runtime_ChaChaOnly = ChaChaOnly"
| "effective_suite_list Config_AesAndChaCha Runtime_Default = SuiteDefault"
| "effective_suite_list Config_ChaChaOnly _ = ChaChaOnly"

fun map_client_hello_error :: "ConnectionError \<Rightarrow> 'e ConnectError" where
  "map_client_hello_error (CE_ClientHello CH_HostnameTooLong) = Co_Config HostnameTooLong"
| "map_client_hello_error (CE_ClientHello CH_Write) = Co_Handshake HE_ClientHelloTooLong"
| "map_client_hello_error (CE_ClientHello CH_MessageTooLong) = Co_Handshake HE_ClientHelloTooLong"
| "map_client_hello_error other = Co_Handshake (HE_Connection other)"

definition FACADE_HOSTNAME_MAX :: nat where
  "FACADE_HOSTNAME_MAX = 255"

text \<open>The parameters of a connection beyond those the engine uses, and what the configuration and the
  generator provide: \<^verbatim>\<open>try_fill_bytes\<close> and the \<^verbatim>\<open>generate\<close> of each key-exchange group.\<close>

record ('v, 'e, 'r) StreamParams =
  sp_params :: "('v, 'e, 'r) ClientParams"
  sp_suite_policy :: RuntimeSuitePolicy
  sp_middlebox_compat :: bool
  sp_alpn :: "bytes list option"

record ('k, 'r) StreamEnv =
  se_suites :: ConfigSuitePolicy
  se_fill :: "nat \<Rightarrow> 'r \<Rightarrow> 'r \<times> bytes option"
  se_x25519 :: "'r \<Rightarrow> 'r \<times> ('k \<times> bytes) option"
  se_mlkem :: "'r \<Rightarrow> 'r \<times> ('k \<times> bytes) option"
  se_p256 :: "'r \<Rightarrow> 'r \<times> ('k \<times> bytes) option"

definition validate_construction ::
  "Features \<Rightarrow> ('v, 'e, 'r) ClientParams \<Rightarrow> nat \<Rightarrow> nat \<Rightarrow> ConfigError + unit" where
  "validate_construction F params RECV SEND =
     (if length (pa_hostname params) > FACADE_HOSTNAME_MAX then Inl HostnameTooLong
      else if RECV < MIN_RECV F then Inl (BufferTooSmall (MIN_RECV F) RECV)
      else if SEND < MIN_SEND_STANDARD then Inl (BufferTooSmall MIN_SEND_STANDARD SEND)
      else
        let max_flight = MAX_FLIGHT_LEN (pa_client_auth params) in
        if max_flight > 0 then
          (if SEND < client_auth_send_floor max_flight then Inl (BufferTooSmall (client_auth_send_floor max_flight) SEND)
           else if RECV < max_flight then Inl (BufferTooSmall max_flight RECV)
           else Inr ())
        else Inr ())"

definition draw :: "('r \<Rightarrow> 'r \<times> 'a option) \<Rightarrow> 'r \<Rightarrow> 'r \<times> (HandshakeError + 'a)" where
  "draw g rng = (case g rng of (rng, r) \<Rightarrow> (rng, ok_or HE_Rng r))"

text \<open>Draws an optional value; the order of the draws is that of the source.\<close>

definition draw_if :: "bool \<Rightarrow> ('r \<Rightarrow> 'r \<times> 'a option) \<Rightarrow> 'r \<Rightarrow> 'r \<times> (HandshakeError + 'a option)" where
  "draw_if b g = (if b then tbind (draw g) (\<lambda>x. tlift (Inr (Some x))) else tlift (Inr None))"

text \<open>The client random, the key pair of the primary group, the session id and the second key pair.  The
  primary group is the hybrid or X25519, and P-256 in a build without X25519.\<close>

definition draw_keys ::
  "Features \<Rightarrow> ('k, 'r) StreamEnv \<Rightarrow> bool \<Rightarrow> 'r \<Rightarrow>
   'r \<times> (HandshakeError + bytes \<times> ('k \<times> bytes) \<times> bytes option \<times> ('k \<times> bytes) option)" where
  "draw_keys F K middlebox_compat =
     tbind (draw (se_fill K 32)) (\<lambda>client_random.
       if f_x25519_kx F then
         tbind (draw (if f_mlkem F then se_mlkem K else se_x25519 K)) (\<lambda>primary.
         tbind (draw_if middlebox_compat (se_fill K 32)) (\<lambda>session_id.
         tbind (draw_if (f_p256_kx F) (se_p256 K)) (\<lambda>p256.
           tlift (Inr (client_random, primary, session_id, p256)))))
       else
         tbind (draw_if middlebox_compat (se_fill K 32)) (\<lambda>session_id.
         tbind (draw (se_p256 K)) (\<lambda>primary.
           tlift (Inr (client_random, primary, session_id, None)))))"

text \<open>The shares as the hello carries them: the X25519 point and the encapsulation key of a hybrid share.\<close>

definition hello_shares ::
  "Features \<Rightarrow> bytes \<Rightarrow> bytes option \<Rightarrow> HandshakeError + bytes \<times> bytes option \<times> bytes option" where
  "hello_shares F primary_share p256_share =
     rbind (if f_mlkem F then
              rbind (ok_or HE_Rng (get_range 0 MLKEM768_EK_BYTES primary_share)) (\<lambda>ek.
                let x25519_pub = drop MLKEM768_EK_BYTES primary_share in
                if length x25519_pub = 32 then Inr (x25519_pub, Some ek) else Inl HE_Rng)
            else Inr (primary_share, None)) (\<lambda>(primary_pub, mlkem_ek).
       case p256_share of
         None \<Rightarrow> Inr (primary_pub, mlkem_ek, None)
       | Some p256_pub \<Rightarrow>
           if length p256_pub = P256_SHARE_BYTES then Inr (primary_pub, mlkem_ek, Some p256_pub) else Inl HE_Rng)"

text \<open>The hello that opens the connection.  A secret of a group the build does not have is never used; its
  place holds the primary one.\<close>

definition open_hello ::
  "Features \<Rightarrow> ('k, 'r) StreamEnv \<Rightarrow> ('v, 'e, 'r) StreamParams \<Rightarrow> nat \<Rightarrow> 'r \<Rightarrow>
   'r \<times> ('x ConnectError + bytes \<times> 'k WaitServerHello)" where
  "open_hello F K P RECV rng =
     (case draw_keys F K (sp_middlebox_compat P) rng of
        (rng, Inl err) \<Rightarrow> (rng, Inl (Co_Handshake err))
      | (rng, Inr (client_random, primary, session_id, p256)) \<Rightarrow>
          (rng,
           rbind (map_err Co_Handshake (hello_shares F (snd primary) (map_option snd p256)))
             (\<lambda>(primary_pub, mlkem_ek, p256_pub).
           map_err map_client_hello_error
             (conn_write_client_hello F (CH_SCRATCH F)
               (Init_new client_random
                 \<lparr>ks_x25519 = fst primary, ks_mlkem = fst primary,
                  ks_p256 = (case p256 of None \<Rightarrow> fst primary | Some p \<Rightarrow> fst p)\<rparr>)
               primary_pub
               \<lparr>co_hostname = Some (pa_hostname (sp_params P)),
                co_record_size_limit = Some (rsl_get (default_our_recv_limit RECV)),
                co_session_id = session_id, co_alpn = sp_alpn P,
                co_suites = effective_suite_list (se_suites K) (sp_suite_policy P),
                co_mlkem_ek = mlkem_ek, co_p256_pub = p256_pub\<rparr>))))"

definition handshake_round ::
  "('k, 'v) ClientConfig \<Rightarrow> ('t, 'e) Transport \<Rightarrow> ('v, 'x, 'r) ClientParams \<Rightarrow> 'r \<times> ('k, 't) TlsStream \<Rightarrow>
   ('r \<times> ('k, 't) TlsStream) \<times> ('e ConnectError + unit option)" where
  "handshake_round C T params = (\<lambda>(rng, s).
     case step_handshake C params rng (st_engine s) of
       (rng, e, r) \<Rightarrow>
         let s = s\<lparr>st_engine := e\<rparr> in
         (case r of
            Inl err \<Rightarrow> ((rng, s), Inl (Co_Handshake err))
          | Inr Ev_HandshakeDone \<Rightarrow> ((rng, s), Inr (Some ()))
          | Inr (Ev_Send n) \<Rightarrow> (case and_continue (drive_one_send_step T s) of (s, r) \<Rightarrow> ((rng, s), r))
          | Inr Ev_Recv \<Rightarrow> (case and_continue (drive_one_recv_step T s) of (s, r) \<Rightarrow> ((rng, s), r))
          | Inr Ev_AppData \<Rightarrow> ((rng, s), Inl (Co_Internal AppDataDuringDriveHandshake))
          | Inr Ev_Closed \<Rightarrow> ((rng, s), Inl Co_Closed)))"

definition drive_handshake ::
  "('k, 'v) ClientConfig \<Rightarrow> ('t, 'e) Transport \<Rightarrow> ('v, 'x, 'r) ClientParams \<Rightarrow> 'r \<Rightarrow> ('k, 't) TlsStream \<Rightarrow>
   (('r \<times> ('k, 't) TlsStream) \<times> ('e ConnectError + unit)) option" where
  "drive_handshake C T params rng s = run_loop (\<lambda>p. Some (handshake_round C T params p)) (rng, s)"

text \<open>The buffers are those of the scratch.  The result has the generator and the transport as they are left.\<close>

definition tls_connect ::
  "('k, 'v) ClientConfig \<Rightarrow> ('k, 'r) StreamEnv \<Rightarrow> ('t, 'e) Transport \<Rightarrow> ('v, 'x, 'r) StreamParams \<Rightarrow> bytes \<Rightarrow> bytes \<Rightarrow>
   ServerFlightReassembler \<Rightarrow> 't \<Rightarrow> 'r \<Rightarrow> ('r \<times> 't \<times> ('e ConnectError + ('k, 't) TlsStream)) option" where
  "tls_connect C K T P recv_record send_record reassembler t rng =
     (case validate_construction (cc_features C) (sp_params P) (length recv_record) (length send_record) of
        Inl err \<Rightarrow> Some (rng, t, Inl (Co_Config err))
      | Inr u \<Rightarrow>
          (case open_hello (cc_features C) K P (length recv_record) rng of
             (rng, Inl err) \<Rightarrow> Some (rng, t, Inl err)
           | (rng, Inr (ch, wait_sh)) \<Rightarrow>
               (case tr_write_all T ch t of
                  (t, Inl err) \<Rightarrow> Some (rng, t, Inl (Co_Io err))
                | (t, Inr u) \<Rightarrow>
                    map_option (\<lambda>((rng, s), r). (rng, st_transport s, rbind r (\<lambda>_. Inr s)))
                      (drive_handshake C T (sp_params P) rng
                        \<lparr>st_engine = TlsEngine_new recv_record send_record reassembler (ES_WaitServerHello wait_sh)
                           (default_our_recv_limit (length recv_record)) rsl_DEFAULT,
                         st_transport = t\<rparr>))))"

end
