(* ===== verification/Stream_Safety.thy ===== *)
theory Stream_Safety
  imports Tls_Stream
begin

text \<open>
  The methods of a TLS stream end, keep the invariant of the engine, and never report one of the errors the
  source marks as unreachable.
\<close>

section \<open>No internal error in the data phase\<close>

definition internal :: "HandshakeError + 'a \<Rightarrow> bool" where
  "internal r \<longleftrightarrow> (\<exists>x. r = Inl (HE_Internal x))"

lemma internal_simps [simp]:
  "\<not> internal (Inr x)" "internal (Inl (HE_Internal i))" "\<not> internal (Inl (HE_Connection c))"
  "\<not> internal (Inl (HE_RecordTooLarge a b))" "\<not> internal (Inl HE_InterleavedPostHandshake)"
  "\<not> internal (Inl HE_PostHandshakeNotSupported)" "\<not> internal (Inl HE_MalformedKeyUpdate)"
  by (simp_all add: internal_def)

lemma rotate_keys_external: "\<not> internal (snd (rotate_keys C Su st u conn e))"
  by (simp add: rotate_keys_def Let_def split: sum.split prod.split)

lemma process_key_update_external: "in_data_phase (te_state e) \<Longrightarrow> \<not> internal (snd (process_key_update C u e))"
  by (cases "te_state e") (simp_all add: process_key_update_def rotate_keys_external)

lemma ph_message_external: "ph_message ph d = (ph', rest, Some r) \<Longrightarrow> \<not> internal r"
  by (auto simp: ph_message_def Let_def split: if_splits prod.splits)

lemma ph_feed_external: "\<not> internal (snd (ph_feed content ph))"
proof (induction content ph rule: ph_feed.induct)
  case (1 content ph)
  show ?case
    by (subst ph_feed.simps) (auto simp: Let_def 1 dest: ph_message_external split: prod.split option.split)
qed

lemma feed_post_handshake_external:
  assumes "in_data_phase (te_state e)"
  shows "\<not> internal (snd (feed_post_handshake C start len e))"
proof -
  obtain ph r where f: "ph_feed (sub_range start (start + len) (te_recv_record e)) (te_ph e) = (ph, r)" by (metis surj_pair)
  then have "\<not> internal r" using ph_feed_external by (metis snd_conv)
  moreover have "\<not> internal (snd (process_key_update C u (e\<lparr>te_ph := ph\<rparr>)))" for u
    using assms by (intro process_key_update_external) simp
  ultimately show ?thesis using f by (auto simp: feed_post_handshake_def internal_def split: sum.split option.split)
qed

lemma decrypt_current_external:
  "in_data_phase (te_state e) \<Longrightarrow> \<not> internal (snd (decrypt_current_data_record C start end_pos e))"
  by (cases "te_state e") (simp_all add: decrypt_current_data_record_def decrypt_app_def Let_def split: prod.split sum.split)

lemma handle_inner_content_external:
  "in_data_phase (te_state e) \<Longrightarrow> \<not> internal (snd (handle_inner_content C off len ct e))"
  by (simp add: handle_inner_content_def Let_def feed_post_handshake_external)

lemma dispatch_data_external:
  assumes "in_data_phase (te_state e)"
  shows "\<not> internal (snd (dispatch_data_record C start end_pos ty e))"
proof -
  obtain e1 r where d: "decrypt_current_data_record C start end_pos e = (e1, r)" by (metis surj_pair)
  have r: "\<not> internal r" using decrypt_current_external [OF assms, of C start end_pos] d by simp
  have "in_data_phase (te_state e1)" using decrypt_current_phase [of e C start end_pos] d assms by (simp add: same_phase_def)
  then have "\<not> internal (snd (handle_inner_content C off len ct (set_next_record end_pos e1)))" for off len ct
    by (intro handle_inner_content_external) (simp add: set_next_record_def)
  then have "\<not> internal (snd (dispatch_data_record_inner C start end_pos ty e))"
    using r d by (auto simp: dispatch_data_record_inner_def Let_def internal_def split: sum.split prod.split)
  then show ?thesis
    by (cases "dispatch_data_record_inner C start end_pos ty e" rule: prod.exhaust)
      (auto simp: dispatch_data_record_def internal_def split: sum.split)
qed

section \<open>The engine under a stream\<close>

definition app_ok :: "nat \<Rightarrow> nat \<Rightarrow> 'k TlsEngine \<Rightarrow> bool" where
  "app_ok R S e \<longleftrightarrow> engine_ok R S e \<and> \<not> te_pending_handshake_done e \<and> (in_data_phase (te_state e) \<or> te_closed e)"

definition buffered :: "'k TlsEngine \<Rightarrow> nat" where
  "buffered e = rs_filled (te_recv e) - rs_next_record (te_recv e)"

lemma app_ok_same: "app_ok R S e \<Longrightarrow> in_data_phase (te_state e) \<Longrightarrow> engine_ok R S e' \<Longrightarrow> same_phase e e' \<Longrightarrow> app_ok R S e'"
  by (auto simp: app_ok_def same_phase_def)

text \<open>Framing and dispatching a record of a stream.\<close>

lemma app_ok_idle: "app_ok R S e \<Longrightarrow> idle e \<Longrightarrow> in_data_phase (te_state e) \<and> engine_ok R S e"
  by (auto simp: app_ok_def idle_def)

lemma frame_app:
  assumes "app_ok R S e" "idle e" "frame_one_record e = (e1, fr)"
  shows "app_ok R S e1 \<and> \<not> internal fr"
proof
  have data: "in_data_phase (te_state e)" "engine_ok R S e" using app_ok_idle [OF assms(1,2)] by simp_all
  show "app_ok R S e1" using app_ok_same [OF assms(1) data(1)] frame_ok [OF data(2)] frame_phase [of e] assms(3) by simp
  show "\<not> internal fr" using assms(2,3) by (auto simp: idle_def frame_one_record_def Let_def split: if_splits)
qed

lemma dispatch_app:
  assumes C: "config_ok C" and e: "app_ok R S e" "idle e" and f: "frame_one_record e = (e, Inr (Framed_Record start end_pos ty len))"
    and d: "dispatch_data_record C start end_pos ty e = (e2, res)"
  shows "app_ok R S e2 \<and> \<not> internal res \<and> (is_ok res \<longrightarrow> buffered e2 < buffered e)"
proof (intro conjI impI)
  have data: "in_data_phase (te_state e)" "engine_ok R S e" using app_ok_idle [OF e] by simp_all
  have "engine_ok R S e2" using dispatch_data_keeps [OF C data(2) f] d by simp
  then show "app_ok R S e2" using app_ok_same [OF e(1) data(1)] dispatch_data_record_phase [of e C start end_pos ty] d by simp
  show "\<not> internal res" using dispatch_data_external [OF data(1), of C start end_pos ty] d by simp
  assume "is_ok res"
  then show "buffered e2 < buffered e"
    using dispatch_data_record_recv [of C start end_pos ty e e2] d frame_one_record_Record [OF f]
    by (auto simp: is_ok_iff buffered_def)
qed

text \<open>A step on a stream keeps the invariant, does not report the handshake, fails with no internal error, and
  asks for a send only if one is pending, which without an earlier one took a received record.\<close>

lemma step_result:
  assumes C: "config_ok C"
  shows "app_ok R S e \<Longrightarrow> step C e = (e', r) \<Longrightarrow>
    app_ok R S e' \<and> r \<noteq> Inr Ev_HandshakeDone \<and> \<not> internal r \<and>
    (\<forall>n. r = Inr (Ev_Send n) \<longrightarrow> is_send_pending e' \<and> (is_send_pending e \<and> e' = e \<or> buffered e' < buffered e))"
proof (induction C \<equiv> C e rule: step.induct)
  case (1 e)
  note unf = step.simps [of C e]
  show ?case
  proof (cases "idle e")
    case False
    then show ?thesis using "1.prems" by (auto simp: unf idle_def split: if_splits)
  next
    case idle: True
    then have g: "\<not> is_send_pending e" "\<not> plaintext_parked (te_recv e)" "\<not> te_closed e" by (simp_all add: idle_def)
    obtain e1 fr where f: "frame_one_record e = (e1, fr)" by (metis surj_pair)
    show ?thesis
    proof (cases "\<exists>start end_pos ty len. fr = Inr (Framed_Record start end_pos ty len)")
      case False
      then show ?thesis using "1.prems"(2) g f frame_app [OF "1.prems"(1) idle f]
        by (auto simp: unf internal_def split: sum.splits Framed.splits)
    next
      case True
      then obtain start end_pos ty len where fr: "fr = Inr (Framed_Record start end_pos ty len)" by blast
      then have e1: "e1 = e" using frame_one_record_Record [of e e1] f by simp
      obtain e2 res where d: "dispatch_data_record C start end_pos ty e1 = (e2, res)" by (metis surj_pair)
      note ok = dispatch_app [OF C "1.prems"(1) idle f [unfolded e1 fr] d [unfolded e1]]
      show ?thesis
      proof (cases res)
        case (Inl err)
        then show ?thesis using "1.prems"(2) g f fr d ok by (auto simp: unf internal_def)
      next
        case (Inr u)
        have "step C e2 = (e', r)" using "1.prems"(2) g f fr d Inr by (simp add: unf)
        then show ?thesis using "1.hyps" [OF g f [symmetric] fr refl d [symmetric] Inr conjunct1 [OF ok]] ok Inr by fastforce
      qed
    qed
  qed
qed

text \<open>A step asks for input only if there is room for some.\<close>

lemma step_recv_room:
  assumes "config_ok C" "app_ok R S e" "5 \<le> R" "step C e = (e', Inr Ev_Recv)"
  shows "0 < recv_buffer_len e'"
proof -
  obtain e1 where e1: "engine_ok R S e1" "frame_one_record e1 = (e', Inr Framed_Need)"
    using step_recv [OF assms(1) _ assms(4)] assms(2) by (auto simp: app_ok_def)
  then have "length (te_recv_record e') = R" using frame_ok [OF e1(1)] by (simp add: engine_ok_def)
  then show ?thesis using frame_need [OF e1 assms(3)] by (simp add: recv_buffer_len_def)
qed

section \<open>One send and one receive\<close>

definition sent :: "'k TlsEngine \<Rightarrow> 'k TlsEngine" where
  "sent e = e\<lparr>te_send_pending_len := 0, te_send_acked := 0, te_handshake_finished_pending_ack := False\<rparr>"

lemma sent_ok: "engine_ok R S e \<Longrightarrow> engine_ok R S (sent e)"
  by (simp add: sent_def engine_simps)

lemma sent_fields [simp]:
  "\<not> is_send_pending (sent e)" "buffered (sent e) = buffered e" "te_state (sent e) = te_state e"
  "te_pending_handshake_done (sent e) = te_pending_handshake_done e" "te_closed (sent e) = te_closed e"
  "te_recv (sent e) = te_recv e" "te_send_record (sent e) = te_send_record e"
  "te_peer_recv_limit (sent e) = te_peer_recv_limit e"
  by (simp_all add: sent_def is_send_pending_def buffered_def)

lemma app_ok_sent: "app_ok R S e \<Longrightarrow> app_ok R S (sent e)"
  by (simp add: app_ok_def sent_ok)

lemma app_ok_terminal: "engine_ok R S e \<Longrightarrow> app_ok R S (mark_terminal e)"
  using mark_terminal_ok [of R S e] by (simp add: app_ok_def mark_terminal_def)

text \<open>A pending send hands all that is pending to the transport and leaves nothing pending.\<close>

lemma send_step:
  assumes "engine_ok R S (st_engine s)" "is_send_pending (st_engine s)"
  shows "drive_one_send_step T s =
    (case tr_write_all T (send_bytes (st_engine s)) (st_transport s) of
       (t, Inl err) \<Rightarrow> (\<lparr>st_engine = mark_terminal (st_engine s), st_transport = t\<rparr>, Inl (Co_Io err))
     | (t, Inr u) \<Rightarrow> (\<lparr>st_engine = sent (st_engine s), st_transport = t\<rparr>, Inr ()))"
proof -
  have ne: "send_bytes (st_engine s) \<noteq> []" by (rule send_bytes_ne [OF assms])
  have "te_send_acked (st_engine s) + length (send_bytes (st_engine s)) = te_send_pending_len (st_engine s)"
    using assms by (auto simp: send_bytes_def engine_simps)
  then have "mark_sent (length (send_bytes (st_engine s))) (st_engine s) = (sent (st_engine s), Inr ())"
    by (simp add: mark_sent_def sent_def)
  then show ?thesis using ne by (simp add: drive_one_send_step_def on_engine_def split: prod.split sum.split)
qed

text \<open>Bytes that fit the room are taken.\<close>

definition received :: "bytes \<Rightarrow> 'k TlsEngine \<Rightarrow> 'k TlsEngine" where
  "received bs e = fst (advance (length bs) (fill_recv_buffer bs e))"

lemma feed_step:
  assumes "bs \<noteq> []" "length bs \<le> recv_buffer_len (st_engine s)" "engine_ok R S (st_engine s)"
  shows "feed_received bs s = (s\<lparr>st_engine := received bs (st_engine s)\<rparr>, Inr ())"
  using assms by (auto simp: feed_received_def on_engine_def received_def advance_def fill_recv_buffer_def
      recv_buffer_len_def engine_simps Let_def split: if_splits)

lemma received_ok: "engine_ok R S e \<Longrightarrow> engine_ok R S (received bs e)"
  by (simp add: received_def advance_ok fill_recv_buffer_ok)

lemma received_fields [simp]:
  "te_state (received bs e) = te_state e" "te_pending_handshake_done (received bs e) = te_pending_handshake_done e"
  "te_closed (received bs e) = te_closed e"
  by (simp_all add: received_def advance_def fill_recv_buffer_def Let_def)

lemma app_ok_received: "app_ok R S e \<Longrightarrow> app_ok R S (received bs e)"
  by (simp add: app_ok_def received_ok)

text \<open>A transport with finite input: a read returns no more bytes than asked for and uses up input, which
  no write adds to.\<close>

definition finite_input :: "('t, 'e) Transport \<Rightarrow> ('t \<Rightarrow> nat) \<Rightarrow> bool" where
  "finite_input T m \<longleftrightarrow>
     (\<forall>room t t' bs. tr_read T room t = (t', Inr bs) \<longrightarrow> length bs \<le> room \<and> (bs \<noteq> [] \<longrightarrow> m t' < m t)) \<and>
     (\<forall>room t t' bs. tr_read_nb T room t = (t', Inr (Some bs)) \<longrightarrow> length bs \<le> room \<and> (bs \<noteq> [] \<longrightarrow> m t' < m t)) \<and>
     (\<forall>bs t. m (fst (tr_write_all T bs t)) \<le> m t)"

definition external :: "'e ConnectError + 'a \<Rightarrow> bool" where
  "external r \<longleftrightarrow> (\<forall>x. r \<noteq> Inl (Co_Internal x))"

lemma external_simps [simp]:
  "external (Inr x)" "external (Inl (Co_Io err))" "external (Inl Co_UnexpectedEof)" "external (Inl Co_Closed)"
  "external (Inl (Co_Config c))" "external (Inl (Co_Handshake h)) \<longleftrightarrow> \<not> internal (Inl h)"
  by (auto simp: external_def internal_def)

lemma recv_step:
  assumes T: "finite_input T m" and e: "engine_ok R S (st_engine s)" "0 < recv_buffer_len (st_engine s)"
    and run: "drive_one_recv_step T s = (s', r)"
  shows "external r \<and> (\<exists>bs. st_engine s' = received bs (st_engine s) \<and> (r = Inr () \<longrightarrow> m (st_transport s') < m (st_transport s)))"
proof -
  have "received [] (st_engine s) = st_engine s"
    by (simp add: received_def advance_def fill_recv_buffer_def put_at_def)
  then have same: "\<exists>bs. st_engine s = received bs (st_engine s)" by metis
  show ?thesis using run T e same
    by (auto simp: drive_one_recv_step_def Let_def finite_input_def feed_step split: prod.splits sum.splits if_splits)
qed

lemma recv_step_nb:
  assumes T: "finite_input T m" and e: "engine_ok R S (st_engine s)" "0 < recv_buffer_len (st_engine s)"
    and run: "drive_one_recv_step_nb T s = (s', r)"
  shows "external r \<and> (\<exists>bs. st_engine s' = received bs (st_engine s) \<and> (r = Inr Fed \<longrightarrow> m (st_transport s') < m (st_transport s)))"
proof -
  have "received [] (st_engine s) = st_engine s"
    by (simp add: received_def advance_def fill_recv_buffer_def put_at_def)
  then have same: "\<exists>bs. st_engine s = received bs (st_engine s)" by metis
  show ?thesis using run T e same
    by (auto simp: drive_one_recv_step_nb_def Let_def finite_input_def feed_step
        split: prod.splits sum.splits if_splits option.splits)
qed

text \<open>Draining is one round: everything pending is written, or the stream is terminal.\<close>

lemma drain_eq:
  assumes "engine_ok R S (st_engine s)"
  shows "drain_pending_send C T s =
    Some (if is_send_pending (st_engine s) then
       (case tr_write_all T (send_bytes (st_engine s)) (st_transport s) of
          (t, Inl err) \<Rightarrow> (\<lparr>st_engine = mark_terminal (st_engine s), st_transport = t\<rparr>, Inl (Co_Io err))
        | (t, Inr u) \<Rightarrow> (\<lparr>st_engine = sent (st_engine s), st_transport = t\<rparr>, Inr ()))
     else (s, Inr ()))"
proof (cases "is_send_pending (st_engine s)")
  case True
  then have "step C (st_engine s) =
      (st_engine s, Inr (Ev_Send (te_send_pending_len (st_engine s) - te_send_acked (st_engine s))))"
    by (simp add: step.simps)
  then show ?thesis using True send_step [OF assms True, of T]
    by (simp add: drain_pending_send_def run_loop.simps [of _ s] drain_round_def split: prod.split sum.split)
next
  case False
  then show ?thesis by (simp add: drain_pending_send_def)
qed

lemma drain_returns:
  assumes "app_ok R S (st_engine s)"
  shows "\<exists>s' r. drain_pending_send C T s = Some (s', r) \<and> app_ok R S (st_engine s') \<and> external r \<and>
    (r = Inr () \<longrightarrow> \<not> is_send_pending (st_engine s'))"
proof -
  have e: "engine_ok R S (st_engine s)" using assms by (simp add: app_ok_def)
  show ?thesis unfolding drain_eq [OF e] using app_ok_sent [OF assms] app_ok_terminal [OF e] assms
    by (auto split: prod.splits sum.splits)
qed

section \<open>Reading returns\<close>

definition effort_left :: "('t \<Rightarrow> nat) \<Rightarrow> ('k, 't) TlsStream \<Rightarrow> nat \<times> nat \<times> nat" where
  "effort_left m s = (m (st_transport s), buffered (st_engine s), if is_send_pending (st_engine s) then 1 else 0)"

abbreviation less_effort :: "((nat \<times> nat \<times> nat) \<times> (nat \<times> nat \<times> nat)) set" where
  "less_effort \<equiv> less_than <*lex*> less_than <*lex*> less_than"

text \<open>A loop whose rounds keep an invariant and each leave less to do ends.\<close>

lemma loop_returns:
  assumes "I s" and "\<And>s. I s \<Longrightarrow> round_ok (\<lambda>s'. I s' \<and> (w s', w s) \<in> less_effort) Q (f s)"
  shows "\<exists>s' r. run_loop (\<lambda>s. Some (f s)) s = Some (s', r) \<and> Q s' r"
proof (rule run_loop_total [where I = I and m = w and R = less_effort])
  fix s2
  assume "I s2"
  from assms(2) [OF this]
  show "\<exists>s1 r. Some (f s2) = Some (s1, r) \<and> round_ok (\<lambda>s'. I s' \<and> (w s', w s2) \<in> less_effort) Q (s1, r)"
    by (cases "f s2") simp
qed (use assms(1) in \<open>auto simp: wf_lex_prod\<close>)

text \<open>A send round leaves less to do, as nothing is pending after it.\<close>

lemma send_round:
  assumes T: "finite_input T m" and e: "engine_ok R S (st_engine s)" "is_send_pending (st_engine s)"
    and less: "is_send_pending (st_engine s0) \<and> st_engine s = st_engine s0 \<or> buffered (st_engine s) < buffered (st_engine s0)"
      "st_transport s = st_transport s0"
    and I: "I (sent (st_engine s))" and Q: "\<And>t err. Q \<lparr>st_engine = mark_terminal (st_engine s), st_transport = t\<rparr> (Inl (Co_Io err))"
  shows "round_ok (\<lambda>s'. I (st_engine s') \<and> (effort_left m s', effort_left m s0) \<in> less_effort) Q
    (and_continue (drive_one_send_step T s))"
proof (cases "tr_write_all T (send_bytes (st_engine s)) (st_transport s)")
  case (Pair t r)
  then have "m t \<le> m (st_transport s0)" using T less(2) unfolding finite_input_def by (metis fst_conv)
  then show ?thesis using Pair I Q less send_step [OF e, of T]
    by (cases r) (auto simp: and_continue_def effort_left_def)
qed

lemma recv_round:
  assumes T: "finite_input T m" and e: "engine_ok R S (st_engine s)" "0 < recv_buffer_len (st_engine s)"
    and s0: "st_transport s = st_transport s0"
    and I: "\<And>bs. I (received bs (st_engine s))" and Q: "\<And>s' bs err. st_engine s' = received bs (st_engine s) \<Longrightarrow> external (Inl err :: _ + unit) \<Longrightarrow> Q s' (Inl err)"
  shows "round_ok (\<lambda>s'. I (st_engine s') \<and> (effort_left m s', effort_left m s0) \<in> less_effort) Q
    (and_continue (drive_one_recv_step T s))"
proof -
  obtain s' r where run: "drive_one_recv_step T s = (s', r)" by (metis surj_pair)
  note st = recv_step [OF T e run]
  then obtain bs where "st_engine s' = received bs (st_engine s)" by blast
  then show ?thesis using st I Q [of s' bs] run s0
    by (cases r) (auto simp: and_continue_def effort_left_def)
qed

lemma read_app_length: "length (snd (read_app n e)) \<le> n"
  by (auto simp: read_app_def Let_def sub_range_def)

lemma app_ok_read: "app_ok R S e \<Longrightarrow> app_ok R S (fst (read_app n e))"
  using read_app_ok [of R S e n] by (simp add: app_ok_def read_app_def Let_def)

lemma read_round_ok:
  assumes T: "finite_input T m" and C: "config_ok C" "5 \<le> R" and s: "app_ok R S (st_engine s)"
  shows "round_ok (\<lambda>s'. app_ok R S (st_engine s') \<and> (effort_left m s', effort_left m s) \<in> less_effort)
    (\<lambda>s' r. app_ok R S (st_engine s') \<and> external r \<and> (\<forall>bs. r = Inr bs \<longrightarrow> length bs \<le> out_len)) (read_round C T out_len s)"
proof -
  obtain e r where st: "step C (st_engine s) = (e, r)" by (metis surj_pair)
  note res = step_result [OF C(1) s st]
  let ?s = "s\<lparr>st_engine := e\<rparr>"
  have e: "app_ok R S e" "engine_ok R S e" using res by (simp_all add: app_ok_def)
  show ?thesis
  proof (cases r)
    case (Inl err)
    then show ?thesis using st res by (simp add: read_round_def internal_def external_def)
  next
    case (Inr ev)
    show ?thesis
    proof (cases ev)
      case (Ev_Send n)
      then have "is_send_pending e" "is_send_pending (st_engine s) \<and> e = st_engine s \<or> buffered e < buffered (st_engine s)"
        using res Inr by auto
      then show ?thesis unfolding read_round_def st using Inr Ev_Send
        by simp (rule send_round [OF T], use e app_ok_sent [OF e(1)] app_ok_terminal [OF e(2)] in auto)
    next
      case Ev_Recv
      then have "0 < recv_buffer_len e" using step_recv_room [OF C(1) s C(2)] st Inr by simp
      then show ?thesis unfolding read_round_def st using Inr Ev_Recv
        by simp (rule recv_round [OF T], use e app_ok_received [OF e(1)] in \<open>auto simp: external_def\<close>)
    next
      case Ev_AppData
      then show ?thesis using st Inr app_ok_read [OF e(1), of out_len] read_app_length [of out_len e]
        by (auto simp: read_round_def split: prod.split)
    qed (use st Inr res e in \<open>auto simp: read_round_def\<close>)
  qed
qed

lemma read_returns:
  assumes "finite_input T m" "config_ok C" "5 \<le> R" "app_ok R S (st_engine s)"
  shows "\<exists>s' r. tls_read C T out_len s = Some (s', r) \<and> app_ok R S (st_engine s') \<and> external r \<and>
    (\<forall>bs. r = Inr bs \<longrightarrow> length bs \<le> out_len)"
proof (cases "out_len = 0")
  case False
  have "\<exists>s' r. run_loop (\<lambda>s. Some (read_round C T out_len s)) s = Some (s', r) \<and>
      app_ok R S (st_engine s') \<and> external r \<and> (\<forall>bs. r = Inr bs \<longrightarrow> length bs \<le> out_len)"
    by (rule loop_returns [where I = "\<lambda>s. app_ok R S (st_engine s)" and w = "effort_left m"])
      (rule assms(4), rule read_round_ok [OF assms(1-3)])
  then show ?thesis using False by (simp add: tls_read_def)
qed (use assms in \<open>simp add: tls_read_def\<close>)

lemma try_read_round_ok:
  assumes T: "finite_input T m" and C: "config_ok C" "5 \<le> R" and s: "app_ok R S (st_engine s)"
  shows "round_ok (\<lambda>s'. app_ok R S (st_engine s') \<and> (effort_left m s', effort_left m s) \<in> less_effort)
    (\<lambda>s' r. app_ok R S (st_engine s') \<and> external r) (try_read_round C T out_len s)"
proof -
  obtain e r where st: "step C (st_engine s) = (e, r)" by (metis surj_pair)
  note res = step_result [OF C(1) s st]
  let ?s = "s\<lparr>st_engine := e\<rparr>"
  have e: "app_ok R S e" "engine_ok R S e" using res by (simp_all add: app_ok_def)
  show ?thesis
  proof (cases r)
    case (Inl err)
    then show ?thesis using st res by (simp add: try_read_round_def internal_def external_def)
  next
    case (Inr ev)
    show ?thesis
    proof (cases ev)
      case (Ev_Send n)
      then have "is_send_pending e" "is_send_pending (st_engine s) \<and> e = st_engine s \<or> buffered e < buffered (st_engine s)"
        using res Inr by auto
      then show ?thesis unfolding try_read_round_def st using Inr Ev_Send
        by simp (rule send_round [OF T], use e app_ok_sent [OF e(1)] app_ok_terminal [OF e(2)] in auto)
    next
      case Ev_Recv
      then have room: "0 < recv_buffer_len (st_engine ?s)" using step_recv_room [OF C(1) s C(2)] st Inr by simp
      obtain s' p where run: "drive_one_recv_step_nb T ?s = (s', p)" by (metis surj_pair)
      have ok: "engine_ok R S (st_engine ?s)" using e(2) by simp
      note nb = recv_step_nb [OF T ok room run]
      then have "app_ok R S (st_engine s')" using app_ok_received [OF e(1)] by auto
      then show ?thesis using nb st Inr Ev_Recv run
        by (cases p) (auto simp: try_read_round_def effort_left_def external_def split: RecvProgress.split)
    next
      case Ev_AppData
      then show ?thesis using st Inr app_ok_read [OF e(1), of out_len]
        by (auto simp: try_read_round_def split: prod.split)
    qed (use st Inr res e in \<open>auto simp: try_read_round_def\<close>)
  qed
qed

lemma try_read_returns:
  assumes "finite_input T m" "config_ok C" "5 \<le> R" "app_ok R S (st_engine s)"
  shows "\<exists>s' r. tls_try_read C T out_len s = Some (s', r) \<and> app_ok R S (st_engine s') \<and> external r"
proof (cases "out_len = 0")
  case False
  have "\<exists>s' r. run_loop (\<lambda>s. Some (try_read_round C T out_len s)) s = Some (s', r) \<and> app_ok R S (st_engine s') \<and> external r"
    by (rule loop_returns [where I = "\<lambda>s. app_ok R S (st_engine s)" and w = "effort_left m"])
      (rule assms(4), rule try_read_round_ok [OF assms(1-3)])
  then show ?thesis using False by (simp add: tls_try_read_def)
qed (use assms in \<open>simp add: tls_try_read_def\<close>)

section \<open>Writing and closing return\<close>

text \<open>Accepting data is possible in the data phase: the chunk limit is at least one byte.\<close>

lemma chunk_limit_pos: "engine_ok R S e \<Longrightarrow> 23 \<le> S \<Longrightarrow> 0 < send_chunk_limit e"
  by (auto simp: send_chunk_limit_def engine_ok_def rsl_ok_def RECORD_OVERHEAD_def TLS_HEADER_def AEAD_TAG_def
      PROTO_MAX_INNER_PLAINTEXT_def)

lemma write_app_result:
  assumes C: "config_ok C" and e: "app_ok R S e" "\<not> is_send_pending e" and "23 \<le> S" "buf \<noteq> []"
    and run: "write_app C buf e = (e', r)"
  shows "app_ok R S e' \<and> r \<noteq> Inl WA_Busy \<and> r \<noteq> Inl WA_NotReady \<and> r \<noteq> Inr 0 \<and> (\<forall>x. r \<noteq> Inl (WA_Other (HE_Internal x)))"
proof -
  have ok: "engine_ok R S e" using e(1) by (simp add: app_ok_def)
  have "engine_ok R S e'" "same_phase e e'"
    using write_app_ok [OF ok C, of buf] write_app_phase [of e C buf] run by simp_all
  then have "app_ok R S e'" if "in_data_phase (te_state e)" using app_ok_same [OF e(1) that] by simp
  moreover have "e' = e" if "te_closed e" using run that by (simp add: write_app_def)
  ultimately have "app_ok R S e'" using e(1) by (auto simp: app_ok_def)
  moreover obtain k where "min (length buf) (send_chunk_limit e) = Suc k"
    using chunk_limit_pos [OF ok assms(4)] assms(5) by (cases "min (length buf) (send_chunk_limit e)") (auto simp: min_def split: if_splits)
  ultimately show ?thesis using run e
    by (cases "te_state e") (auto simp: write_app_def app_ok_def encrypt_app_def Let_def split: if_splits sum.splits prod.splits)
qed

lemma write_round_ok:
  assumes C: "config_ok C" "23 \<le> S" and s: "app_ok R S (st_engine s)"
  shows "\<exists>p r. write_round C T (buf, s) = Some (p, r) \<and>
    round_ok (\<lambda>p'. app_ok R S (st_engine (snd p')) \<and> (length (fst p'), length buf) \<in> less_than)
      (\<lambda>p' r. app_ok R S (st_engine (snd p')) \<and> external r) (p, r)"
proof (cases "buf = []")
  case False
  obtain s1 r1 where d1: "drain_pending_send C T s = Some (s1, r1)" "app_ok R S (st_engine s1)" "external r1"
    "r1 = Inr () \<longrightarrow> \<not> is_send_pending (st_engine s1)"
    using drain_returns [OF s, of C T] by blast
  show ?thesis
  proof (cases r1)
    case (Inl err)
    then show ?thesis using d1 False by (simp add: write_round_def drained_def external_def)
  next
    case (Inr u)
    obtain e r where w: "write_app C buf (st_engine s1) = (e, r)" by (metis surj_pair)
    have res: "app_ok R S e \<and> r \<noteq> Inl WA_Busy \<and> r \<noteq> Inl WA_NotReady \<and> r \<noteq> Inr 0 \<and> (\<forall>x. r \<noteq> Inl (WA_Other (HE_Internal x)))"
      using write_app_result [OF C(1) d1(2) _ C(2) False w] d1(4) Inr by simp
    then have "app_ok R S (st_engine (s1\<lparr>st_engine := e\<rparr>))" by simp
    then obtain s2 r2 where d2: "drain_pending_send C T (s1\<lparr>st_engine := e\<rparr>) = Some (s2, r2)" "app_ok R S (st_engine s2)" "external r2"
      using drain_returns [of R S _ C T] by blast
    show ?thesis
    proof (cases r)
      case (Inl we)
      then show ?thesis using d1(1) False Inr w res
        by (cases we) (auto simp: write_round_def drained_def external_def)
    next
      case (Inr n)
      then show ?thesis using d1(1) d2 False \<open>r1 = Inr u\<close> w res
        by (cases r2) (auto simp: write_round_def drained_def external_def)
    qed
  qed
qed (use s in \<open>simp add: write_round_def\<close>)

lemma write_all_returns:
  fixes s :: "('k, 't) TlsStream"
  assumes "config_ok C" "23 \<le> S" "app_ok R S (st_engine s)"
  shows "\<exists>s' r. tls_write_all C T buf s = Some (s', r) \<and> app_ok R S (st_engine s') \<and> external r"
proof -
  have "\<exists>p r. run_loop (write_round C T) (buf, s) = Some (p, r) \<and> app_ok R S (st_engine (snd p)) \<and> external r"
  proof (rule run_loop_total [where I = "\<lambda>p. app_ok R S (st_engine (snd p))" and m = "\<lambda>p. length (fst p)" and R = less_than])
    fix p :: "bytes \<times> ('k, 't) TlsStream"
    assume "app_ok R S (st_engine (snd p))"
    then show "\<exists>s1 r. write_round C T p = Some (s1, r) \<and>
        round_ok (\<lambda>p'. app_ok R S (st_engine (snd p')) \<and> (length (fst p'), length (fst p)) \<in> less_than)
          (\<lambda>p r. app_ok R S (st_engine (snd p)) \<and> external r) (s1, r)"
      using write_round_ok [OF assms(1,2), of R "snd p" T "fst p"] by (simp only: prod.collapse)
  qed (use assms(3) in simp_all)
  then show ?thesis by (auto simp: tls_write_all_def)
qed

lemma close_returns:
  assumes C: "config_ok C" and s: "app_ok R S (st_engine s)"
  shows "\<exists>s' r. tls_close C T s = Some (s', r) \<and> app_ok R S (st_engine s') \<and> external r"
proof -
  obtain s1 r1 where d1: "drain_pending_send C T s = Some (s1, r1)" "app_ok R S (st_engine s1)" "external r1"
    using drain_returns [OF s, of C T] by blast
  have ok: "engine_ok R S (st_engine s1)" using d1(2) by (simp add: app_ok_def)
  obtain e r where c: "close C (st_engine s1) = (e, r)" by (metis surj_pair)
  have "engine_ok R S e" "same_phase (st_engine s1) e" using close_ok [OF ok C] close_phase [of "st_engine s1" C] c by simp_all
  moreover have "te_closed (st_engine s1) \<Longrightarrow> e = st_engine s1" using c by (auto simp: close_def)
  ultimately have "app_ok R S e" using app_ok_same [OF d1(2)] d1(2) by (auto simp: app_ok_def)
  then have "app_ok R S (st_engine (s1\<lparr>st_engine := e\<rparr>))" by simp
  then obtain s2 r2 where d2: "drain_pending_send C T (s1\<lparr>st_engine := e\<rparr>) = Some (s2, r2)" "app_ok R S (st_engine s2)" "external r2"
    using drain_returns [of R S _ C T] by blast
  have "\<not> internal r" using c d1(2) by (cases "te_state (st_engine s1)")
      (auto simp: close_def encrypt_app_def app_ok_def internal_def split: if_splits sum.splits prod.splits)
  then show ?thesis using d1 d2 c \<open>app_ok R S e\<close>
    by (cases r1; cases r) (auto simp: tls_close_def on_engine_def internal_def external_def)
qed

text \<open>A closed engine with nothing parked reads as the end of the data, whatever closed it: a \<^verbatim>\<open>close_notify\<close> of
  the peer, a record that failed, or a write the transport refused.\<close>

lemma closed_reads_as_end:
  assumes "te_closed (st_engine s)" "\<not> is_send_pending (st_engine s)" "\<not> plaintext_parked (te_recv (st_engine s))"
  shows "tls_read C T out_len s = Some (s, Inr [])"
proof -
  have "step C (st_engine s) = (st_engine s, Inr Ev_Closed)" using assms by (simp add: step.simps)
  then have "Some (read_round C T out_len s) = Some (s, Inr (Some []))" by (simp add: read_round_def)
  from run_loop_round(2) [of "\<lambda>s. Some (read_round C T out_len s)", OF this] show ?thesis by (simp add: tls_read_def)
qed

lemma failed_record_closes: "dispatch_data_record C start end_pos ty e = (e', Inl err) \<Longrightarrow> te_closed e'"
  by (auto simp: dispatch_data_record_def split: prod.splits sum.splits)

end
