(* ===== verification/Stream_Handshake.thy ===== *)
theory Stream_Handshake
  imports Stream_Safety
begin

text \<open>
  Opening a TLS stream: the driver of the handshake ends and reports no internal error, and a stream is only
  returned once the server has been authenticated.
\<close>

section \<open>What the states of the handshake stand for\<close>

text \<open>Relative to the state \<^verbatim>\<open>w\<close> the ClientHello has left: a ServerHello has been read, and the application
  secrets come from a flight that was checked and verified.\<close>

definition hello_read :: "('k, 'v) ClientConfig \<Rightarrow> 'k WaitServerHello \<Rightarrow> WaitServerFlight \<Rightarrow> bool" where
  "hello_read C w conn \<longleftrightarrow> (\<exists>sh_record neg n.
     read_server_hello (cc_features C) (cc_hkdf C) (cc_kx C) (cc_aead C) w sh_record = Inr neg \<and>
     conn = (negotiated neg)\<lparr>wf_seq_in := n\<rparr>)"

definition flight_verified ::
  "('k, 'v) ClientConfig \<Rightarrow> ('v, 'e, 'r) ClientParams \<Rightarrow> 'k WaitServerHello \<Rightarrow> AppData \<Rightarrow> bool" where
  "flight_verified C params w ad \<longleftrightarrow> (\<exists>conn reasm creq prepared leaf sfd th ms.
     hello_read C w conn \<and> check_flight C params reasm = Inr (creq, prepared, leaf) \<and>
     finalize_server_flight (cc_hkdf C) (cc_verifiers C) conn reasm prepared leaf = Inr sfd \<and>
     snapshot (cc_hkdf C) (fd_transcript sfd) = Inr th \<and> master_secret (cc_hkdf C) (fd_hs sfd) = Inr ms \<and>
     application_traffic_secrets (cc_hkdf C) ms th = Inr (ad_c_ap_ts ad, ad_s_ap_ts ad))"

fun state_sound ::
  "('k, 'v) ClientConfig \<Rightarrow> ('v, 'e, 'r) ClientParams \<Rightarrow> 'k WaitServerHello \<Rightarrow> 'k EngineState \<Rightarrow> bool" where
  "state_sound C params w (ES_WaitServerHello conn) = (conn = w)"
| "state_sound C params w (ES_WaitFlightAes conn) = hello_read C w conn"
| "state_sound C params w (ES_WaitFlightChaCha conn) = hello_read C w conn"
| "state_sound C params w (ES_AppAes ad) = flight_verified C params w ad"
| "state_sound C params w (ES_AppChaCha ad) = flight_verified C params w ad"
| "state_sound C params w ES_Closed = True"

lemma finish_with_policy_secrets:
  assumes "finish_handshake_with_policy H S pol sfd ctx algs rng rsl scratch out = Inr (r, ad, scratch', rng')"
  shows "\<exists>th ms. snapshot H (fd_transcript sfd) = Inr th \<and> master_secret H (fd_hs sfd) = Inr ms \<and>
    application_traffic_secrets H ms th = Inr (ad_c_ap_ts ad, ad_s_ap_ts ad)"
  using assms by (auto simp: finish_handshake_with_policy_def app_data_def result_simps)

lemma finish_secrets:
  assumes "finish_handshake H S sfd out = Inr (r, ad)"
  shows "\<exists>th ms. snapshot H (fd_transcript sfd) = Inr th \<and> master_secret H (fd_hs sfd) = Inr ms \<and>
    application_traffic_secrets H ms th = Inr (ad_c_ap_ts ad, ad_s_ap_ts ad)"
  using assms by (auto simp: finish_handshake_def app_data_def result_simps)

lemma flight_outcome_verified:
  assumes "hello_read C w conn" "check_flight C params (te_reassembler e) = Inr (creq, prepared, leaf)"
    and "flight_outcome C params S conn creq prepared leaf rng e = Inr (r, ad, buf, rng')"
  shows "flight_verified C params w ad"
proof -
  obtain sfd where sfd: "finalize_server_flight (cc_hkdf C) (cc_verifiers C) conn (te_reassembler e) prepared leaf = Inr sfd"
    and rest: "(case creq of
         Some (ctx, sig_algs) \<Rightarrow>
           finish_handshake_with_policy (cc_hkdf C) S (pa_client_auth params) sfd ctx sig_algs rng
             (rsl_get (te_peer_recv_limit e)) (te_recv_record e) (te_send_record e)
       | None \<Rightarrow>
           rbind (finish_handshake (cc_hkdf C) S sfd (te_send_record e)) (\<lambda>(record, app).
             Inr (record, app, te_recv_record e, rng))) = Inr (r, ad, buf, rng')"
    using assms(3) by (auto simp: flight_outcome_def result_simps)
  have "\<exists>th ms. snapshot (cc_hkdf C) (fd_transcript sfd) = Inr th \<and> master_secret (cc_hkdf C) (fd_hs sfd) = Inr ms \<and>
      application_traffic_secrets (cc_hkdf C) ms th = Inr (ad_c_ap_ts ad, ad_s_ap_ts ad)"
  proof (cases creq)
    case None
    then show ?thesis using rest finish_secrets [of "cc_hkdf C" S sfd "te_send_record e"] by (auto simp: result_simps)
  next
    case (Some p)
    then show ?thesis using rest by (cases p) (auto dest: finish_with_policy_secrets)
  qed
  then show ?thesis using assms(1,2) sfd unfolding flight_verified_def by blast
qed

lemma hello_read_seq: "hello_read C w conn \<Longrightarrow> hello_read C w (conn\<lparr>wf_seq_in := n\<rparr>)"
  unfolding hello_read_def by fastforce

lemma feed_flight_sound:
  assumes "feed_flight C Su st conn start end_pos e = (e1, r)" "hello_read C w conn" "state_sound C params w (te_state e)"
    and "\<And>c. state_sound C params w (st c) = hello_read C w c"
  shows "state_sound C params w (te_state e1)"
proof -
  obtain buf res where f: "feed_server_record_inplace (cc_flight_cap C) Su conn (sub_range start end_pos (te_recv_record e))
      (te_reassembler e) = (buf, res)" by (metis surj_pair)
  have "hello_read C w c" if "res = Inr (stp, c, reasm)" for stp c reasm
  proof -
    have "snd (feed_server_record_inplace (cc_flight_cap C) Su conn (sub_range start end_pos (te_recv_record e))
        (te_reassembler e)) = Inr (stp, c, reasm)" using f that by simp
    from feed_server_record_state [OF this, THEN conjunct1]
    have "conn\<lparr>wf_seq_in := wf_seq_in c\<rparr> = c" by (rule sym)
    then show ?thesis using hello_read_seq [OF assms(2), of "wf_seq_in c"] by (simp only:)
  qed
  then show ?thesis using assms f by (auto simp: feed_flight_def Let_def split: sum.splits)
qed

lemma finish_flight_sound:
  assumes "hello_read C w conn" "check_flight C params (te_reassembler e) = Inr (creq, prepared, leaf)"
    and "\<And>ad. state_sound C params w (st ad) = flight_verified C params w ad"
  shows "state_sound C params w (te_state (fst (snd (finish_flight C params Su st conn creq prepared leaf rng e))))"
  using assms flight_outcome_verified [OF assms(1,2)]
  by (auto simp: finish_flight_def split: sum.split prod.split)

lemma finalize_and_finish_sound:
  assumes "state_sound C params w (te_state e)"
  shows "state_sound C params w (te_state (fst (snd (finalize_and_finish C params rng e))))"
proof -
  have "state_sound C params w (te_state (fst (snd (finish_flight C params Su st conn creq prepared leaf rng
      (e\<lparr>te_peer_recv_limit := l\<rparr>)))))"
    if "hello_read C w conn" "check_flight C params (te_reassembler e) = Inr (creq, prepared, leaf)"
      "\<And>ad. state_sound C params w (st ad) = flight_verified C params w ad" for Su st conn creq prepared leaf l
    using finish_flight_sound [of C w conn params "e\<lparr>te_peer_recv_limit := l\<rparr>", OF that(1) _ that(3)] that(2) by simp
  then show ?thesis using assms
    by (auto simp: finalize_and_finish_def Let_def split: sum.split prod.split EngineState.split)
qed

lemma dispatch_handshake_sound:
  assumes "state_sound C params w (te_state e)"
  shows "state_sound C params w (te_state (fst (snd (dispatch_handshake_record C params start end_pos ty rng e))))"
proof -
  have hello: "state_sound C params w (te_state (fst (handle_server_hello C start end_pos ty e)))"
  proof -
    have "hello_read C w (negotiated neg)"
      if "read_server_hello (cc_features C) (cc_hkdf C) (cc_kx C) (cc_aead C) w sh_record = Inr neg" for sh_record neg
      using that unfolding hello_read_def by (intro exI [of _ sh_record] exI [of _ neg] exI [of _ "wf_seq_in (negotiated neg)"]) simp
    from this [of _ "NegAes128Gcm _"] this [of _ "NegChaCha20Poly1305 _"] show ?thesis using assms
      by (auto simp: handle_server_hello_def split: EngineState.split sum.split NegotiatedSuite.split)
  qed
  have flight: "state_sound C params w (te_state (fst (snd (handle_flight_record C params start end_pos rng e))))"
  proof -
    let ?feed = "case te_state e of
        ES_WaitFlightAes conn \<Rightarrow> feed_flight C (aes_suite (cc_aead C)) ES_WaitFlightAes conn start end_pos e
      | ES_WaitFlightChaCha conn \<Rightarrow> feed_flight C (chacha_suite (cc_aead C)) ES_WaitFlightChaCha conn start end_pos e
      | _ \<Rightarrow> (e, Inl (HE_Internal FlightWrongState))"
    obtain e1 r where f: "?feed = (e1, r)" by (metis surj_pair)
    have "state_sound C params w (te_state e1)"
      using f assms by (cases "te_state e") (auto dest: feed_flight_sound [where w = w and params = params])
    then show ?thesis using assms unfolding handle_flight_record_def f
      by (simp add: Let_def finalize_and_finish_sound split: sum.split FlightStep.split)
  qed
  let ?handle = "case te_state e of
      ES_WaitServerHello _ \<Rightarrow> (rng, handle_server_hello C start end_pos ty e)
    | ES_WaitFlightAes _ \<Rightarrow> handle_flight_record C params start end_pos rng e
    | ES_WaitFlightChaCha _ \<Rightarrow> handle_flight_record C params start end_pos rng e
    | ES_AppAes _ \<Rightarrow> (rng, e, Inl (HE_Internal HandshakeStepInDataPhase))
    | ES_AppChaCha _ \<Rightarrow> (rng, e, Inl (HE_Internal HandshakeStepInDataPhase))
    | ES_Closed \<Rightarrow> (rng, e, Inl (HE_Internal HandshakeStepWrongState))"
  obtain rng1 e1 r where h: "?handle = (rng1, e1, r)" by (metis surj_pair)
  have "state_sound C params w (te_state (fst (snd ?handle)))" using hello flight assms by (cases "te_state e") simp_all
  then have "state_sound C params w (te_state e1)" unfolding h by simp
  then show ?thesis unfolding dispatch_handshake_record_def h by (simp add: set_next_record_def split: sum.split)
qed

section \<open>The invariant of the handshake loop\<close>

definition hs_ok :: "nat \<Rightarrow> nat \<Rightarrow> 'k TlsEngine \<Rightarrow> bool" where
  "hs_ok R S e \<longleftrightarrow> engine_ok R S e \<and> \<not> plaintext_parked (te_recv e) \<and> \<not> te_closed e \<and> te_state e \<noteq> ES_Closed \<and>
     (te_pending_handshake_done e \<longleftrightarrow> in_data_phase (te_state e))"

text \<open>What a handler leaves when it succeeds, and that it raises no internal error in a state it is called in.\<close>

definition on_track :: "'k TlsEngine \<times> (HandshakeError + 'a) \<Rightarrow> bool" where
  "on_track p \<longleftrightarrow> \<not> internal (snd p) \<and> (is_ok (snd p) \<longrightarrow>
     \<not> te_closed (fst p) \<and> te_state (fst p) \<noteq> ES_Closed \<and>
     (te_pending_handshake_done (fst p) \<longleftrightarrow> in_data_phase (te_state (fst p))))"

lemma finish_flight_on_track:
  assumes "\<not> te_closed e" "\<And>ad. in_data_phase (st ad)"
  shows "on_track (snd (finish_flight C params Su st conn creq prepared leaf rng e))"
proof -
  have "st ad \<noteq> ES_Closed" for ad using assms(2) [of ad] by auto
  then show ?thesis using assms
    by (simp add: finish_flight_def on_track_def queue_send_def split: sum.split prod.split)
qed

lemma check_flight_external: "check_flight C params reasm = Inl err \<Longrightarrow> \<not> internal (Inl err)"
  by (auto simp: check_flight_def internal_def result_simps split: if_splits option.splits)

lemma finalize_and_finish_on_track:
  assumes "\<not> te_closed e" "te_state e = ES_WaitFlightAes conn \<or> te_state e = ES_WaitFlightChaCha conn"
  shows "on_track (snd (finalize_and_finish C params rng e))"
proof -
  have finish: "on_track (snd (finish_flight C params Su st conn creq prepared leaf rng (e\<lparr>te_peer_recv_limit := l\<rparr>)))"
    if "\<And>ad. in_data_phase (st ad)" for Su st creq prepared leaf l
    by (rule finish_flight_on_track) (simp_all add: assms(1) that)
  obtain lim where lim: "rbind (map_err (HE_Connection \<circ> CE_Flight) (peek_ee_record_size_limit (te_reassembler e))) (\<lambda>limit.
      case limit of None \<Rightarrow> Inr (te_peer_recv_limit e) | Some l \<Rightarrow> ok_or (HE_InvalidRecordSizeLimit l) (rsl_try_from l)) = lim"
    by blast
  then have ext: "\<not> internal lim" by (auto simp: internal_def result_simps split: option.splits)
  show ?thesis
  proof (cases lim)
    case (Inl err)
    then show ?thesis using ext unfolding finalize_and_finish_def lim by (simp add: on_track_def internal_def)
  next
    case (Inr l)
    show ?thesis
    proof (cases "check_flight C params (te_reassembler e)")
      case (Inl err)
      then show ?thesis using Inr check_flight_external [OF Inl] unfolding finalize_and_finish_def lim
        by (simp add: on_track_def internal_def)
    next
      case c: (Inr p)
      obtain creq prepared leaf where p: "p = (creq, prepared, leaf)" by (metis surj_pair)
      show ?thesis using assms(2)
      proof
        assume "te_state e = ES_WaitFlightAes conn"
        then show ?thesis using Inr c p finish [of ES_AppAes] unfolding finalize_and_finish_def lim by simp
      next
        assume "te_state e = ES_WaitFlightChaCha conn"
        then show ?thesis using Inr c p finish [of ES_AppChaCha] unfolding finalize_and_finish_def lim by simp
      qed
    qed
  qed
qed

lemma handle_flight_on_track:
  assumes e: "\<not> te_closed e" "\<not> te_pending_handshake_done e"
    "te_state e = ES_WaitFlightAes conn \<or> te_state e = ES_WaitFlightChaCha conn"
  shows "on_track (snd (handle_flight_record C params start end_pos rng e))"
proof -
  let ?feed = "case te_state e of
      ES_WaitFlightAes conn \<Rightarrow> feed_flight C (aes_suite (cc_aead C)) ES_WaitFlightAes conn start end_pos e
    | ES_WaitFlightChaCha conn \<Rightarrow> feed_flight C (chacha_suite (cc_aead C)) ES_WaitFlightChaCha conn start end_pos e
    | _ \<Rightarrow> (e, Inl (HE_Internal FlightWrongState))"
  obtain e1 r where f: "?feed = (e1, r)" by (metis surj_pair)
  have e1: "\<not> internal r \<and> \<not> te_closed e1 \<and> \<not> te_pending_handshake_done e1 \<and>
      (\<exists>conn. te_state e1 = ES_WaitFlightAes conn \<or> te_state e1 = ES_WaitFlightChaCha conn)"
    using f e by (auto simp: feed_flight_def Let_def split: prod.splits sum.splits)
  from e1 obtain conn1 where c1: "te_state e1 = ES_WaitFlightAes conn1 \<or> te_state e1 = ES_WaitFlightChaCha conn1"
    by (elim conjE exE)
  have fin: "on_track (snd (finalize_and_finish C params rng e1))"
    by (rule finalize_and_finish_on_track [OF _ c1]) (use e1 in simp)
  have pend: "on_track (e1, Inr () :: HandshakeError + unit)" using e1 by (auto simp: on_track_def)
  have err: "on_track (e1, Inl x :: HandshakeError + unit)" if "r = Inl x" for x
    using e1 that by (auto simp: on_track_def internal_def)
  show ?thesis using fin pend err unfolding handle_flight_record_def f
    by (auto simp: Let_def on_track_def split: sum.split FlightStep.split)
qed

lemma handle_hello_on_track:
  assumes "\<not> te_closed e" "\<not> te_pending_handshake_done e" "te_state e = ES_WaitServerHello conn"
  shows "on_track (handle_server_hello C start end_pos ty e)"
  using assms by (auto simp: handle_server_hello_def on_track_def split: sum.split NegotiatedSuite.split)

lemma dispatch_on_track:
  assumes "\<not> te_closed e" "\<not> te_pending_handshake_done e" "te_state e \<noteq> ES_Closed" "\<not> in_data_phase (te_state e)"
  shows "on_track (snd (dispatch_handshake_record C params start end_pos ty rng e))"
proof -
  let ?handle = "case te_state e of
      ES_WaitServerHello _ \<Rightarrow> (rng, handle_server_hello C start end_pos ty e)
    | ES_WaitFlightAes _ \<Rightarrow> handle_flight_record C params start end_pos rng e
    | ES_WaitFlightChaCha _ \<Rightarrow> handle_flight_record C params start end_pos rng e
    | ES_AppAes _ \<Rightarrow> (rng, e, Inl (HE_Internal HandshakeStepInDataPhase))
    | ES_AppChaCha _ \<Rightarrow> (rng, e, Inl (HE_Internal HandshakeStepInDataPhase))
    | ES_Closed \<Rightarrow> (rng, e, Inl (HE_Internal HandshakeStepWrongState))"
  obtain rng1 e1 r where h: "?handle = (rng1, e1, r)" by (metis surj_pair)
  have "on_track (snd (handle_flight_record C params start end_pos rng e))"
    if "\<exists>conn. te_state e = ES_WaitFlightAes conn \<or> te_state e = ES_WaitFlightChaCha conn"
    using that by (elim exE) (rule handle_flight_on_track [OF assms(1,2)])
  moreover have "on_track (handle_server_hello C start end_pos ty e)" if "\<exists>conn. te_state e = ES_WaitServerHello conn"
    using that by (elim exE) (rule handle_hello_on_track [OF assms(1,2)])
  ultimately have "on_track (snd ?handle)" using assms(3,4) by (cases "te_state e") simp_all
  then have "on_track (e1, r)" unfolding h by simp
  then show ?thesis unfolding dispatch_handshake_record_def h
    by (cases r) (simp_all add: set_next_record_def on_track_def internal_def)
qed

text \<open>Framing and dispatching in the handshake.\<close>

lemma frame_handshake:
  assumes "hs_ok R S e" "frame_one_record e = (e1, fr)"
  shows "hs_ok R S e1 \<and> te_state e1 = te_state e \<and> \<not> internal fr"
  using assms frame_ok [of R S e]
  by (auto simp: hs_ok_def frame_one_record_def compact_recv_def Let_def plaintext_parked_def split: if_splits)

lemma dispatch_handshake:
  assumes C: "config_ok C" "client_auth_policy (pa_client_auth params)"
    and e: "hs_ok R S e" "\<not> is_send_pending e" "\<not> te_pending_handshake_done e"
    and f: "frame_one_record e = (e, Inr (Framed_Record start end_pos ty len))"
    and d: "dispatch_handshake_record C params start end_pos ty rng e = (rng', e2, res)"
  shows "engine_ok R S e2 \<and> \<not> internal res \<and> (is_ok res \<longrightarrow> hs_ok R S e2 \<and> buffered e2 < buffered e)"
proof -
  have ok: "engine_ok R S e" "idle e" "te_state e \<noteq> ES_Closed" "\<not> in_data_phase (te_state e)" "\<not> te_closed e"
    using e by (auto simp: hs_ok_def idle_def)
  have e2: "engine_ok R S e2" using dispatch_handshake_keeps [OF C ok(1,2) _ f, of rng] e(3) d by simp
  have tr: "on_track (e2, res)" using dispatch_on_track [OF ok(5) e(3) ok(3,4), of C params start end_pos ty rng] d by simp
  have "hs_ok R S e2 \<and> buffered e2 < buffered e" if "res = Inr ()"
  proof -
    have "te_recv e2 = (te_recv e)\<lparr>rs_next_record := end_pos\<rparr>"
      using dispatch_handshake_record_recv [of C params start end_pos ty rng e rng' e2] d that by simp
    then show ?thesis using tr that e(1) e2 frame_one_record_Record [OF f]
      by (auto simp: hs_ok_def on_track_def plaintext_parked_def buffered_def)
  qed
  then show ?thesis using e2 tr by (auto simp: on_track_def is_ok_iff)
qed

text \<open>What a step of the handshake may return: as in the data phase, and neither \<^verbatim>\<open>AppData\<close> nor \<^verbatim>\<open>Closed\<close>.\<close>

definition handshake_result ::
  "('k, 'v) ClientConfig \<Rightarrow> ('v, 'e, 'r) ClientParams \<Rightarrow> 'k WaitServerHello \<Rightarrow> nat \<Rightarrow> nat \<Rightarrow> 'k TlsEngine \<Rightarrow> 'k TlsEngine \<Rightarrow>
   HandshakeError + EngineEvent \<Rightarrow> bool" where
  "handshake_result C params w R S e e' r \<longleftrightarrow>
    engine_ok R S e' \<and> state_sound C params w (te_state e') \<and> \<not> internal r \<and> r \<noteq> Inr Ev_AppData \<and> r \<noteq> Inr Ev_Closed \<and>
    (r = Inr Ev_HandshakeDone \<longrightarrow> app_ok R S e' \<and> in_data_phase (te_state e') \<and> \<not> is_send_pending e') \<and>
    (r = Inr Ev_Recv \<longrightarrow> hs_ok R S e') \<and>
    (\<forall>n. r = Inr (Ev_Send n) \<longrightarrow> hs_ok R S e' \<and> is_send_pending e' \<and> (is_send_pending e \<and> e' = e \<or> buffered e' < buffered e))"

lemma handshake_result_later:
  "handshake_result C params w R S e2 e' r \<Longrightarrow> buffered e2 < buffered e \<Longrightarrow> handshake_result C params w R S e e' r"
  unfolding handshake_result_def by fastforce

lemma step_handshake_result:
  fixes rng :: 'r
  assumes C: "config_ok C" "client_auth_policy (pa_client_auth params)"
  shows "hs_ok R S e \<Longrightarrow> state_sound C params w (te_state e) \<Longrightarrow> step_handshake C params rng e = (rng', e', r) \<Longrightarrow>
    handshake_result C params w R S e e' r"
proof (induction C \<equiv> C params \<equiv> params rng e rule: step_handshake.induct)
  case (1 rng e)
  note unf = step_handshake.simps [of C params rng e]
  have ok: "engine_ok R S e" "\<not> plaintext_parked (te_recv e)" "\<not> te_closed e" using "1.prems"(1) by (auto simp: hs_ok_def)
  consider "is_send_pending e" | "\<not> is_send_pending e" "te_pending_handshake_done e" | "\<not> is_send_pending e" "\<not> te_pending_handshake_done e"
    by blast
  then show ?case
  proof cases
    case 1
    then show ?thesis using "1.prems" ok by (auto simp: unf handshake_result_def)
  next
    case 2
    then have "\<not> te_handshake_finished_pending_ack e" using ok(1) by (auto simp: engine_ok_def)
    then show ?thesis using "1.prems" ok 2 handshake_done_ok [OF ok(1)]
      by (auto simp: unf app_ok_def hs_ok_def is_send_pending_def handshake_result_def)
  next
    case 3
    obtain e1 fr where f: "frame_one_record e = (e1, fr)" by (metis surj_pair)
    show ?thesis
    proof (cases "\<exists>start end_pos ty len. fr = Inr (Framed_Record start end_pos ty len)")
      case False
      then show ?thesis using "1.prems" 3 f ok frame_handshake [OF "1.prems"(1) f]
        by (auto simp: unf internal_def handshake_result_def hs_ok_def split: sum.splits Framed.splits)
    next
      case True
      then obtain start end_pos ty len where fr: "fr = Inr (Framed_Record start end_pos ty len)" by blast
      then have e1: "e1 = e" using frame_one_record_Record [of e e1] f by simp
      obtain rng2 e2 res where d: "dispatch_handshake_record C params start end_pos ty rng e1 = (rng2, e2, res)" by (metis surj_pair)
      note e2 = dispatch_handshake [OF C "1.prems"(1) 3 f [unfolded e1 fr] d [unfolded e1]]
      have sound: "state_sound C params w (te_state e2)" using dispatch_handshake_sound [OF "1.prems"(2), of start end_pos ty rng] d e1 by simp
      show ?thesis
      proof (cases res)
        case (Inl err)
        then show ?thesis using "1.prems"(3) 3 f fr d ok e2 sound by (auto simp: unf internal_def handshake_result_def)
      next
        case (Inr u)
        then have "hs_ok R S e2" "buffered e2 < buffered e" using e2 by simp_all
        moreover have "step_handshake C params rng2 e2 = (rng', e', r)" using "1.prems"(3) 3 f fr d Inr ok by (simp add: unf)
        ultimately show ?thesis
          using "1.hyps" [OF 3(1) _ ok(2,3) f [symmetric] fr refl d [symmetric] refl Inr _ sound] 3(2) handshake_result_later by blast
      qed
    qed
  qed
qed

section \<open>The handshake loop\<close>

lemma hs_ok_sent: "hs_ok R S e \<Longrightarrow> hs_ok R S (sent e)"
  by (simp add: hs_ok_def sent_ok)

lemma hs_ok_received: "hs_ok R S e \<Longrightarrow> 0 < recv_buffer_len e \<Longrightarrow> hs_ok R S (received bs e)"
  by (simp add: hs_ok_def received_ok) (simp add: received_def advance_def fill_recv_buffer_def Let_def plaintext_parked_def)

lemma step_handshake_room:
  assumes "config_ok C" "client_auth_policy (pa_client_auth params)" "engine_ok R S e" "5 \<le> R"
    and "step_handshake C params rng e = (rng', e', Inr Ev_Recv)"
  shows "0 < recv_buffer_len e'"
proof -
  obtain e1 where e1: "engine_ok R S e1" "frame_one_record e1 = (e', Inr Framed_Need)"
    using step_handshake_recv [OF assms(1-3,5)] by blast
  then have "length (te_recv_record e') = R" using frame_ok [OF e1(1)] by (simp add: engine_ok_def)
  then show ?thesis using frame_need [OF e1 assms(4)] by (simp add: recv_buffer_len_def)
qed

lemma round_ok_pair:
  "round_ok P Q (s, r) \<Longrightarrow> (\<And>s. P s \<Longrightarrow> P' (x, s)) \<Longrightarrow> (\<And>s r. Q s r \<Longrightarrow> Q' (x, s) r) \<Longrightarrow> round_ok P' Q' ((x, s), r)"
  by (cases r rule: sum.exhaust; simp) (metis (no_types) option.exhaust round_ok.simps(2,3))

text \<open>The stream a finished handshake leaves.\<close>

definition opened ::
  "('k, 'v) ClientConfig \<Rightarrow> ('v, 'e, 'r) ClientParams \<Rightarrow> 'k WaitServerHello \<Rightarrow> nat \<Rightarrow> nat \<Rightarrow> 'k TlsEngine \<Rightarrow> bool" where
  "opened C params w R S e \<longleftrightarrow> app_ok R S e \<and> in_data_phase (te_state e) \<and> \<not> is_send_pending e \<and>
     state_sound C params w (te_state e)"

lemma handshake_round_ok:
  fixes rng :: 'r and s :: "('k, 't) TlsStream"
  assumes T: "finite_input T m" and C: "config_ok C" "client_auth_policy (pa_client_auth params)" "5 \<le> R"
    and s: "hs_ok R S (st_engine s)" "state_sound C params w (te_state (st_engine s))"
  shows "round_ok (\<lambda>p. (hs_ok R S (st_engine (snd p)) \<and> state_sound C params w (te_state (st_engine (snd p)))) \<and>
      (effort_left m (snd p), effort_left m s) \<in> less_effort)
    (\<lambda>p r. external r \<and> (r = Inr () \<longrightarrow> opened C params w R S (st_engine (snd p)))) (handshake_round C T params (rng, s))"
proof -
  obtain rng' e r where st: "step_handshake C params rng (st_engine s) = (rng', e, r)" by (metis surj_pair)
  note res = step_handshake_result [OF C(1,2) s st, unfolded handshake_result_def]
  let ?s = "s\<lparr>st_engine := e\<rparr>"
  let ?I = "\<lambda>e. hs_ok R S e \<and> state_sound C params w (te_state e)"
  have ok: "engine_ok R S (st_engine ?s)" using res by simp
  show ?thesis
  proof (cases r)
    case (Inl err)
    then show ?thesis using st res by (simp add: handshake_round_def internal_def external_def)
  next
    case (Inr ev)
    show ?thesis
    proof (cases ev)
      case (Ev_Send n)
      have e: "hs_ok R S e" "is_send_pending (st_engine ?s)"
        "is_send_pending (st_engine s) \<and> e = st_engine s \<or> buffered e < buffered (st_engine s)" using res Inr Ev_Send by auto
      then have "?I (sent (st_engine ?s))" using hs_ok_sent [OF e(1)] res by simp
      then have "round_ok (\<lambda>s'. ?I (st_engine s') \<and> (effort_left m s', effort_left m s) \<in> less_effort)
          (\<lambda>s' r. external r \<and> r \<noteq> Inr ()) (and_continue (drive_one_send_step T ?s) :: _ \<times> (_ + unit option))"
        by (rule send_round [OF T ok e(2), rotated -2]) (use e(3) in simp_all)
      then show ?thesis using st Inr Ev_Send unfolding handshake_round_def
        by (cases "and_continue (drive_one_send_step T ?s) :: _ \<times> (_ + unit option)") (auto elim: round_ok_pair)
    next
      case Ev_Recv
      have room: "0 < recv_buffer_len (st_engine ?s)"
        using step_handshake_room [OF C(1,2) _ C(3)] s st Inr Ev_Recv by (auto simp: hs_ok_def)
      have "?I (received bs (st_engine ?s))" for bs using hs_ok_received [of R S e bs] room res Inr Ev_Recv by simp
      then have "round_ok (\<lambda>s'. ?I (st_engine s') \<and> (effort_left m s', effort_left m s) \<in> less_effort)
          (\<lambda>s' r. external r \<and> r \<noteq> Inr ()) (and_continue (drive_one_recv_step T ?s) :: _ \<times> (_ + unit option))"
        by (rule recv_round [OF T ok room, rotated -2]) (simp_all add: external_def)
      then show ?thesis using st Inr Ev_Recv unfolding handshake_round_def
        by (cases "and_continue (drive_one_recv_step T ?s) :: _ \<times> (_ + unit option)") (auto elim: round_ok_pair)
    next
      case Ev_HandshakeDone
      then show ?thesis using st Inr res by (simp add: handshake_round_def opened_def)
    qed (use st Inr res in \<open>auto simp: handshake_round_def\<close>)
  qed
qed

text \<open>The rounds keep what the state stands for over any transport.\<close>

lemma handshake_round_sound:
  fixes rng :: 'r and s :: "('k, 't) TlsStream"
  assumes C: "config_ok C" "client_auth_policy (pa_client_auth params)" "5 \<le> R"
    and s: "hs_ok R S (st_engine s)" "state_sound C params w (te_state (st_engine s))"
  shows "round_ok (\<lambda>p. hs_ok R S (st_engine (snd p)) \<and> state_sound C params w (te_state (st_engine (snd p))))
    (\<lambda>p r. r = Inr () \<longrightarrow> opened C params w R S (st_engine (snd p))) (handshake_round C T params (rng, s))"
proof -
  obtain rng' e r where st: "step_handshake C params rng (st_engine s) = (rng', e, r)" by (metis surj_pair)
  note res = step_handshake_result [OF C(1,2) s st, unfolded handshake_result_def]
  let ?s = "s\<lparr>st_engine := e\<rparr>"
  have ok: "engine_ok R S (st_engine ?s)" using res by simp
  show ?thesis
  proof (cases r)
    case (Inr ev)
    show ?thesis
    proof (cases ev)
      case (Ev_Send n)
      have e: "hs_ok R S e" "is_send_pending (st_engine ?s)" using res Inr Ev_Send by auto
      then show ?thesis using st Inr Ev_Send hs_ok_sent [OF e(1)] res send_step [OF ok e(2), of T]
        by (auto simp: handshake_round_def and_continue_def split: prod.split sum.split)
    next
      case Ev_Recv
      have "0 < recv_buffer_len e"
        using step_handshake_room [OF C(1,2) _ C(3)] s st Inr Ev_Recv by (auto simp: hs_ok_def)
      then have I: "hs_ok R S (received bs e) \<and> state_sound C params w (te_state (received bs e))" for bs
        using hs_ok_received [of R S e bs] res Inr Ev_Recv by simp
      have "\<exists>bs. st_engine s' = received bs e" if "drive_one_recv_step T ?s = (s', Inr u)" for s' u
        using that by (auto simp: drive_one_recv_step_def feed_received_def on_engine_def received_def Let_def
            split: if_splits prod.splits sum.splits)
      then show ?thesis using st Inr Ev_Recv I
        by (cases "drive_one_recv_step T ?s"; cases "snd (drive_one_recv_step T ?s)")
          (fastforce simp: handshake_round_def and_continue_def)+
    qed (use st Inr res in \<open>auto simp: handshake_round_def opened_def\<close>)
  qed (use st in \<open>simp add: handshake_round_def\<close>)
qed

lemma drive_handshake_returns:
  fixes s :: "('k, 't) TlsStream" and rng :: 'r
  assumes "finite_input T m" "config_ok C" "client_auth_policy (pa_client_auth params)" "5 \<le> R"
    and "hs_ok R S (st_engine s)" "state_sound C params w (te_state (st_engine s))"
  shows "\<exists>p r. drive_handshake C T params rng s = Some (p, r) \<and> external r \<and>
    (r = Inr () \<longrightarrow> opened C params w R S (st_engine (snd p)))"
  unfolding drive_handshake_def
proof (rule loop_returns [where I = "\<lambda>p. hs_ok R S (st_engine (snd p)) \<and> state_sound C params w (te_state (st_engine (snd p)))"
      and w = "\<lambda>p. effort_left m (snd p)"])
  fix p :: "'r \<times> ('k, 't) TlsStream"
  assume "hs_ok R S (st_engine (snd p)) \<and> state_sound C params w (te_state (st_engine (snd p)))"
  then show "round_ok (\<lambda>p'. (hs_ok R S (st_engine (snd p')) \<and> state_sound C params w (te_state (st_engine (snd p')))) \<and>
        (effort_left m (snd p'), effort_left m (snd p)) \<in> less_effort)
      (\<lambda>p r. external r \<and> (r = Inr () \<longrightarrow> opened C params w R S (st_engine (snd p)))) (handshake_round C T params p)"
    using handshake_round_ok [OF assms(1-4), of S "snd p" w "fst p"] by simp
qed (simp add: assms(5,6))

lemma drive_handshake_sound:
  fixes s :: "('k, 't) TlsStream" and rng :: 'r and T :: "('t, 'e) Transport"
  assumes C: "config_ok C" "client_auth_policy (pa_client_auth params)" "5 \<le> R"
    and s: "hs_ok R S (st_engine s)" "state_sound C params w (te_state (st_engine s))"
    and run: "drive_handshake C T params rng s = Some (p, Inr u)"
  shows "opened C params w R S (st_engine (snd p))"
proof -
  let ?I = "\<lambda>p :: 'r \<times> ('k, 't) TlsStream. hs_ok R S (st_engine (snd p)) \<and> state_sound C params w (te_state (st_engine (snd p)))"
  let ?Q = "\<lambda>(p :: 'r \<times> ('k, 't) TlsStream) (r :: 'e ConnectError + unit). r = Inr () \<longrightarrow> opened C params w R S (st_engine (snd p))"
  have "?Q p (Inr u)"
  proof (rule run_loop_inv [where I = ?I and Q = ?Q, OF _ run [unfolded drive_handshake_def]])
    fix q p
    assume "?I q" "Some (handshake_round C T params q) = Some p"
    then show "round_ok ?I ?Q p"
      using handshake_round_sound [OF C, of S "snd q" w T "fst q"] by simp
  qed (use s in simp)
  then show ?thesis by simp
qed

lemma validated:
  assumes "validate_construction F params RECV SEND = Inr u"
  shows "95 \<le> RECV" "58 \<le> SEND" "length (pa_hostname params) \<le> 255"
proof -
  have "MIN_SEND_STANDARD = 58" by code_simp
  then show "95 \<le> RECV" "58 \<le> SEND" "length (pa_hostname params) \<le> 255"
    using assms min_recv_eq [of F]
    by (auto simp: validate_construction_def FACADE_HOSTNAME_MAX_def Let_def split: if_splits)
qed

lemma new_engine_ok:
  "hs_ok (length recv_buf) (length send_buf)
     (TlsEngine_new recv_buf send_buf reasm (ES_WaitServerHello w) (default_our_recv_limit (length recv_buf)) rsl_DEFAULT)"
proof -
  have "rsl_ok rsl_DEFAULT" by code_simp
  then show ?thesis
    using TlsEngine_new_ok [OF default_our_recv_limit_ok, of rsl_DEFAULT recv_buf send_buf reasm "ES_WaitServerHello w" "length recv_buf"]
    by (simp add: hs_ok_def TlsEngine_new_def plaintext_parked_def RecvState_new_def)
qed

end
