(* ===== verification/Stream_Delivery.thy ===== *)
theory Stream_Delivery
  imports Stream_Safety
begin

text \<open>
  What \<^verbatim>\<open>write_all\<close> puts on the wire: the data cut into chunks, each sealed under the next sequence number,
  one record after the other.
\<close>

text \<open>The reference: the chunks sealed in order for a buffer of \<^verbatim>\<open>cap\<close> bytes.\<close>

fun seal_records :: "AeadCipher \<Rightarrow> RecordKeys \<Rightarrow> 64 word \<Rightarrow> nat \<Rightarrow> bytes list \<Rightarrow> EncryptError + bytes" where
  "seal_records c keys seq cap [] = Inr []"
| "seal_records c keys seq cap (x # xs) =
     rbind (encrypt_record c keys x CT_APPLICATION_DATA seq (replicate cap 0)) (\<lambda>r.
     rbind (seal_records c keys (seq + 1) cap xs) (\<lambda>rs. Inr (r @ rs)))"

lemma encrypt_record_room: "length out = length out' \<Longrightarrow> encrypt_record c keys x ct seq out = encrypt_record c keys x ct seq out'"
  by (simp add: encrypt_record_def encrypt_record_with_def Let_def)

lemma seal_records_snoc:
  "seal_records c keys seq cap xs = Inr w \<Longrightarrow>
   encrypt_record c keys x CT_APPLICATION_DATA (seq + of_nat (length xs)) (replicate cap 0) = Inr r \<Longrightarrow>
     seal_records c keys seq cap (xs @ [x]) = Inr (w @ r)"
  by (induction xs arbitrary: seq w) (auto simp: result_simps add.assoc)

text \<open>One chunk: it is sealed, queued and handed to the transport.\<close>

lemma write_app_chunk:
  assumes S: "suite_of C st Su" and aead: "aead_total (ts_aead Su)"
    and e: "engine_ok R S e" "te_state e = st conn" "\<not> te_closed e" "\<not> is_send_pending e" "23 \<le> S" "buf \<noteq> []"
    and n: "n = min (length buf) (send_chunk_limit e)"
  shows "\<exists>r. encrypt_record (ts_aead Su) (ad_c_ap_keys conn) (take n buf) CT_APPLICATION_DATA (ad_seq_out conn) (replicate S 0) = Inr r \<and>
    length r = n + 22 \<and> length r \<le> S \<and> 0 < n \<and>
    write_app C buf e = ((queue_send r e)\<lparr>te_state := st (conn\<lparr>ad_seq_out := ad_seq_out conn + 1\<rparr>)\<rparr>, Inr n)"
proof -
  have pos: "0 < n" using chunk_limit_pos [OF e(1,5)] e(6) n by simp
  have len: "length (te_send_record e) = S" using e(1) by (simp add: engine_ok_def)
  have "send_chunk_limit e \<le> 16384" "send_chunk_limit e \<le> S - 22"
    by (simp_all add: send_chunk_limit_def PROTO_MAX_INNER_PLAINTEXT_def RECORD_OVERHEAD_def TLS_HEADER_def AEAD_TAG_def len
        min_le_iff_disj)
  then have le: "n \<le> 2 ^ 14" "n + 22 \<le> S" using n e(5) by auto
  then obtain r where r: "encrypt_record (ts_aead Su) (ad_c_ap_keys conn) (take n buf) CT_APPLICATION_DATA (ad_seq_out conn)
      (te_send_record e) = Inr r" "length r = n + 22"
    using encrypt_record_total [OF aead, of "take n buf" "te_send_record e"] len n by force
  have data: "in_data_phase (te_state e)" using S e(2) by (auto simp: suite_of_def)
  have "write_app C buf e = ((queue_send r e)\<lparr>te_state := st (conn\<lparr>ad_seq_out := ad_seq_out conn + 1\<rparr>)\<rparr>, Inr n)"
    using S e r(1) pos data
    by (auto simp: n [symmetric] write_app_def suite_of_def encrypt_app_def ad_encrypt_record_def Let_def)
  then show ?thesis using r pos le(2) encrypt_record_room [of "te_send_record e" "replicate S 0"] len by auto
qed

text \<open>The transport's record of what was written.\<close>

definition logs_writes :: "('t, 'e) Transport \<Rightarrow> ('t \<Rightarrow> bytes) \<Rightarrow> bool" where
  "logs_writes T lg \<longleftrightarrow> (\<forall>bs t t'. tr_write_all T bs t = (t', Inr ()) \<longrightarrow> lg t' = lg t @ bs)"

text \<open>Where \<^verbatim>\<open>write_all\<close> is: the chunks of \<^verbatim>\<open>pre\<close> have been written, \<^verbatim>\<open>rest\<close> has not.\<close>

definition written ::
  "('k, 'v) ClientConfig \<Rightarrow> TlsSuite \<Rightarrow> (AppData \<Rightarrow> 'k EngineState) \<Rightarrow> AppData \<Rightarrow> ('t \<Rightarrow> bytes) \<Rightarrow> nat \<Rightarrow> nat \<Rightarrow> nat \<Rightarrow> bytes \<Rightarrow> 't \<Rightarrow>
   bytes \<times> ('k, 't) TlsStream \<Rightarrow> bool" where
  "written C Su st conn lg R S lim buf t0 = (\<lambda>(rest, s). engine_ok R S (st_engine s) \<and> \<not> te_closed (st_engine s) \<and>
     \<not> is_send_pending (st_engine s) \<and> send_chunk_limit (st_engine s) = lim \<and>
     (\<exists>pre wire. pre @ chunks lim rest = chunks lim buf \<and>
        seal_records (ts_aead Su) (ad_c_ap_keys conn) (ad_seq_out conn) S pre = Inr wire \<and> lg (st_transport s) = lg t0 @ wire \<and>
        te_state (st_engine s) = st (conn\<lparr>ad_seq_out := ad_seq_out conn + of_nat (length pre)\<rparr>)))"

lemma chunk_limit_queue [simp]:
  "send_chunk_limit (sent e) = send_chunk_limit e" "send_chunk_limit (e\<lparr>te_state := x\<rparr>) = send_chunk_limit e"
  "length r \<le> length (te_send_record e) \<Longrightarrow> send_chunk_limit (queue_send r e) = send_chunk_limit e"
  by (simp_all add: send_chunk_limit_def queue_send_def)

lemma queued_bytes:
  assumes "engine_ok R S e" "length r \<le> S" "r \<noteq> []"
  shows "send_bytes ((queue_send r e)\<lparr>te_state := x\<rparr>) = r" "is_send_pending ((queue_send r e)\<lparr>te_state := x\<rparr>)"
    "te_closed (queue_send r e) = te_closed e"
  using assms by (auto simp: send_bytes_def queue_send_def is_send_pending_def put_at_def engine_ok_def)

text \<open>A round seals the next chunk as one record and hands exactly that record to the transport.\<close>

lemma write_round_sends:
  assumes S: "suite_of C st Su" "aead_total (ts_aead Su)" "config_ok C" "23 \<le> S"
    and e: "engine_ok R S (st_engine s)" "\<not> te_closed (st_engine s)" "\<not> is_send_pending (st_engine s)"
    and state: "te_state (st_engine s) = st conn" and rest: "rest \<noteq> []"
    and n: "n = min (length rest) (send_chunk_limit (st_engine s))"
  obtains r e2 where "encrypt_record (ts_aead Su) (ad_c_ap_keys conn) (take n rest) CT_APPLICATION_DATA (ad_seq_out conn)
      (replicate S 0) = Inr r"
    and "engine_ok R S e2" "te_state e2 = st (conn\<lparr>ad_seq_out := ad_seq_out conn + 1\<rparr>)" "\<not> te_closed e2"
      "\<not> is_send_pending e2" "send_chunk_limit e2 = send_chunk_limit (st_engine s)" "0 < n"
    and "\<And>t' res. tr_write_all T r (st_transport s) = (t', res) \<Longrightarrow>
      case res of Inl io \<Rightarrow> \<exists>s'. write_round C T (rest, s) = Some ((drop n rest, s'), Inl (Co_Io io)) \<and> te_closed (st_engine s')
      | Inr u \<Rightarrow> write_round C T (rest, s) = Some ((drop n rest, \<lparr>st_engine = e2, st_transport = t'\<rparr>), Inr None)"
proof -
  define e1 where "e1 r = (queue_send r (st_engine s))\<lparr>te_state := st (conn\<lparr>ad_seq_out := ad_seq_out conn + 1\<rparr>)\<rparr>" for r
  from write_app_chunk [OF S(1,2) e(1) state e(2,3) S(4) rest n]
  obtain r where r: "encrypt_record (ts_aead Su) (ad_c_ap_keys conn) (take n rest) CT_APPLICATION_DATA (ad_seq_out conn)
      (replicate S 0) = Inr r" "length r = n + 22" "0 < n" and fit: "length r \<le> S"
    and w: "write_app C rest (st_engine s) = (e1 r, Inr n)" unfolding e1_def by blast
  have ok1: "engine_ok R S (e1 r)" using write_app_ok [OF e(1) S(3), of rest] w by simp
  have "r \<noteq> []" using r(2) by auto
  note q = queued_bytes(1,2) [OF e(1) fit this, of "st (conn\<lparr>ad_seq_out := ad_seq_out conn + 1\<rparr>)", folded e1_def]
  let ?s1 = "s\<lparr>st_engine := e1 r\<rparr>"
  have round: "write_round C T (rest, s) = (case drain_pending_send C T ?s1 of None \<Rightarrow> None
      | Some (s', Inl err) \<Rightarrow> Some ((drop n rest, s'), Inl err) | Some (s', Inr u) \<Rightarrow> Some ((drop n rest, s'), Inr None))"
    using rest e(3) w r(3)
    by (auto simp: write_round_def drained_def drain_eq [OF e(1)] split: option.split sum.split)
  show thesis
  proof (rule that [of r "sent (e1 r)"])
    show "te_state (sent (e1 r)) = st (conn\<lparr>ad_seq_out := ad_seq_out conn + 1\<rparr>)" by (simp add: e1_def)
    show "\<not> te_closed (sent (e1 r))" "send_chunk_limit (sent (e1 r)) = send_chunk_limit (st_engine s)"
      using e fit by (simp_all add: e1_def queue_send_def engine_ok_def) (simp add: send_chunk_limit_def)
    show "case res of Inl io \<Rightarrow> \<exists>s'. write_round C T (rest, s) = Some ((drop n rest, s'), Inl (Co_Io io)) \<and> te_closed (st_engine s')
      | Inr u \<Rightarrow> write_round C T (rest, s) = Some ((drop n rest, \<lparr>st_engine = sent (e1 r), st_transport = t'\<rparr>), Inr None)"
      if "tr_write_all T r (st_transport s) = (t', res)" for t' res
      using that round drain_eq [of R S ?s1 C T] ok1 q by (auto simp: mark_terminal_def split: sum.split)
  qed (use r sent_ok [OF ok1] in simp_all)
qed

lemma write_round_delivers:
  assumes S: "suite_of C st Su" "aead_total (ts_aead Su)" "config_ok C" "23 \<le> S" and T: "logs_writes T lg"
    and I: "written C Su st conn lg R S lim buf t0 p"
  shows "\<exists>p' r. write_round C T p = Some (p', r) \<and>
    round_ok (\<lambda>p'. written C Su st conn lg R S lim buf t0 p' \<and> (length (fst p'), length (fst p)) \<in> less_than)
      (\<lambda>p' r. case r of Inl err \<Rightarrow> (\<exists>io bs t t'. err = Co_Io io \<and> tr_write_all T bs t = (t', Inl io)) \<and> te_closed (st_engine (snd p'))
        | Inr u \<Rightarrow> written C Su st conn lg R S lim buf t0 p' \<and> fst p' = []) (p', r)"
proof -
  obtain rest s where p: "p = (rest, s)" by (metis surj_pair)
  let ?e = "st_engine s"
  show ?thesis
  proof (cases "rest = []")
    case True
    then show ?thesis using p I by (simp add: write_round_def)
  next
    case False
    obtain pre wire where e: "engine_ok R S ?e" "\<not> te_closed ?e" "\<not> is_send_pending ?e" "send_chunk_limit ?e = lim"
      and pre: "pre @ chunks lim rest = chunks lim buf"
      and wire: "seal_records (ts_aead Su) (ad_c_ap_keys conn) (ad_seq_out conn) S pre = Inr wire" "lg (st_transport s) = lg t0 @ wire"
      and state: "te_state ?e = st (conn\<lparr>ad_seq_out := ad_seq_out conn + of_nat (length pre)\<rparr>)"
      using I unfolding written_def p by auto
    define n where "n = min (length rest) lim"
    define conn1 where "conn1 = conn\<lparr>ad_seq_out := ad_seq_out conn + of_nat (length pre)\<rparr>"
    obtain r e2 where r: "encrypt_record (ts_aead Su) (ad_c_ap_keys conn1) (take n rest) CT_APPLICATION_DATA (ad_seq_out conn1)
        (replicate S 0) = Inr r"
      and e2: "engine_ok R S e2" "te_state e2 = st (conn1\<lparr>ad_seq_out := ad_seq_out conn1 + 1\<rparr>)" "\<not> te_closed e2"
        "\<not> is_send_pending e2" "send_chunk_limit e2 = send_chunk_limit ?e" "0 < n"
      and round: "\<And>t' res. tr_write_all T r (st_transport s) = (t', res) \<Longrightarrow>
        case res of Inl io \<Rightarrow> \<exists>s'. write_round C T (rest, s) = Some ((drop n rest, s'), Inl (Co_Io io)) \<and> te_closed (st_engine s')
        | Inr u \<Rightarrow> write_round C T (rest, s) = Some ((drop n rest, \<lparr>st_engine = e2, st_transport = t'\<rparr>), Inr None)"
      by (rule write_round_sends [OF S e(1-3) state [folded conn1_def] False _, of n T])
        (simp_all add: n_def e(4))
    have conn1: "ad_c_ap_keys conn1 = ad_c_ap_keys conn" "ad_seq_out conn1 = ad_seq_out conn + of_nat (length pre)"
        "conn1\<lparr>ad_seq_out := x\<rparr> = conn\<lparr>ad_seq_out := x\<rparr>" for x by (simp_all add: conn1_def)
    obtain t' res where wr: "tr_write_all T r (st_transport s) = (t', res)" by (metis surj_pair)
    show ?thesis
    proof (cases res)
      case (Inl io)
      then obtain s' where "write_round C T (rest, s) = Some ((drop n rest, s'), Inl (Co_Io io))" "te_closed (st_engine s')"
        using round [OF wr] by auto
      then show ?thesis using p wr Inl by auto
    next
      case (Inr u)
      have "chunks lim rest = take n rest # chunks lim (drop n rest)"
        using chunks_step [of lim rest] chunk_limit_pos [OF e(1) S(4)] e(4) False by (cases "length rest \<le> lim") (simp_all add: n_def)
      then have "(pre @ [take n rest]) @ chunks lim (drop n rest) = chunks lim buf" using pre by simp
      moreover have "seal_records (ts_aead Su) (ad_c_ap_keys conn) (ad_seq_out conn) S (pre @ [take n rest]) = Inr (wire @ r)"
        by (rule seal_records_snoc [OF wire(1) r [unfolded conn1]])
      moreover have "lg t' = lg t0 @ wire @ r" using T wr Inr wire(2) unfolding logs_writes_def by simp
      ultimately have "written C Su st conn lg R S lim buf t0 (drop n rest, \<lparr>st_engine = e2, st_transport = t'\<rparr>)"
        using e2 [unfolded conn1 e(4)] unfolding written_def prod.case
        by (intro conjI exI [of _ "pre @ [take n rest]"] exI [of _ "wire @ r"]) (simp_all add: algebra_simps)
      then show ?thesis using round [OF wr] Inr e2(6) False p by simp
    qed
  qed
qed

text \<open>C6: Writing puts exactly the data on the wire.  On a stream in the data phase with nothing pending,
  \<^verbatim>\<open>write_all\<close> returns; it succeeds unless the transport fails, and then the bytes the transport was given
  are the data cut into chunks of the limit both sides allow, each sealed as one record under the
  client's key and consecutive sequence numbers, nothing left out, repeated or reordered, and the
  connection goes on after the last of them.  If a write of the transport fails, its error is returned and
  the stream is terminal.\<close>

theorem tls_write_all_delivers:
  assumes S: "suite_of C st Su" "aead_total (ts_aead Su)" "config_ok C" "23 \<le> S" and T: "logs_writes T lg"
    and s: "engine_ok R S (st_engine s)" "te_state (st_engine s) = st conn" "\<not> te_closed (st_engine s)" "\<not> is_send_pending (st_engine s)"
  shows "\<exists>s' r. let pieces = chunks (send_chunk_limit (st_engine s)) buf in
    tls_write_all C T buf s = Some (s', r) \<and>
    (case r of
       Inl err \<Rightarrow> (\<exists>io bs t t'. err = Co_Io io \<and> tr_write_all T bs t = (t', Inl io)) \<and> te_closed (st_engine s')
     | Inr u \<Rightarrow> concat pieces = buf \<and>
         (\<exists>wire. seal_records (ts_aead Su) (ad_c_ap_keys conn) (ad_seq_out conn) S pieces = Inr wire \<and>
            lg (st_transport s') = lg (st_transport s) @ wire) \<and>
         te_state (st_engine s') = st (conn\<lparr>ad_seq_out := ad_seq_out conn + of_nat (length pieces)\<rparr>) \<and>
         \<not> is_send_pending (st_engine s'))"
proof -
  let ?lim = "send_chunk_limit (st_engine s)"
  let ?I = "written C Su st conn lg R S ?lim buf (st_transport s)"
  let ?Q = "\<lambda>p' r. case r of Inl err \<Rightarrow> (\<exists>io bs t t'. err = Co_Io io \<and> tr_write_all T bs t = (t', Inl io)) \<and> te_closed (st_engine (snd p')) | Inr u \<Rightarrow> ?I p' \<and> fst p' = []"
  have "?I (buf, s)" using s unfolding written_def by (auto intro: exI [of _ "[]"])
  from run_loop_total [where I = ?I and m = "\<lambda>p. length (fst p)" and Q = ?Q and R = less_than, OF _ this
      write_round_delivers [OF S T]]
  obtain rest s' r where run: "run_loop (write_round C T) (buf, s) = Some ((rest, s'), r)" and q: "?Q (rest, s') r"
    by auto
  have "concat (chunks ?lim buf) = buf" using chunks_split [OF chunk_limit_pos [OF s(1) S(4)], of buf] by simp
  then show ?thesis using run q unfolding tls_write_all_def Let_def
    by (intro exI [of _ s'] exI [of _ r]) (cases r, auto simp: written_def)
qed

end
