(* ===== verification/Tls_Session.thy ===== *)
theory Tls_Session
  imports Stream_Handshake Stream_Delivery
begin

text \<open>
  A TLS connection from \<^verbatim>\<open>connect\<close> on: what a returned stream guarantees about the server, and that every
  call on it returns.  The theorems are applied to a handshake of the toy backends over a transport that
  reads from a tape and keeps what is written.
\<close>

section \<open>The server is authenticated\<close>

text \<open>A flight the client may accept, after the transcript \<^verbatim>\<open>t\<close> and under the server's handshake secret: its
  chain is accepted by the strategy, the leaf has the key the strategy prepared and the name of the host,
  CertificateVerify signs the transcript through Certificate, and Finished is the MAC of the transcript
  through CertificateVerify.\<close>

definition tls_flight_authenticated ::
  "('k, 'v) ClientConfig \<Rightarrow> ('v, 'e, 'r) ClientParams \<Rightarrow> bytes \<Rightarrow> bytes \<Rightarrow> bytes \<Rightarrow> bool" where
  "tls_flight_authenticated C params t s_ts flight \<longleftrightarrow>
     (\<exists>ee creq cert scheme sig mac chain prepared leaf th_cert th_cv.
        flight = flight_messages ee creq cert (cv_message scheme sig) mac \<and>
        extract_chain (cc_max_chain C) cert = Inr chain \<and> chain \<noteq> [] \<and> pa_verify params chain = Inr prepared \<and>
        cp_parse (cc_parser C) (chain ! 0) = Inr leaf \<and> matches_cert (cc_verifiers C) prepared leaf \<and>
        verify_hostname leaf (pa_hostname params) = Inr () \<and>
        hk_digest (cc_hkdf C) (t @ before_cv ee creq cert) = Inr th_cert \<and>
        scheme_verifies (cc_verifiers C) prepared scheme (cv_content th_cert) sig \<and>
        hk_digest (cc_hkdf C) (t @ before_cv ee creq cert @ hs_frame HS_CERTIFICATE_VERIFY (cv_message scheme sig)) = Inr th_cv \<and>
        finished_mac (cc_hkdf C) s_ts th_cv = Inr mac)"

lemma check_flight_sound:
  assumes "check_flight C params reasm = Inr (creq, prepared, leaf)"
  shows "\<exists>flight view chain. flight_bytes reasm = Some flight \<and> parse_server_flight flight = Inr view \<and>
    extract_chain (cc_max_chain C) (sf_cert_body view) = Inr chain \<and> chain \<noteq> [] \<and> pa_verify params chain = Inr prepared \<and>
    cp_parse (cc_parser C) (chain ! 0) = Inr leaf \<and> matches_cert (cc_verifiers C) prepared leaf \<and>
    verify_hostname leaf (pa_hostname params) = Inr ()"
  using assms by (auto simp: check_flight_def result_simps split: if_splits option.splits)

lemma finalized_flight_authenticated:
  assumes check: "check_flight C params reasm = Inr (creq, prepared, leaf)"
    and fin: "finalize_server_flight (cc_hkdf C) (cc_verifiers C) conn reasm prepared leaf = Inr sfd"
  shows "\<exists>flight. fd_transcript sfd = wf_transcript conn @ flight \<and>
    tls_flight_authenticated C params (wf_transcript conn) (wf_s_hs_ts conn) flight"
proof -
  obtain flight view chain where c: "flight_bytes reasm = Some flight" "parse_server_flight flight = Inr view"
    "extract_chain (cc_max_chain C) (sf_cert_body view) = Inr chain" "chain \<noteq> []" "pa_verify params chain = Inr prepared"
    "cp_parse (cc_parser C) (chain ! 0) = Inr leaf" "matches_cert (cc_verifiers C) prepared leaf"
    "verify_hostname leaf (pa_hostname params) = Inr ()"
    using check_flight_sound [OF check] by blast
  obtain pk where v: "verify_server_flight (cc_hkdf C) (cc_verifiers C) (wf_transcript conn) flight (wf_s_hs_ts conn) prepared leaf =
      Inr (fd_transcript sfd, pk)"
    using finalize_server_flight_sound [OF fin] c(1) by auto
  obtain ee creq' cert scheme sig mac th_cert th_cv where f:
    "parse_server_flight flight = Inr (flight_view ee creq' cert (cv_message scheme sig) mac)"
    "flight = flight_messages ee creq' cert (cv_message scheme sig) mac"
    "hk_digest (cc_hkdf C) (wf_transcript conn @ before_cv ee creq' cert) = Inr th_cert"
    "scheme_verifies (cc_verifiers C) prepared scheme (cv_content th_cert) sig"
    "hk_digest (cc_hkdf C) (wf_transcript conn @ before_cv ee creq' cert @ hs_frame HS_CERTIFICATE_VERIFY (cv_message scheme sig)) = Inr th_cv"
    "finished_mac (cc_hkdf C) (wf_s_hs_ts conn) th_cv = Inr mac"
    and t: "fd_transcript sfd = wf_transcript conn @ flight"
    using verified_flight_view [OF v] by blast
  have "sf_cert_body view = cert" using c(2) f(1) by (auto simp: flight_view_def)
  then have "tls_flight_authenticated C params (wf_transcript conn) (wf_s_hs_ts conn) flight"
    unfolding tls_flight_authenticated_def using c f(2-) by blast
  then show ?thesis using t by blast
qed

text \<open>What the application secrets of a verified flight go back to.\<close>

lemma flight_verified_sound:
  assumes "flight_verified C params w ad"
  shows "\<exists>sh_record sh ikm hs th_sh c_ts s_ts flight th_fin ms.
    parse_server_hello (cc_features C) sh_record = Inr sh \<and>
    sh_session_id_echo sh = (case wh_session_id w of Some i \<Rightarrow> i | None \<Rightarrow> []) \<and>
    advertised_ok (cc_features C) (wh_advertised w) (sh_cipher_suite sh) \<and>
    derive_ikm (cc_features C) (cc_kx C) (wh_secrets w) sh = Inr ikm \<and> handshake_secret (cc_hkdf C) ikm = Inr hs \<and>
    hk_digest (cc_hkdf C) (wh_transcript w @ drop 5 sh_record) = Inr th_sh \<and>
    handshake_traffic_secrets (cc_hkdf C) hs th_sh = Inr (c_ts, s_ts) \<and>
    tls_flight_authenticated C params (wh_transcript w @ drop 5 sh_record) s_ts flight \<and>
    hk_digest (cc_hkdf C) (wh_transcript w @ drop 5 sh_record @ flight) = Inr th_fin \<and>
    master_secret (cc_hkdf C) hs = Inr ms \<and>
    application_traffic_secrets (cc_hkdf C) ms th_fin = Inr (ad_c_ap_ts ad, ad_s_ap_ts ad)"
proof -
  obtain conn reasm creq prepared leaf sfd th ms where h: "hello_read C w conn"
    and check: "check_flight C params reasm = Inr (creq, prepared, leaf)"
    and fin: "finalize_server_flight (cc_hkdf C) (cc_verifiers C) conn reasm prepared leaf = Inr sfd"
    and k: "snapshot (cc_hkdf C) (fd_transcript sfd) = Inr th" "master_secret (cc_hkdf C) (fd_hs sfd) = Inr ms"
      "application_traffic_secrets (cc_hkdf C) ms th = Inr (ad_c_ap_ts ad, ad_s_ap_ts ad)"
    using assms unfolding flight_verified_def by blast
  obtain sh_record neg n where neg: "read_server_hello (cc_features C) (cc_hkdf C) (cc_kx C) (cc_aead C) w sh_record = Inr neg"
    and conn: "conn = (negotiated neg)\<lparr>wf_seq_in := n\<rparr>"
    using h unfolding hello_read_def by blast
  obtain flight where f: "fd_transcript sfd = wf_transcript conn @ flight"
    "tls_flight_authenticated C params (wf_transcript conn) (wf_s_hs_ts conn) flight"
    using finalized_flight_authenticated [OF check fin] by blast
  have hs: "fd_hs sfd = wf_hs (negotiated neg)" using finalize_server_flight_sound [OF fin] conn by simp
  obtain sh ikm th_sh where s: "parse_server_hello (cc_features C) sh_record = Inr sh"
    "sh_session_id_echo sh = (case wh_session_id w of Some i \<Rightarrow> i | None \<Rightarrow> [])"
    "advertised_ok (cc_features C) (wh_advertised w) (sh_cipher_suite sh)"
    "derive_ikm (cc_features C) (cc_kx C) (wh_secrets w) sh = Inr ikm"
    "handshake_secret (cc_hkdf C) ikm = Inr (wf_hs (negotiated neg))"
    "hk_digest (cc_hkdf C) (wf_transcript (negotiated neg)) = Inr th_sh"
    "handshake_traffic_secrets (cc_hkdf C) (wf_hs (negotiated neg)) th_sh = Inr (wf_c_hs_ts (negotiated neg), wf_s_hs_ts (negotiated neg))"
    and t: "wf_transcript (negotiated neg) = wh_transcript w @ drop 5 sh_record"
    using read_server_hello_sound [OF neg] by blast
  have "hk_digest (cc_hkdf C) (wh_transcript w @ drop 5 sh_record @ flight) = Inr th"
    using k(1) f(1) t conn by (auto simp: snapshot_def result_simps)
  moreover have "tls_flight_authenticated C params (wh_transcript w @ drop 5 sh_record) (wf_s_hs_ts (negotiated neg)) flight"
    using f(2) t conn by simp
  ultimately show ?thesis using s k(2,3) hs t by (metis)
qed

text \<open>The pieces of a connection that was opened.\<close>

lemma connect_parts:
  assumes "tls_connect C K T P recv_buf send_buf reasm t rng = Some (rng', t', Inr s)"
  shows "\<exists>rng1 ch w t1. validate_construction (cc_features C) (sp_params P) (length recv_buf) (length send_buf) = Inr () \<and>
    open_hello (cc_features C) K P (length recv_buf) rng = (rng1, Inr (ch, w) :: 'x ConnectError + _) \<and>
    tr_write_all (T :: ('t, 'x) Transport) ch t = (t1, Inr ()) \<and>
    drive_handshake C T (sp_params P) rng1
      \<lparr>st_engine = TlsEngine_new recv_buf send_buf reasm (ES_WaitServerHello w) (default_our_recv_limit (length recv_buf)) rsl_DEFAULT,
       st_transport = t1\<rparr> = Some ((rng', s), Inr ()) \<and> t' = st_transport s"
  using assms by (auto simp: tls_connect_def result_simps split: sum.splits prod.splits)

lemma open_hello_state:
  assumes "open_hello F K P RECV rng = (rng', Inr (ch, w) :: 'x ConnectError + _)"
  shows "update_record TranscriptHash_new ch = Inr (wh_transcript w)"
    "wh_advertised w = effective_suite_list (se_suites K) (sp_suite_policy P)"
  using assms by (auto simp: open_hello_def conn_write_client_hello_def Init_new_def result_simps split: prod.splits sum.splits if_splits)

text \<open>C2: A TLS connection that opens is authenticated.  When \<^verbatim>\<open>connect\<close> returns a stream, the ClientHello has been
  written to the transport and starts the transcript; a ServerHello answered it with the session id
  echoed and a suite the configuration and the parameters admit; the handshake secrets come from the key
  exchange and that transcript; the server's flight has a chain the strategy accepts, a leaf with the
  verified key and the name of the host, a CertificateVerify that signs the transcript and a Finished
  that is its MAC; the application secrets of the stream are those of the transcript through the server's
  Finished; and the stream is in the data phase with the client's last flight handed over.\<close>

theorem tls_connect_authenticates:
  fixes T :: "('t, 'x) Transport"
  assumes "config_ok C" "client_auth_policy (pa_client_auth (sp_params P))"
    and run: "tls_connect C K T P recv_buf send_buf reasm t rng = Some (rng', t', Inr s)"
  shows "\<exists>rng1 ch w t1 sh_record sh ikm hs th_sh c_ts s_ts flight th_fin ms ad.
    open_hello (cc_features C) K P (length recv_buf) rng = (rng1, Inr (ch, w) :: 'x ConnectError + _) \<and>
    tr_write_all T ch t = (t1, Inr ()) \<and> update_record TranscriptHash_new ch = Inr (wh_transcript w) \<and>
    parse_server_hello (cc_features C) sh_record = Inr sh \<and>
    sh_session_id_echo sh = (case wh_session_id w of Some i \<Rightarrow> i | None \<Rightarrow> []) \<and>
    advertised_ok (cc_features C) (effective_suite_list (se_suites K) (sp_suite_policy P)) (sh_cipher_suite sh) \<and>
    derive_ikm (cc_features C) (cc_kx C) (wh_secrets w) sh = Inr ikm \<and> handshake_secret (cc_hkdf C) ikm = Inr hs \<and>
    hk_digest (cc_hkdf C) (wh_transcript w @ drop 5 sh_record) = Inr th_sh \<and>
    handshake_traffic_secrets (cc_hkdf C) hs th_sh = Inr (c_ts, s_ts) \<and>
    tls_flight_authenticated C (sp_params P) (wh_transcript w @ drop 5 sh_record) s_ts flight \<and>
    hk_digest (cc_hkdf C) (wh_transcript w @ drop 5 sh_record @ flight) = Inr th_fin \<and>
    master_secret (cc_hkdf C) hs = Inr ms \<and>
    application_traffic_secrets (cc_hkdf C) ms th_fin = Inr (ad_c_ap_ts ad, ad_s_ap_ts ad) \<and>
    (te_state (st_engine s) = ES_AppAes ad \<or> te_state (st_engine s) = ES_AppChaCha ad) \<and> \<not> is_send_pending (st_engine s)"
proof -
  obtain rng1 ch w t1 where v: "validate_construction (cc_features C) (sp_params P) (length recv_buf) (length send_buf) = Inr ()"
    and open': "open_hello (cc_features C) K P (length recv_buf) rng = (rng1, Inr (ch, w) :: 'x ConnectError + _)"
    and wr: "tr_write_all T ch t = (t1, Inr ())"
    and drive: "drive_handshake C T (sp_params P) rng1
      \<lparr>st_engine = TlsEngine_new recv_buf send_buf reasm (ES_WaitServerHello w) (default_our_recv_limit (length recv_buf)) rsl_DEFAULT,
       st_transport = t1\<rparr> = Some ((rng', s), Inr ())"
    using connect_parts [OF run] by blast
  have "opened C (sp_params P) w (length recv_buf) (length send_buf) (st_engine (snd (rng', s)))"
    by (rule drive_handshake_sound [OF assms(1,2) _ _ _ drive])
      (use validated(1) [OF v] new_engine_ok in \<open>simp_all add: TlsEngine_new_def\<close>)
  then obtain ad where ad: "te_state (st_engine s) = ES_AppAes ad \<or> te_state (st_engine s) = ES_AppChaCha ad"
    "flight_verified C (sp_params P) w ad" "\<not> is_send_pending (st_engine s)"
    by (cases "te_state (st_engine s)") (auto simp: opened_def)
  note o = open_hello_state [OF open']
  show ?thesis using flight_verified_sound [OF ad(2)] open' wr ad(1,3) unfolding o(2) using o(1) by metis
qed

section \<open>Every call returns\<close>

text \<open>The calls of a stream, in any order; only whether they fail is kept of their results.\<close>

datatype stream_call = Call_read nat | Call_try_read nat | Call_write_all bytes | Call_close

fun run_call ::
  "('k, 'v) ClientConfig \<Rightarrow> ('t, 'e) Transport \<Rightarrow> stream_call \<Rightarrow> ('k, 't) TlsStream \<Rightarrow>
   (('k, 't) TlsStream \<times> ('e ConnectError + unit)) option" where
  "run_call C T (Call_read n) s = map_option (\<lambda>(s, r). (s, rbind r (\<lambda>_. Inr ()))) (tls_read C T n s)"
| "run_call C T (Call_try_read n) s = map_option (\<lambda>(s, r). (s, rbind r (\<lambda>_. Inr ()))) (tls_try_read C T n s)"
| "run_call C T (Call_write_all buf) s = tls_write_all C T buf s"
| "run_call C T Call_close s = tls_close C T s"

fun run_calls ::
  "('k, 'v) ClientConfig \<Rightarrow> ('t, 'e) Transport \<Rightarrow> stream_call list \<Rightarrow> ('k, 't) TlsStream \<Rightarrow>
   (('k, 't) TlsStream \<times> ('e ConnectError + unit) list) option" where
  "run_calls C T [] s = Some (s, [])"
| "run_calls C T (c # cs) s =
     Option.bind (run_call C T c s) (\<lambda>(s, r). map_option (\<lambda>(s, rs). (s, r # rs)) (run_calls C T cs s))"

lemma external_unit: "external r \<Longrightarrow> external (rbind r (\<lambda>_. Inr ()))"
  by (cases r) (auto simp: external_def)

lemma call_returns:
  assumes "finite_input T m" "config_ok C" "5 \<le> R" "23 \<le> S" "app_ok R S (st_engine s)"
  shows "\<exists>s' r. run_call C T c s = Some (s', r) \<and> app_ok R S (st_engine s') \<and> external r"
proof (cases c)
  case (Call_read n)
  then show ?thesis using read_returns [OF assms(1-3,5), of n] external_unit by fastforce
next
  case (Call_try_read n)
  then show ?thesis using try_read_returns [OF assms(1-3,5), of n] external_unit by fastforce
next
  case (Call_write_all buf)
  then show ?thesis using write_all_returns [OF assms(2,4,5)] by simp
next
  case Call_close
  then show ?thesis using close_returns [OF assms(2,5)] by simp
qed

lemma calls_return:
  assumes "finite_input T m" "config_ok C" "5 \<le> R" "23 \<le> S"
  shows "app_ok R S (st_engine s) \<Longrightarrow>
    \<exists>s' rs. run_calls C T cs s = Some (s', rs) \<and> app_ok R S (st_engine s') \<and> length rs = length cs \<and> list_all external rs"
proof (induction cs arbitrary: s)
  case (Cons c cs)
  obtain s1 r where c: "run_call C T c s = Some (s1, r)" "app_ok R S (st_engine s1)" "external r"
    using call_returns [OF assms Cons.prems] by blast
  from Cons.IH [OF c(2)] show ?case using c by auto
qed simp

lemma open_hello_external:
  assumes "open_hello F K P RECV rng = (rng', r :: 'x ConnectError + _)"
  shows "external r"
proof -
  have hello: "map_client_hello_error err \<noteq> (Co_Internal x :: 'x ConnectError)" for err x
    by (cases err rule: map_client_hello_error.cases) simp_all
  have shares: "hello_shares F p q \<noteq> Inl (HE_Internal x)" for p q x
    by (auto simp: hello_shares_def result_simps Let_def split: if_splits option.splits)
  obtain rng2 d where d: "draw_keys F K (sp_middlebox_compat P) rng = (rng2, d)" by (metis surj_pair)
  then have draws: "d \<noteq> Inl (HE_Internal x)" for x
    by (auto simp: draw_keys_def draw_if_def draw_def tbind_def tlift_def ok_or_def
        split: if_splits prod.splits sum.splits option.splits)
  show ?thesis using assms d draws shares
    by (cases d) (auto simp: open_hello_def external_def result_simps hello hello [symmetric])
qed

text \<open>C5: Over a transport with finite input a connection never hangs and never breaks.  \<^verbatim>\<open>connect\<close> returns, with
  a stream or an error; on a stream any sequence of reads, non-blocking reads, writes and closes, with
  any arguments and whatever the peer sent, returns call by call; and none of them reports
  \<^verbatim>\<open>HandshakeError::Internal\<close>, the error for a broken invariant of the engine or its driver.\<close>

theorem tls_session_total:
  fixes T :: "('t, 'x) Transport"
  assumes "config_ok C" "client_auth_policy (pa_client_auth (sp_params P))" "finite_input T m"
  shows "\<exists>rng' t' r. tls_connect C K T P recv_buf send_buf reasm t rng = Some (rng', t', r) \<and> external r \<and>
    (\<forall>s cs. r = Inr s \<longrightarrow>
       (\<exists>s' rs. run_calls C T cs s = Some (s', rs) \<and> length rs = length cs \<and> list_all external rs))"
proof -
  let ?R = "length recv_buf" and ?S = "length send_buf"
  let ?s = "\<lambda>w t. \<lparr>st_engine = TlsEngine_new recv_buf send_buf reasm (ES_WaitServerHello w) (default_our_recv_limit ?R) rsl_DEFAULT,
      st_transport = t :: 't\<rparr>"
  obtain rng1 h where h: "open_hello (cc_features C) K P ?R rng = (rng1, h :: 'x ConnectError + _)" by (metis surj_pair)
  show ?thesis
  proof (cases "validate_construction (cc_features C) (sp_params P) ?R ?S")
    case (Inl err)
    then show ?thesis by (simp add: tls_connect_def)
  next
    case v: (Inr u)
    show ?thesis
    proof (cases h)
      case (Inl err)
      then show ?thesis using v h open_hello_external [OF h] by (simp add: tls_connect_def external_def)
    next
      case (Inr p)
      obtain ch w where p: "p = (ch, w)" by (metis surj_pair)
      obtain t1 wr where wr: "tr_write_all T ch t = (t1, wr)" by (metis surj_pair)
      show ?thesis
      proof (cases wr)
        case (Inl err)
        then show ?thesis using v h Inr p wr by (simp add: tls_connect_def)
      next
        case ok: (Inr u2)
        obtain q r where d: "drive_handshake C T (sp_params P) rng1 (?s w t1) = Some (q, r)" "external r"
          "r = Inr () \<longrightarrow> opened C (sp_params P) w ?R ?S (st_engine (snd q))"
          using drive_handshake_returns [OF assms(3,1,2), of ?R ?S "?s w t1" w rng1] validated(1) [OF v] new_engine_ok [of recv_buf send_buf reasm w]
          by (auto simp: TlsEngine_new_def)
        have "tls_connect C K T P recv_buf send_buf reasm t rng =
            Some (fst q, st_transport (snd q), rbind r (\<lambda>_. Inr (snd q)))"
          using v h Inr p wr ok d(1) by (cases q) (simp add: tls_connect_def)
        moreover have "external (rbind r (\<lambda>_. Inr (snd q)))" using d(2) by (cases r) (auto simp: external_def)
        moreover have "app_ok ?R ?S (st_engine s)" if "rbind r (\<lambda>_. Inr (snd q)) = Inr s" for s
          using that d(3) by (cases r) (auto simp: opened_def)
        ultimately show ?thesis
          using calls_return [OF assms(3,1), of ?R ?S] validated(1,2) [OF v] by fastforce
      qed
    qed
  qed
qed

section \<open>A connection of the instances\<close>

text \<open>A transport with its input on a tape; what is written is kept.\<close>

definition tape :: "(bytes \<times> bytes, unit) Transport" where
  "tape = \<lparr>tr_read = (\<lambda>room (inp, out). ((drop room inp, out), Inr (take room inp))),
     tr_read_nb = default_read_nb (\<lambda>room (inp, out). ((drop room inp, out), Inr (take room inp))),
     tr_write_all = (\<lambda>bs (inp, out). ((inp, out @ bs), Inr ()))\<rparr>"

definition demo_env :: "(bytes, unit) StreamEnv" where
  "demo_env = \<lparr>se_suites = Config_AesAndChaCha, se_fill = (\<lambda>n r. (r, Some (replicate n 1))),
     se_x25519 = (\<lambda>r. (r, Some ([1], replicate 32 2))), se_mlkem = (\<lambda>r. (r, None)),
     se_p256 = (\<lambda>r. (r, Some ([], replicate 65 4)))\<rparr>"

definition demo_stream_params :: "(bytes, unit, unit) StreamParams" where
  "demo_stream_params = \<lparr>sp_params = demo_params, sp_suite_policy = Runtime_Default, sp_middlebox_compat = False,
     sp_alpn = Some [replicate 211 0x68]\<rparr>"

lemma tape_finite: "finite_input tape (length \<circ> fst)"
  by (auto simp: finite_input_def tape_def default_read_nb_def)

lemma tape_logs: "logs_writes tape snd"
  by (auto simp: logs_writes_def tape_def)

lemma demo_stream_opened: "open_hello demo_features demo_env demo_stream_params 300 () = ((), Inr (demo_hello, demo_conn) :: unit ConnectError + _)"
  by code_simp

lemma demo_validated: "validate_construction demo_features demo_params 300 80 = Inr ()"
  by code_simp

lemma demo_engine_ok: "engine_ok 300 80 demo_engine"
  using TlsEngine_new_ok [OF demo_limits, of "replicate 300 0" "replicate 80 0"] by (simp add: demo_engine_def)

lemma demo_asks: "step_handshake demo_config demo_params () demo_engine = ((), demo_engine, Inr Ev_Recv)"
  by (simp add: step_handshake.simps demo_engine_def TlsEngine_new_def is_send_pending_def plaintext_parked_def
      RecvState_new_def frame_one_record_def TLS_HEADER_def Let_def)

lemma demo_driven:
  "\<exists>s. drive_handshake demo_config tape demo_params () \<lparr>st_engine = demo_engine, st_transport = (demo_input, demo_hello)\<rparr> =
     Some (((), s), Inr ())"
proof -
  let ?body = "\<lambda>p. Some (handshake_round demo_config tape demo_params p)"
  have len: "length demo_input = 245" "demo_input \<noteq> []" using demo_records by (auto simp: demo_input_def)
  have room: "recv_buffer_len demo_engine = 300"
    by (simp add: recv_buffer_len_def demo_engine_def TlsEngine_new_def RecvState_new_def plaintext_parked_def)
  have feed: "feed_received demo_input \<lparr>st_engine = demo_engine, st_transport = t\<rparr> =
      (\<lparr>st_engine = demo_received, st_transport = t\<rparr>, Inr () :: unit ConnectError + unit)" for t :: "bytes \<times> bytes"
    using feed_step [of demo_input "\<lparr>st_engine = demo_engine, st_transport = t\<rparr>" 300 80] len room demo_engine_ok
    by (auto simp: received_def demo_received_def)
  have r1: "?body ((), \<lparr>st_engine = demo_engine, st_transport = (demo_input, demo_hello)\<rparr>) =
      Some (((), \<lparr>st_engine = demo_received, st_transport = ([], demo_hello)\<rparr>), Inr None)"
    using len room by (auto simp: handshake_round_def demo_asks drive_one_recv_step_def tape_def and_continue_def feed)
  obtain e1 where e1: "step_handshake demo_config demo_params () demo_received = ((), e1, Inr (Ev_Send 58))"
    "te_send_pending_len e1 = 58" "te_send_acked e1 = 0" "te_pending_handshake_done e1"
    using demo_flight_queued by blast
  have "engine_ok 300 80 demo_received" using received_ok [OF demo_engine_ok, of demo_input] by (simp add: received_def demo_received_def)
  then have ok: "engine_ok 300 80 e1" using step_handshake_ok [OF demo_config_ok demo_policy, of 300 80 demo_received "()"] e1(1) by simp
  have pend: "is_send_pending e1" using e1 by (simp add: is_send_pending_def)
  obtain t where r2: "?body ((), \<lparr>st_engine = demo_received, st_transport = ([], demo_hello)\<rparr>) =
      Some (((), \<lparr>st_engine = sent e1, st_transport = t\<rparr>), Inr None)"
    using send_step [of 300 80 "\<lparr>st_engine = e1, st_transport = ([], demo_hello)\<rparr>" tape] ok pend e1(1)
    by (auto simp: handshake_round_def and_continue_def tape_def)
  have "step_handshake demo_config demo_params () (sent e1) = ((), (sent e1)\<lparr>te_pending_handshake_done := False\<rparr>, Inr Ev_HandshakeDone)"
    using e1(4) by (simp add: step_handshake.simps [of demo_config demo_params "()" "sent e1"]) (simp add: sent_def)
  then have r3: "?body ((), \<lparr>st_engine = sent e1, st_transport = t\<rparr>) =
      Some (((), \<lparr>st_engine = (sent e1)\<lparr>te_pending_handshake_done := False\<rparr>, st_transport = t\<rparr>), Inr (Some ()))"
    by (simp add: handshake_round_def)
  show ?thesis unfolding drive_handshake_def
    using run_loop_round(3) [of ?body, OF r1] run_loop_round(3) [of ?body, OF r2] run_loop_round(2) [of ?body, OF r3] by auto
qed

lemma demo_tls_connected:
  "\<exists>t' s. tls_connect demo_config demo_env tape demo_stream_params (replicate 300 0) (replicate 80 0) ServerFlightReassembler_new
     (demo_input, []) () = Some ((), t', Inr s)"
proof -
  obtain s where "drive_handshake demo_config tape demo_params () \<lparr>st_engine = demo_engine, st_transport = (demo_input, demo_hello)\<rparr> =
      Some (((), s), Inr ())" using demo_driven by blast
  moreover have "rsl_DEFAULT = RecordSizeLimit 16385" by code_simp
  moreover have "sp_params demo_stream_params = demo_params" by (simp add: demo_stream_params_def)
  ultimately show ?thesis using demo_stream_opened demo_validated
    by (simp add: tls_connect_def demo_config_fields demo_engine_def) (simp add: tape_def)
qed

lemma demo_stream_policy: "client_auth_policy (pa_client_auth (sp_params demo_stream_params))"
  using demo_policy by (simp add: demo_stream_params_def)

theorem tls_connect_authenticates_witness:
  "\<exists>t' s ad t s_ts flight. tls_connect demo_config demo_env tape demo_stream_params (replicate 300 0) (replicate 80 0)
      ServerFlightReassembler_new (demo_input, []) () = Some ((), t', Inr s) \<and>
     tls_flight_authenticated demo_config demo_params t s_ts flight \<and>
     (te_state (st_engine s) = ES_AppAes ad \<or> te_state (st_engine s) = ES_AppChaCha ad)"
proof -
  obtain t' s where run: "tls_connect demo_config demo_env tape demo_stream_params (replicate 300 0) (replicate 80 0)
      ServerFlightReassembler_new (demo_input, []) () = Some ((), t', Inr s)"
    using demo_tls_connected by blast
  have "sp_params demo_stream_params = demo_params" by (simp add: demo_stream_params_def)
  with tls_connect_authenticates [OF demo_config_ok demo_stream_policy run] run show ?thesis by (elim exE conjE) auto
qed

theorem tls_session_total_witness:
  "\<exists>t' s s' rs. tls_connect demo_config demo_env tape demo_stream_params (replicate 300 0) (replicate 80 0)
      ServerFlightReassembler_new (demo_input, []) () = Some ((), t', Inr s) \<and>
     run_calls demo_config tape [Call_write_all [1, 2, 3], Call_read 10, Call_close] s = Some (s', rs) \<and>
     length rs = 3 \<and> list_all external rs"
proof -
  obtain t' s where run: "tls_connect demo_config demo_env tape demo_stream_params (replicate 300 0) (replicate 80 0)
      ServerFlightReassembler_new (demo_input, []) () = Some ((), t', Inr s)"
    using demo_tls_connected by blast
  with tls_session_total [OF demo_config_ok demo_stream_policy tape_finite, of demo_env "replicate 300 0" "replicate 80 0"
      ServerFlightReassembler_new "(demo_input, [])" "()"]
  have "\<exists>s' rs. run_calls demo_config tape [Call_write_all [1, 2, 3], Call_read 10, Call_close] s = Some (s', rs) \<and>
      length rs = length [Call_write_all [1, 2, 3], Call_read 10, Call_close] \<and> list_all external rs"
    by (elim exE conjE) (simp only: run option.inject prod.inject sum.inject)
  then show ?thesis using run by auto
qed

theorem tls_write_all_delivers_witness:
  "\<exists>s' wire. tls_write_all demo_config tape (replicate 60 1) \<lparr>st_engine = demo_peer, st_transport = ([], [])\<rparr> = Some (s', Inr ()) \<and>
     seal_records demo_cipher (ad_c_ap_keys demo_app) 0 80 [replicate 58 1, replicate 2 1] = Inr wire \<and> snd (st_transport s') = wire"
proof -
  have "suite_of demo_config ES_AppAes flight_suite" "aead_total (ts_aead flight_suite)"
    by (simp_all add: suite_of_def demo_config_fields flight_suite_def demo_cipher_total)
  moreover have "engine_ok 100 80 demo_peer"
    using TlsEngine_new_ok [of "RecordSizeLimit 64" "RecordSizeLimit 64" "replicate 100 0" "replicate 80 0"]
    by (simp add: demo_peer_def rsl_ok_def)
  moreover have "te_state demo_peer = ES_AppAes demo_app" "\<not> te_closed demo_peer" "\<not> is_send_pending demo_peer"
    by (simp_all add: demo_peer_def TlsEngine_new_def is_send_pending_def)
  moreover have "logs_writes tape snd" "(23 :: nat) \<le> 80" by (simp_all add: tape_logs)
  ultimately have "\<exists>s' r. let pieces = chunks (send_chunk_limit demo_peer) (replicate 60 1) in
      tls_write_all demo_config tape (replicate 60 1) \<lparr>st_engine = demo_peer, st_transport = ([], [])\<rparr> = Some (s', r) \<and>
      (case r of Inl err \<Rightarrow> (\<exists>io bs t t'. err = Co_Io io \<and> tr_write_all tape bs t = (t', Inl io)) \<and> te_closed (st_engine s')
       | Inr u \<Rightarrow> concat pieces = replicate 60 1 \<and>
           (\<exists>wire. seal_records (ts_aead flight_suite) (ad_c_ap_keys demo_app) (ad_seq_out demo_app) 80 pieces = Inr wire \<and>
              snd (st_transport s') = snd (st_transport \<lparr>st_engine = demo_peer, st_transport = ([] :: bytes, [])\<rparr>) @ wire) \<and>
           te_state (st_engine s') = ES_AppAes (demo_app\<lparr>ad_seq_out := ad_seq_out demo_app + of_nat (length pieces)\<rparr>) \<and>
           \<not> is_send_pending (st_engine s'))"
    using tls_write_all_delivers [OF _ _ demo_config_ok, of ES_AppAes flight_suite 80 tape snd 100
        "\<lparr>st_engine = demo_peer, st_transport = ([], [])\<rparr>" demo_app "replicate 60 1"] by simp
  moreover have "chunks (send_chunk_limit demo_peer) (replicate 60 1) = [replicate 58 1, replicate 2 (1 :: 8 word)]" "ad_seq_out demo_app = 0"
    by code_simp+
  moreover have "tr_write_all tape bs t \<noteq> (t', Inl io)" for bs t t' io by (auto simp: tape_def split: prod.splits)
  ultimately show ?thesis
    by (auto simp: Let_def flight_suite_def simp del: seal_records.simps split: sum.splits) (metis old.unit.exhaust sum.exhaust)
qed

end
