(* ===== verification/Spec2Isabelle.thy ===== *)
theory Spec2Isabelle
  imports Replay Framing Dtls_Reassembly Ack Dtls_Keys Flight_Reassembler Pinned_Roots Pin_Or_Self_Signed Engine_Runs Engine_Delivery Dtls_Authenticated Tlv_Cert Tls_Session
begin

text \<open>
  Verification of krabitls, a TLS 1.3 and DTLS 1.3 client without an operating system or an allocator.
  All paths are below \<^verbatim>\<open>src/krabitls/src/\<close>.

  \<^bold>\<open>The program.\<close>  A TLS connection is a \<^verbatim>\<open>TlsStream\<close> (\<^verbatim>\<open>client/stream.rs\<close>): it sends a ClientHello and then
  moves bytes between a \<^verbatim>\<open>Transport\<close> and the engine (\<^verbatim>\<open>client/engine.rs\<close>), which does no input or output of
  its own.  The engine frames records, drives the typestate connection (\<^verbatim>\<open>connection.rs\<close>) through the
  ServerHello (\<^verbatim>\<open>lib.rs\<close>), the encrypted server flight (\<^verbatim>\<open>reassembler.rs\<close>, \<^verbatim>\<open>server_flight.rs\<close>) and the
  client's second flight (\<^verbatim>\<open>client_flight.rs\<close>), and then seals and opens application data (\<^verbatim>\<open>aead.rs\<close>) under
  the keys of the schedule (\<^verbatim>\<open>hkdf.rs\<close>).  The server's chain is judged by a verification strategy
  (\<^verbatim>\<open>traits/verify_strategy.rs\<close> with the decisions of \<^verbatim>\<open>backends/\<close>) and its name by \<^verbatim>\<open>identity.rs\<close>.  A DTLS
  connection is a \<^verbatim>\<open>DtlsClient\<close> (\<^verbatim>\<open>dtls/client.rs\<close>) over a datagram transport; it shares the schedule, the
  flight checks and the strategies, and has its own record layer, framing, reassembly, ACKs and replay window.

  \<^bold>\<open>How the code is represented.\<close>  Bytes are lists of 8-bit words and machine integers are words where they
  can wrap; lengths and offsets are naturals.  A \<^verbatim>\<open>Result\<close> is a sum with the error on the left, the
  question-mark operator is \<^verbatim>\<open>rbind\<close>, and \<^verbatim>\<open>tbind\<close> where a transport or a generator is threaded.  A struct is a
  record with the fields of the source behind a short prefix, an enum a datatype.  A method that changes its
  object returns the object it leaves, also with an error.  A buffer the code fills is returned as the bytes
  written; its capacity is an argument.  Cargo features are the record \<^verbatim>\<open>Features\<close>, so that each theorem
  covers every build the source compiles (\<^verbatim>\<open>features_ok\<close>), unless the theory says otherwise.  Constants keep
  their names; \<^verbatim>\<open>EMPTY_TRANSCRIPT_HASH\<close> is the published SHA-256 of the empty string.

  \<^bold>\<open>Parameters and hypotheses.\<close>  Ciphers, hashes, signatures, key-exchange groups, the random generator, the
  transports and the certificate parser behind the strategies belong to other packages or to the caller; they
  are arguments (\<^verbatim>\<open>AeadCipher\<close>, \<^verbatim>\<open>HkdfBackend\<close>, \<^verbatim>\<open>KxBackend\<close>, \<^verbatim>\<open>ClientConfig\<close>, \<^verbatim>\<open>StreamEnv\<close>, \<^verbatim>\<open>Transport\<close> and
  others).  What a theorem needs of them is a named hypothesis: \<^verbatim>\<open>aead_correct\<close>, \<^verbatim>\<open>aead_total\<close> and
  \<^verbatim>\<open>aead_in_place\<close> for a cipher, \<^verbatim>\<open>backend_total\<close> for the hash, \<^verbatim>\<open>config_ok\<close> for a configuration,
  \<^verbatim>\<open>client_auth_policy\<close> for an authentication policy, \<^verbatim>\<open>finite_input\<close> for a transport whose input ends,
  \<^verbatim>\<open>logs_writes\<close> and \<^verbatim>\<open>logs_datagrams\<close> for one that keeps what is written.
  The witnesses instantiate them with toy backends (names beginning with \<^verbatim>\<open>demo\<close>, and \<^verbatim>\<open>tape\<close>) and run complete handshakes.

  \<^bold>\<open>Theories shared by both protocols.\<close>
  \<^item> \<^verbatim>\<open>Krabi_Prelude\<close>: byte ranges, results, results with state, big-endian codecs, \<^verbatim>\<open>run_loop\<close> for the loops of
    the source and the rules to reason about them.  \<^verbatim>\<open>Tls_Consts\<close>: protocol constants of \<^verbatim>\<open>lib.rs\<close>.
  \<^item> \<^verbatim>\<open>Hkdf\<close> (\<^verbatim>\<open>hkdf.rs\<close>), \<^verbatim>\<open>Dtls_Keys\<close> (key derivation of \<^verbatim>\<open>aead.rs\<close>, \<^verbatim>\<open>dtls/record.rs\<close> and
    \<^verbatim>\<open>dtls/keys.rs\<close>): labels are injective and the two protocols' labels differ; a handshake epoch is derived
    unless the shared secret is all zero.
  \<^item> \<^verbatim>\<open>Aead\<close> (\<^verbatim>\<open>aead.rs\<close>): sealing and opening are inverse, lengths and nonces.
  \<^item> \<^verbatim>\<open>Server_Flight\<close> (\<^verbatim>\<open>server_flight.rs\<close>): the parsers accept exactly the encodings; a verified flight binds
    the transcript.  \<^verbatim>\<open>Identity\<close> (\<^verbatim>\<open>identity.rs\<close>): the host name rule is the one-label wildcard rule.
  \<^item> \<^verbatim>\<open>Verify_Strategy\<close> (\<^verbatim>\<open>traits/verify_strategy.rs\<close>, \<^verbatim>\<open>traits/cert.rs\<close>, \<^verbatim>\<open>traits/verify_provider.rs\<close>),
    \<^verbatim>\<open>Pinned_Roots\<close>, \<^verbatim>\<open>Pin_Or_Self_Signed\<close>, \<^verbatim>\<open>Ecdsa_Verify\<close>, \<^verbatim>\<open>Tlv\<close>, \<^verbatim>\<open>Tlv_Cert\<close> (the files of these names in
    \<^verbatim>\<open>backends/\<close>): a strategy accepts exactly the chains of its specification, a pinned chain is a certified
    path, DER signatures and certificates are accepted exactly in their canonical layout.

  \<^bold>\<open>TLS.\<close>
  \<^item> \<^verbatim>\<open>Client_Hello\<close>, \<^verbatim>\<open>Server_Hello\<close> (\<^verbatim>\<open>lib.rs\<close>): writer and parser against the encodings of RFC 8446.
  \<^item> \<^verbatim>\<open>Flight_Reassembler\<close> (\<^verbatim>\<open>reassembler.rs\<close>): independent of how the flight is cut into records.
  \<^item> \<^verbatim>\<open>Client_Flight\<close>, \<^verbatim>\<open>Client_Auth\<close> (\<^verbatim>\<open>client_flight.rs\<close>, \<^verbatim>\<open>backends/client_auth.rs\<close>): the second flight and the
    locale \<^verbatim>\<open>client_auth_policy\<close>, interpreted for the two policies without a key and, through the sublocale of
    \<^verbatim>\<open>client_auth_signer\<close>, for each bundled signer.
  \<^item> \<^verbatim>\<open>Buffer_Dims\<close> (\<^verbatim>\<open>client/scratch.rs\<close>), \<^verbatim>\<open>Client_Error\<close> (\<^verbatim>\<open>client/error.rs\<close>).
  \<^item> \<^verbatim>\<open>Connection\<close> (\<^verbatim>\<open>connection.rs\<close>): a finished handshake is authenticated, the second flight fits its
    buffers, nonces never repeat under one key.
  \<^item> \<^verbatim>\<open>Post_Handshake\<close>, \<^verbatim>\<open>Engine\<close> (\<^verbatim>\<open>client/engine.rs\<close>); \<^verbatim>\<open>Engine_Safety\<close>: the invariant \<^verbatim>\<open>engine_ok\<close> of the
    cursors and buffers; \<^verbatim>\<open>Engine_Demo\<close>: a handshake of toy backends; \<^verbatim>\<open>Engine_Runs\<close>: an inductive relation for
    the methods called in any order, with its invariants; \<^verbatim>\<open>Engine_Delivery\<close>: written data is read.
  \<^item> \<^verbatim>\<open>Tls_Stream\<close> (\<^verbatim>\<open>client/stream.rs\<close>, \<^verbatim>\<open>client/transport.rs\<close>); \<^verbatim>\<open>Stream_Safety\<close>: every loop of the data phase
    returns and no call fails with an internal error; \<^verbatim>\<open>Stream_Handshake\<close>: the same of the handshake loop, and
    what it has verified when it ends; \<^verbatim>\<open>Stream_Delivery\<close>: \<^verbatim>\<open>write_all\<close> puts the data on the wire, record by
    record; \<^verbatim>\<open>Tls_Session\<close>: \<^verbatim>\<open>connect\<close> returns only streams to an authenticated server, and any sequence of
    calls returns.

  \<^bold>\<open>DTLS.\<close>
  \<^item> \<^verbatim>\<open>Replay\<close>, \<^verbatim>\<open>Framing\<close>, \<^verbatim>\<open>Ack\<close>, \<^verbatim>\<open>Dtls_Reassembly\<close>, \<^verbatim>\<open>Dtls_Record\<close>, \<^verbatim>\<open>Dtls_Handshake\<close> (the files of \<^verbatim>\<open>dtls/\<close>
    with these names): the window against the set of marked numbers (locale \<^verbatim>\<open>anti_replay\<close>), round trips,
    reassembly of fragments in any order (locale \<^verbatim>\<open>interval_set\<close>), sequence number reconstruction, both
    record-number masks (locale \<^verbatim>\<open>seq_mask\<close>), hellos against their encodings.
  \<^item> \<^verbatim>\<open>Dtls_Client\<close> (data phase of \<^verbatim>\<open>dtls/client.rs\<close>): every payload is authentic and delivered once, nonces are
    distinct, the receive loop returns.  \<^verbatim>\<open>Dtls_Connect\<close> (its handshake): bounded retransmission.
    \<^verbatim>\<open>Dtls_Authenticated\<close>: a returned client is connected to an authenticated server.

  \<^bold>\<open>Loops and bounds.\<close>  Parsers and walks recurse on the bytes or positions that are left.  \<^verbatim>\<open>step\<close> and
  \<^verbatim>\<open>step_handshake\<close> of the engine, loops in the source, terminate because each round consumes a received record.
  The loops over a transport may run for as long as the peer sends, and are \<^verbatim>\<open>run_loop\<close>, whose value is \<^verbatim>\<open>None\<close> when
  they do not end; that they end is proved under \<^verbatim>\<open>finite_input\<close>, with the input left and the bytes buffered as
  measure.  The receive loop of DTLS is treated likewise.  Its handshake needs no hypothesis: the attempts are
  limited by the code.  No theorem rests on a fuel chosen here.

  \<^bold>\<open>Not modelled.\<close>  The arithmetic of the ciphers, curves and lattices and the adapters to it
  (\<^verbatim>\<open>backends/rustcrypto.rs\<close>, \<^verbatim>\<open>jedisct.rs\<close>, \<^verbatim>\<open>rsa_verify.rs\<close>, \<^verbatim>\<open>mlkem.rs\<close>, \<^verbatim>\<open>ecdhe*.rs\<close>), which only call other
  packages; the parser \<^verbatim>\<open>backends/der_cert.rs\<close>, generated by the macros of one; the decoding of calendar times;
  the host names that are IP literals (feature \<^verbatim>\<open>ip-host\<close>); builders, accessors and message texts; the clearing
  of secrets in memory, since the model has no memory; the facade \<^verbatim>\<open>dtls/stream.rs\<close>, each method of which is
  one call of the modelled driver; command line clients, footprint harness and test fixtures.  Timing is not
  modelled, so a comparison in constant time is an equality.
\<close>

end
